(* ===== verification/Prelude.thy ===== *)
theory Prelude
  imports Main "HOL-Library.Word" "HOL-Library.Code_Target_Nat"
begin

text \<open>
  The vocabulary the components share: machine words and the byte order of the wire, byte
  buffers that a receive overwrites, C strings and the character classes of the C locale,
  decimal output as \<^verbatim>\<open>printf\<close> does it, and the pieces of \<^verbatim>\<open>sscanf\<close> the programs use.

  The programs are built for a little-endian host (the binaries kept beside the sources are
  x86-64 ELF files), so \<^verbatim>\<open>htons\<close>, \<^verbatim>\<open>ntohs\<close>, \<^verbatim>\<open>htonl\<close> and
  \<^verbatim>\<open>ntohl\<close> swap bytes and an integer in memory has its low byte first.  A value of C's
  undefined behaviour (an access outside an array, the use of an indeterminate value) is
  \<open>None\<close> or an error value in every model that can meet it.
\<close>

unbundle bit_operations_syntax

named_theorems wire \<open>byte order and the layout of integers in memory\<close>
named_theorems cstr \<open>C strings, character classes and decimal output\<close>
named_theorems buffer \<open>byte buffers and what a receive leaves in them\<close>

section \<open>The first free slot\<close>

text \<open>The first slot that is free.\<close>

fun first_slot :: "('s \<Rightarrow> bool) \<Rightarrow> 's list \<Rightarrow> nat option" where
  "first_slot free [] = None"
| "first_slot free (x # xs) = (if free x then Some 0 else map_option Suc (first_slot free xs))"

lemma first_slot_Some: "first_slot free xs = Some i \<Longrightarrow> i < length xs \<and> free (xs ! i) \<and> (\<forall>j < i. \<not> free (xs ! j))"
proof (induction xs arbitrary: i)
  case (Cons x xs)
  then show ?case by (cases i) (auto split: if_splits simp: less_Suc_eq_0_disj)
qed simp

lemma first_slot_None: "first_slot free xs = None \<longleftrightarrow> filter free xs = []"
  by (induction xs) auto

lemma first_slot_replicate: "0 < n \<Longrightarrow> free x \<Longrightarrow> first_slot free (replicate n x) = Some 0"
  by (cases n) auto

section \<open>Machine words and byte order\<close>

type_synonym byte = "8 word"
type_synonym u16 = "16 word"
type_synonym u32 = "32 word"

definition le16 :: "u16 \<Rightarrow> byte list" where
  "le16 w = [ucast w, ucast (drop_bit 8 w)]"

definition le32 :: "u32 \<Rightarrow> byte list" where
  "le32 w = [ucast w, ucast (drop_bit 8 w), ucast (drop_bit 16 w), ucast (drop_bit 24 w)]"

definition of_le16 :: "byte \<Rightarrow> byte \<Rightarrow> u16" where
  "of_le16 a b = ucast a OR push_bit 8 (ucast b)"

definition of_le32 :: "byte \<Rightarrow> byte \<Rightarrow> byte \<Rightarrow> byte \<Rightarrow> u32" where
  "of_le32 a b c d =
     ucast a OR push_bit 8 (ucast b) OR push_bit 16 (ucast c) OR push_bit 24 (ucast d)"

definition htons :: "u16 \<Rightarrow> u16" where
  "htons w = of_le16 (ucast (drop_bit 8 w)) (ucast w)"

definition ntohs :: "u16 \<Rightarrow> u16" where
  "ntohs w = htons w"

definition htonl :: "u32 \<Rightarrow> u32" where
  "htonl w = of_le32 (ucast (drop_bit 24 w)) (ucast (drop_bit 16 w))
                     (ucast (drop_bit 8 w)) (ucast w)"

definition ntohl :: "u32 \<Rightarrow> u32" where
  "ntohl w = htonl w"

lemma length_le16 [simp, wire]: "length (le16 w) = 2"
  by (simp add: le16_def)

lemma length_le32 [simp, wire]: "length (le32 w) = 4"
  by (simp add: le32_def)

lemma of_le16_le16 [simp, wire]: "of_le16 (ucast w) (ucast (drop_bit 8 w)) = w"
  unfolding of_le16_def by (rule bit_word_eqI) (auto simp: bit_simps)

lemma of_le32_le32 [simp, wire]:
  "of_le32 (ucast w) (ucast (drop_bit 8 w)) (ucast (drop_bit 16 w)) (ucast (drop_bit 24 w)) = w"
proof (rule bit_word_eqI)
  fix n assume "n < LENGTH(32)"
  then consider "n < 8" | "8 \<le> n" "n < 16" | "16 \<le> n" "n < 24" | "24 \<le> n" "n < 32"
    by force
  then show "bit (of_le32 (ucast w) (ucast (drop_bit 8 w)) (ucast (drop_bit 16 w))
      (ucast (drop_bit 24 w))) n = bit w n"
    by cases (auto simp: of_le32_def bit_simps)
qed

lemma low_of_le16 [simp, wire]: "ucast (of_le16 a b) = a"
  unfolding of_le16_def by (rule bit_word_eqI) (auto simp: bit_simps)

lemma high_of_le16 [simp, wire]: "ucast (drop_bit 8 (of_le16 a b)) = b"
  unfolding of_le16_def by (rule bit_word_eqI) (auto simp: bit_simps dest: bit_imp_le_length)

lemma bytes_of_le32 [simp, wire]:
  "ucast (of_le32 a b c d) = a"
  "ucast (drop_bit 8 (of_le32 a b c d)) = b"
  "ucast (drop_bit 16 (of_le32 a b c d)) = c"
  "ucast (drop_bit 24 (of_le32 a b c d)) = d"
  unfolding of_le32_def
  by (rule bit_word_eqI; auto simp: bit_simps dest: bit_imp_le_length)+

lemma le16_of_le16 [simp, wire]: "le16 (of_le16 a b) = [a, b]"
  by (simp add: le16_def)

lemma le32_of_le32 [simp, wire]: "le32 (of_le32 a b c d) = [a, b, c, d]"
  by (simp add: le32_def)

lemma htons_htons [simp, wire]: "htons (htons w) = w"
  by (simp add: htons_def)

lemma ntohs_htons [simp, wire]: "ntohs (htons w) = w"
  by (simp add: ntohs_def)

lemma htons_ntohs [simp, wire]: "htons (ntohs w) = w"
  by (simp add: ntohs_def)

lemma htonl_htonl [simp, wire]: "htonl (htonl w) = w"
  by (simp add: htonl_def)

lemma ntohl_htonl [simp, wire]: "ntohl (htonl w) = w"
  by (simp add: ntohl_def)

lemma htonl_ntohl [simp, wire]: "htonl (ntohl w) = w"
  by (simp add: ntohl_def)

text \<open>In memory, a value in network order has its high byte first.\<close>

lemma le16_htons [wire]: "le16 (htons w) = [ucast (drop_bit 8 w), ucast w]"
  by (simp add: htons_def)

lemma le32_htonl [wire]:
  "le32 (htonl w) =
     [ucast (drop_bit 24 w), ucast (drop_bit 16 w), ucast (drop_bit 8 w), ucast w]"
  by (simp add: htonl_def)

lemma ntohs_inj [wire]: "ntohs a = ntohs b \<longleftrightarrow> a = b"
  by (auto dest: arg_cong [where f = htons])

lemma ntohl_inj [wire]: "ntohl a = ntohl b \<longleftrightarrow> a = b"
  by (auto dest: arg_cong [where f = htonl])

lemma ntohl_0 [simp, wire]: "ntohl 0 = 0"
  by (simp add: ntohl_def htonl_def of_le32_def)

lemma ntohl_eq_0 [simp, wire]: "ntohl w = 0 \<longleftrightarrow> w = 0"
  using ntohl_inj [of w 0] by simp

lemma ntohs_0 [simp, wire]: "ntohs 0 = 0"
  by (simp add: ntohs_def htons_def of_le16_def)

text \<open>Widening and narrowing, and the bounds of a width.\<close>

lemma unat_u8_bound: "unat (w :: byte) < 256"
  using unsigned_less [of w] by simp

lemma unat_u16_less: "unat (w :: u16) < 65536"
  using unsigned_less [of w] by simp

lemma unat_widen [simp, wire]: "unat (ucast (w :: u16) :: u32) = unat w"
  using unat_u16_less [of w] by (simp add: unsigned_ucast_eq take_bit_nat_eq_self)

lemma unat_narrow [wire]: "unat (ucast (w :: u32) :: u16) = unat w mod 65536"
  by (simp add: unsigned_ucast_eq take_bit_eq_mod)

text \<open>Reading an integer out of a byte buffer at an offset.\<close>

definition rd16 :: "byte list \<Rightarrow> nat \<Rightarrow> u16" where
  "rd16 bs i = of_le16 (bs ! i) (bs ! (i + 1))"

definition rd32 :: "byte list \<Rightarrow> nat \<Rightarrow> u32" where
  "rd32 bs i = of_le32 (bs ! i) (bs ! (i + 1)) (bs ! (i + 2)) (bs ! (i + 3))"

lemma nth_append_at [buffer]: "(xs @ ys) ! (length xs + k) = ys ! k"
  by simp

lemma rd16_at [wire]: "length xs = i \<Longrightarrow> rd16 (xs @ le16 w @ ys) i = w"
  by (simp add: rd16_def le16_def nth_append)

lemma rd32_at [wire]: "length xs = i \<Longrightarrow> rd32 (xs @ le32 w @ ys) i = w"
  by (simp add: rd32_def le32_def nth_append)

section \<open>Buffers\<close>

text \<open>
  A receive writes the datagram over the start of a buffer: what does not fit is cut off, and
  what lies behind the datagram keeps its old contents.
\<close>

definition recv_into :: "'a list \<Rightarrow> 'a list \<Rightarrow> 'a list" where
  "recv_into buf d = take (length buf) d @ drop (length d) buf"

lemma length_recv_into [simp, buffer]: "length (recv_into buf d) = length buf"
  by (simp add: recv_into_def)

lemma recv_into_nth [buffer]:
  "i < length buf \<Longrightarrow> recv_into buf d ! i = (if i < length d then d ! i else buf ! i)"
  by (auto simp: recv_into_def nth_append min_def)

lemma recv_into_fits [buffer]:
  "length d \<le> length buf \<Longrightarrow> recv_into buf d = d @ drop (length d) buf"
  by (simp add: recv_into_def)

text \<open>\<^verbatim>\<open>memcpy\<close> of \<open>d\<close> to offset \<open>off\<close>: outside the array it is undefined.\<close>

definition memcpy_at :: "'a list \<Rightarrow> int \<Rightarrow> 'a list \<Rightarrow> 'a list option" where
  "memcpy_at buf off d =
     (if 0 \<le> off \<and> off + int (length d) \<le> int (length buf)
      then Some (take (nat off) buf @ d @ drop (nat off + length d) buf)
      else None)"

lemma memcpy_at_length [buffer]: "memcpy_at buf off d = Some b \<Longrightarrow> length b = length buf"
  by (auto simp: memcpy_at_def split: if_splits)

lemma memcpy_at_fits [buffer]:
  "off + length d \<le> length buf \<Longrightarrow>
   memcpy_at buf (int off) d = Some (take off buf @ d @ drop (off + length d) buf)"
  by (simp add: memcpy_at_def)

section \<open>C strings\<close>

abbreviation NUL :: char where "NUL \<equiv> CHR 0x00"
abbreviation TAB :: char where "TAB \<equiv> CHR 0x09"
abbreviation NL :: char where "NL \<equiv> CHR 0x0A"
abbreviation CR :: char where "CR \<equiv> CHR 0x0D"
abbreviation SP :: char where "SP \<equiv> CHR 0x20"
abbreviation DQ :: char where "DQ \<equiv> CHR 0x22"

text \<open>The string a buffer holds: its characters before the first NUL.\<close>

definition cstr_of :: "char list \<Rightarrow> string" where
  "cstr_of buf = takeWhile (\<lambda>c. c \<noteq> NUL) buf"

lemma cstr_of_append_NUL [simp, cstr]:
  "NUL \<notin> set s \<Longrightarrow> cstr_of (s @ NUL # rest) = s"
  by (simp add: cstr_of_def takeWhile_append)

lemma NUL_notin_cstr_of [simp, cstr]: "NUL \<notin> set (cstr_of buf)"
  by (auto simp: cstr_of_def dest: set_takeWhileD)

lemma cstr_of_id [simp, cstr]: "NUL \<notin> set s \<Longrightarrow> cstr_of s = s"
  by (auto simp: cstr_of_def takeWhile_eq_all_conv)

lemma length_cstr_of [cstr]: "length (cstr_of buf) \<le> length buf"
  by (simp add: cstr_of_def length_takeWhile_le)

text \<open>Character classes of the C locale.\<close>

definition code :: "char \<Rightarrow> nat" where
  "code c = of_char c"

definition isspace :: "char \<Rightarrow> bool" where
  "isspace c \<longleftrightarrow> c = SP \<or> (9 \<le> code c \<and> code c \<le> 13)"

definition isdigit :: "char \<Rightarrow> bool" where
  "isdigit c \<longleftrightarrow> 48 \<le> code c \<and> code c \<le> 57"

definition isupper :: "char \<Rightarrow> bool" where
  "isupper c \<longleftrightarrow> 65 \<le> code c \<and> code c \<le> 90"

definition islower :: "char \<Rightarrow> bool" where
  "islower c \<longleftrightarrow> 97 \<le> code c \<and> code c \<le> 122"

definition isalnum :: "char \<Rightarrow> bool" where
  "isalnum c \<longleftrightarrow> isdigit c \<or> isupper c \<or> islower c"

definition tolower :: "char \<Rightarrow> char" where
  "tolower c = (if isupper c then char_of (code c + 32) else c)"

lemmas ctype_defs = isspace_def isdigit_def isupper_def islower_def isalnum_def

lemma code_char_of [simp, cstr]: "code (char_of n) = n mod 256"
  by (simp add: code_def)

lemma char_of_code [simp, cstr]: "char_of (code c) = c"
  by (simp add: code_def)

lemma code_inj [cstr]: "code a = code b \<longleftrightarrow> a = b"
  by (simp add: code_def)

lemma isspace_not_NUL [simp, cstr]: "\<not> isspace NUL"
  by (simp add: isspace_def code_def)

lemma isalnum_not_NUL [simp, cstr]: "\<not> isalnum NUL"
  by (simp add: ctype_defs code_def)

lemma tolower_idem [simp, cstr]: "tolower (tolower c) = tolower c"
  by (auto simp: tolower_def isupper_def)

text \<open>\<^verbatim>\<open>strcasecmp(a, b) == 0\<close>.\<close>

definition strcaseeq :: "string \<Rightarrow> string \<Rightarrow> bool" where
  "strcaseeq a b \<longleftrightarrow> map tolower a = map tolower b"

text \<open>\<^verbatim>\<open>strncmp(s, p, strlen(p)) == 0\<close>.\<close>

definition starts_with :: "string \<Rightarrow> string \<Rightarrow> bool" where
  "starts_with p s \<longleftrightarrow> take (length p) s = p"

text \<open>The bytes of a string, and back.\<close>

definition char_bytes :: "string \<Rightarrow> byte list" where
  "char_bytes s = map (\<lambda>c. of_nat (code c)) s"

lemma char_of_bytes [simp, cstr]: "map (\<lambda>b. char_of (unat b)) (char_bytes s) = s"
proof -
  have "char_of (unat (of_nat (code c) :: byte)) = c" for c
    by (simp add: code_def unat_of_nat)
  then show ?thesis by (simp add: char_bytes_def comp_def)
qed

lemma length_char_bytes [simp, cstr]: "length (char_bytes s) = length s"
  by (simp add: char_bytes_def)

section \<open>Counting in a list\<close>

lemma length_filter_update:
  "i < length xs \<Longrightarrow> length (filter P (xs[i := x])) + (if P (xs ! i) then 1 else 0) = length (filter P xs) + (if P x then 1 else 0)"
proof (induction xs arbitrary: i)
  case (Cons y xs)
  then show ?case using Cons.IH [of "i - 1"] by (cases i) auto
qed simp

section \<open>Decimal output\<close>

definition digit_char :: "nat \<Rightarrow> char" where
  "digit_char d = char_of (48 + d)"

fun dec :: "nat \<Rightarrow> string" where
  "dec n = (if n < 10 then [digit_char n] else dec (n div 10) @ [digit_char (n mod 10)])"

declare dec.simps [simp del]

text \<open>\<^verbatim>\<open>%d\<close> of a signed value.\<close>

definition dec_int :: "int \<Rightarrow> string" where
  "dec_int i = (if i < 0 then CHR ''-'' # dec (nat (- i)) else dec (nat i))"

text \<open>\<^verbatim>\<open>%-15s\<close> and its kin: pad with blanks on the right.\<close>

definition pad_right :: "nat \<Rightarrow> string \<Rightarrow> string" where
  "pad_right n s = s @ replicate (n - length s) SP"

definition dec_digit :: "char \<Rightarrow> nat" where
  "dec_digit c = code c - 48"

definition dec_val :: "string \<Rightarrow> nat" where
  "dec_val s = foldl (\<lambda>v c. 10 * v + dec_digit c) 0 s"

lemma isdigit_digit_char [simp, cstr]: "d < 10 \<Longrightarrow> isdigit (digit_char d)"
  by (simp add: digit_char_def isdigit_def)

lemma dec_digit_digit_char [simp, cstr]: "d < 10 \<Longrightarrow> dec_digit (digit_char d) = d"
  by (simp add: digit_char_def dec_digit_def)

lemma dec_nonempty [simp, cstr]: "dec n \<noteq> []"
  by (subst dec.simps) simp

lemma dec_digits [cstr]: "c \<in> set (dec n) \<Longrightarrow> isdigit c"
proof (induction n rule: dec.induct)
  case (1 n)
  then show ?case
    by (cases "n < 10") (auto simp: dec.simps [of n])
qed

lemma length_dec_le: "n < 10 ^ Suc k \<Longrightarrow> length (dec n) \<le> Suc k"
proof (induction k arbitrary: n)
  case (Suc k)
  then have "n div 10 < 10 ^ Suc k" by (simp add: less_mult_imp_div_less mult.commute)
  with Suc.IH [of "n div 10"] show ?case by (subst dec.simps) simp
qed (subst dec.simps, simp)

lemma dec_val_snoc [simp, cstr]: "dec_val (s @ [c]) = 10 * dec_val s + dec_digit c"
  by (simp add: dec_val_def)

lemma dec_val_dec [simp, cstr]: "dec_val (dec n) = n"
proof (induction n rule: dec.induct)
  case (1 n)
  then show ?case
    by (cases "n < 10") (simp_all add: dec.simps [of n] dec_val_def [of "[_]"])
qed

section \<open>Printing and reading back\<close>

text \<open>The contract of a printer and the parser that undoes it, for the values that are valid.  What users of a
  printed form rely on follows: no two valid values print alike, and the parser accepts exactly what it must.\<close>

locale text_codec =
  fixes valid :: "'a \<Rightarrow> bool" and enc :: "'a \<Rightarrow> 'b" and dec_of :: "'b \<Rightarrow> 'a option"
  assumes dec_enc: "valid x \<Longrightarrow> dec_of (enc x) = Some x"
begin

lemma enc_inj: "valid x \<Longrightarrow> valid y \<Longrightarrow> enc x = enc y \<longleftrightarrow> x = y"
  by (metis dec_enc option.inject)

lemma enc_reads: "valid x \<Longrightarrow> dec_of (enc y) = None \<Longrightarrow> enc x \<noteq> enc y"
  by (metis dec_enc option.distinct(1))

end

interpretation decimal: text_codec "\<lambda>n. True" dec "\<lambda>s. Some (dec_val s)"
  by unfold_locales simp

lemma dec_inj [cstr]: "dec a = dec b \<longleftrightarrow> a = b"
  by (rule decimal.enc_inj) simp_all

end
