(* ===== verification/Router_Table.thy ===== *)
theory Router_Table
  imports Prelude
begin

text \<open>
  The router's data and the helpers of \<^verbatim>\<open>src/hw3/starter/common.h\<close>: the neighbour and
  route records, the control block, \<^verbatim>\<open>get_data_port\<close>, \<^verbatim>\<open>rt_find_or_add\<close>,
  \<^verbatim>\<open>rt_lookup\<close>, \<^verbatim>\<open>ipstr\<close> and \<^verbatim>\<open>log_table\<close>.  An array with its
  count (\<^verbatim>\<open>routes\<close> and \<^verbatim>\<open>num_routes\<close>) is a list; a pointer into it is an
  index.  Addresses and masks keep the network byte order the code keeps them in.  The
  interface the distance-vector code uses of the table is the locale \<open>keyed_table\<close>,
  interpreted at the end on the code's functions.
\<close>

section \<open>Constants and records\<close>

definition MAX_NEIGH :: nat where "MAX_NEIGH = 16"
definition MAX_DEST :: nat where "MAX_DEST = 128"
definition MAX_LINE :: nat where "MAX_LINE = 256"
definition INF_COST :: nat where "INF_COST = 65535"
definition UPDATE_INTERVAL_SEC :: int where "UPDATE_INTERVAL_SEC = 5"
definition DEAD_INTERVAL_SEC :: int where "DEAD_INTERVAL_SEC = 15"
definition DATA_PORT_OFFSET :: nat where "DATA_PORT_OFFSET = 1000"
definition MSG_DV :: byte where "MSG_DV = 2"
definition MSG_DATA :: byte where "MSG_DATA = 3"

lemmas router_consts =
  MAX_NEIGH_def MAX_DEST_def MAX_LINE_def INF_COST_def UPDATE_INTERVAL_SEC_def
  DEAD_INTERVAL_SEC_def DATA_PORT_OFFSET_def MSG_DV_def MSG_DATA_def

record neighbor_t =
  nb_ip :: u32
  nb_ctrl_port :: u16
  nb_cost :: u16
  last_heard :: int
  alive :: bool

record route_entry_t =
  dest_net :: u32
  rt_mask :: u32
  next_hop :: u32
  iface :: string
  rt_cost :: u16
  last_update :: int

record router_t =
  self_id :: u16
  self_ip :: u32
  ctrl_port :: u16
  neighbors :: "neighbor_t list"
  routes :: "route_entry_t list"

text \<open>What the process does to the outside: a line on stdout, or a datagram on the control or
  the data socket to a port of the loopback address.\<close>

datatype chan = Ctrl | Data

datatype action =
    Print string
  | SendTo chan u16 "byte list"

section \<open>Ports and addresses\<close>

definition get_data_port :: "u16 \<Rightarrow> u16" where
  "get_data_port ctrl = of_nat (unat ctrl + DATA_PORT_OFFSET)"

definition ipstr :: "u32 \<Rightarrow> string" where
  "ipstr nbo =
     (case le32 nbo of
        [a, b, c, d] \<Rightarrow>
          dec (unat a) @ ''.'' @ dec (unat b) @ ''.'' @ dec (unat c) @ ''.'' @ dec (unat d)
      | _ \<Rightarrow> ''0.0.0.0'')"

definition route_line :: "route_entry_t \<Rightarrow> string" where
  "route_line e =
     ''  '' @ pad_right 15 (ipstr (dest_net e)) @ '' '' @ pad_right 15 (ipstr (rt_mask e)) @ '' ''
       @ pad_right 15 (ipstr (next_hop e)) @ '' '' @ pad_right 5 (dec (unat (rt_cost e))) @ [NL]"

definition log_table :: "router_t \<Rightarrow> string \<Rightarrow> action list" where
  "log_table r why =
     [Print (''[R'' @ dec (unat (self_id r)) @ ''] ROUTES ('' @ why @ ''):'' @ [NL]),
      Print (''  '' @ pad_right 15 ''network'' @ '' '' @ pad_right 15 ''mask'' @ '' ''
             @ pad_right 15 ''next_hop'' @ '' '' @ pad_right 5 ''cost'' @ [NL])]
     @ map (\<lambda>e. Print (route_line e)) (routes r)"

section \<open>The routing table\<close>

fun rt_index :: "route_entry_t list \<Rightarrow> u32 \<Rightarrow> u32 \<Rightarrow> nat option" where
  "rt_index [] net mk = None"
| "rt_index (e # es) net mk =
     (if dest_net e = net \<and> rt_mask e = mk then Some 0
      else map_option Suc (rt_index es net mk))"

definition blank_route :: "int \<Rightarrow> u32 \<Rightarrow> u32 \<Rightarrow> route_entry_t" where
  "blank_route now net mk =
     \<lparr>dest_net = net, rt_mask = mk, next_hop = 0, iface = '''', rt_cost = of_nat INF_COST,
      last_update = now\<rparr>"

definition rt_find_or_add :: "int \<Rightarrow> router_t \<Rightarrow> u32 \<Rightarrow> u32 \<Rightarrow> router_t \<times> nat option" where
  "rt_find_or_add now r net mk =
     (case rt_index (routes r) net mk of
        Some i \<Rightarrow> (r, Some i)
      | None \<Rightarrow>
          if MAX_DEST \<le> length (routes r) then (r, None)
          else (r\<lparr>routes := routes r @ [blank_route now net mk]\<rparr>, Some (length (routes r))))"

definition route_matches :: "u32 \<Rightarrow> route_entry_t \<Rightarrow> bool" where
  "route_matches dst e \<longleftrightarrow> dst AND rt_mask e = dest_net e AND rt_mask e"

fun rt_lookup_loop ::
  "u32 \<Rightarrow> route_entry_t list \<Rightarrow> nat \<Rightarrow> nat option \<Rightarrow> u32 \<Rightarrow> nat option" where
  "rt_lookup_loop dst [] i best best_mask = best"
| "rt_lookup_loop dst (e # es) i best best_mask =
     (if route_matches dst e \<and> ntohl (rt_mask e) > ntohl best_mask
      then rt_lookup_loop dst es (Suc i) (Some i) (rt_mask e)
      else rt_lookup_loop dst es (Suc i) best best_mask)"

definition rt_lookup :: "router_t \<Rightarrow> u32 \<Rightarrow> nat option" where
  "rt_lookup r dst = rt_lookup_loop dst (routes r) 0 None 0"

text \<open>A write through a route pointer.\<close>

definition set_route :: "router_t \<Rightarrow> nat \<Rightarrow> route_entry_t \<Rightarrow> router_t" where
  "set_route r i e = r\<lparr>routes := (routes r)[i := e]\<rparr>"

section \<open>Lookup is longest-prefix match\<close>

text \<open>
  \<open>best_route dst es i\<close>: entry \<open>i\<close> matches, its mask is not empty, no matching entry has a
  larger mask and it is the first of those with its mask.
\<close>

definition best_route :: "u32 \<Rightarrow> route_entry_t list \<Rightarrow> nat \<Rightarrow> bool" where
  "best_route dst es i \<longleftrightarrow>
     i < length es \<and> route_matches dst (es ! i) \<and> rt_mask (es ! i) \<noteq> 0 \<and>
     (\<forall>j < length es. route_matches dst (es ! j) \<longrightarrow>
        ntohl (rt_mask (es ! j)) \<le> ntohl (rt_mask (es ! i)) \<and>
        (rt_mask (es ! j) = rt_mask (es ! i) \<longrightarrow> i \<le> j))"

lemma best_route_unique: "best_route dst es i \<Longrightarrow> best_route dst es j \<Longrightarrow> i = j"
  unfolding best_route_def using ntohl_inj by (meson order_antisym)

text \<open>The state of the loop after a prefix of the table: the best entry of the prefix.\<close>

definition loop_state :: "u32 \<Rightarrow> route_entry_t list \<Rightarrow> nat option \<Rightarrow> u32 \<Rightarrow> bool" where
  "loop_state dst es best bm \<longleftrightarrow>
     (case best of
        None \<Rightarrow> bm = 0 \<and> (\<forall>e \<in> set es. route_matches dst e \<longrightarrow> rt_mask e = 0)
      | Some i \<Rightarrow> best_route dst es i \<and> bm = rt_mask (es ! i))"

lemma loop_state_skip:
  assumes "loop_state dst es best bm" "\<not> (route_matches dst e \<and> ntohl bm < ntohl (rt_mask e))"
  shows "loop_state dst (es @ [e]) best bm"
proof (cases best)
  case None
  with assms have "route_matches dst e \<Longrightarrow> rt_mask e = 0"
    by (auto simp: loop_state_def word_gt_0)
  with assms None show ?thesis by (auto simp: loop_state_def)
next
  case (Some i)
  with assms show ?thesis
    by (auto simp: loop_state_def best_route_def nth_append less_Suc_eq not_less)
qed

lemma loop_state_take:
  assumes "loop_state dst es best bm" "route_matches dst e" "ntohl bm < ntohl (rt_mask e)"
  shows "loop_state dst (es @ [e]) (Some (length es)) (rt_mask e)"
proof -
  have le: "ntohl (rt_mask (es ! j)) \<le> ntohl bm" if "j < length es" "route_matches dst (es ! j)" for j
    using assms(1) that by (cases best) (auto simp: loop_state_def best_route_def)
  have "ntohl (rt_mask (es ! j)) < ntohl (rt_mask e)"
    if "j < length es" "route_matches dst (es ! j)" for j
    using le [OF that] assms(3) by (rule le_less_trans)
  moreover have "rt_mask e \<noteq> 0"
    using assms(3) by (metis ntohl_0 word_not_simps(1))
  ultimately show ?thesis
    using assms(2)
    by (fastforce simp: loop_state_def best_route_def nth_append less_Suc_eq intro: less_imp_le)
qed

lemma rt_lookup_loop_state:
  assumes "loop_state dst pre best bm"
  shows "\<exists>bm'. loop_state dst (pre @ es) (rt_lookup_loop dst es (length pre) best bm) bm'"
  using assms
proof (induction es arbitrary: pre best bm)
  case Nil
  then show ?case by auto
next
  case (Cons e es)
  show ?case
  proof (cases "route_matches dst e \<and> ntohl bm < ntohl (rt_mask e)")
    case True
    with Cons.prems have "loop_state dst (pre @ [e]) (Some (length pre)) (rt_mask e)"
      by (blast intro: loop_state_take)
    from Cons.IH [OF this] True show ?thesis by simp
  next
    case False
    with Cons.prems have "loop_state dst (pre @ [e]) best bm"
      by (blast intro: loop_state_skip)
    from Cons.IH [OF this] False show ?thesis by auto
  qed
qed

lemma rt_lookup_state: "\<exists>bm. loop_state dst (routes r) (rt_lookup r dst) bm"
  using rt_lookup_loop_state [of dst "[]" None 0 "routes r"]
  by (simp add: rt_lookup_def loop_state_def)

lemma rt_lookup_Some_iff: "rt_lookup r dst = Some i \<longleftrightarrow> best_route dst (routes r) i"
proof
  assume "rt_lookup r dst = Some i"
  with rt_lookup_state [of dst r] show "best_route dst (routes r) i"
    by (auto simp: loop_state_def)
next
  assume best: "best_route dst (routes r) i"
  then have "i < length (routes r)" "route_matches dst (routes r ! i)" "rt_mask (routes r ! i) \<noteq> 0"
    by (auto simp: best_route_def)
  then obtain j where "rt_lookup r dst = Some j"
    using rt_lookup_state [of dst r]
    by (cases "rt_lookup r dst") (auto simp: loop_state_def)
  with rt_lookup_state [of dst r] best show "rt_lookup r dst = Some i"
    by (auto simp: loop_state_def dest: best_route_unique)
qed

lemma rt_lookup_None_iff:
  "rt_lookup r dst = None \<longleftrightarrow>
     (\<forall>e \<in> set (routes r). route_matches dst e \<longrightarrow> rt_mask e = 0)"
proof
  assume "rt_lookup r dst = None"
  with rt_lookup_state [of dst r]
  show "\<forall>e \<in> set (routes r). route_matches dst e \<longrightarrow> rt_mask e = 0"
    by (auto simp: loop_state_def)
next
  assume all: "\<forall>e \<in> set (routes r). route_matches dst e \<longrightarrow> rt_mask e = 0"
  have "\<not> best_route dst (routes r) i" for i
    using all by (auto simp: best_route_def)
  then show "rt_lookup r dst = None"
    by (metis not_Some_eq rt_lookup_Some_iff)
qed

lemma rt_lookup_bound: "rt_lookup r dst = Some i \<Longrightarrow> i < length (routes r)"
  by (simp add: rt_lookup_Some_iff best_route_def)

section \<open>Find-or-add keeps the table well formed\<close>

definition route_key :: "route_entry_t \<Rightarrow> u32 \<times> u32" where
  "route_key e = (dest_net e, rt_mask e)"

definition table_ok :: "router_t \<Rightarrow> bool" where
  "table_ok r \<longleftrightarrow> length (routes r) \<le> MAX_DEST \<and> distinct (map route_key (routes r))"

definition route_map :: "router_t \<Rightarrow> u32 \<times> u32 \<Rightarrow> route_entry_t option" where
  "route_map r = map_of (map (\<lambda>e. (route_key e, e)) (routes r))"

lemma rt_index_Some:
  "rt_index es net mk = Some i \<Longrightarrow> i < length es \<and> route_key (es ! i) = (net, mk)"
  by (induction es arbitrary: i) (auto simp: route_key_def split: if_splits)

lemma rt_index_None:
  "rt_index es net mk = None \<longleftrightarrow> (net, mk) \<notin> route_key ` set es"
  by (induction es) (auto simp: route_key_def)

lemma route_key_blank [simp]: "route_key (blank_route now net mk) = (net, mk)"
  by (simp add: route_key_def blank_route_def)

lemma map_of_keyed_nth:
  "distinct (map f es) \<Longrightarrow> i < length es \<Longrightarrow>
   map_of (map (\<lambda>e. (f e, e)) es) (f (es ! i)) = Some (es ! i)"
  by (rule map_of_is_SomeI) (auto simp: comp_def)

lemma map_of_keyed_None:
  "map_of (map (\<lambda>e. (f e, e)) es) k = None \<longleftrightarrow> k \<notin> f ` set es"
  by (induction es) auto

lemma map_of_keyed_append:
  "f x \<notin> f ` set es \<Longrightarrow>
   map_of (map (\<lambda>e. (f e, e)) (es @ [x])) = (map_of (map (\<lambda>e. (f e, e)) es))(f x \<mapsto> x)"
  by (induction es) (auto simp: fun_eq_iff)

lemma map_of_keyed_update:
  "distinct (map f es) \<Longrightarrow> i < length es \<Longrightarrow> f x = f (es ! i) \<Longrightarrow>
   map_of (map (\<lambda>e. (f e, e)) (es[i := x])) = (map_of (map (\<lambda>e. (f e, e)) es))(f x \<mapsto> x)"
proof (induction es arbitrary: i)
  case Nil
  then show ?case by simp
next
  case (Cons e es)
  show ?case
  proof (cases i)
    case 0
    with Cons.prems show ?thesis by (auto simp: fun_eq_iff)
  next
    case (Suc j)
    with Cons.prems have "f e \<noteq> f (es ! j)" by (auto simp: image_iff)
    with Suc Cons show ?thesis by (auto simp: fun_eq_iff)
  qed
qed

text \<open>
  The interface: a bounded table of entries with distinct keys, in which a find-or-add
  returns the entry of a key, made blank when there was none, or nothing when the table is
  full.  \<open>view\<close> is the map the table stands for.
\<close>

locale keyed_table =
  fixes find_add :: "'t \<Rightarrow> 'k \<Rightarrow> 't \<times> nat option"
    and entries :: "'t \<Rightarrow> 'e list"
    and store :: "'t \<Rightarrow> nat \<Rightarrow> 'e \<Rightarrow> 't"
    and keyof :: "'e \<Rightarrow> 'k"
    and blank :: "'k \<Rightarrow> 'e"
    and cap :: nat
    and ok :: "'t \<Rightarrow> bool"
    and view :: "'t \<Rightarrow> 'k \<Rightarrow> 'e option"
  assumes found: "ok t \<Longrightarrow> find_add t k = (t', Some i) \<Longrightarrow>
      ok t' \<and> i < length (entries t') \<and>
      view t' = (view t)(k \<mapsto> entries t' ! i) \<and> keyof (entries t' ! i) = k"
    and found_entry: "ok t \<Longrightarrow> find_add t k = (t', Some i) \<Longrightarrow>
      entries t' ! i = (case view t k of Some e \<Rightarrow> e | None \<Rightarrow> blank k)"
    and full: "ok t \<Longrightarrow> find_add t k = (t', None) \<Longrightarrow>
      t' = t \<and> view t k = None \<and> length (entries t) = cap"
    and room: "ok t \<Longrightarrow> length (entries t) < cap \<Longrightarrow> snd (find_add t k) \<noteq> None"
    and store_view: "ok t \<Longrightarrow> i < length (entries t) \<Longrightarrow> keyof e = keyof (entries t ! i) \<Longrightarrow>
      ok (store t i e) \<and> view (store t i e) = (view t)(keyof e \<mapsto> e)"
begin

text \<open>Change the entry of a key with \<open>f\<close>: what a client does through the pointer it gets.\<close>

definition upsert :: "('e \<Rightarrow> 'e) \<Rightarrow> 't \<Rightarrow> 'k \<Rightarrow> 't" where
  "upsert f t k =
     (case find_add t k of
        (t', Some i) \<Rightarrow> store t' i (f (entries t' ! i))
      | (t', None) \<Rightarrow> t')"

lemma upsert_view:
  assumes "ok t" "\<And>e. keyof (f e) = keyof e" "find_add t k = (t', Some i)"
  shows "ok (upsert f t k) \<and>
         view (upsert f t k) =
           (view t)(k \<mapsto> f (case view t k of Some e \<Rightarrow> e | None \<Rightarrow> blank k))"
proof -
  have "ok t'" "i < length (entries t')" "keyof (entries t' ! i) = k"
    and "view t' = (view t)(k \<mapsto> entries t' ! i)"
    using found [OF assms(1,3)] by auto
  with store_view [of t' i "f (entries t' ! i)"] found_entry [OF assms(1,3)] assms(2,3)
  show ?thesis by (simp add: upsert_def)
qed

lemma upsert_full: "ok t \<Longrightarrow> find_add t k = (t', None) \<Longrightarrow> upsert f t k = t"
  using full [of t k t'] by (simp add: upsert_def)

lemma upsert_known:
  assumes "ok t" "view t k = Some e" "\<And>e. keyof (f e) = keyof e"
  shows "ok (upsert f t k) \<and> view (upsert f t k) = (view t)(k \<mapsto> f e)"
proof (cases "find_add t k")
  case (Pair t' m)
  with assms full [OF assms(1), of k t'] obtain i where "m = Some i" by (cases m) auto
  with Pair upsert_view [OF assms(1,3), of k t' i] assms(2) show ?thesis by simp
qed

lemma upsert_other:
  assumes "ok t" "k' \<noteq> k" "\<And>e. keyof (f e) = keyof e"
  shows "view (upsert f t k) k' = view t k'"
proof (cases "find_add t k")
  case (Pair t' m)
  with assms upsert_full [OF assms(1), of k t' f] upsert_view [OF assms(1,3), of k t'] show ?thesis
    by (cases m) auto
qed

end

lemma table_ok_append:
  "table_ok r \<Longrightarrow> length (routes r) < MAX_DEST \<Longrightarrow> route_key e \<notin> route_key ` set (routes r) \<Longrightarrow>
   table_ok (r\<lparr>routes := routes r @ [e]\<rparr>)"
  by (auto simp: table_ok_def)

lemma table_ok_update:
  "table_ok r \<Longrightarrow> i < length (routes r) \<Longrightarrow> route_key e = route_key (routes r ! i) \<Longrightarrow>
   table_ok (set_route r i e)"
  by (simp add: table_ok_def set_route_def map_update)
     (metis length_map list_update_id nth_map)

lemma route_map_update:
  "table_ok r \<Longrightarrow> i < length (routes r) \<Longrightarrow> route_key e = route_key (routes r ! i) \<Longrightarrow>
   route_map (set_route r i e) = (route_map r)(route_key e \<mapsto> e)"
  by (simp add: route_map_def set_route_def map_of_keyed_update table_ok_def)

lemma find_or_add_cases:
  assumes "rt_find_or_add now r net mk = (r', m)"
  obtains
    (Found) i where "rt_index (routes r) net mk = Some i" "r' = r" "m = Some i"
  | (Full) "(net, mk) \<notin> route_key ` set (routes r)" "MAX_DEST \<le> length (routes r)" "r' = r" "m = None"
  | (Added) "(net, mk) \<notin> route_key ` set (routes r)" "length (routes r) < MAX_DEST"
      "r' = r\<lparr>routes := routes r @ [blank_route now net mk]\<rparr>" "m = Some (length (routes r))"
  using assms rt_index_None [of "routes r" net mk]
  by (auto simp: rt_find_or_add_def split: option.splits if_splits)

interpretation rt: keyed_table
  "\<lambda>r k. rt_find_or_add now r (fst k) (snd k)" routes set_route route_key
  "\<lambda>k. blank_route now (fst k) (snd k)" MAX_DEST table_ok route_map for now
proof
  fix r k r' i
  assume ok: "table_ok r" and fa: "rt_find_or_add now r (fst k) (snd k) = (r', Some i)"
  from fa show "table_ok r' \<and> i < length (routes r') \<and>
      route_map r' = (route_map r)(k \<mapsto> routes r' ! i) \<and> route_key (routes r' ! i) = k"
  proof (cases rule: find_or_add_cases)
    case (Found j)
    with rt_index_Some [OF Found(1)] ok map_of_keyed_nth [of route_key "routes r" j] show ?thesis
      by (auto simp: route_map_def table_ok_def fun_eq_iff)
  next
    case Added
    then have "route_map r' = (route_map r)(k \<mapsto> blank_route now (fst k) (snd k))"
      using map_of_keyed_append [of route_key "blank_route now (fst k) (snd k)" "routes r"]
      by (simp add: route_map_def)
    with Added ok show ?thesis by (auto intro: table_ok_append)
  qed auto
  from fa show "routes r' ! i =
      (case route_map r k of Some e \<Rightarrow> e | None \<Rightarrow> blank_route now (fst k) (snd k))"
  proof (cases rule: find_or_add_cases)
    case (Found j)
    with rt_index_Some [OF Found(1)] ok map_of_keyed_nth [of route_key "routes r" j] show ?thesis
      by (auto simp: route_map_def table_ok_def)
  next
    case Added
    then have "route_map r k = None"
      by (simp add: route_map_def map_of_keyed_None)
    with Added show ?thesis by simp
  qed auto
next
  fix r k r'
  assume "table_ok r" "rt_find_or_add now r (fst k) (snd k) = (r', None)"
  then show "r' = r \<and> route_map r k = None \<and> length (routes r) = MAX_DEST"
    using map_of_keyed_None [of route_key "routes r" k]
    by (auto elim!: find_or_add_cases simp: route_map_def table_ok_def)
next
  fix r k
  assume "table_ok r" "length (routes r) < MAX_DEST"
  then show "snd (rt_find_or_add now r (fst k) (snd k)) \<noteq> None"
    by (auto simp: rt_find_or_add_def split: option.splits)
next
  fix r i e
  assume "table_ok r" "i < length (routes r)" "route_key e = route_key (routes r ! i)"
  then show "table_ok (set_route r i e) \<and>
      route_map (set_route r i e) = (route_map r)(route_key e \<mapsto> e)"
    by (simp add: table_ok_update route_map_update)
qed

end
