(* ===== verification/Router_DV.thy ===== *)
theory Router_DV
  imports Router_Table
begin

text \<open>
  Distance-vector messages: \<^verbatim>\<open>dv_msg_t\<close> of \<^verbatim>\<open>src/hw3/starter/common.h\<close> and
  \<^verbatim>\<open>send_dv\<close>, \<^verbatim>\<open>broadcast_dv\<close>, \<^verbatim>\<open>dv_update\<close> of
  \<^verbatim>\<open>src/hw3/starter/router.c\<close>, with the layout of the message in memory.  The table after
  \<^verbatim>\<open>dv_update\<close> is refined against a Bellman-Ford step on a map from (network, mask) to cost
  and next hop.
\<close>

section \<open>The message\<close>

record dv_entry =
  net :: u32
  emask :: u32
  ecost :: u16

record dv_msg_t =
  dv_type :: byte
  sender_id :: u16
  num :: u16
  ents :: "dv_entry list"

definition dv_entry_bytes :: "dv_entry \<Rightarrow> byte list" where
  "dv_entry_bytes d = le32 (net d) @ le32 (emask d) @ le16 (ecost d)"

definition dv_bytes :: "dv_msg_t \<Rightarrow> byte list" where
  "dv_bytes m = dv_type m # le16 (sender_id m) @ le16 (num m) @ concat (map dv_entry_bytes (ents m))"

definition dv_size :: nat where
  "dv_size = 5 + 10 * MAX_DEST"

definition dv_entry_at :: "byte list \<Rightarrow> nat \<Rightarrow> dv_entry" where
  "dv_entry_at bs i =
     \<lparr>net = rd32 bs (5 + 10 * i), emask = rd32 bs (9 + 10 * i), ecost = rd16 bs (13 + 10 * i)\<rparr>"

definition dv_of_bytes :: "byte list \<Rightarrow> dv_msg_t" where
  "dv_of_bytes bs =
     \<lparr>dv_type = bs ! 0, sender_id = rd16 bs 1, num = rd16 bs 3,
      ents = map (dv_entry_at bs) [0..<MAX_DEST]\<rparr>"

section \<open>Sending\<close>

text \<open>
  The loop of \<^verbatim>\<open>send_dv\<close>: \<open>acc\<close> holds the entries written so far, so its length is
  \<^verbatim>\<open>msg.num\<close>, which the loop keeps in host order.
\<close>

definition advertise :: "neighbor_t \<Rightarrow> route_entry_t \<Rightarrow> dv_entry" where
  "advertise nb route =
     (let cost = (if next_hop route \<noteq> 0 \<and> next_hop route = nb_ip nb
                  then of_nat INF_COST else rt_cost route)
      in \<lparr>net = dest_net route, emask = rt_mask route, ecost = htons cost\<rparr>)"

fun send_dv_loop :: "neighbor_t \<Rightarrow> route_entry_t list \<Rightarrow> dv_entry list \<Rightarrow> dv_entry list" where
  "send_dv_loop nb [] acc = acc"
| "send_dv_loop nb (route # rest) acc =
     (if MAX_DEST \<le> length acc then acc
      else send_dv_loop nb rest (acc @ [advertise nb route]))"

definition send_dv_msg :: "router_t \<Rightarrow> neighbor_t \<Rightarrow> dv_msg_t" where
  "send_dv_msg r nb =
     (let es = send_dv_loop nb (routes r) []
      in \<lparr>dv_type = MSG_DV, sender_id = htons (self_id r), num = htons (of_nat (length es)),
          ents = es\<rparr>)"

definition send_dv :: "router_t \<Rightarrow> neighbor_t \<Rightarrow> action list" where
  "send_dv r nb =
     (let msg = send_dv_msg r nb; msg_size = 1 + 2 + 2 + unat (ntohs (num msg)) * 10
      in [SendTo Ctrl (nb_ctrl_port nb) (take msg_size (dv_bytes msg))])"

definition broadcast_dv :: "router_t \<Rightarrow> action list" where
  "broadcast_dv r = concat (map (\<lambda>nb. if alive nb then send_dv r nb else []) (neighbors r))"

lemma send_dv_loop_eq:
  "length acc + length es \<le> MAX_DEST \<Longrightarrow> send_dv_loop nb es acc = acc @ map (advertise nb) es"
  by (induction es arbitrary: acc) auto

lemma length_dv_entry_bytes [simp, wire]: "length (dv_entry_bytes d) = 10"
  by (simp add: dv_entry_bytes_def)

lemma length_concat_const: "(\<And>x. length (f x) = k) \<Longrightarrow> length (concat (map f xs)) = k * length xs"
  by (induction xs) auto

lemma length_dv_bytes [wire]: "length (dv_bytes m) = 5 + 10 * length (ents m)"
  by (simp add: dv_bytes_def length_concat_const [of dv_entry_bytes 10])

lemma send_dv_msg_ents:
  "table_ok r \<Longrightarrow> ents (send_dv_msg r nb) = map (advertise nb) (routes r)"
  by (simp add: send_dv_msg_def table_ok_def send_dv_loop_eq)

lemma unat_small_u16: "n \<le> MAX_DEST \<Longrightarrow> unat (of_nat n :: u16) = n"
  by (simp add: unat_of_nat router_consts)

lemma send_dv_msg_num:
  "table_ok r \<Longrightarrow> unat (ntohs (num (send_dv_msg r nb))) = length (routes r)"
  by (simp add: send_dv_msg_def table_ok_def send_dv_loop_eq unat_small_u16)

lemma send_dv_eq:
  "table_ok r \<Longrightarrow> send_dv r nb = [SendTo Ctrl (nb_ctrl_port nb) (dv_bytes (send_dv_msg r nb))]"
  by (simp add: send_dv_def Let_def send_dv_msg_num length_dv_bytes send_dv_msg_ents)

text \<open>The receiver reads back what was sent, whatever its buffer held before.\<close>

lemma concat_chunk:
  "(\<And>x. length (f x) = k) \<Longrightarrow> i < length xs \<Longrightarrow>
   concat (map f xs) = concat (map f (take i xs)) @ f (xs ! i) @ concat (map f (drop (Suc i) xs))"
  by (subst id_take_nth_drop [of i xs]) simp_all

lemma dv_entry_at_written:
  assumes "i < length (ents m)"
  shows "dv_entry_at (dv_bytes m @ rest) i = ents m ! i"
proof -
  define d where "d = ents m ! i"
  define pre where "pre = (dv_type m # le16 (sender_id m) @ le16 (num m)) @
    concat (map dv_entry_bytes (take i (ents m)))"
  define post where "post = concat (map dv_entry_bytes (drop (Suc i) (ents m))) @ rest"
  have len: "length pre = 5 + 10 * i"
    using assms by (simp add: pre_def length_concat_const [of dv_entry_bytes 10])
  have "dv_bytes m @ rest = pre @ dv_entry_bytes d @ post"
    using concat_chunk [of dv_entry_bytes 10 i "ents m"] assms
    by (simp add: dv_bytes_def pre_def post_def d_def)
  then have eq: "dv_bytes m @ rest = pre @ le32 (net d) @ le32 (emask d) @ le16 (ecost d) @ post"
    by (simp add: dv_entry_bytes_def)
  have "rd32 (dv_bytes m @ rest) (5 + 10 * i) = net d"
    unfolding eq by (rule rd32_at [OF len])
  moreover have "rd32 (dv_bytes m @ rest) (9 + 10 * i) = emask d"
    unfolding eq using rd32_at [of "pre @ le32 (net d)" "9 + 10 * i"] len by simp
  moreover have "rd16 (dv_bytes m @ rest) (13 + 10 * i) = ecost d"
    unfolding eq using rd16_at [of "pre @ le32 (net d) @ le32 (emask d)" "13 + 10 * i"] len by simp
  ultimately show ?thesis
    by (simp add: dv_entry_at_def d_def)
qed

lemma dv_of_bytes_header:
  "dv_type (dv_of_bytes (dv_bytes m @ rest)) = dv_type m"
  "sender_id (dv_of_bytes (dv_bytes m @ rest)) = sender_id m"
  "num (dv_of_bytes (dv_bytes m @ rest)) = num m"
  using rd16_at [of "[dv_type m]" 1 "sender_id m"]
    rd16_at [of "dv_type m # le16 (sender_id m)" 3 "num m"]
  by (simp_all add: dv_of_bytes_def dv_bytes_def)

lemma dv_received:
  assumes "length (ents m) \<le> MAX_DEST" "length buf = dv_size"
  shows "dv_of_bytes (recv_into buf (dv_bytes m)) =
    m\<lparr>ents := ents m @ map (dv_entry_at (recv_into buf (dv_bytes m))) [length (ents m)..<MAX_DEST]\<rparr>"
proof -
  have fits: "recv_into buf (dv_bytes m) = dv_bytes m @ drop (length (dv_bytes m)) buf"
    using assms by (simp add: recv_into_fits length_dv_bytes dv_size_def)
  have "[0..<MAX_DEST] = [0..<length (ents m)] @ [length (ents m)..<MAX_DEST]"
    using assms(1) upt_add_eq_append [of 0 "length (ents m)" "MAX_DEST - length (ents m)"] by simp
  moreover have "map (dv_entry_at (recv_into buf (dv_bytes m))) [0..<length (ents m)] = ents m"
    unfolding fits by (rule nth_equalityI) (simp_all add: dv_entry_at_written)
  ultimately have "ents (dv_of_bytes (recv_into buf (dv_bytes m))) =
    ents m @ map (dv_entry_at (recv_into buf (dv_bytes m))) [length (ents m)..<MAX_DEST]"
    by (simp add: dv_of_bytes_def)
  then show ?thesis
    by (intro dv_msg_t.equality)
       (simp_all add: fits dv_of_bytes_header)
qed

section \<open>Receiving\<close>

text \<open>
  One round of the loop of \<^verbatim>\<open>dv_update\<close>.  The two readings of the clock a round can make
  (in \<^verbatim>\<open>rt_find_or_add\<close> and when the route is written) are \<open>t1\<close> and \<open>t2\<close>.
\<close>

definition dv_cost :: "neighbor_t \<Rightarrow> u16 \<Rightarrow> u32" where
  "dv_cost nb neighbor_cost =
     (let new_cost = ucast (nb_cost nb) + ucast neighbor_cost :: u32
      in if INF_COST < unat new_cost then of_nat INF_COST else new_cost)"

definition dv_entry_update ::
  "router_t \<Rightarrow> neighbor_t \<Rightarrow> int \<Rightarrow> int \<Rightarrow> dv_entry \<Rightarrow> router_t \<times> bool" where
  "dv_entry_update r nb t1 t2 d =
     (let neighbor_cost = ntohs (ecost d) in
      if INF_COST \<le> unat neighbor_cost then
        (case rt_find_or_add t1 r (net d) (emask d) of
           (r', None) \<Rightarrow> (r', False)
         | (r', Some i) \<Rightarrow>
             let existing = routes r' ! i in
             if next_hop existing = nb_ip nb \<and> unat (rt_cost existing) < INF_COST
             then (set_route r' i (existing\<lparr>rt_cost := of_nat INF_COST, last_update := t2\<rparr>), True)
             else (r', False))
      else
        (case rt_find_or_add t1 r (net d) (emask d) of
           (r', None) \<Rightarrow> (r', False)
         | (r', Some i) \<Rightarrow>
             let route = routes r' ! i; new_cost = dv_cost nb neighbor_cost in
             if new_cost < ucast (rt_cost route) \<or>
                next_hop route = nb_ip nb \<and> new_cost \<noteq> ucast (rt_cost route)
             then (set_route r' i
                     (route\<lparr>rt_cost := ucast new_cost, next_hop := nb_ip nb, last_update := t2\<rparr>), True)
             else (r', False)))"

text \<open>
  The loop runs to the count the message claims; the array holds \<^verbatim>\<open>MAX_DEST\<close> entries and
  reading past it is undefined.  \<open>clk\<close> gives the clock readings in order, two per round.
\<close>

function dv_loop ::
  "router_t \<Rightarrow> neighbor_t \<Rightarrow> (nat \<Rightarrow> int) \<Rightarrow> dv_msg_t \<Rightarrow> nat \<Rightarrow> nat \<Rightarrow> bool \<Rightarrow> (router_t \<times> bool) option"
where
  "dv_loop r nb clk m n i changed =
     (if i < n then
        if i < MAX_DEST then
          case dv_entry_update r nb (clk (2 * i)) (clk (2 * i + 1)) (ents m ! i) of
            (r', c) \<Rightarrow> dv_loop r' nb clk m n (Suc i) (changed \<or> c)
        else None
      else Some (r, changed))"
  by pat_completeness auto
termination
  by (relation "measure (\<lambda>(r, nb, clk, m, n, i, changed). n - i)") auto

declare dv_loop.simps [simp del]

definition dv_update ::
  "router_t \<Rightarrow> neighbor_t \<Rightarrow> (nat \<Rightarrow> int) \<Rightarrow> dv_msg_t \<Rightarrow> (router_t \<times> bool) option" where
  "dv_update r nb clk m = dv_loop r nb clk m (unat (ntohs (num m))) 0 False"

text \<open>With a count that fits, the loop is a fold over the entries.\<close>

fun dv_fold ::
  "router_t \<Rightarrow> neighbor_t \<Rightarrow> (nat \<Rightarrow> int) \<Rightarrow> nat \<Rightarrow> dv_entry list \<Rightarrow> bool \<Rightarrow> router_t \<times> bool" where
  "dv_fold r nb clk i [] changed = (r, changed)"
| "dv_fold r nb clk i (d # ds) changed =
     (case dv_entry_update r nb (clk (2 * i)) (clk (2 * i + 1)) d of
        (r', c) \<Rightarrow> dv_fold r' nb clk (Suc i) ds (changed \<or> c))"

lemma dv_loop_fold:
  assumes "n \<le> MAX_DEST" "n \<le> length (ents m)"
  shows "dv_loop r nb clk m n i changed =
    Some (dv_fold r nb clk i (drop i (take n (ents m))) changed)"
  using assms
proof (induction "n - i" arbitrary: r i changed)
  case 0
  then show ?case by (simp add: dv_loop.simps)
next
  case (Suc k)
  then have "i < n" "k = n - Suc i" by auto
  moreover have "drop i (take n (ents m)) = ents m ! i # drop (Suc i) (take n (ents m))"
    using \<open>i < n\<close> Suc.prems by (simp add: Cons_nth_drop_Suc [symmetric])
  ultimately show ?case
    using Suc.hyps(1) [of "Suc i"] Suc.prems
    by (simp add: dv_loop.simps [of r nb clk m n i] split: prod.split)
qed

lemma dv_loop_overrun:
  "MAX_DEST < n \<Longrightarrow> i \<le> MAX_DEST \<Longrightarrow> dv_loop r nb clk m n i changed = None"
proof (induction "MAX_DEST - i" arbitrary: r i changed)
  case 0
  then show ?case by (simp add: dv_loop.simps)
next
  case (Suc k)
  then show ?case
    using Suc.hyps(1) [of "Suc i"]
    by (simp add: dv_loop.simps [of r nb clk m n i] split: prod.split)
qed

lemma dv_update_fold:
  "unat (ntohs (num m)) \<le> MAX_DEST \<Longrightarrow> length (ents m) = MAX_DEST \<Longrightarrow>
   dv_update r nb clk m =
     Some (dv_fold r nb clk 0 (take (unat (ntohs (num m))) (ents m)) False)"
  by (simp add: dv_update_def dv_loop_fold)

section \<open>The Bellman-Ford step\<close>

text \<open>
  What a table says of a destination: its cost and next hop.  \<open>bf_route\<close> is the decision of
  Bellman and Ford for one advertised cost, with a saturating sum: a cheaper path is taken,
  and the current next hop is believed whatever it says.
\<close>

type_synonym bf_entry = "nat \<times> u32"
type_synonym bf_table = "u32 \<times> u32 \<Rightarrow> bf_entry option"

definition bf_entry_of :: "route_entry_t \<Rightarrow> bf_entry" where
  "bf_entry_of e = (unat (rt_cost e), next_hop e)"

definition bf_view :: "router_t \<Rightarrow> bf_table" where
  "bf_view r k = map_option bf_entry_of (route_map r k)"

definition bf_route :: "u32 \<Rightarrow> nat \<Rightarrow> nat \<Rightarrow> bf_entry \<Rightarrow> bf_entry" where
  "bf_route nb w c old =
     (let via = (if c < INF_COST then min INF_COST (w + c) else INF_COST) in
      if snd old = nb then (via, nb)
      else if via < fst old then (via, nb)
      else old)"

definition bf_step :: "u32 \<Rightarrow> nat \<Rightarrow> (u32 \<times> u32) \<times> nat \<Rightarrow> bf_table \<Rightarrow> bf_table" where
  "bf_step nb w kc t =
     (case t (fst kc) of
        Some old \<Rightarrow> t(fst kc \<mapsto> bf_route nb w (snd kc) old)
      | None \<Rightarrow>
          if card (dom t) < MAX_DEST then t(fst kc \<mapsto> bf_route nb w (snd kc) (INF_COST, 0))
          else t)"

definition dv_adv :: "dv_entry \<Rightarrow> (u32 \<times> u32) \<times> nat" where
  "dv_adv d = ((net d, emask d), unat (ntohs (ecost d)))"

lemma unat_u16_bound: "unat (w :: u16) \<le> INF_COST"
  using unat_u16_less [of w] by (simp add: router_consts)

lemma unat_u16_not_above [simp]: "\<not> INF_COST < unat (w :: u16)"
  using unat_u16_bound [of w] by simp

lemma unat_dv_cost: "unat (dv_cost nb c) = min INF_COST (unat (nb_cost nb) + unat c)"
proof -
  have "unat (ucast (nb_cost nb) + ucast c :: u32) = unat (nb_cost nb) + unat c"
    using unat_u16_bound [of "nb_cost nb"] unat_u16_bound [of c]
    by (simp add: unat_word_ariths router_consts)
  then show ?thesis
    by (simp add: dv_cost_def Let_def router_consts)
qed

lemma unat_INF [simp]: "unat (of_nat INF_COST :: u16) = INF_COST"
  by (simp add: router_consts)

lemma unat_ucast_dv_cost: "unat (ucast (dv_cost nb c) :: u16) = min INF_COST (unat (nb_cost nb) + unat c)"
  using unat_dv_cost [of nb c]
  by (simp add: unat_narrow router_consts)

lemma dv_cost_less: "dv_cost nb c < ucast (w :: u16) \<longleftrightarrow> unat (dv_cost nb c) < unat w"
  by (simp add: word_less_nat_alt)

lemma dv_cost_eq: "dv_cost nb c = ucast (w :: u16) \<longleftrightarrow> unat (dv_cost nb c) = unat w"
  by (simp add: word_unat_eq_iff)

text \<open>The change one advertised entry makes to the route it is about.\<close>

definition dv_rewrite :: "neighbor_t \<Rightarrow> int \<Rightarrow> u16 \<Rightarrow> route_entry_t \<Rightarrow> route_entry_t" where
  "dv_rewrite nb t c e =
     (if INF_COST \<le> unat c then
        (if next_hop e = nb_ip nb \<and> unat (rt_cost e) < INF_COST
         then e\<lparr>rt_cost := of_nat INF_COST, last_update := t\<rparr> else e)
      else if dv_cost nb c < ucast (rt_cost e) \<or>
              next_hop e = nb_ip nb \<and> dv_cost nb c \<noteq> ucast (rt_cost e)
      then e\<lparr>rt_cost := ucast (dv_cost nb c), next_hop := nb_ip nb, last_update := t\<rparr> else e)"

lemma dv_rewrite_key [simp]: "route_key (dv_rewrite nb t c e) = route_key e"
  by (simp add: dv_rewrite_def route_key_def)

lemma bf_entry_of_dv_rewrite:
  "bf_entry_of (dv_rewrite nb t c e) = bf_route (nb_ip nb) (unat (nb_cost nb)) (unat c) (bf_entry_of e)"
  using unat_u16_bound [of c] unat_u16_bound [of "rt_cost e"]
  by (auto simp: dv_rewrite_def bf_entry_of_def bf_route_def Let_def unat_ucast_dv_cost dv_cost_less
      dv_cost_eq unat_dv_cost)

lemma set_route_same: "i < length (routes r) \<Longrightarrow> set_route r i (routes r ! i) = r"
  by (simp add: set_route_def)

lemma dv_entry_update_upsert:
  assumes "table_ok r"
  shows "fst (dv_entry_update r nb t1 t2 d) =
    rt.upsert t1 (dv_rewrite nb t2 (ntohs (ecost d))) r (net d, emask d)"
proof (cases "rt_find_or_add t1 r (net d) (emask d)")
  case (Pair r' m)
  show ?thesis
  proof (cases m)
    case None
    with Pair show ?thesis by (simp add: dv_entry_update_def rt.upsert_def Let_def)
  next
    case (Some i)
    with Pair assms rt.found [of r t1 "(net d, emask d)" r' i] have "i < length (routes r')"
      by simp
    with Pair Some show ?thesis
      by (simp add: dv_entry_update_def rt.upsert_def dv_rewrite_def Let_def set_route_same)
  qed
qed

lemma card_dom_bf_view: "table_ok r \<Longrightarrow> card (dom (bf_view r)) = length (routes r)"
proof -
  assume "table_ok r"
  moreover have "dom (bf_view r) = route_key ` set (routes r)"
    using map_of_keyed_None [of route_key "routes r"]
    by (auto simp: bf_view_def route_map_def dom_def)
  ultimately show ?thesis
    by (metis distinct_card length_map set_map table_ok_def)
qed

lemma bf_entry_of_blank [simp]: "bf_entry_of (blank_route now n mk) = (INF_COST, 0)"
  by (simp add: bf_entry_of_def blank_route_def)

lemma bf_view_upd: "route_map r' = (route_map r)(k \<mapsto> e) \<Longrightarrow> bf_view r' = (bf_view r)(k \<mapsto> bf_entry_of e)"
  by (auto simp: bf_view_def fun_eq_iff)

lemma dv_entry_update_refines:
  assumes ok: "table_ok r"
  shows "table_ok (fst (dv_entry_update r nb t1 t2 d)) \<and>
    bf_view (fst (dv_entry_update r nb t1 t2 d)) =
      bf_step (nb_ip nb) (unat (nb_cost nb)) (dv_adv d) (bf_view r)"
proof -
  let ?f = "dv_rewrite nb t2 (ntohs (ecost d))" and ?k = "(net d, emask d)"
  obtain r' m where fa: "rt_find_or_add t1 r (fst ?k) (snd ?k) = (r', m)"
    by (cases "rt_find_or_add t1 r (fst ?k) (snd ?k)")
  show ?thesis
  proof (cases "route_map r ?k")
    case (Some e)
    with rt.upsert_known [of r ?k e ?f t1] ok show ?thesis
      by (auto simp: dv_entry_update_upsert bf_view_def bf_step_def dv_adv_def fun_eq_iff
          bf_entry_of_dv_rewrite)
  next
    case None
    show ?thesis
    proof (cases m)
      case None
      then have fa0: "rt_find_or_add t1 r (fst ?k) (snd ?k) = (r', None)" using fa by simp
      have "rt.upsert t1 ?f r ?k = r" "length (routes r) = MAX_DEST"
        using rt.upsert_full [OF ok fa0, of ?f] rt.full [OF ok fa0] by auto
      with ok \<open>route_map r ?k = None\<close> show ?thesis
        by (simp add: dv_entry_update_upsert bf_step_def dv_adv_def card_dom_bf_view)
           (simp add: bf_view_def)
    next
      case (Some i)
      then have fa1: "rt_find_or_add t1 r (fst ?k) (snd ?k) = (r', Some i)" using fa by simp
      from fa1 \<open>route_map r ?k = None\<close> ok have "length (routes r) < MAX_DEST"
        by (auto elim!: find_or_add_cases dest!: rt_index_Some
            simp: route_map_def map_of_keyed_None) (metis image_eqI nth_mem)
      then have step: "bf_step (nb_ip nb) (unat (nb_cost nb)) (dv_adv d) (bf_view r) = (bf_view r)
          (?k \<mapsto> bf_route (nb_ip nb) (unat (nb_cost nb)) (unat (ntohs (ecost d))) (INF_COST, 0))"
        using \<open>route_map r ?k = None\<close> card_dom_bf_view [OF ok]
        by (simp add: bf_step_def dv_adv_def bf_view_def)
      have "table_ok (rt.upsert t1 ?f r ?k)"
        and map: "route_map (rt.upsert t1 ?f r ?k) =
          (route_map r)(?k \<mapsto> ?f (blank_route t1 (fst ?k) (snd ?k)))"
        using rt.upsert_view [OF ok _ fa1, of ?f] \<open>route_map r ?k = None\<close> by auto
      with bf_view_upd [OF map] step ok show ?thesis
        by (simp add: dv_entry_update_upsert bf_entry_of_dv_rewrite)
    qed
  qed
qed

lemma dv_fold_refines:
  assumes "table_ok r"
  shows "table_ok (fst (dv_fold r nb clk i ds ch)) \<and>
    bf_view (fst (dv_fold r nb clk i ds ch)) =
      fold (bf_step (nb_ip nb) (unat (nb_cost nb))) (map dv_adv ds) (bf_view r)"
  using assms
proof (induction ds arbitrary: r i ch)
  case Nil
  then show ?case by simp
next
  case (Cons d ds)
  obtain r' c where upd: "dv_entry_update r nb (clk (2 * i)) (clk (2 * i + 1)) d = (r', c)"
    by (cases "dv_entry_update r nb (clk (2 * i)) (clk (2 * i + 1)) d")
  with dv_entry_update_refines [OF Cons.prems, of nb "clk (2 * i)" "clk (2 * i + 1)" d]
  have "table_ok r'" "bf_view r' = bf_step (nb_ip nb) (unat (nb_cost nb)) (dv_adv d) (bf_view r)"
    by simp_all
  with Cons.IH [of r' "Suc i" "ch \<or> c"] upd show ?case by simp
qed

section \<open>What an update keeps\<close>

text \<open>
  A property of single routes that a blank route has and every rewrite keeps holds of the whole
  table after an update; everything but the routes is untouched.
\<close>

definition all_routes :: "(route_entry_t \<Rightarrow> bool) \<Rightarrow> router_t \<Rightarrow> bool" where
  "all_routes P r \<longleftrightarrow> (\<forall>e \<in> set (routes r). P e)"

lemma find_or_add_all_routes:
  assumes "rt_find_or_add now r n mk = (r', m)" "all_routes P r" "P (blank_route now n mk)"
  shows "all_routes P r' \<and>
    (\<forall>i. m = Some i \<longrightarrow> i < length (routes r') \<and> route_key (routes r' ! i) = (n, mk))"
  using assms by (auto elim!: find_or_add_cases simp: all_routes_def dest: rt_index_Some)

lemma set_route_all_routes:
  "all_routes P r \<Longrightarrow> P e \<Longrightarrow> all_routes P (set_route r i e)"
  by (auto simp: all_routes_def set_route_def dest!: set_update_subset_insert [THEN subsetD])

lemma all_routes_nth: "all_routes P r \<Longrightarrow> i < length (routes r) \<Longrightarrow> P (routes r ! i)"
  by (simp add: all_routes_def)

lemma dv_entry_update_eq:
  "dv_entry_update r nb t1 t2 d =
     (case rt_find_or_add t1 r (net d) (emask d) of
        (r', None) \<Rightarrow> (r', False)
      | (r', Some i) \<Rightarrow>
          if bf_route (nb_ip nb) (unat (nb_cost nb)) (unat (ntohs (ecost d))) (bf_entry_of (routes r' ! i))
               = bf_entry_of (routes r' ! i)
          then (r', False)
          else (set_route r' i (dv_rewrite nb t2 (ntohs (ecost d)) (routes r' ! i)), True))"
proof (cases "rt_find_or_add t1 r (net d) (emask d)")
  case (Pair r' m)
  show ?thesis
  proof (cases m)
    case None
    with Pair show ?thesis by (simp add: dv_entry_update_def Let_def)
  next
    case (Some i)
    with Pair unat_u16_bound [of "ntohs (ecost d)"] unat_u16_bound [of "rt_cost (routes r' ! i)"]
    show ?thesis
      by (auto simp: dv_entry_update_def dv_rewrite_def Let_def bf_route_def bf_entry_of_def
          unat_dv_cost dv_cost_less dv_cost_eq min_def)
  qed
qed

lemma dv_entry_update_all_routes:
  assumes "all_routes P r" "\<And>now. P (blank_route now (net d) (emask d))"
    and "\<And>t e. P e \<Longrightarrow> route_key e = (net d, emask d) \<Longrightarrow> P (dv_rewrite nb t (ntohs (ecost d)) e)"
  shows "all_routes P (fst (dv_entry_update r nb t1 t2 d))"
proof (cases "rt_find_or_add t1 r (net d) (emask d)")
  case (Pair r' m)
  with find_or_add_all_routes [OF Pair assms(1)] assms(2)
  have "all_routes P r'" "\<And>i. m = Some i \<Longrightarrow> i < length (routes r') \<and> route_key (routes r' ! i) = (net d, emask d)"
    by auto
  with Pair assms(3) show ?thesis
    by (auto simp: dv_entry_update_eq all_routes_nth intro!: set_route_all_routes split: option.split)
qed

lemma dv_fold_all_routes:
  assumes "all_routes P r" "\<And>now d. d \<in> set ds \<Longrightarrow> P (blank_route now (net d) (emask d))"
    and "\<And>t d e. d \<in> set ds \<Longrightarrow> P e \<Longrightarrow> route_key e = (net d, emask d) \<Longrightarrow>
      P (dv_rewrite nb t (ntohs (ecost d)) e)"
  shows "all_routes P (fst (dv_fold r nb clk i ds ch))"
  using assms
proof (induction ds arbitrary: r i ch)
  case (Cons d ds)
  obtain r' c where upd: "dv_entry_update r nb (clk (2 * i)) (clk (2 * i + 1)) d = (r', c)"
    by (cases "dv_entry_update r nb (clk (2 * i)) (clk (2 * i + 1)) d")
  have "all_routes P (fst (dv_entry_update r nb (clk (2 * i)) (clk (2 * i + 1)) d))"
    using Cons.prems by (intro dv_entry_update_all_routes) auto
  with upd have "all_routes P r'" by simp
  from Cons.IH [OF this] Cons.prems(2,3) upd show ?case by simp
qed simp

definition same_config :: "router_t \<Rightarrow> router_t \<Rightarrow> bool" where
  "same_config r r' \<longleftrightarrow> r' = r\<lparr>routes := routes r'\<rparr>"

lemma same_config_simps:
  "same_config r r' \<Longrightarrow> neighbors r' = neighbors r \<and> self_id r' = self_id r \<and>
     self_ip r' = self_ip r \<and> ctrl_port r' = ctrl_port r"
  unfolding same_config_def by (metis router_t.select_convs router_t.surjective router_t.update_convs(5))

lemma same_config_refl [simp]: "same_config r r"
  by (simp add: same_config_def)

lemma same_config_trans: "same_config a b \<Longrightarrow> same_config b c \<Longrightarrow> same_config a c"
  by (cases a; cases b; cases c) (simp add: same_config_def)

lemma same_config_routes [simp]: "same_config r (r\<lparr>routes := x\<rparr>)"
  by (simp add: same_config_def)

lemma same_config_set_route: "same_config r r' \<Longrightarrow> same_config r (set_route r' i e)"
  by (cases r; cases r') (simp add: same_config_def set_route_def)

lemma same_config_find_or_add: "rt_find_or_add now r n mk = (r', m) \<Longrightarrow> same_config r r'"
  by (auto elim!: find_or_add_cases)

lemma dv_entry_update_config: "same_config r (fst (dv_entry_update r nb t1 t2 d))"
  using same_config_find_or_add [of t1 r "net d" "emask d"]
  by (auto simp: dv_entry_update_eq intro!: same_config_set_route split: prod.split option.split)

lemma dv_fold_config: "same_config r (fst (dv_fold r nb clk i ds ch))"
proof (induction ds arbitrary: r i ch)
  case (Cons d ds)
  have "same_config r (fst (dv_entry_update r nb (clk (2 * i)) (clk (2 * i + 1)) d))"
    by (rule dv_entry_update_config)
  with Cons.IH show ?case
    by (simp split: prod.split) (metis fst_conv same_config_trans)
qed simp

text \<open>An update that reports no change has at most added unreachable destinations.\<close>

definition only_adds_blank :: "bf_table \<Rightarrow> bf_table \<Rightarrow> bool" where
  "only_adds_blank t t' \<longleftrightarrow> (\<forall>k. t' k = t k \<or> t k = None \<and> t' k = Some (INF_COST, 0))"

lemma only_adds_blank_trans:
  "only_adds_blank t t' \<Longrightarrow> only_adds_blank t' t'' \<Longrightarrow> only_adds_blank t t''"
  unfolding only_adds_blank_def by metis

lemma dv_entry_update_unchanged:
  assumes "table_ok r" "\<not> snd (dv_entry_update r nb t1 t2 d)"
  shows "only_adds_blank (bf_view r) (bf_view (fst (dv_entry_update r nb t1 t2 d)))"
proof (cases "rt_find_or_add t1 r (net d) (emask d)")
  case (Pair r' m)
  with assms(2) have "fst (dv_entry_update r nb t1 t2 d) = r'"
    by (auto simp: dv_entry_update_eq split: option.splits if_splits)
  with Pair show ?thesis
  proof (cases rule: find_or_add_cases)
    case Added
    have "route_map r' = (route_map r)((net d, emask d) \<mapsto> blank_route t1 (net d) (emask d))"
      using map_of_keyed_append [of route_key "blank_route t1 (net d) (emask d)" "routes r"] Added
      by (simp add: route_map_def)
    from bf_view_upd [OF this] Added \<open>fst (dv_entry_update r nb t1 t2 d) = r'\<close> show ?thesis
      using map_of_keyed_None [of route_key "routes r" "(net d, emask d)"]
      by (auto simp: only_adds_blank_def bf_view_def route_map_def)
  qed (simp_all add: only_adds_blank_def)
qed

lemma dv_fold_changed_mono: "ch \<Longrightarrow> snd (dv_fold r nb clk i ds ch)"
  by (induction ds arbitrary: r i ch) (auto split: prod.split)

lemma dv_fold_unchanged:
  assumes "table_ok r" "\<not> snd (dv_fold r nb clk i ds ch)"
  shows "only_adds_blank (bf_view r) (bf_view (fst (dv_fold r nb clk i ds ch)))"
  using assms
proof (induction ds arbitrary: r i ch)
  case Nil
  then show ?case by (simp add: only_adds_blank_def)
next
  case (Cons d ds)
  obtain r' c where upd: "dv_entry_update r nb (clk (2 * i)) (clk (2 * i + 1)) d = (r', c)"
    by (cases "dv_entry_update r nb (clk (2 * i)) (clk (2 * i + 1)) d")
  with Cons.prems(2) dv_fold_changed_mono [of "ch \<or> c"] have "\<not> c" by auto
  with upd dv_entry_update_unchanged [OF Cons.prems(1), of nb "clk (2 * i)" "clk (2 * i + 1)" d]
  have "only_adds_blank (bf_view r) (bf_view r')" by simp
  moreover have "table_ok r'"
    using upd dv_entry_update_refines [OF Cons.prems(1), of nb "clk (2 * i)" "clk (2 * i + 1)" d] by simp
  ultimately show ?case
    using Cons.IH [of r' "Suc i" "ch \<or> c"] Cons.prems(2) upd
    by (auto intro: only_adds_blank_trans)
qed

end
