(* ===== verification/Router_Forward.thy ===== *)
theory Router_Forward
  imports Router_Table
begin

text \<open>
  Data packets: \<^verbatim>\<open>data_msg_t\<close> of \<^verbatim>\<open>src/hw3/starter/common.h\<close> and
  \<^verbatim>\<open>forward_data\<close> of \<^verbatim>\<open>src/hw3/starter/router.c\<close>, with the log lines it
  prints and the bytes it sends.  A claimed payload length is not checked by the code: printing
  or sending past the packet is undefined and gives \<open>None\<close>.
\<close>

section \<open>The packet\<close>

record data_msg_t =
  d_type :: byte
  ttl :: byte
  src_ip :: u32
  dst_ip :: u32
  payload_len :: u16
  payload :: "byte list"

definition PAYLOAD_SIZE :: nat where "PAYLOAD_SIZE = 128"

definition data_size :: nat where "data_size = 12 + PAYLOAD_SIZE"

definition data_bytes :: "data_msg_t \<Rightarrow> byte list" where
  "data_bytes m =
     [d_type m, ttl m] @ le32 (src_ip m) @ le32 (dst_ip m) @ le16 (payload_len m) @ payload m"

definition data_of_bytes :: "byte list \<Rightarrow> data_msg_t" where
  "data_of_bytes bs =
     \<lparr>d_type = bs ! 0, ttl = bs ! 1, src_ip = rd32 bs 2, dst_ip = rd32 bs 6,
      payload_len = rd16 bs 10, payload = take PAYLOAD_SIZE (drop 12 bs)\<rparr>"

definition data_ok :: "data_msg_t \<Rightarrow> bool" where
  "data_ok m \<longleftrightarrow> length (payload m) = PAYLOAD_SIZE"

definition plen :: "data_msg_t \<Rightarrow> nat" where
  "plen m = unat (ntohs (payload_len m))"

lemma length_data_bytes [simp]: "length (data_bytes m) = 12 + length (payload m)"
  by (simp add: data_bytes_def)

lemma data_of_data_bytes:
  "data_of_bytes (data_bytes m @ rest) = m\<lparr>payload := take PAYLOAD_SIZE (payload m @ rest)\<rparr>"
  using rd32_at [of "[d_type m, ttl m]" 2 "src_ip m"]
    rd32_at [of "[d_type m, ttl m] @ le32 (src_ip m)" 6 "dst_ip m"]
    rd16_at [of "[d_type m, ttl m] @ le32 (src_ip m) @ le32 (dst_ip m)" 10 "payload_len m"]
  by (simp add: data_of_bytes_def data_bytes_def)

lemma data_ok_of_bytes: "length bs = data_size \<Longrightarrow> data_ok (data_of_bytes bs)"
  by (simp add: data_ok_def data_of_bytes_def data_size_def PAYLOAD_SIZE_def)

section \<open>Forwarding\<close>

text \<open>What \<^verbatim>\<open>%.*s\<close> prints of the payload.\<close>

definition payload_str :: "data_msg_t \<Rightarrow> string option" where
  "payload_str m =
     (let s = map (\<lambda>b. char_of (unat b)) (payload m) in
      if plen m \<le> length s \<or> NUL \<in> set s then Some (cstr_of (take (plen m) s)) else None)"

definition tag :: "router_t \<Rightarrow> string" where
  "tag r = ''[R'' @ dec (unat (self_id r)) @ ''] ''"

definition log_connected :: "router_t \<Rightarrow> data_msg_t \<Rightarrow> string \<Rightarrow> action" where
  "log_connected r m p =
     Print (tag r @ ''DELIVER connected dst='' @ ipstr (dst_ip m) @ '' payload='' @ [DQ] @ p @ [DQ, NL])"

definition log_self :: "router_t \<Rightarrow> data_msg_t \<Rightarrow> string \<Rightarrow> action" where
  "log_self r m p =
     Print (tag r @ ''DELIVER self src='' @ ipstr (src_ip m) @ '' ttl='' @ dec (unat (ttl m))
            @ '' payload='' @ [DQ] @ p @ [DQ, NL])"

definition log_drop :: "router_t \<Rightarrow> action" where
  "log_drop r = Print (tag r @ ''DROP ttl=0'' @ [NL])"

definition log_no_match :: "router_t \<Rightarrow> data_msg_t \<Rightarrow> action" where
  "log_no_match r m = Print (tag r @ ''NO MATCH dst='' @ ipstr (dst_ip m) @ [NL])"

definition log_hop_down :: "router_t \<Rightarrow> u32 \<Rightarrow> action" where
  "log_hop_down r hop = Print (tag r @ ''NEXT HOP DOWN '' @ ipstr hop @ [NL])"

definition log_fwd :: "router_t \<Rightarrow> data_msg_t \<Rightarrow> u32 \<Rightarrow> route_entry_t \<Rightarrow> byte \<Rightarrow> action" where
  "log_fwd r m hop route out_ttl =
     Print (tag r @ ''FWD dst='' @ ipstr (dst_ip m) @ '' via='' @ ipstr hop
            @ '' mask='' @ ipstr (rt_mask route) @ '' cost='' @ dec (unat (rt_cost route))
            @ '' ttl='' @ dec (unat out_ttl) @ [NL])"

lemmas log_defs = log_connected_def log_self_def log_drop_def log_no_match_def log_hop_down_def
  log_fwd_def tag_def

text \<open>The first neighbour with an address, as both search loops of \<^verbatim>\<open>forward_data\<close> find it.\<close>

definition find_neighbor :: "router_t \<Rightarrow> u32 \<Rightarrow> neighbor_t option" where
  "find_neighbor r a = find (\<lambda>nb. nb_ip nb = a) (neighbors r)"

definition hop_of :: "route_entry_t \<Rightarrow> data_msg_t \<Rightarrow> u32" where
  "hop_of route m = (if next_hop route = 0 then dst_ip m else next_hop route)"

text \<open>From the choice of the next hop on: a dead neighbour, no neighbour with a data port, or
  the datagram.  \<^verbatim>\<open>sendto\<close> reads \<open>pkt_size\<close> bytes of the packet.\<close>

definition transmit :: "router_t \<Rightarrow> data_msg_t \<Rightarrow> route_entry_t \<Rightarrow> action list option" where
  "transmit r m route =
     (let next_hop_ip = hop_of route m; nh_neighbor = find_neighbor r next_hop_ip in
      if (case nh_neighbor of Some nb \<Rightarrow> \<not> alive nb | None \<Rightarrow> False)
      then Some [log_hop_down r next_hop_ip]
      else
        let out = m\<lparr>ttl := ttl m - 1\<rparr>;
            data_port = (case nh_neighbor of Some nb \<Rightarrow> get_data_port (nb_ctrl_port nb) | None \<Rightarrow> 0);
            pkt_size = 1 + 1 + 4 + 4 + 2 + plen out
        in if data_port = 0 then Some [log_no_match r m]
           else if pkt_size \<le> length (data_bytes out)
           then Some [SendTo Data data_port (take pkt_size (data_bytes out)),
                      log_fwd r m next_hop_ip route (ttl out)]
           else None)"

definition forward_data :: "router_t \<Rightarrow> data_msg_t \<Rightarrow> action list option" where
  "forward_data r m =
     (let match = map_option (\<lambda>i. routes r ! i) (rt_lookup r (dst_ip m)) in
      if (case match of Some e \<Rightarrow> rt_cost e = 0 \<and> next_hop e = 0 | None \<Rightarrow> False)
      then map_option (\<lambda>p. [log_connected r m p]) (payload_str m)
      else if dst_ip m = self_ip r then map_option (\<lambda>p. [log_self r m p]) (payload_str m)
      else if ttl m = 0 then Some [log_drop r]
      else case match of
        None \<Rightarrow> Some [log_no_match r m]
      | Some route \<Rightarrow>
          if INF_COST \<le> unat (rt_cost route) then Some [log_no_match r m]
          else transmit r m route)"

section \<open>What forwarding does\<close>

text \<open>The datagrams among the actions, and the log lines.\<close>

definition sends :: "action list \<Rightarrow> (chan \<times> u16 \<times> byte list) list" where
  "sends acts = List.map_filter (\<lambda>a. case a of SendTo c p b \<Rightarrow> Some (c, p, b) | Print _ \<Rightarrow> None) acts"

definition prints :: "action list \<Rightarrow> string list" where
  "prints acts = List.map_filter (\<lambda>a. case a of Print s \<Rightarrow> Some s | SendTo _ _ _ \<Rightarrow> None) acts"

lemma sends_simps [simp]:
  "sends [] = []" "sends (Print s # as) = sends as"
  "sends (SendTo c p b # as) = (c, p, b) # sends as"
  by (simp_all add: sends_def List.map_filter_simps)

lemma prints_simps [simp]:
  "prints [] = []" "prints (Print s # as) = s # prints as"
  "prints (SendTo c p b # as) = prints as"
  by (simp_all add: prints_def List.map_filter_simps)

lemma log_sends [simp]:
  "sends (log_connected r m p # as) = sends as" "sends (log_self r m p # as) = sends as"
  "sends (log_drop r # as) = sends as" "sends (log_no_match r m # as) = sends as"
  "sends (log_hop_down r h # as) = sends as" "sends (log_fwd r m h e t # as) = sends as"
  by (simp_all add: log_defs)

lemma log_prints [simp]:
  "length (prints (log_connected r m p # as)) = Suc (length (prints as))"
  "length (prints (log_self r m p # as)) = Suc (length (prints as))"
  "length (prints (log_drop r # as)) = Suc (length (prints as))"
  "length (prints (log_no_match r m # as)) = Suc (length (prints as))"
  "length (prints (log_hop_down r h # as)) = Suc (length (prints as))"
  "length (prints (log_fwd r m h e t # as)) = Suc (length (prints as))"
  by (simp_all add: log_defs)

lemma log_hop_down_distinct [simp]:
  "log_hop_down r h \<noteq> log_connected r m p" "log_hop_down r h \<noteq> log_self r m p"
  "log_hop_down r h \<noteq> log_drop r" "log_hop_down r h \<noteq> log_no_match r m"
  "log_hop_down r h \<noteq> log_fwd r m a e t" "log_hop_down r h \<noteq> SendTo ch q bs"
  by (simp_all add: log_defs)

text \<open>A datagram leaves only by this path.\<close>

lemma transmit_sends:
  assumes "transmit r m route = Some acts" "sends acts \<noteq> []"
  obtains nb where "find_neighbor r (hop_of route m) = Some nb" "alive nb"
    "get_data_port (nb_ctrl_port nb) \<noteq> 0" "plen m \<le> length (payload m)"
    "acts = [SendTo Data (get_data_port (nb_ctrl_port nb))
               (take (12 + plen m) (data_bytes (m\<lparr>ttl := ttl m - 1\<rparr>))),
             log_fwd r m (hop_of route m) route (ttl m - 1)]"
  using assms
  by (auto simp: transmit_def Let_def plen_def split: if_splits option.splits)

lemma forward_sends:
  assumes "forward_data r m = Some acts" "sends acts \<noteq> []"
  obtains i nb where "rt_lookup r (dst_ip m) = Some i" "ttl m \<noteq> 0" "dst_ip m \<noteq> self_ip r"
    "unat (rt_cost (routes r ! i)) < INF_COST"
    "find_neighbor r (hop_of (routes r ! i) m) = Some nb" "alive nb"
    "get_data_port (nb_ctrl_port nb) \<noteq> 0" "plen m \<le> length (payload m)"
    "acts = [SendTo Data (get_data_port (nb_ctrl_port nb))
               (take (12 + plen m) (data_bytes (m\<lparr>ttl := ttl m - 1\<rparr>))),
             log_fwd r m (hop_of (routes r ! i) m) (routes r ! i) (ttl m - 1)]"
proof -
  from assms obtain i where i: "rt_lookup r (dst_ip m) = Some i" "ttl m \<noteq> 0" "dst_ip m \<noteq> self_ip r"
    "unat (rt_cost (routes r ! i)) < INF_COST" "transmit r m (routes r ! i) = Some acts"
    by (auto simp: forward_data_def Let_def split: if_splits option.splits)
  from transmit_sends [OF i(5) assms(2)] i that show thesis by metis
qed

lemma transmit_one_line: "transmit r m route = Some acts \<Longrightarrow> length (prints acts) = 1"
  by (auto simp: transmit_def Let_def split: if_splits option.splits)

lemma forward_one_line: "forward_data r m = Some acts \<Longrightarrow> length (prints acts) = 1"
  by (auto simp: forward_data_def Let_def transmit_one_line split: if_splits option.splits)

text \<open>A packet whose length field fits is never read past its end.\<close>

lemma forward_defined: "plen m \<le> length (payload m) \<Longrightarrow> forward_data r m \<noteq> None"
  by (auto simp: forward_data_def transmit_def payload_str_def Let_def plen_def split: option.splits)

text \<open>What the next router's buffer holds once the datagram is in it.\<close>

lemma take_data_bytes:
  "take (12 + n) (data_bytes m) = data_bytes (m\<lparr>payload := take n (payload m)\<rparr>)"
proof -
  define hdr where "hdr = [d_type m, ttl m] @ le32 (src_ip m) @ le32 (dst_ip m) @ le16 (payload_len m)"
  then have "length hdr = 12" by simp
  then have "take (12 + n) (hdr @ payload m) = hdr @ take n (payload m)" by simp
  then show ?thesis by (simp add: data_bytes_def hdr_def del: take_append)
qed

lemma data_received:
  assumes "data_ok m" "plen m \<le> PAYLOAD_SIZE" "length buf = data_size"
  shows "data_of_bytes (recv_into buf (take (12 + plen m) (data_bytes m))) =
    m\<lparr>payload := take (plen m) (payload m) @ drop (12 + plen m) buf\<rparr>"
proof -
  have "length (take (12 + plen m) (data_bytes m)) = 12 + plen m"
    using assms by (simp add: data_ok_def)
  with assms have "recv_into buf (take (12 + plen m) (data_bytes m)) =
      data_bytes (m\<lparr>payload := take (plen m) (payload m)\<rparr>) @ drop (12 + plen m) buf"
    by (simp add: recv_into_fits data_size_def take_data_bytes [symmetric])
  with assms show ?thesis
    by (simp add: data_of_data_bytes data_size_def data_ok_def)
qed

text \<open>
  One hop: a router forwards the packet, and the packet another router then reads from its
  buffer.  Each hop takes one from the TTL, so a packet makes at most as many hops as its TTL
  says, whatever the tables hold.
\<close>

inductive hop :: "data_msg_t \<Rightarrow> data_msg_t \<Rightarrow> bool" where
  hop: "forward_data r m = Some acts \<Longrightarrow> (Data, p, bs) \<in> set (sends acts) \<Longrightarrow>
        length buf = data_size \<Longrightarrow> hop m (data_of_bytes (recv_into buf bs))"

inductive hops :: "nat \<Rightarrow> data_msg_t \<Rightarrow> data_msg_t \<Rightarrow> bool" where
  none: "hops 0 m m"
| more: "hop m m' \<Longrightarrow> hops n m' m'' \<Longrightarrow> hops (Suc n) m m''"

lemma hop_ttl:
  assumes "hop m m'" "data_ok m"
  shows "data_ok m' \<and> Suc (unat (ttl m')) = unat (ttl m) \<and> dst_ip m' = dst_ip m \<and>
         src_ip m' = src_ip m \<and> payload_len m' = payload_len m \<and>
         take (plen m) (payload m') = take (plen m) (payload m)"
  using assms(1)
proof cases
  case (hop r acts p bs buf)
  from hop(3) have "sends acts \<noteq> []" by auto
  from forward_sends [OF hop(2) this] obtain q h e where nz: "ttl m \<noteq> 0"
    and fits: "plen m \<le> length (payload m)"
    and acts: "acts = [SendTo Data q (take (12 + plen m) (data_bytes (m\<lparr>ttl := ttl m - 1\<rparr>))),
      log_fwd r m h e (ttl m - 1)]"
    by metis
  let ?out = "m\<lparr>ttl := ttl m - 1\<rparr>"
  have "plen ?out = plen m" by (simp add: plen_def)
  moreover have "m' = data_of_bytes (recv_into buf (take (12 + plen m) (data_bytes ?out)))"
    using hop(1,3) acts by simp
  ultimately have m': "m' = ?out\<lparr>payload := take (plen m) (payload m) @ drop (12 + plen m) buf\<rparr>"
    using data_received [of ?out buf] assms(2) fits hop(4) by (simp add: data_ok_def)
  have "unat (ttl m - 1) = unat (ttl m) - 1" "0 < unat (ttl m)"
    using nz by (simp_all add: unat_minus_one unat_gt_0)
  then show ?thesis
    using assms(2) fits hop(4) by (simp add: m' data_ok_def data_size_def)
qed

lemma hops_ttl: "hops n m m' \<Longrightarrow> data_ok m \<Longrightarrow> n + unat (ttl m') = unat (ttl m)"
  by (induction rule: hops.induct) (use hop_ttl in force)+

end
