(* ===== verification/Router_Loop.thy ===== *)
theory Router_Loop
  imports Router_DV Router_Forward
begin

text \<open>
  The event loop of \<^verbatim>\<open>src/hw3/starter/router.c\<close>: periodic broadcast, neighbour timeout,
  the control and the data handler, one iteration of the loop, and the invariants of the states
  the loop can reach.  What the environment decides in an iteration (the outcome of
  \<^verbatim>\<open>select\<close>, the datagrams, the clock, the old contents of the receive buffers on the stack)
  is the record \<open>iter_env\<close>.
\<close>

section \<open>Neighbour timeout\<close>

definition poison_route :: "u32 \<Rightarrow> route_entry_t \<Rightarrow> route_entry_t" where
  "poison_route a e =
     (if next_hop e = a \<and> unat (rt_cost e) < INF_COST then e\<lparr>rt_cost := of_nat INF_COST\<rparr> else e)"

definition uses_hop :: "u32 \<Rightarrow> route_entry_t \<Rightarrow> bool" where
  "uses_hop a e \<longleftrightarrow> next_hop e = a \<and> unat (rt_cost e) < INF_COST"

definition set_neighbor :: "router_t \<Rightarrow> nat \<Rightarrow> neighbor_t \<Rightarrow> router_t" where
  "set_neighbor r i nb = r\<lparr>neighbors := (neighbors r)[i := nb]\<rparr>"

definition expired :: "int \<Rightarrow> neighbor_t \<Rightarrow> bool" where
  "expired now nb \<longleftrightarrow> alive nb \<and> DEAD_INTERVAL_SEC \<le> now - last_heard nb"

definition kill_neighbor :: "router_t \<Rightarrow> nat \<Rightarrow> router_t" where
  "kill_neighbor r i =
     (let nb = neighbors r ! i in
      (set_neighbor r i (nb\<lparr>alive := False\<rparr>))\<lparr>routes := map (poison_route (nb_ip nb)) (routes r)\<rparr>)"

definition timeout_step :: "int \<Rightarrow> router_t \<Rightarrow> nat \<Rightarrow> router_t \<times> action list" where
  "timeout_step now r i =
     (let nb = neighbors r ! i in
      if expired now nb then
        let r' = kill_neighbor r i; changed = list_ex (uses_hop (nb_ip nb)) (routes r)
        in (r', if changed then log_table r' ''neighbor-dead'' @ broadcast_dv r' else [])
      else (r, []))"

fun timeout_loop :: "int \<Rightarrow> router_t \<Rightarrow> nat list \<Rightarrow> router_t \<times> action list" where
  "timeout_loop now r [] = (r, [])"
| "timeout_loop now r (i # is) =
     (case timeout_step now r i of
        (r', acts) \<Rightarrow>
          case timeout_loop now r' is of (r'', acts') \<Rightarrow> (r'', acts @ acts'))"

definition check_timeouts :: "int \<Rightarrow> router_t \<Rightarrow> router_t \<times> action list" where
  "check_timeouts now r = timeout_loop now r [0..<length (neighbors r)]"

section \<open>The handlers\<close>

fun neighbor_index :: "neighbor_t list \<Rightarrow> u16 \<Rightarrow> nat option" where
  "neighbor_index [] p = None"
| "neighbor_index (nb # nbs) p =
     (if nb_ctrl_port nb = p then Some 0 else map_option Suc (neighbor_index nbs p))"

definition hear :: "int \<Rightarrow> neighbor_t \<Rightarrow> neighbor_t" where
  "hear now nb = nb\<lparr>last_heard := now, alive := True\<rparr>"

definition handle_ctrl ::
  "int \<Rightarrow> (nat \<Rightarrow> int) \<Rightarrow> byte list \<Rightarrow> u16 \<Rightarrow> byte list \<Rightarrow> router_t \<Rightarrow> (router_t \<times> action list) option"
where
  "handle_ctrl now clk buf from_port dgram r =
     (let msg = dv_of_bytes (recv_into buf dgram) in
      if dgram \<noteq> [] \<and> dv_type msg = MSG_DV then
        (case neighbor_index (neighbors r) from_port of
           None \<Rightarrow> Some (r, [])
         | Some i \<Rightarrow>
             let sender = hear now (neighbors r ! i); r1 = set_neighbor r i sender in
             (case dv_update r1 sender clk msg of
                None \<Rightarrow> None
              | Some (r2, changed) \<Rightarrow>
                  Some (r2, if changed then log_table r2 ''dv-update'' else [])))
      else Some (r, []))"

definition handle_data :: "byte list \<Rightarrow> byte list \<Rightarrow> router_t \<Rightarrow> action list option" where
  "handle_data buf dgram r =
     (let pkt = data_of_bytes (recv_into buf dgram) in
      if dgram \<noteq> [] \<and> d_type pkt = MSG_DATA then forward_data r pkt else Some [])"

section \<open>One iteration and whole runs\<close>

text \<open>
  A receive that fails or returns nothing is an empty datagram; \<open>Idle\<close> is a
  \<^verbatim>\<open>select\<close> that timed out or failed with an error other than \<^verbatim>\<open>EINTR\<close>.
\<close>

datatype select_result =
    Interrupted
  | Idle
  | Ready "(u16 \<times> byte list) option" "byte list option"

record iter_env =
  sel :: select_result
  now :: int
  clk :: "nat \<Rightarrow> int"
  ctrl_buf :: "byte list"
  data_buf :: "byte list"

record rstate =
  router :: router_t
  next_broadcast :: int

definition ctrl_ready :: "select_result \<Rightarrow> (u16 \<times> byte list) option" where
  "ctrl_ready s = (case s of Ready c d \<Rightarrow> c | _ \<Rightarrow> None)"

definition data_ready :: "select_result \<Rightarrow> byte list option" where
  "data_ready s = (case s of Ready c d \<Rightarrow> d | _ \<Rightarrow> None)"

definition periodic_broadcast :: "int \<Rightarrow> rstate \<Rightarrow> rstate \<times> action list" where
  "periodic_broadcast t s =
     (if next_broadcast s \<le> t
      then (s\<lparr>next_broadcast := t + UPDATE_INTERVAL_SEC\<rparr>, broadcast_dv (router s))
      else (s, []))"

definition ctrl_phase :: "iter_env \<Rightarrow> router_t \<Rightarrow> (router_t \<times> action list) option" where
  "ctrl_phase env r =
     (case ctrl_ready (sel env) of
        None \<Rightarrow> Some (r, [])
      | Some (p, dgram) \<Rightarrow> handle_ctrl (now env) (clk env) (ctrl_buf env) p dgram r)"

definition data_phase :: "iter_env \<Rightarrow> router_t \<Rightarrow> action list option" where
  "data_phase env r =
     (case data_ready (sel env) of
        None \<Rightarrow> Some []
      | Some dgram \<Rightarrow> handle_data (data_buf env) dgram r)"

definition main_iter :: "iter_env \<Rightarrow> rstate \<Rightarrow> (rstate \<times> action list) option" where
  "main_iter env s =
     (if sel env = Interrupted then Some (s, [])
      else
        case periodic_broadcast (now env) s of (s1, a1) \<Rightarrow>
        case check_timeouts (now env) (router s1) of (r2, a2) \<Rightarrow>
        case ctrl_phase env r2 of
          None \<Rightarrow> None
        | Some (r3, a3) \<Rightarrow>
            (case data_phase env r3 of
               None \<Rightarrow> None
             | Some a4 \<Rightarrow> Some (s1\<lparr>router := r3\<rparr>, a1 @ a2 @ a3 @ a4)))"

definition main_start :: "int \<Rightarrow> router_t \<Rightarrow> rstate \<times> action list" where
  "main_start t r =
     (\<lparr>router = r, next_broadcast = t + UPDATE_INTERVAL_SEC\<rparr>, log_table r ''init'')"

definition main_stop :: "router_t \<Rightarrow> action list" where
  "main_stop r = [Print (''[R'' @ dec (unat (self_id r)) @ ''] shutdown'' @ [NL])]"

fun main_loop :: "iter_env list \<Rightarrow> rstate \<Rightarrow> (rstate \<times> action list) option" where
  "main_loop [] s = Some (s, main_stop (router s))"
| "main_loop (env # envs) s =
     (case main_iter env s of
        None \<Rightarrow> None
      | Some (s', acts) \<Rightarrow> map_option (\<lambda>(s'', acts'). (s'', acts @ acts')) (main_loop envs s'))"

section \<open>Invariants\<close>

definition nbs_ok :: "router_t \<Rightarrow> bool" where
  "nbs_ok r \<longleftrightarrow>
     length (neighbors r) \<le> MAX_NEIGH \<and> distinct (map nb_ip (neighbors r)) \<and>
     0 \<notin> nb_ip ` set (neighbors r)"

text \<open>A route without a next hop is a connected network or unreachable.\<close>

definition hopless_ok :: "route_entry_t \<Rightarrow> bool" where
  "hopless_ok e \<longleftrightarrow> (next_hop e = 0 \<longrightarrow> rt_cost e = 0 \<or> rt_cost e = of_nat INF_COST)"

text \<open>A route through a dead neighbour is poisoned.\<close>

definition dead_hop_ok :: "neighbor_t list \<Rightarrow> route_entry_t \<Rightarrow> bool" where
  "dead_hop_ok nbs e \<longleftrightarrow>
     (\<forall>nb \<in> set nbs. \<not> alive nb \<longrightarrow> next_hop e = nb_ip nb \<longrightarrow> rt_cost e = of_nat INF_COST)"

definition router_inv :: "router_t \<Rightarrow> bool" where
  "router_inv r \<longleftrightarrow> table_ok r \<and> nbs_ok r \<and> all_routes hopless_ok r \<and>
     all_routes (dead_hop_ok (neighbors r)) r"

lemma INF_word [simp]: "unat (rt_cost e) < INF_COST \<longleftrightarrow> rt_cost e \<noteq> of_nat INF_COST"
proof -
  have "unat (rt_cost e) = INF_COST \<longleftrightarrow> rt_cost e = of_nat INF_COST"
    using unat_INF by (metis word_unat_eq_iff)
  then show ?thesis using unat_u16_bound [of "rt_cost e"] by linarith
qed

lemma INF_word_le [simp]: "INF_COST \<le> unat (rt_cost e) \<longleftrightarrow> rt_cost e = of_nat INF_COST"
  using INF_word [of e] by linarith

lemma blank_ok [simp]:
  "hopless_ok (blank_route t n mk)"
  "0 \<notin> nb_ip ` set nbs \<Longrightarrow> dead_hop_ok nbs (blank_route t n mk)"
  by (auto simp: hopless_ok_def dead_hop_ok_def blank_route_def image_iff)

lemma dv_rewrite_hopless:
  "nb_ip nb \<noteq> 0 \<Longrightarrow> hopless_ok e \<Longrightarrow> hopless_ok (dv_rewrite nb t c e)"
  by (auto simp: dv_rewrite_def hopless_ok_def)

lemma dv_rewrite_dead_hop:
  assumes "dead_hop_ok nbs e" "\<And>x. x \<in> set nbs \<Longrightarrow> nb_ip x = nb_ip nb \<Longrightarrow> alive x"
  shows "dead_hop_ok nbs (dv_rewrite nb t c e)"
  using assms by (auto simp: dv_rewrite_def dead_hop_ok_def)

lemma poison_key [simp]: "route_key (poison_route a e) = route_key e"
  by (simp add: poison_route_def route_key_def)

lemma poison_hopless: "hopless_ok e \<Longrightarrow> hopless_ok (poison_route a e)"
  by (auto simp: poison_route_def hopless_ok_def)

text \<open>Timeouts.\<close>

lemma set_neighbor_simps [simp]:
  "neighbors (set_neighbor r i nb) = (neighbors r)[i := nb]"
  "routes (set_neighbor r i nb) = routes r"
  by (simp_all add: set_neighbor_def)

lemma kill_neighbor_simps [simp]:
  "neighbors (kill_neighbor r i) = (neighbors r)[i := (neighbors r ! i)\<lparr>alive := False\<rparr>]"
  "routes (kill_neighbor r i) = map (poison_route (nb_ip (neighbors r ! i))) (routes r)"
  by (simp_all add: kill_neighbor_def Let_def)

lemma map_update_same: "i < length xs \<Longrightarrow> f y = f (xs ! i) \<Longrightarrow> map f (xs[i := y]) = map f xs"
  by (metis list_update_id map_update)

lemma nbs_ok_update:
  assumes "nbs_ok r" "i < length (neighbors r)" "nb_ip nb = nb_ip (neighbors r ! i)"
    "neighbors r' = (neighbors r)[i := nb]"
  shows "nbs_ok r'"
proof -
  have "map nb_ip (neighbors r') = map nb_ip (neighbors r)"
    using assms map_update_same [of i "neighbors r" nb_ip nb] by simp
  with assms show ?thesis
    by (simp add: nbs_ok_def) (metis image_set)
qed

lemma table_ok_kill: "table_ok r \<Longrightarrow> table_ok (kill_neighbor r i)"
  by (simp add: table_ok_def comp_def)

lemma kill_neighbor_inv:
  assumes inv: "router_inv r" and i: "i < length (neighbors r)"
  shows "router_inv (kill_neighbor r i)"
proof -
  let ?nb = "neighbors r ! i"
  have "dead_hop_ok (neighbors (kill_neighbor r i)) (poison_route (nb_ip ?nb) e)"
    if "dead_hop_ok (neighbors r) e" for e
    using that
    by (auto simp: dead_hop_ok_def poison_route_def dest!: set_update_subset_insert [THEN subsetD])
  moreover have "nbs_ok (kill_neighbor r i)"
    using inv i nbs_ok_update [of r i "?nb\<lparr>alive := False\<rparr>" "kill_neighbor r i"]
    by (simp add: router_inv_def)
  ultimately show ?thesis
    using inv by (auto simp: router_inv_def table_ok_kill all_routes_def poison_hopless)
qed

lemma timeout_step_cases:
  "timeout_step t r i = (r', acts) \<Longrightarrow>
   r' = (if expired t (neighbors r ! i) then kill_neighbor r i else r)"
  by (auto simp: timeout_step_def Let_def split: if_splits)

lemma timeout_loop_inv:
  assumes "router_inv r" "\<forall>i \<in> set is. i < length (neighbors r)" "timeout_loop t r is = (r', acts)"
  shows "router_inv r' \<and> length (neighbors r') = length (neighbors r)"
  using assms
proof (induction "is" arbitrary: r acts)
  case (Cons i "is")
  obtain r1 a1 where step: "timeout_step t r i = (r1, a1)" by (cases "timeout_step t r i")
  have "router_inv r1 \<and> length (neighbors r1) = length (neighbors r)"
    using Cons.prems timeout_step_cases [OF step] by (auto intro: kill_neighbor_inv)
  with Cons.IH [of r1] Cons.prems step show ?case
    by (auto split: prod.splits)
qed simp

lemma check_timeouts_inv:
  "router_inv r \<Longrightarrow> check_timeouts t r = (r', acts) \<Longrightarrow> router_inv r'"
  using timeout_loop_inv [of r "[0..<length (neighbors r)]" t r' acts]
  by (simp add: check_timeouts_def)

text \<open>After the pass no neighbour is left alive that has been silent for the dead interval.\<close>

definition tick :: "int \<Rightarrow> neighbor_t \<Rightarrow> neighbor_t" where
  "tick t nb = (if expired t nb then nb\<lparr>alive := False\<rparr> else nb)"

lemma tick_simps [simp]:
  "alive (tick t nb) \<longleftrightarrow> alive nb \<and> t - last_heard nb < DEAD_INTERVAL_SEC"
  "last_heard (tick t nb) = last_heard nb"
  by (auto simp: tick_def expired_def)

lemma timeout_step_neighbors:
  "timeout_step t r i = (r', acts) \<Longrightarrow> neighbors r' = (neighbors r)[i := tick t (neighbors r ! i)]"
  by (drule timeout_step_cases) (auto simp: tick_def)

lemma timeout_loop_nth:
  assumes "timeout_loop t r is = (r', acts)" "distinct is" "j < length (neighbors r)"
  shows "length (neighbors r') = length (neighbors r) \<and>
    neighbors r' ! j = (if j \<in> set is then tick t (neighbors r ! j) else neighbors r ! j)"
  using assms
proof (induction "is" arbitrary: r acts)
  case Nil
  then show ?case by simp
next
  case (Cons i "is")
  obtain r1 a1 where step: "timeout_step t r i = (r1, a1)" by (cases "timeout_step t r i")
  then obtain acts' where loop: "timeout_loop t r1 is = (r', acts')"
    using Cons.prems(1) by (auto split: prod.splits)
  have r1: "neighbors r1 = (neighbors r)[i := tick t (neighbors r ! i)]"
    by (rule timeout_step_neighbors [OF step])
  with Cons.IH [OF loop] Cons.prems(2,3)
  have "length (neighbors r') = length (neighbors r)"
    "neighbors r' ! j = (if j \<in> set is then tick t (neighbors r1 ! j) else neighbors r1 ! j)"
    by simp_all
  with r1 Cons.prems(2,3) show ?case
    by (cases "j = i") simp_all
qed

lemma check_timeouts_neighbors:
  assumes "check_timeouts t r = (r', acts)"
  shows "neighbors r' = map (tick t) (neighbors r)"
proof (cases "neighbors r = []")
  case True
  with assms show ?thesis by (simp add: check_timeouts_def)
next
  case False
  note nth = timeout_loop_nth [OF assms [unfolded check_timeouts_def]]
  have "length (neighbors r') = length (neighbors r)"
    using nth [of 0] False by simp
  then show ?thesis
    using nth by (intro nth_equalityI) simp_all
qed

text \<open>The control handler.\<close>

lemma neighbor_index_Some:
  "neighbor_index nbs p = Some i \<Longrightarrow> i < length nbs \<and> nb_ctrl_port (nbs ! i) = p"
  by (induction nbs arbitrary: i) (auto split: if_splits)

lemma hear_simps [simp]:
  "nb_ip (hear t nb) = nb_ip nb" "alive (hear t nb)" "last_heard (hear t nb) = t"
  "nb_cost (hear t nb) = nb_cost nb" "nb_ctrl_port (hear t nb) = nb_ctrl_port nb"
  by (simp_all add: hear_def)

lemma dv_fold_inv:
  assumes inv: "router_inv r" and nb: "nb \<in> set (neighbors r)" "alive nb"
  shows "router_inv (fst (dv_fold r nb c i ds ch))"
proof -
  let ?r' = "fst (dv_fold r nb c i ds ch)"
  have ip: "nb_ip nb \<noteq> 0" and distinct: "distinct (map nb_ip (neighbors r))"
    and zero: "0 \<notin> nb_ip ` set (neighbors r)"
    using inv nb by (auto simp: router_inv_def nbs_ok_def image_iff)
  have uniq: "alive x" if "x \<in> set (neighbors r)" "nb_ip x = nb_ip nb" for x
    using that nb distinct by (metis distinct_map inj_onD)
  have "all_routes hopless_ok ?r'"
    using inv ip by (intro dv_fold_all_routes) (auto simp: router_inv_def dv_rewrite_hopless)
  moreover have "all_routes (dead_hop_ok (neighbors r)) ?r'"
    using inv zero uniq
    by (intro dv_fold_all_routes) (auto simp: router_inv_def intro!: dv_rewrite_dead_hop)
  moreover have "table_ok ?r'"
    using inv dv_fold_refines [of r nb c i ds ch] by (simp add: router_inv_def)
  moreover have "neighbors ?r' = neighbors r"
    using same_config_simps [OF dv_fold_config] by simp
  ultimately show ?thesis
    using inv by (simp add: router_inv_def nbs_ok_def)
qed

lemma hear_inv:
  assumes inv: "router_inv r" and i: "i < length (neighbors r)"
  shows "router_inv (set_neighbor r i (hear t (neighbors r ! i)))"
proof -
  let ?nbs = "(neighbors r)[i := hear t (neighbors r ! i)]"
  have "dead_hop_ok ?nbs e" if "dead_hop_ok (neighbors r) e" for e
    using that
    by (auto simp: dead_hop_ok_def dest!: set_update_subset_insert [THEN subsetD])
  moreover have "nbs_ok (set_neighbor r i (hear t (neighbors r ! i)))"
    using inv i nbs_ok_update [of r i "hear t (neighbors r ! i)"] by (simp add: router_inv_def)
  ultimately show ?thesis
    using inv by (auto simp: router_inv_def table_ok_def all_routes_def)
qed

lemma dv_update_Some:
  assumes "dv_update r nb c (dv_of_bytes bs) = Some res"
  shows "res = dv_fold r nb c 0 (take (unat (ntohs (num (dv_of_bytes bs)))) (ents (dv_of_bytes bs))) False"
proof (cases "unat (ntohs (num (dv_of_bytes bs))) \<le> MAX_DEST")
  case True
  with assms show ?thesis by (simp add: dv_update_fold dv_of_bytes_def)
next
  case False
  with assms show ?thesis by (simp add: dv_update_def dv_loop_overrun)
qed

lemma handle_ctrl_cases:
  assumes "handle_ctrl t c buf p dgram r = Some (r', acts)"
  obtains "r' = r" "acts = []"
  | i ds where "neighbor_index (neighbors r) p = Some i"
      "r' = fst (dv_fold (set_neighbor r i (hear t (neighbors r ! i))) (hear t (neighbors r ! i)) c 0 ds False)"
      "acts = [] \<or> acts = log_table r' ''dv-update''"
proof -
  let ?msg = "dv_of_bytes (recv_into buf dgram)"
  show thesis
  proof (cases "dgram \<noteq> [] \<and> dv_type ?msg = MSG_DV \<and> neighbor_index (neighbors r) p \<noteq> None")
    case False
    with assms that(1) show thesis
      by (auto simp: handle_ctrl_def Let_def split: if_splits)
  next
    case True
    then obtain i where i: "neighbor_index (neighbors r) p = Some i" by auto
    let ?nb = "hear t (neighbors r ! i)"
    let ?r1 = "set_neighbor r i ?nb"
    from assms True i obtain r2 ch where upd: "dv_update ?r1 ?nb c ?msg = Some (r2, ch)"
      by (auto simp: handle_ctrl_def Let_def split: option.splits)
    with assms True i have "r' = r2" "acts = (if ch then log_table r2 ''dv-update'' else [])"
      by (simp_all add: handle_ctrl_def Let_def)
    with dv_update_Some [OF upd] that(2) [OF i] show thesis
      by (metis fst_conv)
  qed
qed

lemma ctrl_phase_neighbors:
  assumes "ctrl_phase env r = Some (r', acts)"
  shows "neighbors r' = neighbors r \<or>
    (\<exists>j < length (neighbors r). neighbors r' = (neighbors r)[j := hear (now env) (neighbors r ! j)])"
proof (cases "ctrl_ready (sel env)")
  case None
  with assms show ?thesis by (simp add: ctrl_phase_def)
next
  case (Some pd)
  with assms obtain p dgram where
    "handle_ctrl (now env) (clk env) (ctrl_buf env) p dgram r = Some (r', acts)"
    by (cases pd) (auto simp: ctrl_phase_def)
  then show ?thesis
  proof (cases rule: handle_ctrl_cases)
    case (2 i ds)
    with neighbor_index_Some [OF 2(1)] same_config_simps [OF dv_fold_config] show ?thesis
      by (metis set_neighbor_simps(1))
  qed simp
qed

lemma handle_ctrl_inv:
  assumes inv: "router_inv r" and h: "handle_ctrl t c buf p dgram r = Some (r', acts)"
  shows "router_inv r'"
  using h
proof (cases rule: handle_ctrl_cases)
  case 1
  with inv show ?thesis by simp
next
  case (2 i ds)
  from neighbor_index_Some [OF 2(1)] have "i < length (neighbors r)" by simp
  moreover from this have "hear t (neighbors r ! i) \<in> set ((neighbors r)[i := hear t (neighbors r ! i)])"
    by (simp add: set_update_memI)
  ultimately show ?thesis
    unfolding 2(2) by (intro dv_fold_inv hear_inv inv) simp_all
qed

text \<open>Runs.\<close>

lemma ctrl_phase_inv:
  "router_inv r \<Longrightarrow> ctrl_phase env r = Some (r', acts) \<Longrightarrow> router_inv r'"
  by (auto simp: ctrl_phase_def handle_ctrl_inv split: option.splits prod.splits)

lemma main_iter_cases:
  assumes "main_iter env s = Some (s', acts)"
  obtains "sel env = Interrupted" "s' = s" "acts = []"
  | s1 a1 r2 a2 r3 a3 a4 where "sel env \<noteq> Interrupted"
      "periodic_broadcast (now env) s = (s1, a1)"
      "check_timeouts (now env) (router s) = (r2, a2)"
      "ctrl_phase env r2 = Some (r3, a3)" "data_phase env r3 = Some a4"
      "s' = s1\<lparr>router := r3\<rparr>" "acts = a1 @ a2 @ a3 @ a4"
proof (cases "sel env = Interrupted")
  case True
  with assms that(1) show thesis by (simp add: main_iter_def)
next
  case False
  obtain s1 a1 where bc: "periodic_broadcast (now env) s = (s1, a1)"
    by (cases "periodic_broadcast (now env) s")
  then have s1: "router s1 = router s"
    by (auto simp: periodic_broadcast_def split: if_splits)
  obtain r2 a2 where to: "check_timeouts (now env) (router s) = (r2, a2)"
    by (cases "check_timeouts (now env) (router s)")
  from assms False bc s1 to obtain r3 a3 where ctrl: "ctrl_phase env r2 = Some (r3, a3)"
    by (auto simp: main_iter_def split: option.splits)
  from assms False bc s1 to ctrl obtain a4 where data: "data_phase env r3 = Some a4"
    by (auto simp: main_iter_def split: option.splits)
  from assms False bc s1 to ctrl data have "s' = s1\<lparr>router := r3\<rparr>" "acts = a1 @ a2 @ a3 @ a4"
    by (auto simp: main_iter_def)
  with that(2) [OF False bc to ctrl data] show thesis .
qed

lemma main_iter_inv:
  assumes "main_iter env s = Some (s', acts)" "router_inv (router s)"
  shows "router_inv (router s')"
  using assms(1)
proof (cases rule: main_iter_cases)
  case (2 s1 a1 r2 a2 r3 a3 a4)
  with assms(2) show ?thesis
    by (auto intro: ctrl_phase_inv check_timeouts_inv)
qed (use assms(2) in simp)

text \<open>The states of the loop.\<close>

inductive reachable :: "router_t \<Rightarrow> rstate \<Rightarrow> bool" for r0 :: router_t where
  start: "reachable r0 (fst (main_start t r0))"
| iter: "reachable r0 s \<Longrightarrow> main_iter env s = Some (s', acts) \<Longrightarrow> reachable r0 s'"

inductive_cases reachable_elim: "reachable r0 s"

lemma reachable_inv: "reachable r0 s \<Longrightarrow> router_inv r0 \<Longrightarrow> router_inv (router s)"
  by (induction rule: reachable.induct) (auto simp: main_start_def intro: main_iter_inv)

text \<open>Everything the loop does leaves connected networks alone.\<close>

definition connected :: "router_t \<Rightarrow> u32 \<times> u32 \<Rightarrow> route_entry_t \<Rightarrow> bool" where
  "connected r k e \<longleftrightarrow> route_map r k = Some e \<and> rt_cost e = 0 \<and> next_hop e = 0"

lemma dv_rewrite_connected:
  "rt_cost e = 0 \<Longrightarrow> next_hop e = 0 \<Longrightarrow> nb_ip nb \<noteq> 0 \<Longrightarrow> dv_rewrite nb t c e = e"
  by (simp add: dv_rewrite_def)

lemma dv_entry_update_connected:
  assumes "table_ok r" "connected r k e" "nb_ip nb \<noteq> 0"
  shows "connected (fst (dv_entry_update r nb t1 t2 d)) k e"
proof (cases "k = (net d, emask d)")
  case True
  with assms rt.upsert_known [of r k e "dv_rewrite nb t2 (ntohs (ecost d))" t1] show ?thesis
    by (simp add: connected_def dv_entry_update_upsert dv_rewrite_connected)
next
  case False
  with assms rt.upsert_other [of r k "(net d, emask d)" "dv_rewrite nb t2 (ntohs (ecost d))" t1]
  show ?thesis by (simp add: connected_def dv_entry_update_upsert)
qed

lemma dv_fold_connected:
  assumes "table_ok r" "connected r k e" "nb_ip nb \<noteq> 0"
  shows "connected (fst (dv_fold r nb c i ds ch)) k e"
  using assms
proof (induction ds arbitrary: r i ch)
  case (Cons d ds)
  obtain r' x where upd: "dv_entry_update r nb (c (2 * i)) (c (2 * i + 1)) d = (r', x)"
    by (cases "dv_entry_update r nb (c (2 * i)) (c (2 * i + 1)) d")
  with Cons.prems dv_entry_update_connected dv_entry_update_refines
  have "connected r' k e" "table_ok r'" by (metis fst_conv)+
  with Cons.IH [of r'] Cons.prems(3) upd show ?case by simp
qed simp

lemma map_of_map_keyed:
  "(\<And>x. f (g x) = f x) \<Longrightarrow>
   map_of (map (\<lambda>e. (f e, e)) (map g es)) k = map_option g (map_of (map (\<lambda>e. (f e, e)) es) k)"
  by (induction es) auto

lemma kill_neighbor_connected:
  "connected r k e \<Longrightarrow> nb_ip (neighbors r ! i) \<noteq> 0 \<Longrightarrow> connected (kill_neighbor r i) k e"
  using map_of_map_keyed [of route_key "poison_route (nb_ip (neighbors r ! i))" "routes r" k, OF poison_key]
  by (auto simp: connected_def route_map_def comp_def) (simp add: poison_route_def)

lemma nbs_ok_ip: "nbs_ok r \<Longrightarrow> i < length (neighbors r) \<Longrightarrow> nb_ip (neighbors r ! i) \<noteq> 0"
  by (metis image_eqI nbs_ok_def nth_mem)

lemma timeout_loop_connected:
  assumes "router_inv r" "connected r k e" "\<forall>i \<in> set is. i < length (neighbors r)"
    "timeout_loop t r is = (r', acts)"
  shows "connected r' k e"
  using assms
proof (induction "is" arbitrary: r acts)
  case (Cons i "is")
  obtain r1 a1 where step: "timeout_step t r i = (r1, a1)" by (cases "timeout_step t r i")
  have i: "i < length (neighbors r)" using Cons.prems(3) by simp
  have "nb_ip (neighbors r ! i) \<noteq> 0"
    using Cons.prems(1) i by (intro nbs_ok_ip) (simp_all add: router_inv_def)
  with Cons.prems i timeout_step_cases [OF step]
  have "router_inv r1" "connected r1 k e" "length (neighbors r1) = length (neighbors r)"
    by (auto intro: kill_neighbor_inv kill_neighbor_connected)
  with Cons.IH [of r1] Cons.prems(3,4) step show ?case by (auto split: prod.splits)
qed simp

lemma handle_ctrl_connected:
  assumes "router_inv r" "connected r k e" "handle_ctrl t c buf p dgram r = Some (r', acts)"
  shows "connected r' k e"
  using assms(3)
proof (cases rule: handle_ctrl_cases)
  case 1
  with assms(2) show ?thesis by simp
next
  case (2 i ds)
  from neighbor_index_Some [OF 2(1)] have i: "i < length (neighbors r)" by simp
  then have "nb_ip (neighbors r ! i) \<noteq> 0"
    using assms(1) by (intro nbs_ok_ip) (simp_all add: router_inv_def)
  moreover have "table_ok (set_neighbor r i x)" "connected (set_neighbor r i x) k e" for x
    using assms by (simp_all add: table_ok_def connected_def route_map_def router_inv_def)
  ultimately show ?thesis unfolding 2(2) by (intro dv_fold_connected) simp_all
qed

lemma main_iter_connected:
  assumes it: "main_iter env s = Some (s', acts)" and inv: "router_inv (router s)"
    and con: "connected (router s) k e"
  shows "connected (router s') k e"
  using it
proof (cases rule: main_iter_cases)
  case (2 s1 a1 r2 a2 r3 a3 a4)
  have "connected r2 k e"
    using timeout_loop_connected [OF inv con _ 2(3) [unfolded check_timeouts_def]] by simp
  moreover have "router_inv r2" using check_timeouts_inv [OF inv 2(3)] .
  ultimately have "connected r3 k e"
    using 2(4) by (auto simp: ctrl_phase_def handle_ctrl_connected split: option.splits prod.splits)
  with 2 show ?thesis by simp
qed (use con in simp)

lemma reachable_connected:
  "reachable r0 s \<Longrightarrow> router_inv r0 \<Longrightarrow> connected r0 k e \<Longrightarrow> connected (router s) k e"
  by (induction rule: reachable.induct)
     (auto simp: main_start_def intro: main_iter_connected reachable_inv)

end
