(* ===== verification/Router_Net.thy ===== *)
theory Router_Net
  imports Router_Loop
begin

text \<open>
  A network of routers running \<^verbatim>\<open>src/hw3/starter/router.c\<close> on one host, as
  \<^verbatim>\<open>test.sh\<close> starts them: node \<open>a\<close> runs the event loop of its own router, a DV
  datagram carries the control port of its sender, and a datagram in flight may be delivered
  late, repeatedly or never.  The main result is that no reachable table holds an invented
  distance: every finite cost is the cost of a path of configured links to a router that had the
  destination in its configuration.
\<close>

section \<open>Paths\<close>

text \<open>
  \<open>path_cost R0 a k c\<close>: over the initial routers \<open>R0\<close>, node \<open>a\<close> reaches destination
  \<open>k\<close> at cost \<open>c\<close> by a chain of neighbour links ending at a configured route.
\<close>

inductive path_cost :: "('n \<Rightarrow> router_t) \<Rightarrow> 'n \<Rightarrow> u32 \<times> u32 \<Rightarrow> nat \<Rightarrow> bool" for R0 where
  configured: "e \<in> set (routes (R0 a)) \<Longrightarrow> rt_cost e \<noteq> of_nat INF_COST \<Longrightarrow>
    path_cost R0 a (route_key e) (unat (rt_cost e))"
| link: "nb \<in> set (neighbors (R0 a)) \<Longrightarrow> nb_ctrl_port nb = ctrl_port (R0 b) \<Longrightarrow>
    path_cost R0 b k c \<Longrightarrow> path_cost R0 a k (unat (nb_cost nb) + c)"

definition sound_route :: "('n \<Rightarrow> router_t) \<Rightarrow> 'n \<Rightarrow> route_entry_t \<Rightarrow> bool" where
  "sound_route R0 a e \<longleftrightarrow>
     (rt_cost e \<noteq> of_nat INF_COST \<longrightarrow> path_cost R0 a (route_key e) (unat (rt_cost e)))"

text \<open>A router of node \<open>a\<close> in the network: its own ports and links, and sound routes.\<close>

definition sound_node :: "('n \<Rightarrow> router_t) \<Rightarrow> 'n \<Rightarrow> router_t \<Rightarrow> bool" where
  "sound_node R0 a r \<longleftrightarrow>
     table_ok r \<and> ctrl_port r = ctrl_port (R0 a) \<and>
     map (\<lambda>nb. (nb_ctrl_port nb, nb_cost nb)) (neighbors r) =
       map (\<lambda>nb. (nb_ctrl_port nb, nb_cost nb)) (neighbors (R0 a)) \<and>
     all_routes (sound_route R0 a) r"

text \<open>A DV datagram that some state of node \<open>b\<close> sent.\<close>

definition sound_dgram :: "('n \<Rightarrow> router_t) \<Rightarrow> u16 \<Rightarrow> byte list \<Rightarrow> bool" where
  "sound_dgram R0 p bs \<longleftrightarrow>
     (\<exists>b r nb. p = ctrl_port (R0 b) \<and> sound_node R0 b r \<and> bs = dv_bytes (send_dv_msg r nb))"

section \<open>The network\<close>

record 'n network =
  node :: "'n \<Rightarrow> rstate"
  flight :: "(u16 \<times> u16 \<times> byte list) set"

definition ctrl_sends :: "action list \<Rightarrow> (u16 \<times> byte list) set" where
  "ctrl_sends acts = {(p, bs). SendTo Ctrl p bs \<in> set acts}"

definition net_start :: "('n \<Rightarrow> router_t) \<Rightarrow> ('n \<Rightarrow> int) \<Rightarrow> 'n network" where
  "net_start R0 t = \<lparr>node = (\<lambda>a. fst (main_start (t a) (R0 a))), flight = {}\<rparr>"

definition deliverable :: "('n, 'z) network_scheme \<Rightarrow> 'n \<Rightarrow> iter_env \<Rightarrow> bool" where
  "deliverable N a env \<longleftrightarrow>
     length (ctrl_buf env) = dv_size \<and>
     (\<forall>p dgram. ctrl_ready (sel env) = Some (p, dgram) \<longrightarrow> dgram \<noteq> [] \<longrightarrow>
        (p, ctrl_port (router (node N a)), dgram) \<in> flight N)"

inductive net_step :: "'n network \<Rightarrow> 'n network \<Rightarrow> bool" where
  run: "deliverable N a env \<Longrightarrow> main_iter env (node N a) = Some (s', acts) \<Longrightarrow>
    net_step N (N\<lparr>node := (node N)(a := s'),
                  flight := flight N \<union>
                    {(ctrl_port (router (node N a)), q, bs) | q bs. (q, bs) \<in> ctrl_sends acts}\<rparr>)"

inductive net_reachable :: "('n \<Rightarrow> router_t) \<Rightarrow> 'n network \<Rightarrow> bool" for R0 where
  start: "net_reachable R0 (net_start R0 t)"
| step: "net_reachable R0 N \<Longrightarrow> net_step N N' \<Longrightarrow> net_reachable R0 N'"

inductive_cases net_step_elim: "net_step N N'"

section \<open>Soundness is kept\<close>

lemma sound_blank [simp]: "sound_route R0 a (blank_route t n mk)"
  by (simp add: sound_route_def blank_route_def)

lemma sound_node_init: "table_ok (R0 a) \<Longrightarrow> sound_node R0 a (R0 a)"
  by (auto simp: sound_node_def all_routes_def sound_route_def intro: path_cost.configured)

lemma sound_route_poison: "sound_route R0 a e \<Longrightarrow> sound_route R0 a (poison_route h e)"
  by (auto simp: sound_route_def poison_route_def)

lemma map_nb_update:
  "i < length nbs \<Longrightarrow> nb_ctrl_port nb = nb_ctrl_port (nbs ! i) \<Longrightarrow> nb_cost nb = nb_cost (nbs ! i) \<Longrightarrow>
   map (\<lambda>nb. (nb_ctrl_port nb, nb_cost nb)) (nbs[i := nb]) = map (\<lambda>nb. (nb_ctrl_port nb, nb_cost nb)) nbs"
  by (rule map_update_same) simp_all

lemma kill_ctrl_port [simp]: "ctrl_port (kill_neighbor r i) = ctrl_port r"
  by (simp add: kill_neighbor_def set_neighbor_def Let_def)

lemma set_neighbor_ctrl_port [simp]: "ctrl_port (set_neighbor r i nb) = ctrl_port r"
  by (simp add: set_neighbor_def)

lemma sound_node_kill:
  "sound_node R0 a r \<Longrightarrow> i < length (neighbors r) \<Longrightarrow> sound_node R0 a (kill_neighbor r i)"
  by (auto simp: sound_node_def table_ok_kill map_nb_update all_routes_def sound_route_poison)

lemma sound_node_hear:
  "sound_node R0 a r \<Longrightarrow> i < length (neighbors r) \<Longrightarrow>
   sound_node R0 a (set_neighbor r i (hear t (neighbors r ! i)))"
  by (auto simp: sound_node_def map_nb_update table_ok_def all_routes_def)

text \<open>One advertised cost, believed by a router whose link leads to the advertiser.\<close>

lemma sound_dv_rewrite:
  assumes "sound_route R0 a e" "nb \<in> set nbs"
    and "map (\<lambda>nb. (nb_ctrl_port nb, nb_cost nb)) nbs = map (\<lambda>nb. (nb_ctrl_port nb, nb_cost nb)) (neighbors (R0 a))"
    and "nb_ctrl_port nb = ctrl_port (R0 b)"
    and adv: "c \<noteq> of_nat INF_COST \<Longrightarrow> path_cost R0 b (route_key e) (unat c)"
  shows "sound_route R0 a (dv_rewrite nb t c e)"
proof (cases "dv_rewrite nb t c e = e \<or> rt_cost (dv_rewrite nb t c e) = of_nat INF_COST")
  case True
  with assms(1) show ?thesis by (auto simp: sound_route_def)
next
  case False
  from assms(2,3) obtain nb0 where nb0: "nb0 \<in> set (neighbors (R0 a))"
    "nb_ctrl_port nb0 = nb_ctrl_port nb" "nb_cost nb0 = nb_cost nb"
    by (metis (mono_tags, lifting) Pair_inject imageE image_eqI list.set_map)
  from False have cost: "unat (rt_cost (dv_rewrite nb t c e)) = min INF_COST (unat (nb_cost nb) + unat c)"
    and c: "unat c < INF_COST"
    using unat_ucast_dv_cost [of nb c] by (auto simp: dv_rewrite_def split: if_splits)
  moreover have "unat (rt_cost (dv_rewrite nb t c e)) \<noteq> INF_COST"
    using False unat_INF by (metis word_unat_eq_iff)
  ultimately have "unat (rt_cost (dv_rewrite nb t c e)) = unat (nb_cost nb0) + unat c"
    using nb0(3) by (simp add: min_def split: if_splits)
  moreover have "c \<noteq> of_nat INF_COST" using c by auto
  ultimately show ?thesis
    using path_cost.link [of nb0 R0 a b "route_key e" "unat c"] nb0(1) adv nb0(2) assms(4)
    by (simp add: sound_route_def)
qed

text \<open>Delivering a sound datagram.\<close>

lemma advertised_sound:
  assumes "sound_node R0 b r" "d \<in> set (ents (send_dv_msg r nb))" "ntohs (ecost d) \<noteq> of_nat INF_COST"
  shows "path_cost R0 b (net d, emask d) (unat (ntohs (ecost d)))"
  using assms
  by (auto simp: sound_node_def send_dv_msg_ents advertise_def Let_def all_routes_def sound_route_def
      route_key_def split: if_splits)

lemma delivered_ents:
  assumes "sound_node R0 b r" "length buf = dv_size"
  shows "take (unat (ntohs (num (dv_of_bytes (recv_into buf (dv_bytes (send_dv_msg r nb)))))))
           (ents (dv_of_bytes (recv_into buf (dv_bytes (send_dv_msg r nb))))) =
         ents (send_dv_msg r nb)"
proof -
  have ok: "table_ok r" using assms(1) by (simp add: sound_node_def)
  then have "length (ents (send_dv_msg r nb)) = length (routes r)" "length (routes r) \<le> MAX_DEST"
    by (simp_all add: send_dv_msg_ents table_ok_def)
  then show ?thesis
    using dv_received [of "send_dv_msg r nb" buf] assms(2) send_dv_msg_num [OF ok] by simp
qed

lemma handle_ctrl_delivered:
  assumes "table_ok rb" "length buf = dv_size" "neighbor_index (neighbors r) p = Some i"
  shows "handle_ctrl t c buf p (dv_bytes (send_dv_msg rb nb)) r =
    (case dv_fold (set_neighbor r i (hear t (neighbors r ! i))) (hear t (neighbors r ! i)) c 0
            (map (advertise nb) (routes rb)) False of
       (r', changed) \<Rightarrow> Some (r', if changed then log_table r' ''dv-update'' else []))"
proof -
  let ?m = "send_dv_msg rb nb" and ?got = "dv_of_bytes (recv_into buf (dv_bytes (send_dv_msg rb nb)))"
  have len: "length (ents ?m) = length (routes rb)" "length (routes rb) \<le> MAX_DEST"
    using assms(1) by (simp_all add: send_dv_msg_ents table_ok_def)
  then have got: "take (length (routes rb)) (ents ?got) = ents ?m" "length (ents ?got) = MAX_DEST"
    using dv_received [of ?m buf] assms(2) by (simp_all add: dv_of_bytes_def)
  have "recv_into buf (dv_bytes ?m) = dv_bytes ?m @ drop (length (dv_bytes ?m)) buf"
    using len assms(2) by (simp add: recv_into_fits length_dv_bytes dv_size_def)
  then have n: "num ?got = num ?m" and ty: "dv_type ?got = MSG_DV"
    by (simp_all add: dv_of_bytes_header) (simp add: send_dv_msg_def Let_def)
  have "dv_bytes ?m \<noteq> []" by (simp add: dv_bytes_def)
  moreover have "dv_update r1 nb1 c ?got = Some (dv_fold r1 nb1 c 0 (map (advertise nb) (routes rb)) False)"
    for r1 nb1
    using dv_update_fold [of ?got r1 nb1 c] got len n send_dv_msg_num [OF assms(1), of nb]
      send_dv_msg_ents [OF assms(1), of nb] by simp
  ultimately show ?thesis
    using assms(3) ty by (simp add: handle_ctrl_def Let_def split: prod.split)
qed

lemma sound_handle_ctrl:
  assumes node: "sound_node R0 a r" and dgram: "dgram \<noteq> [] \<Longrightarrow> sound_dgram R0 p dgram"
    and len: "length buf = dv_size" and h: "handle_ctrl t c buf p dgram r = Some (r', acts)"
  shows "sound_node R0 a r' \<and> ctrl_sends acts = {}"
proof -
  let ?msg = "dv_of_bytes (recv_into buf dgram)"
  show ?thesis
  proof (cases "dgram \<noteq> [] \<and> dv_type ?msg = MSG_DV \<and> neighbor_index (neighbors r) p \<noteq> None")
    case False
    with h node show ?thesis
      by (auto simp: handle_ctrl_def Let_def ctrl_sends_def split: if_splits)
  next
    case True
    then obtain i where i: "neighbor_index (neighbors r) p = Some i" by auto
    let ?nb = "hear t (neighbors r ! i)"
    let ?r1 = "set_neighbor r i ?nb"
    let ?ds = "take (unat (ntohs (num ?msg))) (ents ?msg)"
    from h True i obtain ch where upd: "dv_update ?r1 ?nb c ?msg = Some (r', ch)"
      and acts: "acts = (if ch then log_table r' ''dv-update'' else [])"
      by (auto simp: handle_ctrl_def Let_def split: option.splits)
    have r': "r' = fst (dv_fold ?r1 ?nb c 0 ?ds False)"
      using dv_update_Some [OF upd] by (metis fst_conv)
    obtain b rb nb where p: "p = ctrl_port (R0 b)" and b: "sound_node R0 b rb"
      and bytes: "dgram = dv_bytes (send_dv_msg rb nb)"
      using dgram True by (auto simp: sound_dgram_def)
    have len_i: "i < length (neighbors r)" "nb_ctrl_port (neighbors r ! i) = p"
      using neighbor_index_Some [OF i] by auto
    then have r1: "sound_node R0 a ?r1" using node by (simp add: sound_node_hear)
    have "all_routes (sound_route R0 a) r'"
      unfolding r'
    proof (rule dv_fold_all_routes)
      show "all_routes (sound_route R0 a) ?r1" using r1 by (simp add: sound_node_def)
    next
      fix u d e
      assume "d \<in> set ?ds" and e: "sound_route R0 a e" "route_key e = (net d, emask d)"
      then have "d \<in> set (ents (send_dv_msg rb nb))"
        using delivered_ents [OF b len] bytes by simp
      from advertised_sound [OF b this] e r1 len_i p
      show "sound_route R0 a (dv_rewrite ?nb u (ntohs (ecost d)) e)"
        by (intro sound_dv_rewrite [where nbs = "neighbors ?r1" and b = b])
           (auto simp: sound_node_def set_update_memI)
    qed simp
    moreover have "table_ok r'"
      unfolding r' using dv_fold_refines [of ?r1] r1 by (simp add: sound_node_def)
    ultimately have "sound_node R0 a r'"
      using r1 same_config_simps [OF dv_fold_config, of ?r1 ?nb c 0 ?ds False]
      by (simp add: sound_node_def r')
    then show ?thesis by (auto simp: acts ctrl_sends_def log_table_def)
  qed
qed

text \<open>Broadcasts send sound datagrams.\<close>

definition sound_sends :: "('n \<Rightarrow> router_t) \<Rightarrow> 'n \<Rightarrow> action list \<Rightarrow> bool" where
  "sound_sends R0 a acts \<longleftrightarrow>
     (\<forall>(q, bs) \<in> ctrl_sends acts. sound_dgram R0 (ctrl_port (R0 a)) bs)"

lemma sound_sends_append [simp]:
  "sound_sends R0 a (xs @ ys) \<longleftrightarrow> sound_sends R0 a xs \<and> sound_sends R0 a ys"
  by (auto simp: sound_sends_def ctrl_sends_def)

lemma sound_sends_none [simp]: "ctrl_sends acts = {} \<Longrightarrow> sound_sends R0 a acts"
  by (simp add: sound_sends_def)

lemma ctrl_sends_log [simp]: "ctrl_sends (log_table r why) = {}" "ctrl_sends [] = {}"
  by (auto simp: ctrl_sends_def log_table_def)

lemma sound_broadcast: "sound_node R0 a r \<Longrightarrow> sound_sends R0 a (broadcast_dv r)"
  by (auto simp: sound_sends_def ctrl_sends_def broadcast_dv_def sound_dgram_def send_dv_eq
      sound_node_def split: if_splits)

lemma sound_timeout_loop:
  assumes "sound_node R0 a r" "\<forall>i \<in> set is. i < length (neighbors r)" "timeout_loop t r is = (r', acts)"
  shows "sound_node R0 a r' \<and> sound_sends R0 a acts"
  using assms
proof (induction "is" arbitrary: r acts)
  case (Cons i "is")
  obtain r1 a1 where step: "timeout_step t r i = (r1, a1)" by (cases "timeout_step t r i")
  with Cons.prems obtain a2 where loop: "timeout_loop t r1 is = (r', a2)" and acts: "acts = a1 @ a2"
    by (auto split: prod.splits)
  have r1: "sound_node R0 a r1" "length (neighbors r1) = length (neighbors r)"
    using Cons.prems(1,2) timeout_step_cases [OF step] by (auto intro: sound_node_kill)
  moreover from this(1) step have "sound_sends R0 a a1"
    by (auto simp: timeout_step_def Let_def sound_broadcast split: if_splits)
  ultimately show ?case
    using Cons.IH [OF r1(1) _ loop] Cons.prems(2) acts by simp
qed simp

lemma sends_forward_Data:
  "forward_data r m = Some acts \<Longrightarrow> ctrl_sends acts = {}"
  by (auto simp: forward_data_def transmit_def Let_def ctrl_sends_def log_defs
      split: if_splits option.splits)

lemma data_phase_no_ctrl: "data_phase env r = Some acts \<Longrightarrow> ctrl_sends acts = {}"
  by (auto simp: data_phase_def handle_data_def Let_def sends_forward_Data split: option.splits if_splits)

lemma sound_main_iter:
  assumes node: "sound_node R0 a (router s)" and it: "main_iter env s = Some (s', acts)"
    and len: "length (ctrl_buf env) = dv_size"
    and dg: "\<And>p dgram. ctrl_ready (sel env) = Some (p, dgram) \<Longrightarrow> dgram \<noteq> [] \<Longrightarrow> sound_dgram R0 p dgram"
  shows "sound_node R0 a (router s') \<and> sound_sends R0 a acts"
  using it
proof (cases rule: main_iter_cases)
  case 1
  with node show ?thesis by simp
next
  case (2 s1 a1 r2 a2 r3 a3 a4)
  have "sound_sends R0 a a1"
    using 2(2) node by (auto simp: periodic_broadcast_def sound_broadcast split: if_splits)
  moreover have r2: "sound_node R0 a r2 \<and> sound_sends R0 a a2"
    using sound_timeout_loop [OF node _ 2(3) [unfolded check_timeouts_def]] by simp
  moreover have "sound_node R0 a r3 \<and> ctrl_sends a3 = {}"
    using 2(4) r2 dg sound_handle_ctrl [of R0 a r2 _ _ "ctrl_buf env"] len
    by (auto simp: ctrl_phase_def split: option.splits) blast+
  ultimately show ?thesis
    using 2 data_phase_no_ctrl [of env r3 a4] by simp
qed

lemma net_reachable_sound:
  assumes "net_reachable R0 N" "\<And>a. table_ok (R0 a)"
  shows "(\<forall>a. sound_node R0 a (router (node N a))) \<and>
         (\<forall>(p, q, bs) \<in> flight N. sound_dgram R0 p bs)"
  using assms(1)
proof (induction rule: net_reachable.induct)
  case (start t)
  then show ?case
    using assms(2) by (simp add: net_start_def main_start_def sound_node_init)
next
  case (step N N')
  from step.hyps(2) obtain a env s' acts where N': "N' = N\<lparr>node := (node N)(a := s'),
      flight := flight N \<union>
        {(ctrl_port (router (node N a)), q, bs) | q bs. (q, bs) \<in> ctrl_sends acts}\<rparr>"
    and dv: "deliverable N a env" and it: "main_iter env (node N a) = Some (s', acts)"
    by (rule net_step_elim)
  have node: "sound_node R0 a (router (node N a))" using step.IH by simp
  have "\<And>p dgram. ctrl_ready (sel env) = Some (p, dgram) \<Longrightarrow> dgram \<noteq> [] \<Longrightarrow> sound_dgram R0 p dgram"
    using dv step.IH by (auto simp: deliverable_def)
  with sound_main_iter [OF node it] dv
  have "sound_node R0 a (router s')" "sound_sends R0 a acts"
    by (auto simp: deliverable_def)
  moreover have "ctrl_port (router (node N a)) = ctrl_port (R0 a)"
    using node by (simp add: sound_node_def)
  ultimately show ?case
    using step.IH N' by (auto simp: sound_sends_def)
qed

end
