(* ===== verification/Scan.thy ===== *)
theory Scan
  imports Prelude
begin

text \<open>
  The parts of the C library's text input the programs rely on: \<^verbatim>\<open>fgets\<close>, the
  \<^verbatim>\<open>%s\<close> and \<^verbatim>\<open>%d\<close> directives of \<^verbatim>\<open>sscanf\<close>, \<^verbatim>\<open>atoi\<close>
  and \<^verbatim>\<open>inet_aton\<close> (the 4.4BSD forms with one to four parts, each decimal, octal or
  hexadecimal).  A number that does not fit an \<^verbatim>\<open>int\<close> is undefined behaviour in C and
  reported as such.
\<close>

section \<open>Directives of sscanf\<close>

definition skip_ws :: "string \<Rightarrow> string" where
  "skip_ws s = dropWhile isspace s"

text \<open>\<^verbatim>\<open>%ns\<close>: skip white space, then one to \<open>n\<close> other characters.\<close>

definition scan_s :: "nat \<Rightarrow> string \<Rightarrow> (string \<times> string) option" where
  "scan_s n s =
     (let r = skip_ws s; tok = takeWhile (\<lambda>c. \<not> isspace c) (take n r)
      in if tok = [] then None else Some (tok, drop (length tok) r))"

text \<open>\<^verbatim>\<open>%d\<close>: skip white space, an optional sign, then digits.\<close>

definition scan_d :: "string \<Rightarrow> (int \<times> string) option" where
  "scan_d s =
     (let r = skip_ws s;
          neg = (r \<noteq> [] \<and> hd r = CHR ''-'');
          r1 = (if r \<noteq> [] \<and> (hd r = CHR ''-'' \<or> hd r = CHR ''+'') then tl r else r);
          ds = takeWhile isdigit r1
      in if ds = [] then None
         else Some (if neg then - int (dec_val ds) else int (dec_val ds), drop (length ds) r1))"

definition is_int :: "int \<Rightarrow> bool" where
  "is_int v \<longleftrightarrow> - (2 ^ 31) \<le> v \<and> v < 2 ^ 31"

text \<open>\<^verbatim>\<open>atoi\<close>: the leading number, 0 when there is none.\<close>

definition atoi :: "string \<Rightarrow> int" where
  "atoi s = (case scan_d s of Some (v, _) \<Rightarrow> v | None \<Rightarrow> 0)"

lemma skip_ws_nonspace [simp]: "s \<noteq> [] \<Longrightarrow> \<not> isspace (hd s) \<Longrightarrow> skip_ws s = s"
  by (cases s) (auto simp: skip_ws_def)

lemma skip_ws_Cons_space [simp]: "isspace c \<Longrightarrow> skip_ws (c # s) = skip_ws s"
  by (simp add: skip_ws_def)

lemma scan_s_token:
  assumes "tok \<noteq> []" "\<forall>c \<in> set tok. \<not> isspace c" "length tok \<le> n" "rest = [] \<or> isspace (hd rest)"
  shows "scan_s n (tok @ rest) = Some (tok, rest)"
proof -
  have hd: "skip_ws (tok @ rest) = tok @ rest"
    using assms(1,2) by (cases tok) auto
  have "takeWhile (\<lambda>c. \<not> isspace c) (take n (tok @ rest)) = tok"
  proof (cases "n - length tok")
    case 0
    with assms show ?thesis by (simp add: takeWhile_eq_all_conv)
  next
    case (Suc k)
    have "takeWhile (\<lambda>c. \<not> isspace c) (take (n - length tok) rest) = []"
      using assms(4) Suc by (cases rest) auto
    with assms(2,3) show ?thesis by simp
  qed
  with hd assms(1) show ?thesis by (simp add: scan_s_def)
qed

lemma scan_s_bound: "scan_s n s = Some (tok, rest) \<Longrightarrow> tok \<noteq> [] \<and> length tok \<le> n"
  using length_takeWhile_le [of "\<lambda>c. \<not> isspace c" "take n (skip_ws s)"]
  by (auto simp: scan_s_def Let_def split: if_splits)

lemma isspace_not_digit: "isdigit c \<Longrightarrow> \<not> isspace c"
  by (auto simp: isdigit_def isspace_def code_def)

lemma dec_head: "isdigit (hd (dec n))"
  by (rule dec_digits [OF hd_in_set [OF dec_nonempty]])

lemma takeWhile_digits:
  "\<forall>c \<in> set ds. isdigit c \<Longrightarrow> rest = [] \<or> \<not> isdigit (hd rest) \<Longrightarrow>
   takeWhile isdigit (ds @ rest) = ds"
  by (cases rest) (auto simp: takeWhile_append)

lemma not_sign_digit: "isdigit c \<Longrightarrow> c \<noteq> CHR ''-'' \<and> c \<noteq> CHR ''+''"
  by (auto simp: isdigit_def code_def)

lemma scan_d_dec:
  assumes "rest = [] \<or> \<not> isdigit (hd rest)"
  shows "scan_d (dec n @ rest) = Some (int n, rest)"
proof -
  have "skip_ws (dec n @ rest) = dec n @ rest"
    using dec_head [of n] isspace_not_digit by (cases "dec n") auto
  moreover have "takeWhile isdigit (dec n @ rest) = dec n"
    using assms dec_digits by (intro takeWhile_digits) auto
  moreover have "hd (dec n @ rest) \<noteq> CHR ''-'' \<and> hd (dec n @ rest) \<noteq> CHR ''+''"
    using not_sign_digit [OF dec_head [of n]] by (cases "dec n") auto
  ultimately show ?thesis by (simp add: scan_d_def Let_def)
qed

section \<open>Lines\<close>

text \<open>
  \<^verbatim>\<open>fgets(line, n, f)\<close> until the end of the file: at most \<open>n - 1\<close> characters, ending
  with the first newline.  The string the program then sees ends at the first NUL.
\<close>

definition fgets_one :: "nat \<Rightarrow> string \<Rightarrow> string" where
  "fgets_one n s =
     (let pre = takeWhile (\<lambda>c. c \<noteq> NL) (take (n - 1) s)
      in if length pre < length (take (n - 1) s) then pre @ [NL] else pre)"

lemma fgets_one_progress: "1 < n \<Longrightarrow> s \<noteq> [] \<Longrightarrow> fgets_one n s \<noteq> []"
  by (cases s; cases "n - 1") (auto simp: fgets_one_def Let_def)

function fgets_lines :: "nat \<Rightarrow> string \<Rightarrow> string list" where
  "fgets_lines n s =
     (if s = [] \<or> n \<le> 1 then []
      else cstr_of (fgets_one n s) # fgets_lines n (drop (length (fgets_one n s)) s))"
  by pat_completeness auto
termination
proof (relation "measure (\<lambda>(n, s). length s)")
  fix n :: nat and s :: string
  assume "\<not> (s = [] \<or> n \<le> (1::nat))"
  then show "((n, drop (length (fgets_one n s)) s), n, s) \<in> measure (\<lambda>(n, s). length s)"
    using fgets_one_progress [of n s] by (cases s) auto
qed simp

declare fgets_lines.simps [simp del]

lemma fgets_one_prefix: "\<exists>r. s = fgets_one n s @ r"
proof -
  let ?t = "take (n - 1) s" and ?P = "\<lambda>c. c \<noteq> NL"
  have t: "?t = takeWhile ?P ?t @ dropWhile ?P ?t" by simp
  have "\<exists>r. ?t = fgets_one n s @ r"
  proof (cases "dropWhile ?P ?t")
    case Nil
    with t have w: "takeWhile ?P ?t = ?t" by (metis append_Nil2)
    show ?thesis unfolding fgets_one_def Let_def w by simp
  next
    case (Cons c r)
    then have "c = NL" by (metis (full_types) hd_dropWhile list.distinct(1) list.sel(1))
    then have u: "?t = (takeWhile ?P ?t @ [NL]) @ r" using t unfolding Cons by (metis append_Cons append_Nil append_assoc)
    then have "length (takeWhile ?P ?t) < length ?t" by (metis append_assoc append_Cons length_append less_add_same_cancel1 length_greater_0_conv list.distinct(1))
    then show ?thesis using u by (auto simp: fgets_one_def Let_def)
  qed
  then show ?thesis by (metis append_assoc append_take_drop_id)
qed

text \<open>The lines of a text without NULs are the text.\<close>

lemma concat_fgets_lines: "NUL \<notin> set s \<Longrightarrow> 1 < n \<Longrightarrow> concat (fgets_lines n s) = s"
proof (induction n s rule: fgets_lines.induct)
  case (1 n s)
  show ?case
  proof (cases "s = []")
    case False
    obtain r where r: "s = fgets_one n s @ r" using fgets_one_prefix by blast
    then have d: "drop (length (fgets_one n s)) s = r" by (metis append_eq_conv_conj)
    have "NUL \<notin> set (fgets_one n s)" "NUL \<notin> set r" using 1(2) r by (metis Un_iff set_append)+
    with 1 False d have "concat (fgets_lines n r) = r" by simp
    then show ?thesis
      using False 1(3) \<open>NUL \<notin> set (fgets_one n s)\<close> r by (subst fgets_lines.simps) (simp add: d)
  qed (simp add: fgets_lines.simps)
qed

lemma fgets_lines_no_NUL: "l \<in> set (fgets_lines n s) \<Longrightarrow> NUL \<notin> set l"
  by (induction n s rule: fgets_lines.induct) (subst (asm) (2) fgets_lines.simps, auto split: if_splits)

section \<open>Internet addresses\<close>

definition is_octal :: "char \<Rightarrow> bool" where
  "is_octal c \<longleftrightarrow> 48 \<le> code c \<and> code c \<le> 55"

definition hex_digit :: "char \<Rightarrow> nat option" where
  "hex_digit c =
     (if isdigit c then Some (code c - 48)
      else if 97 \<le> code c \<and> code c \<le> 102 then Some (code c - 87)
      else if 65 \<le> code c \<and> code c \<le> 70 then Some (code c - 55)
      else None)"

text \<open>A C number: hexadecimal after \<^verbatim>\<open>0x\<close>, octal after \<^verbatim>\<open>0\<close>, else decimal.\<close>

definition c_number :: "string \<Rightarrow> nat option" where
  "c_number s =
     (case s of
        [] \<Rightarrow> None
      | c # cs \<Rightarrow>
          if c = CHR ''0'' \<and> cs \<noteq> [] \<and> (hd cs = CHR ''x'' \<or> hd cs = CHR ''X'') then
            (if tl cs \<noteq> [] \<and> list_all (\<lambda>d. hex_digit d \<noteq> None) (tl cs)
             then Some (foldl (\<lambda>v d. 16 * v + the (hex_digit d)) 0 (tl cs)) else None)
          else if c = CHR ''0'' then
            (if list_all is_octal cs then Some (foldl (\<lambda>v d. 8 * v + (code d - 48)) 0 cs) else None)
          else if list_all isdigit s then Some (dec_val s) else None)"

fun split_dots :: "string \<Rightarrow> string list" where
  "split_dots [] = [[]]"
| "split_dots (c # cs) =
     (if c = CHR ''.'' then [] # split_dots cs
      else case split_dots cs of [] \<Rightarrow> [[c]] | p # ps \<Rightarrow> (c # p) # ps)"

fun all_some :: "'a option list \<Rightarrow> 'a list option" where
  "all_some [] = Some []"
| "all_some (x # xs) =
     (case x of None \<Rightarrow> None
      | Some v \<Rightarrow> (case all_some xs of None \<Rightarrow> None | Some vs \<Rightarrow> Some (v # vs)))"

text \<open>The address in host order; the last part fills the bytes that are left.\<close>

definition addr_value :: "nat list \<Rightarrow> nat option" where
  "addr_value ps =
     (case ps of
        [a] \<Rightarrow> if a < 2 ^ 32 then Some a else None
      | [a, b] \<Rightarrow> if a < 256 \<and> b < 2 ^ 24 then Some (a * 2 ^ 24 + b) else None
      | [a, b, c] \<Rightarrow>
          if a < 256 \<and> b < 256 \<and> c < 2 ^ 16 then Some (a * 2 ^ 24 + b * 2 ^ 16 + c) else None
      | [a, b, c, d] \<Rightarrow>
          if a < 256 \<and> b < 256 \<and> c < 256 \<and> d < 256
          then Some (a * 2 ^ 24 + b * 2 ^ 16 + c * 2 ^ 8 + d) else None
      | _ \<Rightarrow> None)"

definition inet_aton :: "string \<Rightarrow> u32 option" where
  "inet_aton s =
     (let body = takeWhile (\<lambda>c. \<not> isspace c) s in
      case all_some (map c_number (split_dots body)) of
        None \<Rightarrow> None
      | Some ps \<Rightarrow> map_option (\<lambda>v. htonl (of_nat v)) (addr_value ps))"

lemma split_dots_nodot: "CHR ''.'' \<notin> set s \<Longrightarrow> split_dots s = [s]"
  by (induction s) auto

lemma split_dots_append:
  "CHR ''.'' \<notin> set a \<Longrightarrow> split_dots (a @ CHR ''.'' # rest) = a # split_dots rest"
  by (induction a) auto

lemma dot_notin_dec: "CHR ''.'' \<notin> set (dec n)"
  using dec_digits [of "CHR ''.''" n] by (auto simp: isdigit_def code_def)

lemma dec_0: "dec 0 = ''0''"
  by (simp add: dec.simps digit_char_def) code_simp

lemma dec_head_0: "hd (dec n) = CHR ''0'' \<Longrightarrow> n = 0"
proof (induction n rule: dec.induct)
  case (1 n)
  show ?case
  proof (cases "n < 10")
    case True
    with 1(2) have "char_of (48 + n) = (CHR ''0'' :: char)"
      by (simp add: dec.simps [of n] digit_char_def)
    then have "code (char_of (48 + n)) = code CHR ''0''" by simp
    with True show ?thesis by (simp add: code_def)
  next
    case False
    then have "hd (dec n) = hd (dec (n div 10))"
      by (simp add: dec.simps [of n] hd_append)
    with 1 False have "n div 10 = 0" by simp
    with False show ?thesis by linarith
  qed
qed

lemma c_number_dec [simp]: "c_number (dec n) = Some n"
proof (cases "n = 0")
  case True
  then show ?thesis by (simp add: dec_0 c_number_def)
next
  case False
  then obtain c cs where d: "dec n = c # cs" "c \<noteq> CHR ''0''"
    using dec_head_0 [of n] by (cases "dec n") auto
  moreover have "list_all isdigit (dec n)"
    using dec_digits by (auto simp: list_all_iff)
  ultimately show ?thesis
    using dec_val_dec [of n] by (simp add: c_number_def)
qed

text \<open>A dotted quad in decimal denotes its four bytes.\<close>

lemma inet_aton_quad:
  assumes "a < 256" "b < 256" "c < 256" "d < 256"
  shows "inet_aton (dec a @ ''.'' @ dec b @ ''.'' @ dec c @ ''.'' @ dec d) =
    Some (htonl (of_nat (a * 2 ^ 24 + b * 2 ^ 16 + c * 2 ^ 8 + d)))"
proof -
  let ?s = "dec a @ ''.'' @ dec b @ ''.'' @ dec c @ ''.'' @ dec d"
  have "\<forall>x \<in> set ?s. \<not> isspace x"
    using dec_digits isspace_not_digit by (auto simp: isspace_def code_def)
  then have body: "takeWhile (\<lambda>c. \<not> isspace c) ?s = ?s"
    by (simp only: takeWhile_eq_all_conv)
  have split: "split_dots ?s = [dec a, dec b, dec c, dec d]"
    by (simp add: split_dots_append split_dots_nodot dot_notin_dec)
  show ?thesis
    unfolding inet_aton_def Let_def body split
    using assms by (simp add: addr_value_def)
qed

end
