(* ===== verification/Router_Conf.thy ===== *)
theory Router_Conf
  imports Router_Loop Scan
begin

text \<open>
  Reading the configuration file: \<^verbatim>\<open>trim\<close> and \<^verbatim>\<open>parse_conf\<close> of
  \<^verbatim>\<open>src/hw3/starter/router.c\<close>.  A call of \<^verbatim>\<open>die\<close> is an error value with its
  message; the use of a variable \<^verbatim>\<open>sscanf\<close> did not fill, a number out of range and the
  write through the null pointer of a full table are \<open>Undefined\<close>.
\<close>

section \<open>Addresses print and parse\<close>

lemma or_add: "a AND b = 0 \<Longrightarrow> a OR b = (a::'a::len word) + b"
  by (metis disjunctive_add_eq_or)

lemma of_le32_sum:
  "of_le32 a b c d = of_nat (unat d * 2 ^ 24 + unat c * 2 ^ 16 + unat b * 2 ^ 8 + unat a)"
proof -
  let ?a = "ucast a :: u32" and ?b = "push_bit 8 (ucast b) :: u32"
  let ?c = "push_bit 16 (ucast c) :: u32" and ?d = "push_bit 24 (ucast d) :: u32"
  have "?a AND (?b OR ?c OR ?d) = 0" "?b AND (?c OR ?d) = 0" "?c AND ?d = 0"
    by (rule bit_word_eqI; auto simp: bit_simps dest!: bit_imp_le_length)+
  then have "of_le32 a b c d = ?a + (?b + (?c + ?d))"
    by (simp add: of_le32_def or_add or.assoc)
  also have "\<dots> = of_nat (unat a) + of_nat (unat b) * 2 ^ 8 + of_nat (unat c) * 2 ^ 16
      + of_nat (unat d) * 2 ^ 24"
    by (simp add: push_bit_eq_mult)
  also have "\<dots> = of_nat (unat d * 2 ^ 24 + unat c * 2 ^ 16 + unat b * 2 ^ 8 + unat a)"
    by (simp only: of_nat_add of_nat_mult of_nat_power of_nat_numeral add.commute add.left_commute)
  finally show ?thesis .
qed

lemma inet_aton_ipstr: "inet_aton (ipstr w) = Some w"
proof -
  let ?a = "ucast w :: byte" and ?b = "ucast (drop_bit 8 w) :: byte"
  let ?c = "ucast (drop_bit 16 w) :: byte" and ?d = "ucast (drop_bit 24 w) :: byte"
  have "inet_aton (ipstr w) = Some (htonl (of_le32 ?d ?c ?b ?a))"
    unfolding of_le32_sum using inet_aton_quad [of "unat ?a" "unat ?b" "unat ?c" "unat ?d"]
    by (simp add: ipstr_def le32_def unat_u8_bound del: of_nat_add of_nat_mult)
  also have "htonl (of_le32 ?d ?c ?b ?a) = of_le32 ?a ?b ?c ?d"
    by (simp add: htonl_def)
  finally show ?thesis by simp
qed

interpretation dotted: text_codec "\<lambda>w. True" ipstr inet_aton
  by unfold_locales (rule inet_aton_ipstr)

section \<open>The parser\<close>

datatype conf_error = Die string | Undefined

record parse_state =
  ps_router :: router_t
  in_routes :: bool
  in_neigh :: bool

definition trim :: "string \<Rightarrow> string" where
  "trim s = rev (dropWhile isspace (rev s))"

definition parse_router_id :: "string \<Rightarrow> parse_state \<Rightarrow> conf_error + parse_state" where
  "parse_router_id line ps =
     (case scan_d (drop 9 line) of
        Some (v, _) \<Rightarrow>
          if is_int v then Inr (ps\<lparr>ps_router := (ps_router ps)\<lparr>self_id := of_int v\<rparr>\<rparr>) else Inl Undefined
      | None \<Rightarrow> Inl Undefined)"

definition parse_self_ip :: "string \<Rightarrow> parse_state \<Rightarrow> conf_error + parse_state" where
  "parse_self_ip line ps =
     (case scan_s 63 (drop 7 line) of
        Some (ip, _) \<Rightarrow>
          (case inet_aton ip of
             Some a \<Rightarrow> Inr (ps\<lparr>ps_router := (ps_router ps)\<lparr>self_ip := a\<rparr>\<rparr>)
           | None \<Rightarrow> Inl (Die ''bad self_ip''))
      | None \<Rightarrow> Inl Undefined)"

definition parse_listen_port :: "string \<Rightarrow> parse_state \<Rightarrow> conf_error + parse_state" where
  "parse_listen_port line ps =
     (case scan_d (drop 11 line) of
        Some (p, _) \<Rightarrow>
          if is_int p then Inr (ps\<lparr>ps_router := (ps_router ps)\<lparr>ctrl_port := of_int p\<rparr>\<rparr>) else Inl Undefined
      | None \<Rightarrow> Inl Undefined)"

text \<open>The four words of a route line, and the three fields of a neighbour line.\<close>

definition route_words :: "string \<Rightarrow> (string \<times> string \<times> string \<times> string) option" where
  "route_words line =
     (case scan_s 63 line of None \<Rightarrow> None | Some (w1, r1) \<Rightarrow>
      case scan_s 63 r1 of None \<Rightarrow> None | Some (w2, r2) \<Rightarrow>
      case scan_s 63 r2 of None \<Rightarrow> None | Some (w3, r3) \<Rightarrow>
      case scan_s 15 r3 of None \<Rightarrow> None | Some (w4, r4) \<Rightarrow> Some (w1, w2, w3, w4))"

definition neighbor_words :: "string \<Rightarrow> (string \<times> int \<times> int) option" where
  "neighbor_words line =
     (case scan_s 63 line of None \<Rightarrow> None | Some (w1, r1) \<Rightarrow>
      case scan_d r1 of None \<Rightarrow> None | Some (p, r2) \<Rightarrow>
      case scan_d r2 of None \<Rightarrow> None | Some (c, r3) \<Rightarrow> Some (w1, p, c))"

definition parse_route :: "int \<Rightarrow> string \<Rightarrow> parse_state \<Rightarrow> conf_error + parse_state" where
  "parse_route t line ps =
     (case route_words line of
        None \<Rightarrow> Inr ps
      | Some (nw, mk, nh, ifn) \<Rightarrow>
          (case (inet_aton nw, inet_aton mk, inet_aton nh) of
             (Some a1, Some a2, Some a3) \<Rightarrow>
               (case rt_find_or_add t (ps_router ps) a1 a2 of
                  (r, None) \<Rightarrow> Inl Undefined
                | (r, Some i) \<Rightarrow>
                    Inr (ps\<lparr>ps_router := set_route r i
                      ((routes r ! i)\<lparr>next_hop := a3, rt_cost := (if a3 = 0 then 0 else 1),
                        iface := take 7 ifn, last_update := t\<rparr>)\<rparr>))
           | _ \<Rightarrow> Inl (Die (''bad route line: '' @ line))))"

definition parse_neighbor :: "int \<Rightarrow> string \<Rightarrow> parse_state \<Rightarrow> conf_error + parse_state" where
  "parse_neighbor t line ps =
     (case neighbor_words line of
        None \<Rightarrow> Inr ps
      | Some (ip, port, cost) \<Rightarrow>
          if \<not> (is_int port \<and> is_int cost) then Inl Undefined
          else (case inet_aton ip of
             None \<Rightarrow> Inl (Die ''bad neighbor ip'')
           | Some a \<Rightarrow>
               let r = ps_router ps in
               if MAX_NEIGH \<le> length (neighbors r) then Inl (Die ''too many neighbors'')
               else Inr (ps\<lparr>ps_router := r\<lparr>neighbors := neighbors r @
                      [\<lparr>nb_ip = a, nb_ctrl_port = of_int port, nb_cost = of_int cost,
                        last_heard = t, alive = True\<rparr>]\<rparr>\<rparr>)))"

definition parse_line :: "int \<Rightarrow> string \<Rightarrow> parse_state \<Rightarrow> conf_error + parse_state" where
  "parse_line t raw ps =
     (let line = trim raw in
      if line = [] \<or> hd line = CHR ''#'' then Inr ps
      else if starts_with ''router_id'' line then parse_router_id line ps
      else if starts_with ''self_ip'' line then parse_self_ip line ps
      else if starts_with ''listen_port'' line then parse_listen_port line ps
      else if starts_with ''routes'' line then Inr (ps\<lparr>in_routes := True, in_neigh := False\<rparr>)
      else if starts_with ''neighbors'' line then Inr (ps\<lparr>in_routes := False, in_neigh := True\<rparr>)
      else if in_routes ps then parse_route t line ps
      else if in_neigh ps then parse_neighbor t line ps
      else Inr ps)"

text \<open>\<open>t i\<close> is the clock at the line number \<open>i\<close>.\<close>

fun parse_lines :: "(nat \<Rightarrow> int) \<Rightarrow> nat \<Rightarrow> string list \<Rightarrow> parse_state \<Rightarrow> conf_error + parse_state" where
  "parse_lines t i [] ps = Inr ps"
| "parse_lines t i (l # ls) ps =
     (case parse_line (t i) l ps of Inl e \<Rightarrow> Inl e | Inr ps' \<Rightarrow> parse_lines t (Suc i) ls ps')"

definition empty_router :: router_t where
  "empty_router = \<lparr>self_id = 0, self_ip = 0, ctrl_port = 0, neighbors = [], routes = []\<rparr>"

text \<open>The file is what \<^verbatim>\<open>fopen\<close> gave: an error text or the contents.\<close>

definition parse_conf :: "(nat \<Rightarrow> int) \<Rightarrow> string \<Rightarrow> string + string \<Rightarrow> conf_error + router_t" where
  "parse_conf t path file =
     (case file of
        Inl err \<Rightarrow> Inl (Die (''open '' @ path @ '': '' @ err))
      | Inr contents \<Rightarrow>
          (case parse_lines t 0 (fgets_lines MAX_LINE contents)
                  \<lparr>ps_router = empty_router, in_routes = False, in_neigh = False\<rparr> of
             Inl e \<Rightarrow> Inl e
           | Inr ps \<Rightarrow>
               if self_ip (ps_router ps) = 0 \<or> ctrl_port (ps_router ps) = 0
               then Inl (Die ''missing self_ip or listen_port'')
               else Inr (ps_router ps)))"

section \<open>What a configuration guarantees\<close>

definition conf_route :: "route_entry_t \<Rightarrow> bool" where
  "conf_route e \<longleftrightarrow> rt_cost e = (if next_hop e = 0 then 0 else 1)"

definition conf_inv :: "router_t \<Rightarrow> bool" where
  "conf_inv r \<longleftrightarrow> table_ok r \<and> length (neighbors r) \<le> MAX_NEIGH \<and>
     (\<forall>nb \<in> set (neighbors r). alive nb) \<and> all_routes conf_route r"

lemma conf_inv_simps [simp]:
  "conf_inv (r\<lparr>self_id := x\<rparr>) = conf_inv r" "conf_inv (r\<lparr>self_ip := y\<rparr>) = conf_inv r"
  "conf_inv (r\<lparr>ctrl_port := z\<rparr>) = conf_inv r"
  by (simp_all add: conf_inv_def table_ok_def all_routes_def)

lemma conf_inv_empty [simp]: "conf_inv empty_router"
  by (simp add: conf_inv_def empty_router_def table_ok_def all_routes_def)

lemma all_routes_set_route:
  assumes other: "\<And>j. j < length (routes r) \<Longrightarrow> j \<noteq> i \<Longrightarrow> P (routes r ! j)" and e: "P e"
  shows "all_routes P (set_route r i e)"
proof -
  have "P ((routes r)[i := e] ! j)" if "j < length (routes r)" for j
    using other [OF that] e that by (cases "j = i") simp_all
  then show ?thesis by (auto simp: all_routes_def set_route_def in_set_conv_nth)
qed

lemma parse_neighbor_inv:
  "conf_inv (ps_router ps) \<Longrightarrow> parse_neighbor t line ps = Inr ps' \<Longrightarrow> conf_inv (ps_router ps')"
  by (auto simp: parse_neighbor_def Let_def conf_inv_def table_ok_def all_routes_def
      split: option.splits if_splits)

lemma parse_route_inv:
  assumes inv: "conf_inv (ps_router ps)" and p: "parse_route t line ps = Inr ps'"
  shows "conf_inv (ps_router ps')"
proof (cases "ps' = ps")
  case True
  with inv show ?thesis by simp
next
  case False
  with p obtain a1 a2 a3 ifn r i
    where fa: "rt_find_or_add t (ps_router ps) a1 a2 = (r, Some i)"
      and ps': "ps_router ps' = set_route r i ((routes r ! i)\<lparr>next_hop := a3,
        rt_cost := (if a3 = 0 then 0 else 1), iface := take 7 ifn, last_update := t\<rparr>)"
    by (auto simp: parse_route_def split: option.splits prod.splits)
  have ok: "table_ok r" "i < length (routes r)"
    using rt.found [of "ps_router ps" t "(a1, a2)" r i] inv fa by (auto simp: conf_inv_def)
  have "table_ok (ps_router ps')"
    unfolding ps' using ok by (intro table_ok_update) (simp_all add: route_key_def)
  moreover have "neighbors (ps_router ps') = neighbors (ps_router ps)"
    using same_config_simps [OF same_config_find_or_add [OF fa]] by (simp add: ps' set_route_def)
  moreover have "\<forall>j < length (routes r). j \<noteq> i \<longrightarrow> routes r ! j \<in> set (routes (ps_router ps))"
    using fa by (auto elim!: find_or_add_cases simp: nth_append)
  then have "all_routes conf_route (ps_router ps')"
    unfolding ps' using inv
    by (intro all_routes_set_route) (auto simp: conf_route_def conf_inv_def all_routes_def)
  ultimately show ?thesis using inv by (simp add: conf_inv_def)
qed

lemma parse_line_inv:
  "conf_inv (ps_router ps) \<Longrightarrow> parse_line t line ps = Inr ps' \<Longrightarrow> conf_inv (ps_router ps')"
  by (auto simp: parse_line_def Let_def parse_router_id_def parse_self_ip_def parse_listen_port_def
      split: if_splits option.splits dest: parse_route_inv parse_neighbor_inv)

lemma parse_lines_inv:
  "conf_inv (ps_router ps) \<Longrightarrow> parse_lines t i ls ps = Inr ps' \<Longrightarrow> conf_inv (ps_router ps')"
  by (induction ls arbitrary: i ps) (auto split: sum.splits dest: parse_line_inv)

lemma parse_conf_inv: "parse_conf t path file = Inr r \<Longrightarrow> conf_inv r"
  by (auto simp: parse_conf_def split: sum.splits if_splits dest!: parse_lines_inv [rotated])

section \<open>Lines written in the documented format\<close>

lemma dot_char: "isspace CHR ''.'' = False"
  by (simp add: isspace_def code_def)

lemma ipstr_nonspace: "c \<in> set (ipstr a) \<Longrightarrow> \<not> isspace c"
  by (auto simp: ipstr_def le32_def dot_char dest!: dec_digits isspace_not_digit)

lemma length_dec_byte: "n < 1000 \<Longrightarrow> length (dec n) \<le> 3"
  by (simp add: dec.simps [of n] dec.simps [of "n div 10"] dec.simps [of "n div 10 div 10"])

lemma length_ipstr: "length (ipstr a) \<le> 15"
proof -
  have b: "length (dec (unat (b :: byte))) \<le> 3" for b
    using unat_u8_bound [of b] by (intro length_dec_byte) simp
  show ?thesis
    using b [of "ucast a"] b [of "ucast (drop_bit 8 a)"] b [of "ucast (drop_bit 16 a)"]
      b [of "ucast (drop_bit 24 a)"]
    by (simp add: ipstr_def le32_def)
qed

lemma ipstr_hd: "ipstr a \<noteq> [] \<and> isdigit (hd (ipstr a))"
  using dec_head [of "unat (ucast a :: byte)"] by (simp add: ipstr_def le32_def hd_append)

text \<open>A route line as the handout's configuration files write it.\<close>

definition route_text :: "u32 \<Rightarrow> u32 \<Rightarrow> u32 \<Rightarrow> string \<Rightarrow> string" where
  "route_text n mk nh ifn = ipstr n @ [SP] @ ipstr mk @ [SP] @ ipstr nh @ [SP] @ ifn"

definition neighbor_text :: "u32 \<Rightarrow> nat \<Rightarrow> nat \<Rightarrow> string" where
  "neighbor_text a port cost = ipstr a @ [SP] @ dec port @ [SP] @ dec cost"

lemma isspace_SP [simp]: "isspace SP"
  by (simp add: isspace_def)

lemma scan_s_ip: "rest = [] \<or> isspace (hd rest) \<Longrightarrow> scan_s 63 (ipstr a @ rest) = Some (ipstr a, rest)"
  using ipstr_nonspace [of _ a] length_ipstr [of a] ipstr_hd [of a]
  by (intro scan_s_token) auto

lemma scan_s_SP: "scan_s n (SP # s) = scan_s n s"
  by (simp add: scan_s_def)

lemma scan_d_SP: "scan_d (SP # s) = scan_d s"
  by (simp add: scan_d_def)

lemma route_words_text:
  assumes "ifn \<noteq> []" "\<forall>c \<in> set ifn. \<not> isspace c" "length ifn \<le> 15"
  shows "route_words (route_text n mk nh ifn) = Some (ipstr n, ipstr mk, ipstr nh, ifn)"
  using scan_s_token [of ifn 15 "[]"] assms
  by (simp add: route_words_def route_text_def scan_s_ip scan_s_SP)

lemma not_isdigit_SP: "isdigit SP = False"
  by (simp add: isdigit_def code_def)

lemma neighbor_words_text:
  "neighbor_words (neighbor_text a port cost) = Some (ipstr a, int port, int cost)"
  using scan_d_dec [of "[]" cost] scan_d_dec [of "SP # dec cost" port] not_isdigit_SP
  by (auto simp: neighbor_words_def neighbor_text_def scan_s_ip scan_d_SP)

lemma trim_id: "s \<noteq> [] \<Longrightarrow> \<not> isspace (last s) \<Longrightarrow> trim s = s"
  by (cases "rev s") (auto simp: trim_def last_rev [symmetric])

lemma trim_indent: "\<forall>c \<in> set ws. isspace c \<Longrightarrow> s \<noteq> [] \<Longrightarrow> \<not> isspace (last s) \<Longrightarrow> trim (s @ ws) = s"
  by (cases "rev s") (auto simp: trim_def dropWhile_append3 hd_rev)


text \<open>A line of either kind: indented, and ended by a newline.\<close>

lemma trim_line:
  assumes "s \<noteq> []" "\<not> isspace (last s)"
  shows "trim (replicate k SP @ s @ [NL]) = replicate k SP @ s"
  using trim_indent [of "[NL]" "replicate k SP @ s"] assms by (simp add: isspace_def code_def)

lemma hd_indent: "s \<noteq> [] \<Longrightarrow> hd (replicate k SP @ s) = (if k = 0 then hd s else SP)"
  by (cases k) auto

lemma starts_with_hd: "s \<noteq> [] \<Longrightarrow> hd s \<noteq> c \<Longrightarrow> \<not> starts_with (c # cs) s"
  by (cases s) (auto simp: starts_with_def)

text \<open>A line that begins with a digit or a blank is no keyword and no comment.\<close>

lemma parse_line_body:
  assumes "s \<noteq> []" "isdigit (hd s)" "\<not> isspace (last s)"
  shows "parse_line t (replicate k SP @ s @ [NL]) ps =
    (if in_routes ps then parse_route t (replicate k SP @ s) ps
     else if in_neigh ps then parse_neighbor t (replicate k SP @ s) ps else Inr ps)"
proof -
  let ?line = "replicate k SP @ s"
  have ne: "?line \<noteq> []" using assms(1) by simp
  have hd: "hd ?line = SP \<or> isdigit (hd ?line)"
    using assms(1,2) by (simp add: hd_indent)
  then have "hd ?line \<noteq> CHR ''#''" "hd ?line \<noteq> CHR ''r''" "hd ?line \<noteq> CHR ''s''"
    "hd ?line \<noteq> CHR ''l''" "hd ?line \<noteq> CHR ''n''"
    by (auto simp: isdigit_def code_def)
  then show ?thesis
    unfolding parse_line_def Let_def trim_line [OF assms(1,3)]
    using ne assms(1) by (simp add: starts_with_hd)
qed

lemma scan_s_indent: "scan_s n (replicate k SP @ s) = scan_s n s"
  by (induction k) (simp_all add: scan_s_SP)

lemma route_words_indent: "route_words (replicate k SP @ s) = route_words s"
  by (simp add: route_words_def scan_s_indent)

lemma neighbor_words_indent: "neighbor_words (replicate k SP @ s) = neighbor_words s"
  by (simp add: neighbor_words_def scan_s_indent)

lemma route_text_ends:
  "ifn \<noteq> [] \<Longrightarrow> route_text n mk nh ifn \<noteq> [] \<and> isdigit (hd (route_text n mk nh ifn)) \<and>
     last (route_text n mk nh ifn) = last ifn"
  using ipstr_hd [of n] by (simp add: route_text_def hd_append)

lemma neighbor_text_ends:
  "neighbor_text a p c \<noteq> [] \<and> isdigit (hd (neighbor_text a p c)) \<and> \<not> isspace (last (neighbor_text a p c))"
  using ipstr_hd [of a] dec_digits [OF last_in_set [OF dec_nonempty], of c] isspace_not_digit
  by (simp add: neighbor_text_def hd_append)

text \<open>The routes and the neighbours a file lists are the ones the router starts with.\<close>

lemma parse_route_line:
  assumes "table_ok (ps_router ps)" "length (routes (ps_router ps)) < MAX_DEST" "in_routes ps"
    and "ifn \<noteq> []" "\<forall>c \<in> set ifn. \<not> isspace c" "length ifn \<le> 15"
  shows "\<exists>r'. parse_line t (replicate k SP @ route_text n mk nh ifn @ [NL]) ps = Inr (ps\<lparr>ps_router := r'\<rparr>) \<and>
    same_config (ps_router ps) r' \<and> table_ok r' \<and>
    bf_view r' = (bf_view (ps_router ps))((n, mk) \<mapsto> (if nh = 0 then 0 else 1, nh))"
proof -
  let ?r = "ps_router ps"
  obtain r i where fa: "rt_find_or_add t ?r n mk = (r, Some i)"
    using rt.room [of ?r t "(n, mk)"] assms(1,2)
    by (cases "rt_find_or_add t ?r n mk") auto
  let ?e = "(routes r ! i)\<lparr>next_hop := nh, rt_cost := (if nh = 0 then 0 else 1),
    iface := take 7 ifn, last_update := t\<rparr>"
  have found: "table_ok r" "i < length (routes r)" "route_key (routes r ! i) = (n, mk)"
    "route_map r = (route_map ?r)((n, mk) \<mapsto> routes r ! i)"
    using rt.found [of ?r t "(n, mk)" r i] assms(1) fa by simp_all
  have key: "route_key ?e = route_key (routes r ! i)" by (simp add: route_key_def)
  have "route_map (set_route r i ?e) = (route_map ?r)((n, mk) \<mapsto> ?e)"
    using route_map_update [OF found(1,2) key] found(3,4) key by simp
  then have "bf_view (set_route r i ?e) = (bf_view ?r)((n, mk) \<mapsto> (if nh = 0 then 0 else 1, nh))"
    using bf_view_upd by (fastforce simp: bf_entry_of_def)
  moreover have "table_ok (set_route r i ?e)" by (rule table_ok_update [OF found(1,2) key])
  moreover have "same_config ?r (set_route r i ?e)"
    by (rule same_config_set_route [OF same_config_find_or_add [OF fa]])
  moreover have "parse_line t (replicate k SP @ route_text n mk nh ifn @ [NL]) ps =
      Inr (ps\<lparr>ps_router := set_route r i ?e\<rparr>)"
    using route_text_ends [OF assms(4), of n mk nh] assms(3-6)
    by (simp add: parse_line_body parse_route_def route_words_indent route_words_text inet_aton_ipstr fa)
  ultimately show ?thesis by blast
qed

lemma parse_neighbor_line:
  assumes "in_neigh ps" "\<not> in_routes ps" "length (neighbors (ps_router ps)) < MAX_NEIGH"
    and "port < 65536" "cost < 65536"
  shows "parse_line t (replicate k SP @ neighbor_text a port cost @ [NL]) ps =
    Inr (ps\<lparr>ps_router := (ps_router ps)\<lparr>neighbors := neighbors (ps_router ps) @
      [\<lparr>nb_ip = a, nb_ctrl_port = of_nat port, nb_cost = of_nat cost, last_heard = t, alive = True\<rparr>]\<rparr>\<rparr>)"
proof -
  have "is_int (int port)" "is_int (int cost)" using assms(4,5) by (simp_all add: is_int_def)
  then show ?thesis
    using neighbor_text_ends [of a port cost] assms(1-3)
    by (simp add: parse_line_body parse_neighbor_def neighbor_words_indent neighbor_words_text
        inet_aton_ipstr Let_def)
qed

end
