(* ===== verification/Router_Props.thy ===== *)
theory Router_Props
  imports Router_Net Router_Conf
begin

text \<open>
  The properties of the router, each over the functions of the component theories, with a
  concrete witness for each that has hypotheses.
\<close>

section \<open>Concrete routers for the witnesses\<close>

text \<open>Two routers: \<open>w_a\<close> owns 10.0.20.0/24, \<open>w_b\<close> has a link of cost 3 to it and a
  network of its own.\<close>

definition w_a :: router_t where
  "w_a = \<lparr>self_id = 2, self_ip = 0x0201007F, ctrl_port = 12002,
     neighbors = [\<lparr>nb_ip = 0x0101007F, nb_ctrl_port = 12001, nb_cost = 3, last_heard = 0, alive = True\<rparr>],
     routes = [\<lparr>dest_net = 0x0014000A, rt_mask = 0x00FFFFFF, next_hop = 0, iface = ''eth0'',
                rt_cost = 0, last_update = 0\<rparr>]\<rparr>"

definition w_b :: router_t where
  "w_b = \<lparr>self_id = 1, self_ip = 0x0101007F, ctrl_port = 12001,
     neighbors = [\<lparr>nb_ip = 0x0201007F, nb_ctrl_port = 12002, nb_cost = 3, last_heard = 0, alive = True\<rparr>],
     routes = [\<lparr>dest_net = 0x000AA8C0, rt_mask = 0x00FFFFFF, next_hop = 0, iface = ''eth0'',
                rt_cost = 0, last_update = 0\<rparr>]\<rparr>"

definition w_net :: "bool \<Rightarrow> router_t" where
  "w_net x = (if x then w_a else w_b)"

definition w_key :: "u32 \<times> u32" where "w_key = (0x0014000A, 0x00FFFFFF)"

lemma w_ok: "router_inv w_a" "router_inv w_b" "table_ok (w_net x)"
  by (simp_all add: router_inv_def table_ok_def nbs_ok_def all_routes_def hopless_ok_def dead_hop_ok_def
      w_a_def w_b_def w_net_def router_consts)

definition w_env :: "int \<Rightarrow> select_result \<Rightarrow> iter_env" where
  "w_env t sr = \<lparr>sel = sr, now = t, clk = (\<lambda>_. t), ctrl_buf = replicate dv_size 0,
     data_buf = replicate data_size 0\<rparr>"

lemma w_env_simps [simp]:
  "sel (w_env t sr) = sr" "now (w_env t sr) = t" "clk (w_env t sr) = (\<lambda>_. t)"
  "ctrl_buf (w_env t sr) = replicate dv_size 0" "data_buf (w_env t sr) = replicate data_size 0"
  by (simp_all add: w_env_def)

text \<open>The datagram \<open>w_a\<close> sends to \<open>w_b\<close>.\<close>

definition w_dgram :: "byte list" where
  "w_dgram = dv_bytes (send_dv_msg w_a (hd (neighbors w_a)))"

definition w_start :: "router_t \<Rightarrow> rstate" where
  "w_start r = fst (main_start 0 r)"

definition w_b_learned :: "rstate option" where
  "w_b_learned = map_option fst (main_iter (w_env 1 (Ready (Some (12002, w_dgram)) None)) (w_start w_b))"

lemma w_sends: "\<exists>s acts. main_iter (w_env 5 Idle) (w_start w_a) = Some (s, acts) \<and>
    SendTo Ctrl 12001 w_dgram \<in> set acts"
proof -
  have "broadcast_dv w_a = [SendTo Ctrl 12001 w_dgram]"
    using send_dv_eq [of w_a] w_ok(1)
    by (simp add: broadcast_dv_def w_dgram_def router_inv_def) (simp add: w_a_def)
  then show ?thesis
    by (simp add: main_iter_def w_start_def main_start_def periodic_broadcast_def
        check_timeouts_def ctrl_phase_def ctrl_ready_def data_phase_def data_ready_def router_consts
        split: prod.split)
qed

lemma w_quiet: "check_timeouts 1 w_b = (w_b, [])"
  by (simp add: check_timeouts_def w_b_def timeout_step_def expired_def router_consts)

lemma w_learned: "map_option (\<lambda>s. bf_view (router s) w_key) w_b_learned = Some (Some (3, 0x0201007F))"
proof -
  have "neighbor_index (neighbors w_b) 12002 = Some 0" by (simp add: w_b_def)
  from handle_ctrl_delivered [OF _ _ this, of w_a "replicate dv_size 0"] w_ok(1)
  have h: "handle_ctrl 1 (\<lambda>_. 1) (replicate dv_size 0) 12002 w_dgram w_b =
    (case dv_fold (set_neighbor w_b 0 (hear 1 (neighbors w_b ! 0))) (hear 1 (neighbors w_b ! 0)) (\<lambda>_. 1) 0
            (map (advertise (hd (neighbors w_a))) (routes w_a)) False of
       (r', changed) \<Rightarrow> Some (r', if changed then log_table r' ''dv-update'' else []))"
    by (simp add: w_dgram_def router_inv_def)
  let ?r = "fst (dv_fold (set_neighbor w_b 0 (hear 1 (neighbors w_b ! 0))) (hear 1 (neighbors w_b ! 0)) (\<lambda>_. 1) 0
            (map (advertise (hd (neighbors w_a))) (routes w_a)) False)"
  have v: "bf_view ?r w_key = Some (3, 0x0201007F)"
    by code_simp
  show ?thesis
    using v
    by (simp add: w_b_learned_def main_iter_def w_start_def main_start_def
        periodic_broadcast_def w_quiet ctrl_phase_def ctrl_ready_def data_phase_def data_ready_def
        h router_consts split_beta)
qed

section \<open>The routing protocol\<close>

text \<open>C1. In a network of routers, however datagrams are delayed, repeated and lost, a finite cost
  in a table is the cost of a real path: the sum of the costs of a chain of configured links that ends
  at a router with the destination in its configuration.  Nothing is ever advertised into existence.\<close>

theorem net_no_invented_distance:
  assumes "net_reachable R0 N" "\<And>a. table_ok (R0 a)"
    and "bf_view (router (node N a)) k = Some (c, h)" "c < INF_COST"
  shows "path_cost R0 a k c"
proof -
  have "sound_node R0 a (router (node N a))"
    using net_reachable_sound [OF assms(1,2)] by simp
  moreover obtain e where e: "route_map (router (node N a)) k = Some e" "c = unat (rt_cost e)"
    using assms(3) by (auto simp: bf_view_def bf_entry_of_def)
  then have "e \<in> set (routes (router (node N a)))" "route_key e = k"
    by (auto simp: route_map_def dest!: map_of_SomeD)
  ultimately show ?thesis
    using e(2) assms(4) by (auto simp: sound_node_def all_routes_def sound_route_def)
qed

lemma net_run:
  assumes "net_reachable R0 N" "deliverable N a env" "main_iter env (node N a) = Some (s', acts)"
  shows "\<exists>N'. net_reachable R0 N' \<and> node N' = (node N)(a := s') \<and>
    (\<forall>(q, bs) \<in> ctrl_sends acts. (ctrl_port (router (node N a)), q, bs) \<in> flight N')"
  by (rule exI, intro conjI, rule net_reachable.step [OF assms(1) net_step.run [OF assms(2,3)]])
    auto

lemma w_net_run:
  "\<exists>N. net_reachable w_net N \<and> bf_view (router (node N False)) w_key = Some (3, 0x0201007F)"
proof -
  let ?N0 = "net_start w_net (\<lambda>_. 0)"
  have start: "node ?N0 x = w_start (w_net x)" for x
    by (simp add: net_start_def w_start_def main_start_def)
  have port: "ctrl_port (router (w_start w_a)) = 12002" "ctrl_port (router (w_start w_b)) = 12001"
    by (simp_all add: w_start_def main_start_def w_a_def w_b_def)
  obtain s acts where it: "main_iter (w_env 5 Idle) (w_start w_a) = Some (s, acts)"
    "SendTo Ctrl 12001 w_dgram \<in> set acts" using w_sends by blast
  obtain N1 where r1: "net_reachable w_net N1" "node N1 False = w_start w_b"
    and fl: "\<forall>(q, bs) \<in> ctrl_sends acts. (12002, q, bs) \<in> flight N1"
    using net_run [OF net_reachable.start, of w_net "\<lambda>_. 0" True "w_env 5 Idle" s acts] it(1) port start
    by (fastforce simp: w_net_def deliverable_def ctrl_ready_def)
  let ?env = "w_env 1 (Ready (Some (12002, w_dgram)) None)"
  obtain s2 acts2 where it2: "main_iter ?env (w_start w_b) = Some (s2, acts2)"
    and v: "bf_view (router s2) w_key = Some (3, 0x0201007F)"
    using w_learned by (auto simp: w_b_learned_def)
  have "deliverable N1 False ?env"
    using it(2) fl port by (auto simp: deliverable_def r1(2) ctrl_ready_def ctrl_sends_def)
  from net_run [OF r1(1) this] it2 r1(2) v show ?thesis by (metis fun_upd_same)
qed

theorem net_no_invented_distance_witness: "path_cost w_net False w_key 3"
proof -
  obtain N where "net_reachable w_net N"
    "bf_view (router (node N False)) w_key = Some (3, 0x0201007F)" using w_net_run by blast
  then show ?thesis
    using net_no_invented_distance [of w_net N False w_key 3] w_ok(3) by (simp add: router_consts)
qed

text \<open>C2. \<^verbatim>\<open>dv_update\<close> implements Bellman and Ford: with a count that fits the message, it returns,
  keeps the table well formed and everything but the routes, and the map from destinations to cost
  and next hop afterwards is the fold of the step \<open>bf_step\<close> over the advertised entries.\<close>

theorem dv_update_refines:
  assumes "table_ok r" "unat (ntohs (num m)) \<le> MAX_DEST" "length (ents m) = MAX_DEST"
  shows "\<exists>r' changed. dv_update r nb ts m = Some (r', changed) \<and> table_ok r' \<and> same_config r r' \<and>
    bf_view r' = fold (bf_step (nb_ip nb) (unat (nb_cost nb)))
                   (map dv_adv (take (unat (ntohs (num m))) (ents m))) (bf_view r)"
  using dv_fold_refines [OF assms(1)] dv_fold_config dv_update_fold [OF assms(2,3)]
  by (metis prod.collapse)

definition w_msg :: dv_msg_t where
  "w_msg = \<lparr>dv_type = MSG_DV, sender_id = htons 2, num = htons 1,
     ents = \<lparr>net = 0x0014000A, emask = 0x00FFFFFF, ecost = htons 4\<rparr>
       # replicate 127 \<lparr>net = 0, emask = 0, ecost = 0\<rparr>\<rparr>"

lemma w_msg_ok: "unat (ntohs (num w_msg)) = 1" "length (ents w_msg) = MAX_DEST"
  by (simp_all add: w_msg_def router_consts)

theorem dv_update_refines_witness:
  "\<exists>r' changed. dv_update w_b (hd (neighbors w_b)) (\<lambda>_. 1) w_msg = Some (r', changed) \<and>
     bf_view r' = fold (bf_step 0x0201007F 3) [(w_key, 4)] (bf_view w_b)"
proof -
  have "map dv_adv (take 1 (ents w_msg)) = [(w_key, 4)]"
    by (simp add: w_msg_def dv_adv_def w_key_def)
  moreover have "nb_ip (hd (neighbors w_b)) = 0x0201007F" "unat (nb_cost (hd (neighbors w_b))) = 3"
    by (simp_all add: w_b_def)
  ultimately show ?thesis
    using dv_update_refines [of w_b w_msg "hd (neighbors w_b)" "\<lambda>_. 1"] w_ok(2) w_msg_ok
    by (auto simp: router_inv_def router_consts)
qed

text \<open>C3. The table lookup is longest-prefix match: the entry it returns matches the address, has a
  mask no other match exceeds and is the first with that mask; it returns nothing exactly when no
  entry with a nonempty mask matches.\<close>

theorem rt_lookup_longest:
  "(rt_lookup r dst = Some i \<longleftrightarrow> best_route dst (routes r) i) \<and>
   (rt_lookup r dst = None \<longleftrightarrow>
      (\<nexists>e. e \<in> set (routes r) \<and> route_matches dst e \<and> rt_mask e \<noteq> 0))"
  using rt_lookup_Some_iff [of r dst i] rt_lookup_None_iff [of r dst] by blast

definition cidr :: "nat \<Rightarrow> u32" where
  "cidr n = htonl (NOT (mask (32 - n)))"

lemma uint_mask32: "uint (mask n :: u32) = mask (min 32 n)"
  by transfer (simp add: take_bit_of_mask)

lemma uint_not32: "uint (NOT (a :: u32)) = 4294967295 - uint a"
proof -
  have "NOT a = - 1 - a" by (simp add: not_eq_complement)
  moreover have "uint a < 4294967296" using uint_lt2p [of a] by simp
  ultimately show ?thesis
    by (simp add: uint_sub_if' unsigned_minus_1_eq_mask mask_eq_exp_minus_1)
qed

lemma cidr_less: "n < k \<Longrightarrow> k \<le> 32 \<Longrightarrow> ntohl (cidr n) < ntohl (cidr k)"
proof -
  assume nk: "n < k" "k \<le> 32"
  have less: "(2::int) ^ (32 - k) < 2 ^ (32 - n)"
    using nk by (intro power_strict_increasing) auto
  have "mask (32 - k) < (mask (32 - n) :: u32)"
    using less unfolding word_less_def uint_mask32 by (simp add: mask_eq_exp_minus_1)
  then have "NOT (mask (32 - n) :: u32) < NOT (mask (32 - k))"
    by (simp add: word_less_def uint_not32)
  then show ?thesis by (simp add: cidr_def)
qed

text \<open>On a table of CIDR masks this is the comparison of prefix lengths: no matching route has a
  longer prefix than the one found.\<close>

theorem rt_lookup_prefix_length:
  assumes "rt_lookup r dst = Some i" "rt_mask (routes r ! i) = cidr n"
    and "e \<in> set (routes r)" "route_matches dst e" "rt_mask e = cidr k" "k \<le> 32"
  shows "k \<le> n"
proof (rule ccontr)
  assume "\<not> k \<le> n"
  then have "ntohl (cidr n) < ntohl (cidr k)" using assms(6) by (simp add: cidr_less)
  moreover have "ntohl (rt_mask e) \<le> ntohl (rt_mask (routes r ! i))"
    using assms(1,3,4) by (auto simp: rt_lookup_Some_iff best_route_def in_set_conv_nth)
  ultimately show False using assms(2,5) by simp
qed

definition w_two :: router_t where
  "w_two = w_b\<lparr>routes := [
     \<lparr>dest_net = 0x0000000A, rt_mask = 0x0000FFFF, next_hop = 0x0201007F, iface = '''', rt_cost = 3,
      last_update = 0\<rparr>,
     \<lparr>dest_net = 0x0014000A, rt_mask = 0x00FFFFFF, next_hop = 0x0301007F, iface = '''', rt_cost = 3,
      last_update = 0\<rparr>]\<rparr>"

theorem rt_lookup_prefix_length_witness:
  "rt_lookup w_two 0x0714000A = Some 1 \<and> rt_mask (routes w_two ! 1) = cidr 24 \<and>
   rt_mask (routes w_two ! 0) = cidr 16 \<and> route_matches 0x0714000A (routes w_two ! 0) \<and> (16::nat) \<le> 24"
proof -
  have c: "rt_mask (routes w_two ! 1) = cidr 24" "rt_mask (routes w_two ! 0) = cidr 16"
    by (simp_all add: w_two_def cidr_def htonl_def of_le32_def mask_eq_exp_minus_1)
  have l: "rt_lookup w_two 0x0714000A = Some 1"
    by (simp add: rt_lookup_def w_two_def route_matches_def ntohl_def htonl_def of_le32_def)
  have m: "routes w_two ! 0 \<in> set (routes w_two)" "route_matches 0x0714000A (routes w_two ! 0)"
    by (simp_all add: w_two_def route_matches_def)
  from rt_lookup_prefix_length [OF l c(1) m c(2)] l c m show ?thesis by simp
qed

text \<open>C4. Once a neighbour has been declared dead, every route through it is at infinity, in every state
  the event loop can reach, whatever datagrams arrive from the others.\<close>

theorem dead_neighbor_unreachable:
  assumes "reachable r0 s" "router_inv r0"
    and "nb \<in> set (neighbors (router s))" "\<not> alive nb"
    and "bf_view (router s) k = Some (c, nb_ip nb)"
  shows "c = INF_COST"
proof -
  have "all_routes (dead_hop_ok (neighbors (router s))) (router s)"
    using reachable_inv [OF assms(1,2)] by (simp add: router_inv_def)
  moreover obtain e where e: "route_map (router s) k = Some e" "c = unat (rt_cost e)" "next_hop e = nb_ip nb"
    using assms(5) by (auto simp: bf_view_def bf_entry_of_def)
  then have "e \<in> set (routes (router s))" by (auto simp: route_map_def dest!: map_of_SomeD)
  ultimately show ?thesis
    using e(2,3) assms(3,4) by (auto simp: all_routes_def dead_hop_ok_def)
qed

text \<open>A router with a learned route whose only neighbour falls silent.\<close>

definition w_c :: router_t where
  "w_c = w_b\<lparr>routes := [\<lparr>dest_net = 0x0014000A, rt_mask = 0x00FFFFFF, next_hop = 0x0201007F,
     iface = '''', rt_cost = 3, last_update = 0\<rparr>]\<rparr>"

lemma w_c_ok: "router_inv w_c"
  by (simp add: router_inv_def table_ok_def nbs_ok_def all_routes_def hopless_ok_def dead_hop_ok_def
      w_b_def w_c_def router_consts)

lemma w_c_dead:
  "\<exists>s acts. main_iter (w_env 20 Idle) (w_start w_c) = Some (s, acts) \<and>
     neighbors (router s) = [(hd (neighbors w_b))\<lparr>alive := False\<rparr>] \<and>
     bf_view (router s) w_key = Some (INF_COST, 0x0201007F)"
proof -
  obtain r' a where ct: "check_timeouts 20 w_c = (r', a)" by (cases "check_timeouts 20 w_c")
  have "fst (check_timeouts 20 w_c) = kill_neighbor w_c 0"
    by (simp add: check_timeouts_def w_c_def w_b_def timeout_step_def expired_def router_consts Let_def)
  then have r': "r' = kill_neighbor w_c 0" using ct by simp
  have "neighbors r' = [(hd (neighbors w_b))\<lparr>alive := False\<rparr>]"
    by (simp add: r' w_c_def w_b_def)
  moreover have "bf_view r' w_key = Some (INF_COST, 0x0201007F)"
    unfolding r' by code_simp
  ultimately show ?thesis
    using ct by (simp add: main_iter_def w_start_def main_start_def periodic_broadcast_def
        ctrl_phase_def ctrl_ready_def data_phase_def data_ready_def router_consts)
qed

lemma w_start_reach: "reachable r (w_start r)"
  unfolding w_start_def by (rule reachable.start)

theorem dead_neighbor_unreachable_witness:
  "\<exists>s. reachable w_c s \<and> bf_view (router s) w_key = Some (INF_COST, 0x0201007F)"
proof -
  obtain s acts where s: "main_iter (w_env 20 Idle) (w_start w_c) = Some (s, acts)"
    "neighbors (router s) = [(hd (neighbors w_b))\<lparr>alive := False\<rparr>]"
    "bf_view (router s) w_key = Some (INF_COST, 0x0201007F)" using w_c_dead by blast
  have "reachable w_c s" using reachable.iter [OF w_start_reach s(1)] .
  from dead_neighbor_unreachable [OF this w_c_ok, of "(hd (neighbors w_b))\<lparr>alive := False\<rparr>" w_key INF_COST]
    this s(2,3) show ?thesis by (auto simp: w_b_def)
qed

text \<open>C5. A neighbour that is alive after an iteration of the loop was heard less than 15 seconds before,
  and no neighbour heard less than 15 seconds ago is declared dead.\<close>

theorem alive_means_heard:
  assumes "main_iter env s = Some (s', acts)" "sel env \<noteq> Interrupted"
    and "i < length (neighbors (router s))"
  shows "(alive (neighbors (router s') ! i) \<longrightarrow>
            now env - last_heard (neighbors (router s') ! i) < DEAD_INTERVAL_SEC) \<and>
         (alive (neighbors (router s) ! i) \<and>
            now env - last_heard (neighbors (router s) ! i) < DEAD_INTERVAL_SEC \<longrightarrow>
          alive (neighbors (router s') ! i))"
  using assms(1)
proof (cases rule: main_iter_cases)
  case 1
  with assms(2) show ?thesis by simp
next
  case (2 s1 a1 r2 a2 r3 a3 a4)
  have r2: "neighbors r2 = map (tick (now env)) (neighbors (router s))"
    by (rule check_timeouts_neighbors [OF 2(3)])
  have "neighbors r3 = neighbors r2 \<or>
      (\<exists>j < length (neighbors r2). neighbors r3 = (neighbors r2)[j := hear (now env) (neighbors r2 ! j)])"
    by (rule ctrl_phase_neighbors [OF 2(4)])
  then have "neighbors r3 ! i = neighbors r2 ! i \<or> neighbors r3 ! i = hear (now env) (neighbors r2 ! i)"
    by (metis nth_list_update_eq nth_list_update_neq)
  moreover have "neighbors r2 ! i = tick (now env) (neighbors (router s) ! i)"
    using r2 assms(3) by simp
  moreover have "0 < DEAD_INTERVAL_SEC" by (simp add: router_consts)
  ultimately show ?thesis
    using 2(6) by auto
qed

theorem alive_means_heard_witness:
  "\<exists>s acts. main_iter (w_env 20 Idle) (w_start w_c) = Some (s, acts) \<and> \<not> alive (neighbors (router s) ! 0)"
proof -
  obtain s acts where s: "main_iter (w_env 20 Idle) (w_start w_c) = Some (s, acts)"
    "neighbors (router s) = [(hd (neighbors w_b))\<lparr>alive := False\<rparr>]"
    using w_c_dead by blast
  from alive_means_heard [OF s(1), of 0] s(2) have "\<not> alive (neighbors (router s) ! 0)"
    by (simp add: w_start_def main_start_def w_c_def w_b_def router_consts)
  with s show ?thesis by blast
qed

text \<open>The loop never touches the networks it is connected to: a route of cost 0 without a next hop
  is there with the same contents in every reachable state.\<close>

theorem connected_permanent:
  assumes "reachable r0 s" "router_inv r0" "connected r0 k e"
  shows "connected (router s) k e"
  using reachable_connected [OF assms] .

theorem connected_permanent_witness:
  "\<exists>s e. w_b_learned = Some s \<and> connected (router s) (0x000AA8C0, 0x00FFFFFF) e"
proof -
  obtain s where s: "w_b_learned = Some s"
    using w_learned by (cases w_b_learned) auto
  then obtain acts where "main_iter (w_env 1 (Ready (Some (12002, w_dgram)) None)) (w_start w_b) = Some (s, acts)"
    by (auto simp: w_b_learned_def)
  then have r: "reachable w_b s" using reachable.iter [OF w_start_reach] by blast
  have "connected w_b (0x000AA8C0, 0x00FFFFFF) (hd (routes w_b))"
    by (simp add: connected_def route_map_def route_key_def w_b_def)
  from connected_permanent [OF r w_ok(2) this] s show ?thesis by blast
qed

text \<open>\<^verbatim>\<open>NEXT HOP DOWN\<close> is never printed by the running router: a dead neighbour's routes are
  at infinity, and the test for that comes first and prints \<^verbatim>\<open>NO MATCH\<close>.\<close>

theorem next_hop_down_dead_code:
  assumes "reachable r0 s" "router_inv r0" "forward_data (router s) m = Some acts"
  shows "log_hop_down (router s) ip \<notin> set acts"
proof
  assume down: "log_hop_down (router s) ip \<in> set acts"
  let ?r = "router s"
  from assms(3) down obtain i where i: "rt_lookup ?r (dst_ip m) = Some i"
    and cost: "unat (rt_cost (routes ?r ! i)) < INF_COST"
    and nc: "\<not> (rt_cost (routes ?r ! i) = 0 \<and> next_hop (routes ?r ! i) = 0)"
    and tr: "transmit ?r m (routes ?r ! i) = Some acts"
    by (auto simp: forward_data_def Let_def not_le split: if_splits option.splits)
  let ?e = "routes ?r ! i"
  have e: "?e \<in> set (routes ?r)" using rt_lookup_bound [OF i] by simp
  have inv: "all_routes hopless_ok ?r" "all_routes (dead_hop_ok (neighbors ?r)) ?r"
    using reachable_inv [OF assms(1,2)] by (simp_all add: router_inv_def)
  then have "next_hop ?e \<noteq> 0"
    using e nc cost by (auto simp: all_routes_def hopless_ok_def)
  moreover from tr down obtain nb where "find_neighbor ?r (hop_of ?e m) = Some nb" "\<not> alive nb"
    by (auto simp: transmit_def Let_def split: if_splits option.splits)
  then have "nb \<in> set (neighbors ?r)" "nb_ip nb = hop_of ?e m" "\<not> alive nb"
    by (auto simp: find_neighbor_def find_Some_iff)
  ultimately show False
    using inv(2) e cost by (auto simp: all_routes_def dead_hop_ok_def hop_of_def)
qed


definition w_pkt :: "u32 \<Rightarrow> byte \<Rightarrow> data_msg_t" where
  "w_pkt dst t = \<lparr>d_type = MSG_DATA, ttl = t, src_ip = 0x0101007F, dst_ip = dst,
     payload_len = htons 2, payload = [0x68, 0x69] @ replicate 126 0\<rparr>"

lemma w_pkt_simps [simp]:
  "ttl (w_pkt d t) = t" "dst_ip (w_pkt d t) = d" "plen (w_pkt d t) = 2" "data_ok (w_pkt d t)"
  "length (payload (w_pkt d t)) = 128" "take 2 (payload (w_pkt d t)) = [0x68, 0x69]"
  by (simp_all add: w_pkt_def plen_def data_ok_def PAYLOAD_SIZE_def)

lemma route_matches_w: "route_matches 0x0714000A (hd (routes w_c))"
  by (simp add: route_matches_def w_c_def)

lemma lookup_single:
  "routes r = [e] \<Longrightarrow> route_matches d e \<Longrightarrow> rt_mask e \<noteq> 0 \<Longrightarrow> rt_lookup r d = Some 0"
  by (simp add: rt_lookup_Some_iff best_route_def)

theorem next_hop_down_dead_code_witness:
  "\<exists>acts. forward_data w_c (w_pkt 0x0714000A 9) = Some acts \<and> (\<forall>ip. log_hop_down w_c ip \<notin> set acts)"
proof -
  have "router (w_start w_c) = w_c" by (simp add: w_start_def main_start_def)
  moreover obtain acts where "forward_data w_c (w_pkt 0x0714000A 9) = Some acts"
    using forward_defined [of "w_pkt 0x0714000A 9" w_c] by auto
  ultimately show ?thesis
    using next_hop_down_dead_code [OF w_start_reach w_c_ok, of "w_pkt 0x0714000A 9" acts] by auto
qed

section \<open>Data packets\<close>

text \<open>C7. A packet makes at most as many hops as its TTL says, over any routers with any tables: forwarding
  loops end.\<close>

theorem hops_bounded_by_ttl:
  assumes "hops n m m'" "data_ok m"
  shows "n + unat (ttl m') = unat (ttl m) \<and> n \<le> 255"
  using hops_ttl [OF assms] unat_u8_bound [of "ttl m"] by simp

lemma w_hop: "hop (w_pkt 0x0714000A 9)
  (data_of_bytes (recv_into (replicate data_size 0)
     (take 14 (data_bytes ((w_pkt 0x0714000A 9)\<lparr>ttl := 8\<rparr>)))))"
proof -
  let ?m = "w_pkt 0x0714000A 9"
  have "rt_lookup w_c 0x0714000A = Some 0"
    by (rule lookup_single [of _ "hd (routes w_c)"]) (simp_all add: w_c_def route_matches_def)
  then have "forward_data w_c ?m = Some
    [SendTo Data 13002 (take 14 (data_bytes (?m\<lparr>ttl := 8\<rparr>))),
     log_fwd w_c ?m 0x0201007F (hd (routes w_c)) 8]"
    by (simp add: forward_data_def transmit_def Let_def)
       (simp add: w_c_def w_b_def router_consts hop_of_def find_neighbor_def get_data_port_def plen_def
         w_pkt_def)
  then show ?thesis
    by (rule hop.hop [where p = 13002]) simp_all
qed

theorem hops_bounded_by_ttl_witness:
  "\<exists>m'. hops 1 (w_pkt 0x0714000A 9) m' \<and> unat (ttl m') = 8"
proof -
  obtain m' where "hops 1 (w_pkt 0x0714000A 9) m'"
    using hops.more [OF w_hop hops.none] by auto
  from hops_bounded_by_ttl [OF this] this show ?thesis by auto
qed

text \<open>A hop delivers the packet intact: the next router reads the same addresses, length and payload
  out of its buffer, whatever the buffer held, with the TTL one less.\<close>

theorem hop_delivers_packet:
  assumes "hop m m'" "data_ok m"
  shows "Suc (unat (ttl m')) = unat (ttl m) \<and> dst_ip m' = dst_ip m \<and> src_ip m' = src_ip m \<and>
    plen m' = plen m \<and> take (plen m) (payload m') = take (plen m) (payload m)"
  using hop_ttl [OF assms] by (simp add: plen_def)

theorem hop_delivers_packet_witness:
  "\<exists>m'. hop (w_pkt 0x0714000A 9) m' \<and> take 2 (payload m') = [0x68, 0x69]"
proof -
  obtain m' where "hop (w_pkt 0x0714000A 9) m'" using w_hop by blast
  from hop_delivers_packet [OF this] this show ?thesis by auto
qed

text \<open>A packet whose length field fits is answered with exactly one line of the log, and is never
  read past its end.\<close>

theorem forward_logs_once:
  assumes "plen m \<le> length (payload m)"
  shows "\<exists>acts. forward_data r m = Some acts \<and> length (prints acts) = 1 \<and> length (sends acts) \<le> 1"
proof -
  obtain acts where acts: "forward_data r m = Some acts" using forward_defined [OF assms] by auto
  have "length (sends acts) \<le> 1"
  proof (cases "sends acts = []")
    case False
    with acts show ?thesis by (rule forward_sends) simp
  qed simp
  with acts forward_one_line [OF acts] show ?thesis by blast
qed

theorem forward_logs_once_witness:
  "\<exists>acts. forward_data w_c (w_pkt 0x0714000A 0) = Some acts \<and> length (prints acts) = 1"
  using forward_logs_once [of "w_pkt 0x0714000A 0" w_c] by auto

text \<open>A packet whose length field exceeds the 128 bytes of payload makes the router read past the
  packet when it forwards it: the field of a received packet is never checked.\<close>

theorem oversized_length_undefined:
  assumes "data_ok m" "PAYLOAD_SIZE < plen m"
    and "rt_lookup r (dst_ip m) = Some i" "dst_ip m \<noteq> self_ip r" "ttl m \<noteq> 0"
    and "next_hop (routes r ! i) \<noteq> 0" "unat (rt_cost (routes r ! i)) < INF_COST"
    and "find_neighbor r (next_hop (routes r ! i)) = Some nb" "alive nb"
    and "get_data_port (nb_ctrl_port nb) \<noteq> 0"
  shows "forward_data r m = None"
  using assms by (simp add: forward_data_def transmit_def hop_of_def Let_def data_ok_def plen_def)

theorem oversized_length_undefined_witness:
  "forward_data w_c ((w_pkt 0x0714000A 9)\<lparr>payload_len := htons 200\<rparr>) = None"
proof -
  let ?m = "(w_pkt 0x0714000A 9)\<lparr>payload_len := htons 200\<rparr>"
  have "rt_lookup w_c 0x0714000A = Some 0"
    by (rule lookup_single [of _ "hd (routes w_c)"]) (simp_all add: w_c_def route_matches_def)
  then show ?thesis
    by (intro oversized_length_undefined [of _ _ 0 "hd (neighbors w_b)"])
       (simp_all add: data_ok_def w_pkt_def plen_def PAYLOAD_SIZE_def,
        simp_all add: w_c_def w_b_def find_neighbor_def get_data_port_def router_consts)
qed

text \<open>A default route (mask 0.0.0.0) is never chosen, because the first candidate must already have a
  mask greater than 0: with nothing but default routes every packet for another host gets NO MATCH.\<close>

theorem default_route_ignored:
  assumes "\<And>e. e \<in> set (routes r) \<Longrightarrow> rt_mask e = 0" "dst_ip m \<noteq> self_ip r" "ttl m \<noteq> 0"
  shows "forward_data r m = Some [log_no_match r m]"
proof -
  have "rt_lookup r (dst_ip m) = None" using assms(1) by (auto simp: rt_lookup_None_iff)
  with assms(2,3) show ?thesis by (simp add: forward_data_def)
qed

definition w_default :: router_t where
  "w_default = w_b\<lparr>routes := [\<lparr>dest_net = 0, rt_mask = 0, next_hop = 0x0201007F, iface = ''eth0'',
     rt_cost = 1, last_update = 0\<rparr>]\<rparr>"

theorem default_route_ignored_witness:
  "forward_data w_default (w_pkt 0x0714000A 9) = Some [log_no_match w_default (w_pkt 0x0714000A 9)]"
  by (rule default_route_ignored) (simp_all add: w_default_def w_b_def)

section \<open>Distance vectors on the wire\<close>

text \<open>C6. A distance vector arrives as it was sent, and it is sent with split horizon and poison reverse:
  the receiver reads the sender's destinations in order, each with the sender's cost, or infinity when
  the sender's route goes through the receiver.\<close>

theorem dv_exchange:
  assumes "table_ok r" "length buf = dv_size"
  shows "\<exists>bs. send_dv r nb = [SendTo Ctrl (nb_ctrl_port nb) bs] \<and>
    (let m = dv_of_bytes (recv_into buf bs) in
       dv_type m = MSG_DV \<and> ntohs (sender_id m) = self_id r \<and>
       map dv_adv (take (unat (ntohs (num m))) (ents m)) =
         map (\<lambda>e. (route_key e, if next_hop e \<noteq> 0 \<and> next_hop e = nb_ip nb then INF_COST
                                 else unat (rt_cost e))) (routes r))"
proof -
  let ?m = "send_dv_msg r nb" and ?got = "dv_of_bytes (recv_into buf (dv_bytes (send_dv_msg r nb)))"
  have len: "length (ents ?m) = length (routes r)" "length (routes r) \<le> MAX_DEST"
    using assms(1) by (simp_all add: send_dv_msg_ents table_ok_def)
  then have got: "take (length (routes r)) (ents ?got) = ents ?m"
    using dv_received [of ?m buf] assms(2) by simp
  have "recv_into buf (dv_bytes ?m) = dv_bytes ?m @ drop (length (dv_bytes ?m)) buf"
    using len assms(2) by (simp add: recv_into_fits length_dv_bytes dv_size_def)
  then have hdr: "num ?got = num ?m" "dv_type ?got = MSG_DV" "ntohs (sender_id ?got) = self_id r"
    by (simp_all add: dv_of_bytes_header) (simp_all add: send_dv_msg_def Let_def)
  have "map dv_adv (ents ?m) = map (\<lambda>e. (route_key e, if next_hop e \<noteq> 0 \<and> next_hop e = nb_ip nb
      then INF_COST else unat (rt_cost e))) (routes r)"
    using assms(1) by (simp add: send_dv_msg_ents advertise_def dv_adv_def route_key_def Let_def)
  with got hdr assms(1) show ?thesis
    by (simp add: send_dv_eq send_dv_msg_num Let_def)
qed

theorem dv_exchange_witness:
  "\<exists>bs. send_dv w_c (hd (neighbors w_c)) = [SendTo Ctrl 12002 bs] \<and>
    (let m = dv_of_bytes (recv_into (replicate dv_size 7) bs) in
       map dv_adv (take (unat (ntohs (num m))) (ents m)) = [(w_key, INF_COST)])"
proof -
  have "table_ok w_c" using w_c_ok by (simp add: router_inv_def)
  from dv_exchange [OF this, of "replicate dv_size 7" "hd (neighbors w_c)"]
  obtain bs where "send_dv w_c (hd (neighbors w_c)) = [SendTo Ctrl (nb_ctrl_port (hd (neighbors w_c))) bs]"
    "map dv_adv (take (unat (ntohs (num (dv_of_bytes (recv_into (replicate dv_size 7) bs)))))
        (ents (dv_of_bytes (recv_into (replicate dv_size 7) bs)))) =
      map (\<lambda>e. (route_key e, if next_hop e \<noteq> 0 \<and> next_hop e = nb_ip (hd (neighbors w_c)) then INF_COST
                              else unat (rt_cost e))) (routes w_c)"
    by (auto simp: Let_def)
  moreover have "nb_ctrl_port (hd (neighbors w_c)) = 12002" by (simp add: w_c_def w_b_def)
  moreover have "map (\<lambda>e. (route_key e, if next_hop e \<noteq> 0 \<and> next_hop e = nb_ip (hd (neighbors w_c))
      then INF_COST else unat (rt_cost e))) (routes w_c) = [(w_key, INF_COST)]"
    by (simp add: w_c_def w_b_def w_key_def route_key_def)
  ultimately show ?thesis by (simp add: Let_def)
qed

text \<open>A datagram from a neighbour that claims more than 128 entries makes the router read past its
  message: the count is used without a check (five bytes are enough to do it).\<close>

theorem dv_count_overrun:
  assumes "neighbor_index (neighbors r) p = Some i" "length buf = dv_size" "hi \<noteq> 0"
  shows "handle_ctrl t ts buf p [MSG_DV, a, b, hi, lo] r = None"
proof -
  let ?bs = "recv_into buf [MSG_DV, a, b, hi, lo]"
  have len: "5 < length buf" using assms(2) by (simp add: dv_size_def router_consts)
  have "rd16 ?bs 3 = of_le16 hi lo" "dv_type (dv_of_bytes ?bs) = MSG_DV"
    using len by (simp_all add: rd16_def recv_into_fits dv_of_bytes_def)
  moreover have "ntohs (of_le16 hi lo) = of_le16 lo hi"
    by (simp add: ntohs_def htons_def)
  moreover have "MAX_DEST < unat (of_le16 lo hi)"
  proof -
    have "of_le16 lo hi = of_nat (unat hi * 256 + unat lo)"
    proof -
      have "(ucast lo :: u16) AND push_bit 8 (ucast hi) = 0"
        by (rule bit_word_eqI) (auto simp: bit_simps dest!: bit_imp_le_length)
      then have "of_le16 lo hi = ucast lo + push_bit 8 (ucast hi)"
        by (simp add: of_le16_def or_add)
      also have "\<dots> = of_nat (unat lo) + of_nat (unat hi) * 2 ^ 8"
        by (simp add: push_bit_eq_mult)
      finally show ?thesis by simp
    qed
    moreover have "0 < unat hi" using assms(3) by (simp add: unat_gt_0)
    ultimately show ?thesis
      using unat_u8_bound [of hi] unat_u8_bound [of lo]
      by (simp add: unat_of_nat router_consts del: of_nat_add of_nat_mult)
  qed
  ultimately have "dv_update r' nb ts (dv_of_bytes ?bs) = None" for r' nb
    by (simp add: dv_update_def dv_loop_overrun dv_of_bytes_def)
  then show ?thesis
    using assms(1) \<open>dv_type (dv_of_bytes ?bs) = MSG_DV\<close> by (simp add: handle_ctrl_def Let_def)
qed

theorem dv_count_overrun_witness:
  "handle_ctrl 1 (\<lambda>_. 1) (replicate dv_size 0) 12002 [MSG_DV, 0, 2, 1, 0] w_b = None"
  by (rule dv_count_overrun [where i = 0]) (simp_all add: w_b_def)

text \<open>A datagram that claims an entry but is cut short installs whatever the stack held behind it: the
  length of the datagram is not compared with the count.\<close>

theorem short_dv_uses_stale_bytes:
  assumes "neighbor_index (neighbors r) p = Some i" "length buf = dv_size"
  shows "handle_ctrl t ts buf p [MSG_DV, a, b, 0, 1] r =
    (let nb = hear t (neighbors r ! i) in
     case dv_entry_update (set_neighbor r i nb) nb (ts 0) (ts 1) (dv_entry_at buf 0) of
       (r', changed) \<Rightarrow> Some (r', if changed then log_table r' ''dv-update'' else []))"
proof -
  let ?bs = "recv_into buf [MSG_DV, a, b, 0, 1]" and ?m = "dv_of_bytes (recv_into buf [MSG_DV, a, b, 0, 1])"
  have len: "15 \<le> length buf" using assms(2) by (simp add: dv_size_def router_consts)
  then have bs: "?bs = [MSG_DV, a, b, 0, 1] @ drop 5 buf" by (simp add: recv_into_fits numeral_eq_Suc)
  have stale: "dv_entry_at ?bs 0 = dv_entry_at buf 0"
    using len by (simp add: dv_entry_at_def rd32_def rd16_def recv_into_nth)
  have num: "unat (ntohs (num ?m)) = 1" "dv_type ?m = MSG_DV"
    by (simp_all add: bs dv_of_bytes_def rd16_def ntohs_def htons_def) (simp add: of_le16_def)
  moreover have "take 1 (ents ?m) = [dv_entry_at buf 0]"
    using stale by (simp add: dv_of_bytes_def router_consts upt_conv_Cons)
  ultimately have "dv_update r' nb ts ?m = Some (dv_entry_update r' nb (ts 0) (ts 1) (dv_entry_at buf 0))" for r' nb
    using dv_update_fold [of ?m r' nb ts]
    by (simp add: dv_of_bytes_def router_consts split: prod.split)
  then show ?thesis
    using assms(1) num(2) by (simp add: handle_ctrl_def Let_def)
qed

theorem short_dv_uses_stale_bytes_witness:
  "map_option (\<lambda>(r, acts). bf_view r w_key)
     (handle_ctrl 1 (\<lambda>_. 1) (recv_into (replicate dv_size 0) w_dgram) 12002 [MSG_DV, 0, 2, 0, 1] w_b) =
   Some (Some (3, 0x0201007F))"
proof -
  let ?buf = "recv_into (replicate dv_size 0) w_dgram"
  have e: "dv_entry_at ?buf 0 = advertise (hd (neighbors w_a)) (hd (routes w_a))"
  proof -
    have "ents (send_dv_msg w_a (hd (neighbors w_a))) = [advertise (hd (neighbors w_a)) (hd (routes w_a))]"
      using w_ok(1) by (simp add: send_dv_msg_ents router_inv_def) (simp add: w_a_def)
    moreover from this have "?buf = w_dgram @ drop (length w_dgram) (replicate dv_size 0)"
      by (simp add: w_dgram_def recv_into_fits length_dv_bytes dv_size_def router_consts)
    ultimately show ?thesis
      using dv_entry_at_written [of 0 "send_dv_msg w_a (hd (neighbors w_a))"] by (simp add: w_dgram_def)
  qed
  let ?u = "dv_entry_update (set_neighbor w_b 0 (hear 1 (neighbors w_b ! 0))) (hear 1 (neighbors w_b ! 0)) 1 1
    (advertise (hd (neighbors w_a)) (hd (routes w_a)))"
  have "bf_view (fst ?u) w_key = Some (3, 0x0201007F)" by code_simp
  moreover have "neighbor_index (neighbors w_b) 12002 = Some 0" by (simp add: w_b_def)
  ultimately show ?thesis
    using short_dv_uses_stale_bytes [of w_b 12002 0 ?buf 1 "\<lambda>_. 1" 0 2]
    by (simp add: e split_beta Let_def)
qed

text \<open>C9. When an iteration finds the broadcast due, every living neighbour is sent the distance vector,
  and the next one is due five seconds later.\<close>

theorem periodic_broadcast_reaches_all:
  assumes "main_iter env s = Some (s', acts)" "sel env \<noteq> Interrupted" "next_broadcast s \<le> now env"
    and "table_ok (router s)" "nb \<in> set (neighbors (router s))" "alive nb"
  shows "next_broadcast s' = now env + 5 \<and>
    SendTo Ctrl (nb_ctrl_port nb) (dv_bytes (send_dv_msg (router s) nb)) \<in> set acts"
  using assms(1)
proof (cases rule: main_iter_cases)
  case 1
  with assms(2) show ?thesis by simp
next
  case (2 s1 a1 r2 a2 r3 a3 a4)
  from 2(2) assms(3) have "a1 = broadcast_dv (router s)" "next_broadcast s1 = now env + 5"
    by (auto simp: periodic_broadcast_def router_consts)
  moreover have "SendTo Ctrl (nb_ctrl_port nb) (dv_bytes (send_dv_msg (router s) nb)) \<in> set (broadcast_dv (router s))"
    using assms(4-6) by (auto simp: broadcast_dv_def send_dv_eq)
  ultimately show ?thesis using 2 by simp
qed

theorem periodic_broadcast_reaches_all_witness:
  "\<exists>s acts. main_iter (w_env 5 Idle) (w_start w_a) = Some (s, acts) \<and> next_broadcast s = 10 \<and>
     SendTo Ctrl 12001 w_dgram \<in> set acts"
proof -
  obtain s acts where it: "main_iter (w_env 5 Idle) (w_start w_a) = Some (s, acts)"
    using w_sends by blast
  have "table_ok (router (w_start w_a))" "next_broadcast (w_start w_a) \<le> 5"
    "hd (neighbors w_a) \<in> set (neighbors (router (w_start w_a)))" "alive (hd (neighbors w_a))"
    "router (w_start w_a) = w_a" "nb_ctrl_port (hd (neighbors w_a)) = 12001"
    using w_ok(1) by (simp_all add: w_start_def main_start_def router_inv_def router_consts) (simp_all add: w_a_def)
  with periodic_broadcast_reaches_all [OF it, of "hd (neighbors w_a)"] it show ?thesis
    by (auto simp: w_dgram_def)
qed

text \<open>An update that reports no change has changed no cost and no next hop: at most it has added
  destinations at infinity, so a table that is not logged is not different.\<close>

theorem silent_update_changes_nothing:
  assumes "table_ok r" "dv_update r nb ts (dv_of_bytes bs) = Some (r', False)"
  shows "only_adds_blank (bf_view r) (bf_view r')"
  using dv_update_Some [OF assms(2)] dv_fold_unchanged [OF assms(1)] by (metis fst_conv snd_conv)

theorem silent_update_changes_nothing_witness:
  "\<exists>r'. dv_update w_b (hd (neighbors w_b)) (\<lambda>_. 1) (dv_of_bytes (replicate dv_size 0)) = Some (r', False) \<and>
     only_adds_blank (bf_view w_b) (bf_view r')"
proof -
  let ?m = "dv_of_bytes (replicate dv_size 0)"
  have "num ?m = 0" by (simp add: dv_of_bytes_def rd16_def of_le16_def dv_size_def)
  then have u: "dv_update w_b (hd (neighbors w_b)) (\<lambda>_. 1) ?m = Some (w_b, False)"
    by (simp add: dv_update_fold dv_of_bytes_def)
  from silent_update_changes_nothing [OF _ u] w_ok(2) u show ?thesis
    by (auto simp: router_inv_def)
qed

section \<open>Addresses and configuration\<close>

text \<open>C8. Whatever configuration file is accepted, the router it gives satisfies the invariant of the event
  loop (at most 128 routes with distinct keys, no route through an unknown or a nameless hop at finite cost,
  neighbours with distinct addresses), provided the file lists no neighbour address twice and none that is
  zero: those two are what the parser does not check, and the invariant needs.\<close>

theorem parse_conf_establishes_inv:
  assumes "parse_conf t path file = Inr r"
    and "distinct (map nb_ip (neighbors r))" "0 \<notin> nb_ip ` set (neighbors r)"
  shows "router_inv r"
  using parse_conf_inv [OF assms(1)] assms(2,3)
  by (auto simp: conf_inv_def router_inv_def nbs_ok_def all_routes_def conf_route_def hopless_ok_def
      dead_hop_ok_def)

text \<open>The configuration \<^verbatim>\<open>configs/r1.conf\<close> of the repository, and the router it describes:
  two neighbours and the network the router is attached to.\<close>

definition w_conf :: string where
  "w_conf = ''router_id 1'' @ [NL] @ ''self_ip 127.0.1.1'' @ [NL] @ ''listen_port 12001'' @ [NL] @ [NL] @
     ''routes'' @ [NL] @ ''  192.168.10.0 255.255.255.0 0.0.0.0 eth0'' @ [NL] @ [NL] @
     ''neighbors'' @ [NL] @ ''  127.0.1.2 12002 1'' @ [NL] @ ''  127.0.1.3 12003 3'' @ [NL]"

definition w_conf_router :: router_t where
  "w_conf_router = \<lparr>self_id = 1, self_ip = 0x0101007f, ctrl_port = 12001,
     neighbors = [\<lparr>nb_ip = 0x0201007f, nb_ctrl_port = 12002, nb_cost = 1, last_heard = 0, alive = True\<rparr>,
       \<lparr>nb_ip = 0x0301007f, nb_ctrl_port = 12003, nb_cost = 3, last_heard = 0, alive = True\<rparr>],
     routes = [\<lparr>dest_net = 0x000aa8c0, rt_mask = 0x00ffffff, next_hop = 0, iface = ''eth0'', rt_cost = 0,
       last_update = 0\<rparr>]\<rparr>"

theorem parse_conf_establishes_inv_witness:
  "parse_conf (\<lambda>_. 0) ''r1.conf'' (Inr w_conf) = Inr w_conf_router \<and> router_inv w_conf_router \<and>
    map nb_ip (neighbors w_conf_router) = [0x0201007f, 0x0301007f] \<and> length (routes w_conf_router) = 1"
proof -
  have p: "parse_conf (\<lambda>_. 0) ''r1.conf'' (Inr w_conf) = Inr w_conf_router" by code_simp
  from parse_conf_establishes_inv [OF p] p show ?thesis by (simp add: w_conf_router_def)
qed

text \<open>A route line of the documented form, with the addresses printed as dotted quads and whatever
  indentation, puts exactly that route in the table: cost 0 without a next hop, else cost 1.\<close>

theorem route_line_round_trip:
  assumes "table_ok (ps_router ps)" "length (routes (ps_router ps)) < MAX_DEST" "in_routes ps"
    and "ifn \<noteq> []" "\<forall>c \<in> set ifn. \<not> isspace c" "length ifn \<le> 15"
  shows "\<exists>r'. parse_line t (replicate k SP @ route_text n mk nh ifn @ [NL]) ps = Inr (ps\<lparr>ps_router := r'\<rparr>) \<and>
    same_config (ps_router ps) r' \<and> table_ok r' \<and>
    bf_view r' = (bf_view (ps_router ps))((n, mk) \<mapsto> (if nh = 0 then 0 else 1, nh))"
  using parse_route_line [OF assms] .

theorem route_line_round_trip_witness:
  "\<exists>r'. parse_line 0 (replicate 2 SP @ route_text 1 2 3 ''eth0'' @ [NL])
      \<lparr>ps_router = empty_router, in_routes = True, in_neigh = False\<rparr> =
      Inr \<lparr>ps_router = r', in_routes = True, in_neigh = False\<rparr> \<and> bf_view r' (1, 2) = Some (1, 3)"
  using route_line_round_trip [of "\<lparr>ps_router = empty_router, in_routes = True, in_neigh = False\<rparr>"
      "''eth0''" 0 2 1 2 3]
  by (auto simp: empty_router_def table_ok_def router_consts isspace_def code_def)

end
