(* ===== verification/Tftp.thy ===== *)
theory Tftp
  imports Scan
begin

text \<open>
  The TFTP server \<^verbatim>\<open>src/hw1/tftp_server.c\<close>: the packets, the two transfer loops
  \<^verbatim>\<open>handle_rrq\<close> and \<^verbatim>\<open>handle_wrq\<close>, the dispatch in
  \<^verbatim>\<open>handle_request\<close> and the port allocation of \<^verbatim>\<open>dg_tftp_listen\<close>.  A transfer
  runs in a forked child over a connected socket: what its calls of \<^verbatim>\<open>recv\<close> return is a script,
  a list of \<open>recv_result\<close>, and when the script is used up the child is waiting.  Reads and
  writes of the file through \<^verbatim>\<open>stdio\<close> succeed, as the code assumes.
\<close>

section \<open>Packets and outputs\<close>

definition TFTP_RRQ :: u16 where "TFTP_RRQ = 1"
definition TFTP_WRQ :: u16 where "TFTP_WRQ = 2"
definition TFTP_DATA :: u16 where "TFTP_DATA = 3"
definition TFTP_ACK :: u16 where "TFTP_ACK = 4"
definition TFTP_ERROR :: u16 where "TFTP_ERROR = 5"
definition DATA_SIZE :: nat where "DATA_SIZE = 512"
definition PACKET_BUFFER_SIZE :: nat where "PACKET_BUFFER_SIZE = DATA_SIZE + 4"
definition MAXLINE :: nat where "MAXLINE = 4096"
definition ERR_NOT_DEFINED :: u16 where "ERR_NOT_DEFINED = 0"
definition ERR_FILE_NOT_FOUND :: u16 where "ERR_FILE_NOT_FOUND = 1"
definition ERR_ACCESS_VIOLATION :: u16 where "ERR_ACCESS_VIOLATION = 2"
definition ERR_ILLEGAL_OP :: u16 where "ERR_ILLEGAL_OP = 4"
definition ERR_FILE_EXISTS :: u16 where "ERR_FILE_EXISTS = 6"

lemmas tftp_consts = TFTP_RRQ_def TFTP_WRQ_def TFTP_DATA_def TFTP_ACK_def TFTP_ERROR_def
  DATA_SIZE_def PACKET_BUFFER_SIZE_def MAXLINE_def ERR_NOT_DEFINED_def ERR_FILE_NOT_FOUND_def
  ERR_ACCESS_VIOLATION_def ERR_ILLEGAL_OP_def ERR_FILE_EXISTS_def

text \<open>A datagram to the client, a line on stdout, a line on stderr.\<close>

datatype tftp_out = Send "byte list" | Say string | Warn string

text \<open>What a call of \<^verbatim>\<open>recv\<close> gives: a datagram, an interruption by the alarm or by another
  signal, or an error with its text.\<close>

datatype recv_result = Got "byte list" | Alarm | Eintr | RecvError string

definition bytes_of :: "string \<Rightarrow> byte list" where
  "bytes_of s = map (\<lambda>c. of_nat (code c)) s"

definition chars_of :: "byte list \<Rightarrow> string" where
  "chars_of bs = map (\<lambda>b. char_of (unat b)) bs"

text \<open>The two header fields, written in network order by \<^verbatim>\<open>memcpy\<close> and read back the same way.\<close>

definition header :: "u16 \<Rightarrow> u16 \<Rightarrow> byte list" where
  "header op x = le16 (htons op) @ le16 (htons x)"

definition opcode_of :: "byte list \<Rightarrow> u16" where
  "opcode_of buf = ntohs (rd16 buf 0)"

definition block_of :: "byte list \<Rightarrow> u16" where
  "block_of buf = ntohs (rd16 buf 2)"

definition ack_packet :: "u16 \<Rightarrow> byte list" where
  "ack_packet blk = header TFTP_ACK blk"

definition data_packet :: "u16 \<Rightarrow> byte list \<Rightarrow> byte list" where
  "data_packet blk p = header TFTP_DATA blk @ p"

definition error_packet :: "u16 \<Rightarrow> string \<Rightarrow> byte list" where
  "error_packet c msg = header TFTP_ERROR c @ bytes_of msg @ [0]"

definition send_error :: "u16 \<Rightarrow> string \<Rightarrow> tftp_out list" where
  "send_error c msg = [Send (error_packet c msg), Say (''Sent ERROR packet: '' @ msg @ [NL])]"

definition err_sys :: "string \<Rightarrow> string \<Rightarrow> tftp_out" where
  "err_sys what err = Warn (what @ '': '' @ err @ [NL])"

lemma length_header [simp]: "length (header op x) = 4"
  by (simp add: header_def)

lemma header_read [simp]:
  "opcode_of (header op x @ rest) = op" "block_of (header op x @ rest) = x"
  using rd16_at [of "[]" 0 "htons op" "le16 (htons x) @ rest"] rd16_at [of "le16 (htons op)" 2 "htons x" rest]
  by (simp_all add: opcode_of_def block_of_def header_def)

section \<open>Write requests\<close>

text \<open>The inner loop of \<^verbatim>\<open>handle_wrq\<close>: wait for a packet, repeating the last
  acknowledgement at each alarm, ten times at most.\<close>

datatype wait_result =
    Received "byte list" "recv_result list"
  | TimedOut
  | Exit
  | Blocked

definition resend_line :: "u16 \<Rightarrow> string" where
  "resend_line blk =
     ''Timeout waiting for DATA block '' @ dec (unat blk) @ ''. Retransmitting ACK for block ''
       @ dec_int (uint blk - 1) @ ''...'' @ [NL]"

fun wrq_wait :: "u16 \<Rightarrow> nat \<Rightarrow> recv_result list \<Rightarrow> tftp_out list \<times> wait_result" where
  "wrq_wait blk cnt [] = ([], if cnt < 10 then Blocked else TimedOut)"
| "wrq_wait blk cnt (r # rs) =
     (if \<not> cnt < 10 then ([], TimedOut)
      else case r of
        Got d \<Rightarrow> ([], Received d rs)
      | Alarm \<Rightarrow>
          (case wrq_wait blk (Suc cnt) rs of
             (out, w) \<Rightarrow> (Say (resend_line blk) # Send (ack_packet (blk - 1)) # out, w))
      | Eintr \<Rightarrow> wrq_wait blk cnt rs
      | RecvError e \<Rightarrow> ([err_sys ''recv error'' e], Exit))"

lemma wrq_wait_rest: "wrq_wait blk cnt rs = (out, Received d rs') \<Longrightarrow> length rs' < length rs"
  by (induction blk cnt rs arbitrary: out rule: wrq_wait.induct)
     (force split: if_splits recv_result.splits prod.splits)+

text \<open>
  How the outer loop ends: the last block is stored; the loop breaks with what was stored so far
  left in the file; ten timeouts and the file is removed; the process exits; it is still waiting;
  a packet shorter than its header makes \<^verbatim>\<open>n - 4\<close> negative and \<^verbatim>\<open>fwrite\<close> read
  past the buffer.
\<close>

datatype wrq_end =
    Completed "byte list"
  | Aborted "byte list"
  | Removed
  | Died "byte list"
  | Waiting
  | Overread

definition ack_line :: "u16 \<Rightarrow> string" where
  "ack_line blk = ''Sent ACK for block '' @ dec (unat blk) @ [NL]"

definition duplicate_line :: "u16 \<Rightarrow> string" where
  "duplicate_line blk = ''Received duplicate block '' @ dec (unat blk) @ ''. Resending ACK.'' @ [NL]"

definition done_line :: string where
  "done_line = ''File transfer completed.'' @ [NL]"

definition emit :: "tftp_out list \<Rightarrow> tftp_out list \<times> 'a \<Rightarrow> tftp_out list \<times> 'a" where
  "emit out r = (out @ fst r, snd r)"

function wrq_loop ::
  "u16 \<Rightarrow> byte list \<Rightarrow> byte list \<Rightarrow> recv_result list \<Rightarrow> tftp_out list \<times> wrq_end" where
  "wrq_loop blk buf file rs =
     (case wrq_wait blk 0 rs of
        (out, Blocked) \<Rightarrow> (out, Waiting)
      | (out, TimedOut) \<Rightarrow>
          (out @ [Warn (''Connection timed out waiting for DATA block '' @ dec (unat blk) @ ''.'' @ [NL])],
           Removed)
      | (out, Exit) \<Rightarrow> (out, Died file)
      | (out, Received d rs') \<Rightarrow>
          (let buf' = recv_into buf d; n = min (length buf) (length d);
               opcode = opcode_of buf'; recv_block = block_of buf'
           in if opcode \<noteq> TFTP_DATA
              then (out @ send_error ERR_ILLEGAL_OP ''Expected DATA packet.'', Aborted file)
              else if recv_block = blk then
                if n < 4 then (out, Overread)
                else
                  let file' = file @ take (n - 4) (drop 4 buf');
                      acked = out @ [Send (ack_packet blk), Say (ack_line blk)]
                  in if n - 4 < DATA_SIZE then (acked @ [Say done_line], Completed file')
                     else emit acked (wrq_loop (blk + 1) buf' file' rs')
              else if recv_block < blk then
                emit (out @ [Say (duplicate_line recv_block), Send (ack_packet recv_block)])
                     (wrq_loop blk buf' file rs')
              else (out @ send_error ERR_ILLEGAL_OP ''Unexpected block number.'', Aborted file)))"
  by pat_completeness auto
termination
proof (relation "measure (\<lambda>(blk, buf, file, rs). length rs)")
qed (auto dest: wrq_wait_rest sym)

declare wrq_loop.simps [simp del]

section \<open>Read requests\<close>

datatype send_result =
    Acked "byte list" "recv_result list"
  | GaveUp
  | SendDied
  | NoAnswer

text \<open>The inner loop of \<^verbatim>\<open>handle_rrq\<close>: the packet goes out at every round, and a round ends with
  the matching acknowledgement, another packet, an alarm, a signal or an error.\<close>

fun rrq_block ::
  "u16 \<Rightarrow> byte list \<Rightarrow> nat \<Rightarrow> byte list \<Rightarrow> recv_result list \<Rightarrow> tftp_out list \<times> send_result" where
  "rrq_block blk pkt cnt buf [] =
     (if cnt < 10 then ([Send pkt], NoAnswer) else ([], GaveUp))"
| "rrq_block blk pkt cnt buf (r # rs) =
     (if \<not> cnt < 10 then ([], GaveUp)
      else emit [Send pkt]
        (case r of
           Got d \<Rightarrow>
             (let buf' = recv_into buf d in
              if opcode_of buf' = TFTP_ACK \<and> block_of buf' = blk
              then ([Say (''Received ACK for block '' @ dec (unat blk) @ [NL])], Acked buf' rs)
              else rrq_block blk pkt cnt buf' rs)
         | Alarm \<Rightarrow>
             emit [Say (''Timeout waiting for ACK for block '' @ dec (unat blk)
                        @ ''. Retransmitting... (Attempt '' @ dec (cnt + 1) @ '')'' @ [NL])]
                  (rrq_block blk pkt (Suc cnt) buf rs)
         | Eintr \<Rightarrow> rrq_block blk pkt cnt buf rs
         | RecvError e \<Rightarrow> ([err_sys ''recv error'' e], SendDied)))"

text \<open>The loop for the empty packet at the end.\<close>

fun rrq_final ::
  "u16 \<Rightarrow> byte list \<Rightarrow> nat \<Rightarrow> byte list \<Rightarrow> recv_result list \<Rightarrow> tftp_out list \<times> send_result" where
  "rrq_final blk pkt cnt buf [] =
     (if cnt < 10 then ([Send pkt], NoAnswer) else ([], GaveUp))"
| "rrq_final blk pkt cnt buf (r # rs) =
     (if \<not> cnt < 10 then ([], GaveUp)
      else emit [Send pkt]
        (case r of
           Got d \<Rightarrow>
             (let buf' = recv_into buf d in
              if opcode_of buf' = TFTP_ACK \<and> block_of buf' = blk
              then ([Say (''Received final ACK for block '' @ dec (unat blk) @ [NL])], Acked buf' rs)
              else rrq_final blk pkt cnt buf' rs)
         | Alarm \<Rightarrow> rrq_final blk pkt (Suc cnt) buf rs
         | Eintr \<Rightarrow> rrq_final blk pkt cnt buf rs
         | RecvError e \<Rightarrow> ([err_sys ''recv error'' e], SendDied)))"

datatype rrq_end = Served | RrqTimedOut | RrqDied | RrqWaiting

text \<open>
  The end of \<^verbatim>\<open>handle_rrq\<close>: \<open>bytes_read\<close> is what the last \<^verbatim>\<open>fread\<close> gave and \<open>pos\<close>
  the position in the file.
\<close>

definition rrq_finish ::
  "nat \<Rightarrow> nat \<Rightarrow> u16 \<Rightarrow> byte list \<Rightarrow> recv_result list \<Rightarrow> tftp_out list \<times> rrq_end" where
  "rrq_finish bytes_read pos blk buf rs =
     (if bytes_read = 0 \<and> pos = 0 \<or> bytes_read = DATA_SIZE then
        (let blk' = (if bytes_read = DATA_SIZE then blk + 1 else blk) in
         case rrq_final blk' (data_packet blk' []) 0 buf rs of
           (out, Acked _ _) \<Rightarrow> (out @ [Say done_line], Served)
         | (out, GaveUp) \<Rightarrow>
             (out @ [Warn (''Connection timed out waiting for final ACK.'' @ [NL]), Say done_line], Served)
         | (out, SendDied) \<Rightarrow> (out, RrqDied)
         | (out, NoAnswer) \<Rightarrow> (out, RrqWaiting))
      else ([Say done_line], Served))"

function rrq_loop ::
  "u16 \<Rightarrow> nat \<Rightarrow> byte list \<Rightarrow> byte list \<Rightarrow> recv_result list \<Rightarrow> tftp_out list \<times> rrq_end" where
  "rrq_loop blk pos rest buf rs =
     (let chunk = take DATA_SIZE rest; bytes_read = length chunk; pos' = pos + bytes_read in
      if bytes_read = 0 then rrq_finish 0 pos blk buf rs
      else case rrq_block blk (data_packet blk chunk) 0 buf rs of
        (out, Acked buf' rs') \<Rightarrow>
          if bytes_read < DATA_SIZE then emit out (rrq_finish bytes_read pos' (blk + 1) buf' rs')
          else emit out (rrq_loop (blk + 1) pos' (drop DATA_SIZE rest) buf' rs')
      | (out, GaveUp) \<Rightarrow>
          (out @ [Warn (''Connection timed out after 10 retransmissions for block '' @ dec (unat blk)
                        @ ''.'' @ [NL])], RrqTimedOut)
      | (out, SendDied) \<Rightarrow> (out, RrqDied)
      | (out, NoAnswer) \<Rightarrow> (out, RrqWaiting))"
  by pat_completeness auto
termination
  by (relation "measure (\<lambda>(blk, pos, rest, buf, rs). length rest)") (auto simp: DATA_SIZE_def)

declare rrq_loop.simps [simp del]

section \<open>Requests\<close>

text \<open>
  The two \<^verbatim>\<open>sscanf\<close> calls.  The message is a byte array that \<^verbatim>\<open>dg_tftp_listen\<close>
  has ended with a zero; the second call starts one byte behind as many bytes as the file name has.
  A field with no token leaves its array indeterminate, and one that does not fit with its zero
  overruns it: both are \<open>None\<close>.
\<close>

definition scan_field :: "nat \<Rightarrow> byte list \<Rightarrow> string option" where
  "scan_field k mem =
     (let s = cstr_of (chars_of mem) in
      case scan_s (length s) s of
        None \<Rightarrow> None
      | Some (tok, _) \<Rightarrow> if length tok < k then Some tok else None)"

definition parse_request :: "byte list \<Rightarrow> (string \<times> string) option" where
  "parse_request mem =
     (case scan_field 128 (drop 2 mem) of
        None \<Rightarrow> None
      | Some filename \<Rightarrow>
          (case scan_field 32 (drop (2 + length filename + 1) mem) of
             None \<Rightarrow> None
           | Some md \<Rightarrow> Some (filename, md)))"

text \<open>
  What the child meets: the client's address as printed, an error of the socket calls that set the
  transfer up (\<^verbatim>\<open>Socket\<close>, \<^verbatim>\<open>Bind\<close>, \<^verbatim>\<open>Connect\<close>), the files there are, those it
  can read and can create, the script and the old contents of the receive buffer.
\<close>

record child_env =
  peer :: string
  setup_error :: "string option"
  exists_file :: "string \<Rightarrow> bool"
  readable :: "string \<Rightarrow> byte list option"
  creatable :: "string \<Rightarrow> bool"
  script :: "recv_result list"
  stack :: "byte list"

text \<open>How the child ends, with the file it leaves behind when it created one.\<close>

datatype child_end =
    Returned "(string \<times> byte list) option"
  | Exited "(string \<times> byte list) option"
  | StillWaiting
  | Undef

definition wrq_child :: "string \<Rightarrow> wrq_end \<Rightarrow> child_end" where
  "wrq_child f e =
     (case e of
        Completed bs \<Rightarrow> Returned (Some (f, bs))
      | Aborted bs \<Rightarrow> Returned (Some (f, bs))
      | Removed \<Rightarrow> Returned None
      | Died bs \<Rightarrow> Exited (Some (f, bs))
      | Waiting \<Rightarrow> StillWaiting
      | Overread \<Rightarrow> Undef)"

definition rrq_child :: "rrq_end \<Rightarrow> child_end" where
  "rrq_child e =
     (case e of
        Served \<Rightarrow> Returned None
      | RrqTimedOut \<Rightarrow> Returned None
      | RrqDied \<Rightarrow> Exited None
      | RrqWaiting \<Rightarrow> StillWaiting)"

abbreviation SQ :: char where "SQ \<equiv> CHR 0x27"

definition request_line :: "string \<Rightarrow> string \<Rightarrow> string \<Rightarrow> tftp_out" where
  "request_line kind filename md =
     Say (kind @ '' for filename: '' @ [SQ] @ filename @ [SQ] @ '', mode: '' @ [SQ] @ md @ [SQ, NL])"

definition handle_wrq :: "child_env \<Rightarrow> byte list \<Rightarrow> tftp_out list \<times> child_end" where
  "handle_wrq env mem =
     (case parse_request mem of
        None \<Rightarrow> ([], Undef)
      | Some (filename, md) \<Rightarrow>
          emit [request_line ''WRQ'' filename md]
            (if \<not> strcaseeq md ''octet''
             then (send_error ERR_ILLEGAL_OP ''Only octet mode is supported.'', Returned None)
             else if exists_file env filename
             then (send_error ERR_FILE_EXISTS ''File already exists.'', Returned None)
             else if \<not> creatable env filename
             then (send_error ERR_ACCESS_VIOLATION ''Cannot create file.'', Returned None)
             else
               (case wrq_loop 1 (stack env) [] (script env) of
                  (out, e) \<Rightarrow>
                    ([Send (ack_packet 0), Say (''Sent ACK for block 0'' @ [NL])] @ out, wrq_child filename e))))"

definition handle_rrq :: "child_env \<Rightarrow> byte list \<Rightarrow> tftp_out list \<times> child_end" where
  "handle_rrq env mem =
     (case parse_request mem of
        None \<Rightarrow> ([], Undef)
      | Some (filename, md) \<Rightarrow>
          emit [request_line ''RRQ'' filename md]
            (if \<not> strcaseeq md ''octet''
             then (send_error ERR_NOT_DEFINED ''Only octet mode is supported.'', Returned None)
             else case readable env filename of
               None \<Rightarrow> (send_error ERR_FILE_NOT_FOUND ''File not found.'', Returned None)
             | Some contents \<Rightarrow>
                 (case rrq_loop 1 0 contents (stack env) (script env) of
                    (out, e) \<Rightarrow> (out, rrq_child e))))"

definition handle_request :: "child_env \<Rightarrow> int \<Rightarrow> int \<Rightarrow> byte list \<Rightarrow> tftp_out list \<times> child_end" where
  "handle_request env port_to_use end_port mem =
     (if end_port < port_to_use
      then ([Warn (''No available ports to handle the request.'' @ [NL])], Returned None)
      else emit [Say (''Child process created to handle request from '' @ peer env @ '', using port ''
                      @ dec_int port_to_use @ [NL])]
        (case setup_error env of
           Some e \<Rightarrow> ([Warn (e @ [NL])], Exited None)
         | None \<Rightarrow>
             let opcode = opcode_of mem in
             if opcode = TFTP_RRQ then emit [Say (''Received RRQ'' @ [NL])] (handle_rrq env mem)
             else if opcode = TFTP_WRQ then emit [Say (''Received WRQ'' @ [NL])] (handle_wrq env mem)
             else (send_error ERR_ILLEGAL_OP ''Invalid TFTP operation.''
                   @ [Warn (''Invalid opcode: '' @ dec (unat opcode) @ [NL])], Returned None)))"

section \<open>The listener\<close>

text \<open>
  One round of the loop of \<^verbatim>\<open>dg_tftp_listen\<close>: the message with its zero, the port of the child
  forked for it and the port of the next one.  A datagram that fills the array leaves no room for the
  zero, which is then written behind it.
\<close>

record listener =
  next_port :: int
  mesg :: "byte list"

definition terminate_mesg :: "byte list \<Rightarrow> byte list \<Rightarrow> byte list option" where
  "terminate_mesg mem d =
     (let n = min (length mem) (length d) in
      if n < length mem then Some ((recv_into mem d)[n := 0]) else None)"

definition advance_port :: "int \<Rightarrow> int \<Rightarrow> int \<Rightarrow> int \<times> tftp_out list" where
  "advance_port start_port end_port port =
     (if end_port < port + 1
      then (start_port + 1, [Warn (''Warning: Port range exhausted.'' @ [NL])])
      else (port + 1, []))"

definition listen_step ::
  "int \<Rightarrow> int \<Rightarrow> listener \<Rightarrow> byte list \<Rightarrow> (listener \<times> (int \<times> byte list) \<times> tftp_out list) option" where
  "listen_step start_port end_port l d =
     (case terminate_mesg (mesg l) d of
        None \<Rightarrow> None
      | Some mem \<Rightarrow>
          (case advance_port start_port end_port (next_port l) of
             (port', warn) \<Rightarrow>
               Some (\<lparr>next_port = port', mesg = mem\<rparr>, (next_port l, mem),
                     Say (''Waiting for request...'' @ [NL]) # warn)))"

text \<open>The children a sequence of datagrams makes: the port and the message of each.\<close>

fun listen_loop ::
  "int \<Rightarrow> int \<Rightarrow> listener \<Rightarrow> byte list list \<Rightarrow> (int \<times> byte list) list option" where
  "listen_loop start_port end_port l [] = Some []"
| "listen_loop start_port end_port l (d # ds) =
     (case listen_step start_port end_port l d of
        None \<Rightarrow> None
      | Some (l', child, _) \<Rightarrow> map_option (Cons child) (listen_loop start_port end_port l' ds))"

definition dg_tftp_listen ::
  "int \<Rightarrow> int \<Rightarrow> byte list \<Rightarrow> byte list list \<Rightarrow> (int \<times> byte list) list option" where
  "dg_tftp_listen start_port end_port mem ds =
     listen_loop start_port end_port \<lparr>next_port = start_port + 1, mesg = mem\<rparr> ds"

text \<open>\<^verbatim>\<open>main\<close> with its two arguments: the port it binds and the ports it serves.\<close>

definition tftp_main ::
  "string list \<Rightarrow> byte list \<Rightarrow> byte list list \<Rightarrow> tftp_out + (u16 \<times> (int \<times> byte list) list option)" where
  "tftp_main args mem ds =
     (case args of
        [a, b] \<Rightarrow> Inr (of_int (atoi a), dg_tftp_listen (atoi a) (atoi b) mem ds)
      | _ \<Rightarrow> Inl (Warn (''usage: tftp.out <start_port> <end_port>'' @ [NL])))"

end
