(* ===== verification/Tftp_Props.thy ===== *)
theory Tftp_Props
  imports Tftp "HOL-Library.Sublist"
begin

text \<open>
  The properties of the TFTP server.  A file is a sequence of blocks of 512 bytes ended by a shorter
  one, as the protocol has it; an upload is what a client sends, with duplicates and delays.
\<close>

section \<open>Blocks\<close>

function blocks :: "byte list \<Rightarrow> byte list list" where
  "blocks f = (if length f < DATA_SIZE then [f] else take DATA_SIZE f # blocks (drop DATA_SIZE f))"
  by pat_completeness auto
termination by (relation "measure length") (auto simp: DATA_SIZE_def)

declare blocks.simps [simp del]

text \<open>Full blocks with a shorter one at the end.\<close>

fun well_blocked :: "byte list list \<Rightarrow> bool" where
  "well_blocked [] = False"
| "well_blocked [p] = (length p < DATA_SIZE)"
| "well_blocked (p # ps) = (length p = DATA_SIZE \<and> well_blocked ps)"

lemma blocks_nonempty [simp]: "blocks f \<noteq> []"
  by (subst blocks.simps) simp

lemma blocks_Nil [simp]: "blocks [] = [[]]"
  by (subst blocks.simps) (simp add: DATA_SIZE_def)

lemma well_blocked_Cons: "ps \<noteq> [] \<Longrightarrow> well_blocked (p # ps) \<longleftrightarrow> length p = DATA_SIZE \<and> well_blocked ps"
  by (cases ps) auto

lemma blocks_ok: "concat (blocks f) = f \<and> well_blocked (blocks f) \<and>
    length (blocks f) = Suc (length f div DATA_SIZE)"
proof (induction f rule: blocks.induct)
  case (1 f)
  show ?case
  proof (cases "length f < DATA_SIZE")
    case True
    then show ?thesis by (simp add: blocks.simps [of f])
  next
    case False
    then have "Suc ((length f - DATA_SIZE) div DATA_SIZE) = length f div DATA_SIZE"
      by (simp add: le_div_geq DATA_SIZE_def)
    with 1 False show ?thesis
      by (simp add: blocks.simps [of f] well_blocked_Cons)
  qed
qed

section \<open>Storing an upload\<close>

text \<open>How \<^verbatim>\<open>wrq_loop\<close> ends is decided by how the wait ends.\<close>

definition after_wait :: "u16 \<Rightarrow> byte list \<Rightarrow> byte list \<Rightarrow> wait_result \<Rightarrow> wrq_end" where
  "after_wait blk buf file w =
     (case w of
        Blocked \<Rightarrow> Waiting
      | TimedOut \<Rightarrow> Removed
      | Exit \<Rightarrow> Died file
      | Received d rs \<Rightarrow>
          (let buf' = recv_into buf d; n = min (length buf) (length d); file' = file @ take (n - 4) (drop 4 buf')
           in if opcode_of buf' \<noteq> TFTP_DATA then Aborted file
              else if block_of buf' = blk then
                if n < 4 then Overread
                else if n - 4 < DATA_SIZE then Completed file'
                else snd (wrq_loop (blk + 1) buf' file' rs)
              else if block_of buf' < blk then snd (wrq_loop blk buf' file rs)
              else Aborted file))"

lemma snd_emit [simp]: "snd (emit out r) = snd r" "fst (emit out r) = out @ fst r"
  by (simp_all add: emit_def)

lemma wrq_loop_end: "snd (wrq_loop blk buf file rs) = after_wait blk buf file (snd (wrq_wait blk 0 rs))"
  by (subst wrq_loop.simps) (simp add: after_wait_def Let_def split: prod.split wait_result.split)

text \<open>A well-formed DATA packet in a buffer of the server's size.\<close>

lemma data_in_buffer:
  assumes "length buf = PACKET_BUFFER_SIZE" "length p \<le> DATA_SIZE"
  shows "recv_into buf (data_packet blk p) = header TFTP_DATA blk @ p @ drop (4 + length p) buf"
    and "min (length buf) (length (data_packet blk p)) = 4 + length p"
  using assms by (simp_all add: data_packet_def recv_into_fits tftp_consts)

lemma after_data:
  assumes "length buf = PACKET_BUFFER_SIZE" "length p \<le> DATA_SIZE"
  shows "after_wait blk buf file (Received (data_packet n p) rs) =
    (if n = blk then
       if length p < DATA_SIZE then Completed (file @ p)
       else snd (wrq_loop (blk + 1) (recv_into buf (data_packet n p)) (file @ p) rs)
     else if n < blk then snd (wrq_loop blk (recv_into buf (data_packet n p)) file rs) else Aborted file)"
proof -
  note b = data_in_buffer [OF assms]
  have "opcode_of (recv_into buf (data_packet m p)) = TFTP_DATA"
    "block_of (recv_into buf (data_packet m p)) = m"
    "drop 4 (recv_into buf (data_packet m p)) = p @ drop (4 + length p) buf" for m
    by (simp_all add: b(1))
  with b(2) assms(2) show ?thesis
    by (auto simp: after_wait_def Let_def)
qed

text \<open>
  A client's script for the blocks \<open>ps\<close> from number \<open>k\<close>: alarms, fewer than ten in a row, other
  signals, late duplicates of earlier blocks, and then the block that is due.  \<open>c\<close> counts the alarms
  since the last packet.
\<close>

inductive upload :: "nat \<Rightarrow> nat \<Rightarrow> byte list list \<Rightarrow> recv_result list \<Rightarrow> bool" where
  alarm: "c < 9 \<Longrightarrow> upload k (Suc c) ps rs \<Longrightarrow> upload k c ps (Alarm # rs)"
| signal: "upload k c ps rs \<Longrightarrow> upload k c ps (Eintr # rs)"
| duplicate: "j < k \<Longrightarrow> length q \<le> DATA_SIZE \<Longrightarrow> upload k 0 ps rs \<Longrightarrow>
    upload k c ps (Got (data_packet (of_nat j) q) # rs)"
| block: "ps \<noteq> [] \<Longrightarrow> upload (Suc k) 0 ps rs \<Longrightarrow>
    upload k c (p # ps) (Got (data_packet (of_nat k) p) # rs)"
| last: "upload k c [p] (Got (data_packet (of_nat k) p) # rs)"

lemma snd_wrq_wait [simp]:
  "cnt < 10 \<Longrightarrow> snd (wrq_wait blk cnt (Got d # rs)) = Received d rs"
  "cnt < 10 \<Longrightarrow> snd (wrq_wait blk cnt (Alarm # rs)) = snd (wrq_wait blk (Suc cnt) rs)"
  "cnt < 10 \<Longrightarrow> snd (wrq_wait blk cnt (Eintr # rs)) = snd (wrq_wait blk cnt rs)"
  by (simp_all split: prod.split)

lemma of_nat_less_u16: "j < k \<Longrightarrow> k < 65536 \<Longrightarrow> (of_nat j :: u16) < of_nat k"
  by (simp add: word_less_nat_alt unat_of_nat)

lemma upload_stored:
  assumes "upload k c ps rs" "c < 10" "well_blocked ps" "k + length ps \<le> 65536"
    "length buf = PACKET_BUFFER_SIZE"
  shows "after_wait (of_nat k) buf acc (snd (wrq_wait (of_nat k) c rs)) = Completed (acc @ concat ps)"
  using assms
proof (induction arbitrary: buf acc rule: upload.induct)
  case (duplicate j k q ps rs c)
  have "k < 65536" using duplicate.prems by (cases ps) auto
  then have "(of_nat j :: u16) < of_nat k" using duplicate.hyps(1) by (intro of_nat_less_u16)
  with duplicate.hyps(2) duplicate.prems duplicate.IH show ?case
    by (simp add: after_data wrq_loop_end less_le del: wrq_wait.simps)
next
  case (block ps k rs c p)
  with well_blocked_Cons [of ps p] show ?case
    by (simp add: after_data wrq_loop_end add.commute del: wrq_wait.simps)
next
  case (last k c p rs)
  then show ?case by (simp add: after_data del: wrq_wait.simps)
qed (simp_all del: wrq_wait.simps)

text \<open>The packets of a transfer from a block number on.\<close>

fun number :: "u16 \<Rightarrow> byte list list \<Rightarrow> byte list list" where
  "number blk [] = []"
| "number blk (p # ps) = data_packet blk p # number (blk + 1) ps"

lemma header_bytes:
  assumes "4 \<le> length b" "opcode_of b = op" "block_of b = x"
  shows "take 4 b = header op x"
proof -
  obtain b0 b1 b2 b3 rest where b: "b = b0 # b1 # b2 # b3 # rest"
    using assms(1) by (auto simp: numeral_eq_Suc Suc_le_length_iff)
  have "htons op = of_le16 b0 b1" "htons x = of_le16 b2 b3"
    using assms(2,3) by (auto simp: b opcode_of_def block_of_def rd16_def)
  then show ?thesis by (simp add: b header_def)
qed

lemma wrq_wait_received:
  "wrq_wait blk cnt rs = (out, Received d rs') \<Longrightarrow> \<exists>pre. rs = pre @ Got d # rs'"
proof (induction blk cnt rs arbitrary: out rule: wrq_wait.induct)
  case (2 blk cnt r rs)
  then consider "r = Got d" "rs = rs'" | out' where "wrq_wait blk (Suc cnt) rs = (out', Received d rs')" "cnt < 10" "r = Alarm"
    | "wrq_wait blk cnt rs = (out, Received d rs')" "cnt < 10" "r = Eintr"
    by (auto split: if_splits recv_result.splits prod.splits)
  then show ?case
  proof cases
    case 1
    then show ?thesis by (intro exI [of _ "[]"]) simp
  next
    case (2 out')
    with "2.IH"(1) obtain pre where "rs = pre @ Got d # rs'" by blast
    then show ?thesis by (intro exI [of _ "r # pre"]) simp
  next
    case 3
    with "2.IH"(2) obtain pre where "rs = pre @ Got d # rs'" by blast
    then show ?thesis by (intro exI [of _ "r # pre"]) simp
  qed
qed (simp split: if_splits)

lemma accepted_packet:
  assumes "length buf = PACKET_BUFFER_SIZE" "4 \<le> min (length buf) (length d)"
    "opcode_of (recv_into buf d) = TFTP_DATA" "block_of (recv_into buf d) = blk"
  defines "p \<equiv> take (min (length buf) (length d) - 4) (drop 4 (recv_into buf d))"
  shows "take PACKET_BUFFER_SIZE d = data_packet blk p"
proof -
  let ?b = "recv_into buf d" and ?n = "min (length buf) (length d)"
  have "take PACKET_BUFFER_SIZE d = take ?n ?b"
    using assms(1) by (simp add: recv_into_def min_def)
  also have "\<dots> = take 4 ?b @ p"
    using assms(2) take_add [of 4 "?n - 4" ?b] by (simp add: p_def)
  also have "take 4 ?b = header TFTP_DATA blk"
    using assms(1,3,4) by (intro header_bytes) (simp_all add: tftp_consts)
  finally show ?thesis by (simp add: data_packet_def)
qed

lemma if_completed:
  "(if a then Aborted x else if b then if c then Overread else if e then Completed f else y
    else if g then z else Aborted x) = Completed bs \<Longrightarrow>
   \<not> a \<and> b \<and> \<not> c \<and> e \<and> bs = f \<or> \<not> a \<and> b \<and> \<not> c \<and> \<not> e \<and> y = Completed bs \<or> z = Completed bs"
  by (auto split: if_splits)

lemma received_completed:
  assumes "after_wait blk buf acc (Received d rs) = Completed bs"
  shows "opcode_of (recv_into buf d) = TFTP_DATA \<and> block_of (recv_into buf d) = blk \<and>
      4 \<le> min (length buf) (length d) \<and> min (length buf) (length d) - 4 < DATA_SIZE \<and>
      bs = acc @ take (min (length buf) (length d) - 4) (drop 4 (recv_into buf d)) \<or>
    opcode_of (recv_into buf d) = TFTP_DATA \<and> block_of (recv_into buf d) = blk \<and>
      4 \<le> min (length buf) (length d) \<and> \<not> min (length buf) (length d) - 4 < DATA_SIZE \<and>
      snd (wrq_loop (blk + 1) (recv_into buf d)
        (acc @ take (min (length buf) (length d) - 4) (drop 4 (recv_into buf d))) rs) = Completed bs \<or>
    snd (wrq_loop blk (recv_into buf d) acc rs) = Completed bs"
  using if_completed [OF assms [unfolded after_wait_def wait_result.case Let_def]]
  unfolding not_less not_not .

lemma completed_from_packets:
  assumes "snd (wrq_loop blk buf acc rs) = Completed bs" "length buf = PACKET_BUFFER_SIZE"
  shows "\<exists>ds ps. subseq (map Got ds) rs \<and> map (take PACKET_BUFFER_SIZE) ds = number blk ps \<and>
    well_blocked ps \<and> bs = acc @ concat ps"
  using assms
proof (induction "length rs" arbitrary: blk buf acc rs rule: less_induct)
  case less
  obtain out w where w: "wrq_wait blk 0 rs = (out, w)" by (cases "wrq_wait blk 0 rs")
  with less.prems obtain d rs' where d: "w = Received d rs'"
    by (cases w) (auto simp: wrq_loop_end after_wait_def)
  obtain pre where rs: "rs = pre @ Got d # rs'" using wrq_wait_received w d by blast
  let ?b = "recv_into buf d" and ?n = "min (length buf) (length d)"
  let ?p = "take (?n - 4) (drop 4 ?b)"
  have len: "length ?b = PACKET_BUFFER_SIZE" using less.prems(2) by simp
  from less.prems(1) w d consider
      "opcode_of ?b = TFTP_DATA" "block_of ?b = blk" "4 \<le> ?n" "?n - 4 < DATA_SIZE" "bs = acc @ ?p"
    | "opcode_of ?b = TFTP_DATA" "block_of ?b = blk" "4 \<le> ?n" "\<not> ?n - 4 < DATA_SIZE"
        "snd (wrq_loop (blk + 1) ?b (acc @ ?p) rs') = Completed bs"
    | "snd (wrq_loop blk ?b acc rs') = Completed bs"
    using received_completed [of blk buf acc d rs' bs] by (simp only: wrq_loop_end snd_conv) blast
  then show ?case
  proof cases
    case 1
    have "take PACKET_BUFFER_SIZE d = data_packet blk ?p"
      using less.prems(2) 1 by (intro accepted_packet) simp_all
    moreover have "length ?p < DATA_SIZE" using 1(4) by simp
    ultimately show ?thesis
      using 1(5) rs by (intro exI [of _ "[d]"] exI [of _ "[?p]"]) (simp add: subseq_drop_many)
  next
    case 2
    have "take PACKET_BUFFER_SIZE d = data_packet blk ?p"
      using less.prems(2) 2 by (intro accepted_packet) simp_all
    moreover have "length ?p = DATA_SIZE"
      using 2(3,4) less.prems(2) by (auto simp: tftp_consts)
    moreover obtain ds ps where "subseq (map Got ds) rs'" "map (take PACKET_BUFFER_SIZE) ds = number (blk + 1) ps"
      "well_blocked ps" "bs = (acc @ ?p) @ concat ps"
      using less.hyps [OF _ 2(5) len] rs by auto
    moreover from this have "well_blocked (?p # ps)"
      using \<open>length ?p = DATA_SIZE\<close> by (cases ps) auto
    ultimately show ?thesis
      using rs by (intro exI [of _ "d # ds"] exI [of _ "?p # ps"]) (simp add: subseq_drop_many)
  next
    case 3
    from less.hyps [OF _ 3 len] rs obtain ds ps where "subseq (map Got ds) rs'"
      "map (take PACKET_BUFFER_SIZE) ds = number blk ps" "well_blocked ps" "bs = acc @ concat ps"
      by auto
    moreover from this(1) have "subseq (map Got ds) rs" by (auto simp: rs intro: subseq_drop_many list_emb_Cons)
    ultimately show ?thesis by blast
  qed
qed

section \<open>Serving a file\<close>

definition sent :: "tftp_out list \<Rightarrow> byte list list" where
  "sent out = List.map_filter (\<lambda>x. case x of Send b \<Rightarrow> Some b | _ \<Rightarrow> None) out"

lemma sent_simps [simp]:
  "sent [] = []" "sent (Send b # out) = b # sent out" "sent (Say s # out) = sent out"
  "sent (Warn s # out) = sent out"
  by (simp_all add: sent_def List.map_filter_simps)

lemma sent_append [simp]: "sent (xs @ ys) = sent xs @ sent ys"
proof (induction xs)
  case (Cons x xs)
  then show ?case by (cases x) simp_all
qed simp

text \<open>What the reading loop sends: the nonempty pieces \<^verbatim>\<open>fread\<close> gives.\<close>

function chunks :: "byte list \<Rightarrow> byte list list" where
  "chunks f = (if f = [] then [] else take DATA_SIZE f # chunks (drop DATA_SIZE f))"
  by pat_completeness auto
termination by (relation "measure length") (auto simp: DATA_SIZE_def)

declare chunks.simps [simp del]

lemma chunks_Nil [simp]: "chunks [] = []"
  by (simp add: chunks.simps)

lemma concat_chunks: "concat (chunks f) = f"
  by (induction f rule: chunks.induct) (simp add: chunks.simps)

lemma chunks_blocks:
  "f \<noteq> [] \<Longrightarrow> blocks f = (if DATA_SIZE dvd length f then chunks f @ [[]] else chunks f)"
proof (induction f rule: chunks.induct)
  case (1 f)
  show ?case
  proof (cases "length f < DATA_SIZE")
    case True
    then have "\<not> DATA_SIZE dvd length f" using 1(2) by (auto dest: dvd_imp_le)
    with True 1(2) show ?thesis by (simp add: blocks.simps [of f] chunks.simps [of f])
  next
    case False
    have dvd: "DATA_SIZE dvd length f \<longleftrightarrow> DATA_SIZE dvd length (drop DATA_SIZE f)"
      using False by (simp add: dvd_minus_self)
    show ?thesis
    proof (cases "drop DATA_SIZE f = []")
      case True
      with False have "length f = DATA_SIZE" by simp
      with True False 1(2) show ?thesis
        by (simp add: blocks.simps [of f] chunks.simps [of f])
    next
      case ne: False
      with False 1 dvd show ?thesis
        by (simp add: blocks.simps [of f] chunks.simps [of f])
    qed
  qed
qed

lemma rrq_block_sends:
  "\<exists>m. sent (fst (rrq_block blk pkt cnt buf rs)) = replicate m pkt \<and> (cnt < 10 \<longrightarrow> 0 < m)"
proof (induction blk pkt cnt buf rs rule: rrq_block.induct)
  case (1 blk pkt cnt buf)
  then show ?case by (auto intro: exI [of _ "1"])
next
  case (2 blk pkt cnt buf r rs)
  show ?case
  proof (cases "cnt < 10")
    case True
    have "\<exists>m. sent (fst (rrq_block blk pkt cnt buf (r # rs))) = pkt # replicate m pkt"
    proof (cases r)
      case (Got d)
      with True show ?thesis
        using "2.IH"(1) [of d "recv_into buf d"]
        by (cases "opcode_of (recv_into buf d) = TFTP_ACK \<and> block_of (recv_into buf d) = blk")
           (auto simp: err_sys_def intro: exI [of _ 0])
    next
      case Alarm
      with True "2.IH"(2) show ?thesis by auto
    next
      case Eintr
      with True "2.IH"(3) show ?thesis by auto
    next
      case (RecvError e)
      with True show ?thesis by (auto simp: err_sys_def intro: exI [of _ 0])
    qed
    then show ?thesis by (metis replicate_Suc zero_less_Suc)
  qed simp
qed

lemma rrq_final_sends:
  "\<exists>m. sent (fst (rrq_final blk pkt cnt buf rs)) = replicate m pkt \<and> (cnt < 10 \<longrightarrow> 0 < m)"
proof (induction blk pkt cnt buf rs rule: rrq_final.induct)
  case (1 blk pkt cnt buf)
  then show ?case by (auto intro: exI [of _ "1"])
next
  case (2 blk pkt cnt buf r rs)
  show ?case
  proof (cases "cnt < 10")
    case True
    have "\<exists>m. sent (fst (rrq_final blk pkt cnt buf (r # rs))) = pkt # replicate m pkt"
    proof (cases r)
      case (Got d)
      with True show ?thesis
        using "2.IH"(1) [of d "recv_into buf d"]
        by (cases "opcode_of (recv_into buf d) = TFTP_ACK \<and> block_of (recv_into buf d) = blk")
           (auto simp: err_sys_def intro: exI [of _ 0])
    next
      case Alarm
      with True "2.IH"(2) show ?thesis by auto
    next
      case Eintr
      with True "2.IH"(3) show ?thesis by auto
    next
      case (RecvError e)
      with True show ?thesis by (auto simp: err_sys_def intro: exI [of _ 0])
    qed
    then show ?thesis by (metis replicate_Suc zero_less_Suc)
  qed simp
qed

text \<open>Repeats of a packet, then others.\<close>

lemma remdups_adj_repeats:
  "0 < m \<Longrightarrow> ys = [] \<or> hd ys \<noteq> x \<Longrightarrow> remdups_adj (replicate m x @ ys) = x # remdups_adj ys"
proof (induction m)
  case (Suc m)
  then show ?case
    by (cases m) (cases ys; auto simp: remdups_adj_Cons')+
qed simp

lemma data_packet_inj [simp]: "data_packet a p = data_packet b q \<longleftrightarrow> a = b \<and> p = q"
proof
  assume eq: "data_packet a p = data_packet b q"
  then have "block_of (data_packet a p @ []) = block_of (data_packet b q @ [])" by simp
  then have "a = b" by (simp add: data_packet_def)
  with eq show "a = b \<and> p = q" by (simp add: data_packet_def)
qed simp

lemma finish_sends:
  "snd (rrq_finish n pos blk buf rs) = e \<Longrightarrow> n < DATA_SIZE \<Longrightarrow>
   remdups_adj (sent (fst (rrq_finish n pos blk buf rs))) =
     (if n = 0 \<and> pos = 0 then [data_packet blk []] else [])"
  using rrq_final_sends [of blk "data_packet blk []" 0 buf rs] remdups_adj_repeats [of _ "[]" "data_packet blk []"]
  by (auto simp: rrq_finish_def done_line_def split: prod.split send_result.split)

lemma rrq_loop_empty: "rrq_loop blk pos [] buf rs = rrq_finish 0 pos blk buf rs"
  by (subst rrq_loop.simps) simp

lemma rrq_loop_sends:
  "snd (rrq_loop blk pos f buf rs) = Served \<Longrightarrow>
   remdups_adj (sent (fst (rrq_loop blk pos f buf rs))) =
     (if f = [] \<and> pos = 0 then [data_packet blk []] else number blk (chunks f))"
proof (induction blk pos f buf rs rule: rrq_loop.induct)
  case (1 blk pos f buf rs)
  let ?chunk = "take DATA_SIZE f" and ?rest = "drop DATA_SIZE f"
  show ?case
  proof (cases "f = []")
    case True
    with finish_sends [of 0 pos blk buf rs] show ?thesis
      by (cases "pos = 0") (simp_all add: rrq_loop_empty DATA_SIZE_def)
  next
    case False
    then have ne: "length ?chunk \<noteq> 0" by (simp add: DATA_SIZE_def)
    obtain out w where w: "rrq_block blk (data_packet blk ?chunk) 0 buf rs = (out, w)"
      by (cases "rrq_block blk (data_packet blk ?chunk) 0 buf rs")
    from rrq_block_sends [of blk "data_packet blk ?chunk" 0 buf rs] w
    obtain m where m: "sent out = replicate m (data_packet blk ?chunk)" "0 < m" by auto
    from "1.prems" w ne obtain buf' rs' where acked: "w = Acked buf' rs'"
      by (cases w) (auto simp: rrq_loop.simps [of blk pos f] Let_def)
    show ?thesis
    proof (cases "length f < DATA_SIZE")
      case True
      then have rest: "chunks f = [?chunk]" using False by (simp add: chunks.simps [of f])
      with finish_sends [of "length ?chunk" "pos + length ?chunk" "blk + 1" buf' rs'] True ne
      have "sent (fst (rrq_finish (length ?chunk) (pos + length ?chunk) (blk + 1) buf' rs')) = []"
        by simp
      with True w acked ne m rest False remdups_adj_repeats [of m "[]"] show ?thesis
        by (simp add: rrq_loop.simps [of blk pos f] Let_def)
    next
      case full: False
      let ?r = "rrq_loop (blk + 1) (pos + length ?chunk) ?rest buf' rs'"
      have step: "rrq_loop blk pos f buf rs = emit out ?r"
        using full False w acked ne by (simp add: rrq_loop.simps [of blk pos f] Let_def)
      with "1.prems" have "snd ?r = Served" by simp
      then have ih: "remdups_adj (sent (fst ?r)) = number (blk + 1) (chunks ?rest)"
        using "1.IH" [OF refl refl refl _ w [symmetric] acked] full ne by simp
      have "sent (fst ?r) = [] \<or> hd (sent (fst ?r)) \<noteq> data_packet blk ?chunk"
      proof (cases "chunks ?rest")
        case Nil
        with ih show ?thesis by simp
      next
        case (Cons p ps)
        with ih have "hd (sent (fst ?r)) = data_packet (blk + 1) p"
          using hd_remdups_adj [of "sent (fst ?r)"] by (metis list.sel(1) number.simps(2))
        then show ?thesis by simp
      qed
      from remdups_adj_repeats [OF m(2) this] m(1) step ih False show ?thesis
        by (simp add: chunks.simps [of f])
    qed
  qed
qed

text \<open>A nonempty file of a multiple of 512 bytes: every packet sent is a full one.\<close>

lemma only_sends_pkt:
  "b \<in> set (sent (fst (rrq_block blk pkt cnt buf rs))) \<Longrightarrow> b = pkt"
  using rrq_block_sends [of blk pkt cnt buf rs] by auto

lemma multiple_sends_full:
  "DATA_SIZE dvd length f \<Longrightarrow> f \<noteq> [] \<or> 0 < pos \<Longrightarrow> b \<in> set (sent (fst (rrq_loop blk pos f buf rs))) \<Longrightarrow>
   length b = PACKET_BUFFER_SIZE"
proof (induction blk pos f buf rs rule: rrq_loop.induct)
  case (1 blk pos f buf rs)
  let ?chunk = "take DATA_SIZE f" and ?rest = "drop DATA_SIZE f"
  show ?case
  proof (cases "f = []")
    case True
    with "1.prems" show ?thesis
      by (simp add: rrq_loop_empty rrq_finish_def done_line_def) (simp add: DATA_SIZE_def)
  next
    case False
    then have full: "length ?chunk = DATA_SIZE"
      using "1.prems"(1) by (auto simp: min_def dest: dvd_imp_le)
    have pos: "0 < DATA_SIZE" by (simp add: DATA_SIZE_def)
    obtain out w where w: "rrq_block blk (data_packet blk ?chunk) 0 buf rs = (out, w)"
      by (cases "rrq_block blk (data_packet blk ?chunk) 0 buf rs")
    have out: "length x = PACKET_BUFFER_SIZE" if "x \<in> set (sent out)" for x
      using only_sends_pkt [of x blk "data_packet blk ?chunk" 0 buf rs] that w full
      by (simp add: data_packet_def tftp_consts)
    show ?thesis
    proof (cases w)
      case (Acked buf' rs')
      let ?r = "rrq_loop (blk + 1) (pos + length ?chunk) ?rest buf' rs'"
      have "rrq_loop blk pos f buf rs = emit out ?r"
        using full False w Acked pos by (simp add: rrq_loop.simps [of blk pos f] Let_def)
      moreover have "DATA_SIZE dvd length ?rest"
        using "1.prems"(1) full by (simp add: dvd_minus_self)
      ultimately show ?thesis
        using "1.prems"(3) "1.IH" [OF refl refl refl _ w [symmetric] Acked] full False pos out by auto
    next
      case GaveUp
      with "1.prems"(3) False w full pos out show ?thesis
        by (simp add: rrq_loop.simps [of blk pos f] Let_def)
    next
      case SendDied
      with "1.prems"(3) False w full pos out show ?thesis
        by (simp add: rrq_loop.simps [of blk pos f] Let_def)
    next
      case NoAnswer
      with "1.prems"(3) False w full pos out show ?thesis
        by (simp add: rrq_loop.simps [of blk pos f] Let_def)
    qed
  qed
qed

section \<open>Acknowledgements\<close>

lemma ack_in_buffer:
  assumes "length buf = PACKET_BUFFER_SIZE"
  shows "opcode_of (recv_into buf (ack_packet j)) = TFTP_ACK" "block_of (recv_into buf (ack_packet j)) = j"
  using assms by (simp_all add: ack_packet_def recv_into_fits tftp_consts)

lemma rrq_block_acked:
  assumes "length buf = PACKET_BUFFER_SIZE" "cnt < 10"
  shows "rrq_block blk pkt cnt buf (Got (ack_packet blk) # rs) =
    ([Send pkt, Say (''Received ACK for block '' @ dec (unat blk) @ [NL])],
     Acked (recv_into buf (ack_packet blk)) rs)"
  using assms ack_in_buffer [OF assms(1)] by (simp add: emit_def)

text \<open>Acknowledgements of other blocks each make the packet go out again.\<close>

lemma rrq_block_stale:
  assumes "length buf = PACKET_BUFFER_SIZE" "cnt < 10" "j \<noteq> blk"
  shows "sent (fst (rrq_block blk pkt cnt buf
      (replicate n (Got (ack_packet j)) @ Got (ack_packet blk) # rs))) = replicate (Suc n) pkt"
  using assms
proof (induction n arbitrary: buf)
  case 0
  then show ?case by (simp add: rrq_block_acked del: rrq_block.simps)
next
  case (Suc n)
  with ack_in_buffer [OF Suc.prems(1)] show ?case by simp
qed

text \<open>A client that acknowledges every block.\<close>

fun acks :: "u16 \<Rightarrow> nat \<Rightarrow> recv_result list" where
  "acks blk 0 = []"
| "acks blk (Suc n) = Got (ack_packet blk) # acks (blk + 1) n"

lemma rrq_loop_acked:
  "f \<noteq> [] \<or> 0 < pos \<Longrightarrow> length buf = PACKET_BUFFER_SIZE \<Longrightarrow>
   snd (rrq_loop blk pos f buf (acks blk (length (chunks f)))) = Served \<and>
   sent (fst (rrq_loop blk pos f buf (acks blk (length (chunks f))))) = number blk (chunks f)"
proof (induction f arbitrary: blk pos buf rule: chunks.induct)
  case (1 f)
  show ?case
  proof (cases "f = []")
    case True
    with 1(2) show ?thesis
      by (simp add: rrq_loop_empty rrq_finish_def done_line_def) (simp add: DATA_SIZE_def)
  next
    case False
    let ?chunk = "take DATA_SIZE f"
    have pos: "0 < DATA_SIZE" by (simp add: DATA_SIZE_def)
    have c: "chunks f = ?chunk # chunks (drop DATA_SIZE f)" using False by (simp add: chunks.simps [of f])
    note ack = rrq_block_acked [OF 1(3), of 0 blk "data_packet blk ?chunk" "acks (blk + 1) (length (chunks (drop DATA_SIZE f)))"]
    show ?thesis
    proof (cases "length f < DATA_SIZE")
      case True
      with ack c False pos show ?thesis
        by (simp add: rrq_loop.simps [of blk pos f] Let_def rrq_finish_def done_line_def del: rrq_block.simps)
    next
      case full: False
      with 1(1) [OF False, of "pos + length ?chunk" "recv_into buf (ack_packet blk)" "blk + 1"] ack c False pos 1(3)
      show ?thesis
        by (simp add: rrq_loop.simps [of blk pos f] Let_def del: rrq_block.simps)
    qed
  qed
qed

lemma rrq_empty_acked:
  "length buf = PACKET_BUFFER_SIZE \<Longrightarrow>
   snd (rrq_loop blk 0 [] buf (acks blk 1)) = Served \<and>
   sent (fst (rrq_loop blk 0 [] buf (acks blk 1))) = [data_packet blk []]"
  using ack_in_buffer [of buf blk] by (simp add: rrq_loop_empty rrq_finish_def done_line_def emit_def)
   (simp add: DATA_SIZE_def)

text \<open>The packets of a download stored by the server as an upload.\<close>

lemma upload_in_order:
  "ps \<noteq> [] \<Longrightarrow> upload k 0 ps (map Got (number (of_nat k) ps))"
proof (induction ps arbitrary: k)
  case (Cons p ps)
  show ?case
  proof (cases "ps = []")
    case True
    then show ?thesis by (auto intro: upload.last)
  next
    case False
    with Cons.IH [of "Suc k"] have "upload (Suc k) 0 ps (map Got (number (of_nat k + 1) ps))"
      by (simp add: add.commute)
    with False show ?thesis by (auto intro: upload.block)
  qed
qed simp

lemma full_blocks_waiting:
  "\<forall>p \<in> set ps. length p = DATA_SIZE \<Longrightarrow> length buf = PACKET_BUFFER_SIZE \<Longrightarrow>
   snd (wrq_loop blk buf acc (map Got (number blk ps))) = Waiting"
proof (induction ps arbitrary: blk buf acc)
  case Nil
  then show ?case by (simp add: wrq_loop_end after_wait_def)
next
  case (Cons p ps)
  then show ?case by (simp add: wrq_loop_end after_data del: wrq_wait.simps)
qed

lemma chunks_full: "DATA_SIZE dvd length f \<Longrightarrow> p \<in> set (chunks f) \<Longrightarrow> length p = DATA_SIZE"
proof (induction f rule: chunks.induct)
  case (1 f)
  show ?case
  proof (cases "f = []")
    case False
    then have len: "DATA_SIZE \<le> length f" using "1.prems"(1) by (auto dest: dvd_imp_le)
    with "1.prems"(1) have "DATA_SIZE dvd length (drop DATA_SIZE f)" by (simp add: dvd_minus_self)
    with False "1.IH" "1.prems"(2) len show ?thesis by (auto simp: chunks.simps [of f])
  qed (use "1.prems" in simp)
qed

section \<open>Properties\<close>

text \<open>C10. An upload of fewer than 65535 full blocks (the block number has 16 bits) is stored exactly: whatever delays
  (fewer than ten in a row), other signals and late duplicates of earlier blocks come between, the server ends with the client's file.\<close>

theorem wrq_stores_upload:
  assumes "upload 1 0 (blocks f) rs" "length f div DATA_SIZE < 65535" "length buf = PACKET_BUFFER_SIZE"
  shows "snd (wrq_loop 1 buf [] rs) = Completed f"
  using upload_stored [OF assms(1), of buf "[]"] blocks_ok [of f] assms(2,3)
  by (simp add: wrq_loop_end)

lemma blocks_short: "length f < DATA_SIZE \<Longrightarrow> blocks f = [f]"
  by (subst blocks.simps) simp

definition w_buf :: "byte list" where "w_buf = replicate PACKET_BUFFER_SIZE 0"

lemma w_buf_length [simp]: "length w_buf = PACKET_BUFFER_SIZE"
  by (simp add: w_buf_def)

theorem wrq_stores_upload_witness:
  "snd (wrq_loop 1 w_buf [] [Alarm, Got (data_packet 0 []), Eintr, Got (data_packet 1 [104, 105])]) =
   Completed [104, 105]"
proof -
  have "upload 1 0 [[104, 105]] [Alarm, Got (data_packet (of_nat 0) []), Eintr, Got (data_packet (of_nat 1) [104, 105])]"
    by (intro upload.alarm upload.duplicate upload.signal upload.last) (simp_all add: tftp_consts)
  then show ?thesis
    using wrq_stores_upload [of "[104, 105]" _ w_buf] by (simp add: blocks_short tftp_consts)
qed

text \<open>Whatever packets come, a transfer that completes has stored the payloads of packets that did
  arrive, in order, numbered 1, 2, ..., all full but the last, and nothing else.\<close>

theorem wrq_completed_is_upload:
  assumes "snd (wrq_loop 1 buf [] rs) = Completed bs" "length buf = PACKET_BUFFER_SIZE"
  shows "\<exists>ds ps. subseq (map Got ds) rs \<and> map (take PACKET_BUFFER_SIZE) ds = number 1 ps \<and>
    well_blocked ps \<and> bs = concat ps"
  using completed_from_packets [OF assms] by simp

theorem wrq_completed_is_upload_witness:
  "\<exists>ds ps. subseq (map Got ds) [Got (data_packet 1 [104, 105])] \<and>
     map (take PACKET_BUFFER_SIZE) ds = number 1 ps \<and> well_blocked ps \<and> [104, 105] = concat ps"
proof -
  have "snd (wrq_loop 1 w_buf [] [Got (data_packet 1 [104, 105])]) = Completed [104, 105]"
    by (simp add: wrq_loop_end after_data tftp_consts del: wrq_wait.simps)
  from wrq_completed_is_upload [OF this] show ?thesis by simp
qed

lemma wrq_wait_alarms:
  "cnt + n = 10 \<Longrightarrow> \<exists>out. wrq_wait blk cnt (replicate n Alarm @ rs) = (out, TimedOut) \<and>
     sent out = replicate n (ack_packet (blk - 1))"
proof (induction n arbitrary: cnt)
  case 0
  then show ?case by (cases rs) auto
next
  case (Suc n)
  then have "Suc cnt + n = 10" "cnt < 10" by simp_all
  with Suc.IH [of "Suc cnt"] obtain out where
    "wrq_wait blk (Suc cnt) (replicate n Alarm @ rs) = (out, TimedOut)"
    "sent out = replicate n (ack_packet (blk - 1))" by blast
  with \<open>cnt < 10\<close> show ?case by simp
qed

text \<open>A client that falls silent is given up after ten alarms: the last acknowledgement has been
  sent again exactly ten times and the partial file is removed.\<close>

theorem wrq_gives_up:
  "snd (wrq_loop blk buf file (replicate 10 Alarm @ rs)) = Removed \<and>
   sent (fst (wrq_loop blk buf file (replicate 10 Alarm @ rs))) = replicate 10 (ack_packet (blk - 1))"
proof -
  obtain out where "wrq_wait blk 0 (replicate 10 Alarm @ rs) = (out, TimedOut)"
    "sent out = replicate 10 (ack_packet (blk - 1))"
    using wrq_wait_alarms [of 0 10 blk rs] by auto
  then show ?thesis by (subst (1 2) wrq_loop.simps) simp
qed

text \<open>C11. A served file was sent whole and in order: without the repetitions the packets are numbered
  1, 2, ... and their payloads are the file; they are the blocks of the protocol, except that the
  empty block that must follow a file of a multiple of 512 bytes is missing.\<close>

theorem rrq_sends_file:
  assumes "snd (rrq_loop 1 0 f buf rs) = Served"
  shows "\<exists>ps. remdups_adj (sent (fst (rrq_loop 1 0 f buf rs))) = number 1 ps \<and> concat ps = f \<and>
    blocks f = (if f \<noteq> [] \<and> DATA_SIZE dvd length f then ps @ [[]] else ps)"
proof (cases "f = []")
  case True
  with rrq_loop_sends [OF assms] show ?thesis by (intro exI [of _ "[[]]"]) simp
next
  case False
  with rrq_loop_sends [OF assms] chunks_blocks [OF False] concat_chunks [of f] show ?thesis
    by (intro exI [of _ "chunks f"]) simp
qed

lemma chunks_short: "f \<noteq> [] \<Longrightarrow> length f < DATA_SIZE \<Longrightarrow> chunks f = [f]"
  by (subst chunks.simps) simp

lemma w_rrq: "snd (rrq_loop 1 0 [104, 105] w_buf [Got (ack_packet 1)]) = Served"
  using rrq_loop_acked [of "[104, 105]" 0 w_buf 1] by (simp add: chunks_short tftp_consts)

theorem rrq_sends_file_witness:
  "\<exists>ps. remdups_adj (sent (fst (rrq_loop 1 0 [104, 105] w_buf [Got (ack_packet 1)]))) = number 1 ps \<and>
     concat ps = [104, 105]"
  using rrq_sends_file [OF w_rrq] by blast

text \<open>A nonempty file of a multiple of 512 bytes is never finished for the client: every packet the
  server sends for it is a full one, so the short packet that ends a transfer never comes.\<close>

theorem rrq_multiple_never_ends:
  assumes "DATA_SIZE dvd length f" "f \<noteq> []"
  shows "list_all (\<lambda>b. length b = PACKET_BUFFER_SIZE) (sent (fst (rrq_loop 1 0 f buf rs)))"
  using multiple_sends_full [OF assms(1), of 0 _ 1 buf rs] assms(2) by (simp add: list_all_iff)

theorem rrq_multiple_never_ends_witness:
  "list_all (\<lambda>b. length b = PACKET_BUFFER_SIZE)
     (sent (fst (rrq_loop 1 0 (replicate 512 7) w_buf [Got (ack_packet 1)])))"
  by (rule rrq_multiple_never_ends) (simp_all add: DATA_SIZE_def)

text \<open>The comment in \<^verbatim>\<open>handle_rrq\<close> promises that a wrong acknowledgement is ignored.  It is
  not: each one makes the block go out once more, without counting as a retransmission.\<close>

theorem stale_ack_resends:
  assumes "length buf = PACKET_BUFFER_SIZE" "j \<noteq> blk"
  shows "sent (fst (rrq_block blk pkt 0 buf (replicate n (Got (ack_packet j)) @ Got (ack_packet blk) # rs))) =
    replicate (Suc n) pkt"
  using rrq_block_stale [OF assms(1) _ assms(2), of 0] by simp

theorem stale_ack_resends_witness:
  "sent (fst (rrq_block 2 (data_packet 2 [7]) 0 w_buf
      (replicate 100 (Got (ack_packet 1)) @ Got (ack_packet 2) # []))) = replicate 101 (data_packet 2 [7])"
  using stale_ack_resends [of w_buf 1 2 "data_packet 2 [7]" 100 "[]"] by simp

text \<open>C12. The two loops fit together: what a server sends for a file to a client that acknowledges every
  block is stored by a server as that file, except for the file of a multiple of 512 bytes, which the
  receiver is left waiting to finish.\<close>

theorem transfer_end_to_end:
  assumes "length f div DATA_SIZE < 65535" "length buf = PACKET_BUFFER_SIZE" "length buf' = PACKET_BUFFER_SIZE"
  defines "run \<equiv> rrq_loop 1 0 f buf (acks 1 (if f = [] then 1 else length (chunks f)))"
  shows "snd run = Served \<and>
    snd (wrq_loop 1 buf' [] (map Got (sent (fst run)))) =
      (if f \<noteq> [] \<and> DATA_SIZE dvd length f then Waiting else Completed f)"
proof (cases "f = []")
  case True
  with rrq_empty_acked [OF assms(2), of 1] assms(3) show ?thesis
    by (simp add: run_def wrq_loop_end after_data tftp_consts del: wrq_wait.simps)
next
  case False
  with rrq_loop_acked [of f 0 buf 1] assms(2)
  have run: "snd run = Served" "sent (fst run) = number 1 (chunks f)" by (simp_all add: run_def)
  show ?thesis
  proof (cases "DATA_SIZE dvd length f")
    case True
    with full_blocks_waiting [of "chunks f" buf' 1 "[]"] chunks_full [OF True] run False assms(3)
    show ?thesis by simp
  next
    case ndvd: False
    with chunks_blocks [OF False] have c: "chunks f = blocks f" by simp
    have "upload 1 0 (blocks f) (map Got (number (of_nat 1) (blocks f)))"
      by (rule upload_in_order) simp
    then have "upload 1 0 (blocks f) (map Got (number 1 (blocks f)))" by simp
    from upload_stored [OF this, of buf' "[]"] blocks_ok [of f] assms(1,3) run c ndvd show ?thesis
      by (simp add: wrq_loop_end)
  qed
qed

theorem transfer_end_to_end_witness:
  "snd (wrq_loop 1 w_buf [] (map Got (sent (fst (rrq_loop 1 0 [1, 2, 3] w_buf [Got (ack_packet 1)]))))) =
   Completed [1, 2, 3]"
proof -
  have "\<not> 512 dvd (3::nat)" by simp
  then show ?thesis
    using transfer_end_to_end [of "[1, 2, 3]" w_buf w_buf] chunks_short [of "[1, 2, 3]"]
    by (simp add: tftp_consts numeral_3_eq_3 [symmetric] del: One_nat_def)
qed

lemma full_blocks_consumed:
  "\<forall>p \<in> set ps. length p = DATA_SIZE \<Longrightarrow> length buf = PACKET_BUFFER_SIZE \<Longrightarrow>
   \<exists>buf'. length buf' = PACKET_BUFFER_SIZE \<and>
     snd (wrq_loop blk buf acc (map Got (number blk ps) @ rs)) =
     snd (wrq_loop (blk + of_nat (length ps)) buf' (acc @ concat ps) rs)"
proof (induction ps arbitrary: blk buf acc)
  case Nil
  then show ?case by auto
next
  case (Cons p ps)
  then have step: "snd (wrq_loop blk buf acc (map Got (number blk (p # ps)) @ rs)) =
      snd (wrq_loop (blk + 1) (recv_into buf (data_packet blk p)) (acc @ p) (map Got (number (blk + 1) ps) @ rs))"
    by (simp add: wrq_loop_end [of blk] after_data del: wrq_wait.simps)
  from Cons.IH [of "recv_into buf (data_packet blk p)" "blk + 1" "acc @ p"] Cons.prems step show ?case
    by (simp add: ac_simps)
qed

text \<open>The block number has 16 bits and wraps: after 65535 full blocks the server waits for block 0, and
  a repetition of the last block, which it should acknowledge again, aborts the transfer.\<close>

theorem block_number_wraps:
  assumes "length ps = 65535" "\<forall>p \<in> set ps. length p = DATA_SIZE" "length q \<le> DATA_SIZE"
    "length buf = PACKET_BUFFER_SIZE"
  shows "snd (wrq_loop 1 buf [] (map Got (number 1 ps) @ Got (data_packet 65535 q) # rs)) = Aborted (concat ps)"
proof -
  obtain buf' where b: "length buf' = PACKET_BUFFER_SIZE"
    "snd (wrq_loop 1 buf [] (map Got (number 1 ps) @ Got (data_packet 65535 q) # rs)) =
     snd (wrq_loop (1 + of_nat (length ps)) buf' (concat ps) (Got (data_packet 65535 q) # rs))"
    using full_blocks_consumed [OF assms(2,4), of 1 "[]"] by auto
  have "1 + of_nat (length ps) = (0 :: u16)" by (simp add: assms(1))
  then show ?thesis
    using b assms(3) by (simp add: wrq_loop_end [of 0] after_data del: wrq_wait.simps)
qed

theorem block_number_wraps_witness:
  "snd (wrq_loop 1 w_buf [] (map Got (number 1 (replicate 65535 (replicate 512 7)))
      @ [Got (data_packet 65535 (replicate 512 7))])) = Aborted (concat (replicate 65535 (replicate 512 7)))"
  by (rule block_number_wraps) (simp_all add: DATA_SIZE_def)

section \<open>Requests and ports\<close>

lemma bytes_chars [simp]: "chars_of (bytes_of s) = s"
proof -
  have "char_of (unat (of_nat (code c) :: byte)) = c" for c
  proof -
    have "code c < 256" by (simp add: code_def)
    then show ?thesis by (simp add: unat_of_nat)
  qed
  then show ?thesis by (simp add: chars_of_def bytes_of_def comp_def)
qed

lemma chars_of_append [simp]: "chars_of (xs @ ys) = chars_of xs @ chars_of ys"
  by (simp add: chars_of_def)

lemma chars_of_zero [simp]: "chars_of (0 # bs) = NUL # chars_of bs"
  by (simp add: chars_of_def) code_simp

lemma length_bytes_of [simp]: "length (bytes_of s) = length s"
  by (simp add: bytes_of_def)

definition plain :: "string \<Rightarrow> bool" where
  "plain s \<longleftrightarrow> s \<noteq> [] \<and> NUL \<notin> set s \<and> (\<forall>c \<in> set s. \<not> isspace c)"

lemma scan_field_plain:
  assumes "plain s" "length s < k"
  shows "scan_field k (bytes_of s @ 0 # rest) = Some s"
  using scan_s_token [of s "length s" "[]"] assms by (simp add: scan_field_def plain_def)

text \<open>A request built as the protocol says, of a file name and a mode without blanks that fit their
  arrays, is read back as that name and that mode.\<close>

theorem request_round_trip:
  assumes "plain filename" "length filename < 128" "plain md" "length md < 32"
  shows "parse_request (le16 (htons op) @ bytes_of filename @ [0] @ bytes_of md @ [0] @ rest) = Some (filename, md)"
proof -
  let ?mem = "le16 (htons op) @ bytes_of filename @ [0] @ bytes_of md @ [0] @ rest"
  have "drop 2 ?mem = bytes_of filename @ 0 # bytes_of md @ [0] @ rest" by simp
  moreover have "drop (2 + length filename + 1) ?mem = bytes_of md @ 0 # rest" by simp
  ultimately show ?thesis
    using assms by (simp only: parse_request_def scan_field_plain option.case)
qed

theorem request_round_trip_witness:
  "parse_request (le16 (htons TFTP_RRQ) @ bytes_of ''a.txt'' @ [0] @ bytes_of ''octet'' @ [0] @ []) =
   Some (''a.txt'', ''octet'')"
  by (rule request_round_trip) (simp_all add: plain_def isspace_def code_def)

text \<open>C13. No request overwrites or creates a file it should not: a file is left behind only by a write
  request, under the name it gave, and only where there was none before.\<close>

theorem never_overwrites:
  assumes "snd (handle_request env port end_port mem) \<in> {Returned (Some (f, bs)), Exited (Some (f, bs))}"
  shows "opcode_of mem = TFTP_WRQ \<and> (\<exists>md. parse_request mem = Some (f, md) \<and> strcaseeq md ''octet'') \<and>
    \<not> exists_file env f \<and> creatable env f"
  using assms
  by (auto simp: handle_request_def handle_rrq_def handle_wrq_def Let_def rrq_child_def wrq_child_def
      split: if_splits option.splits prod.splits rrq_end.splits wrq_end.splits)

definition w_child :: child_env where
  "w_child = \<lparr>peer = ''127.0.0.1:4000'', setup_error = None, exists_file = (\<lambda>_. False),
     readable = (\<lambda>_. None), creatable = (\<lambda>_. True),
     script = [Got (data_packet 1 [104, 105])], stack = w_buf\<rparr>"

definition w_request :: "byte list" where
  "w_request = le16 (htons TFTP_WRQ) @ bytes_of ''new'' @ [0] @ bytes_of ''octet'' @ [0] @ []"

lemma opcode_le16 [simp]: "opcode_of (le16 (htons op) @ rest) = op"
  using rd16_at [of "[]" 0 "htons op" rest] by (simp add: opcode_of_def)

theorem never_overwrites_witness:
  "snd (handle_request w_child 5001 5010 w_request) = Returned (Some (''new'', [104, 105])) \<and>
   \<not> exists_file w_child ''new''"
proof -
  have p: "parse_request w_request = Some (''new'', ''octet'')"
    unfolding w_request_def by (rule request_round_trip) (simp_all add: plain_def isspace_def code_def)
  have "snd (wrq_loop 1 w_buf [] [Got (data_packet 1 [104, 105])]) = Completed [104, 105]"
    by (simp add: wrq_loop_end after_data tftp_consts del: wrq_wait.simps)
  then obtain out where "wrq_loop 1 w_buf [] [Got (data_packet 1 [104, 105])] = (out, Completed [104, 105])"
    by (metis prod.collapse)
  then have r: "snd (handle_request w_child 5001 5010 w_request) = Returned (Some (''new'', [104, 105]))"
    using p by (simp add: handle_request_def handle_wrq_def wrq_child_def strcaseeq_def w_child_def
        w_request_def tftp_consts Let_def)
  from never_overwrites [of w_child 5001 5010 w_request "''new''" "[104, 105]"] r show ?thesis by simp
qed

lemma succ_mod: "0 < n \<Longrightarrow> (k + 1) mod n = (if k mod n + 1 = n then 0 else k mod n + 1)" for k n :: int
proof -
  assume "0 < n"
  then have "0 \<le> k mod n" "k mod n < n" by simp_all
  moreover have "(k + 1) mod n = (k mod n + 1) mod n" by (simp add: mod_simps)
  ultimately show ?thesis by (auto simp: mod_pos_pos_trivial)
qed

lemma listen_ports:
  "listen_loop s e l ds = Some cs \<Longrightarrow> s < e \<Longrightarrow> next_port l = s + 1 + int k mod (e - s) \<Longrightarrow>
   map fst cs = map (\<lambda>i. s + 1 + int (k + i) mod (e - s)) [0..<length ds]"
proof (induction ds arbitrary: l k cs)
  case (Cons d ds)
  obtain mem where mem: "terminate_mesg (mesg l) d = Some mem"
    using Cons.prems(1) by (auto simp: listen_step_def split: option.splits)
  let ?l' = "\<lparr>next_port = fst (advance_port s e (next_port l)), mesg = mem\<rparr>"
  from Cons.prems(1) mem obtain cs' where cs: "cs = (next_port l, mem) # cs'" "listen_loop s e ?l' ds = Some cs'"
    by (auto simp: listen_step_def split: prod.splits)
  have "next_port ?l' = s + 1 + int (Suc k) mod (e - s)"
  proof -
    obtain m where m: "m = int k mod (e - s)" "m < e - s" using Cons.prems(2) by simp
    then show ?thesis
      using Cons.prems(2,3) succ_mod [of "e - s" "int k"]
      by (auto simp: advance_port_def add.commute simp flip: m(1))
  qed
  from Cons.IH [OF cs(2) Cons.prems(2) this] cs(1) Cons.prems(3) show ?case
    by (simp add: upt_conv_Cons map_Suc_upt [symmetric] comp_def ac_simps del: upt_Suc map_Suc_upt)
qed simp

text \<open>Ports are handed out round robin: the \<open>k\<close>-th child gets \<open>start + 1 + k mod (end - start)\<close>,
  always inside the range, so a child that is still running shares its port with the child
  \<open>end - start\<close> places after it.\<close>

theorem port_allocation:
  assumes "dg_tftp_listen start_port end_port mem ds = Some cs" "start_port < end_port"
  shows "map fst cs = map (\<lambda>k. start_port + 1 + int k mod (end_port - start_port)) [0..<length ds]"
  using listen_ports [of start_port end_port "\<lparr>next_port = start_port + 1, mesg = mem\<rparr>" ds cs 0] assms
  by (simp add: dg_tftp_listen_def)

theorem port_allocation_witness:
  "map_option (map fst) (dg_tftp_listen 5000 5002 (replicate MAXLINE 0) [[0, 9], [0, 9], [0, 9]]) =
   Some [5001, 5002, 5001]"
proof -
  obtain cs where cs: "dg_tftp_listen 5000 5002 (replicate MAXLINE 0) [[0, 9], [0, 9], [0, 9]] = Some cs"
    by (auto simp: dg_tftp_listen_def listen_step_def terminate_mesg_def advance_port_def
        MAXLINE_def)
  from port_allocation [OF cs] cs show ?thesis by (simp add: upt_conv_Cons)
qed

text \<open>A datagram that fills the message array makes the listener write its zero behind the array.\<close>

theorem full_datagram_overruns:
  assumes "length (mesg l) = MAXLINE" "MAXLINE \<le> length d"
  shows "listen_step start_port end_port l d = None"
  using assms by (simp add: listen_step_def terminate_mesg_def Let_def)

theorem full_datagram_overruns_witness:
  "listen_step 5000 5010 \<lparr>next_port = 5001, mesg = replicate MAXLINE 0\<rparr> (replicate MAXLINE 1) = None"
  by (rule full_datagram_overruns) simp_all

end
