(* ===== verification/Chat_Queue.thy ===== *)
theory Chat_Queue
  imports Prelude
begin

text \<open>
  The job queue of \<^verbatim>\<open>src/hw2/chatroom_server.c\<close>: jobs on the heap, linked by their
  \<^verbatim>\<open>next\<close> pointers, with a head and a tail pointer, and the operations
  \<^verbatim>\<open>q_init\<close>, \<^verbatim>\<open>q_close\<close>, \<^verbatim>\<open>q_push\<close>, \<^verbatim>\<open>q_pop\<close> and
  \<^verbatim>\<open>q_try_pop\<close>.  Each runs under the queue's mutex and is one step; \<^verbatim>\<open>q_pop\<close> on an
  open, empty queue waits on the condition variable.  The locale \<open>fifo\<close> is what the threads rely
  on; it is interpreted on the linked list.
\<close>

section \<open>Jobs and queues\<close>

definition MAX_NAME :: nat where "MAX_NAME = 32"
definition MAX_MSG :: nat where "MAX_MSG = 1024"

type_synonym ptr = "nat option"

record job =
  sender_fd :: int
  j_username :: string
  j_msg :: string

record qnode =
  item :: job
  next_job :: ptr

record queue =
  q_head :: ptr
  q_tail :: ptr
  q_closed :: bool

type_synonym job_heap = "nat \<Rightarrow> qnode option"

text \<open>A write to the \<^verbatim>\<open>next\<close> field of a job.\<close>

definition set_next :: "job_heap \<Rightarrow> nat \<Rightarrow> ptr \<Rightarrow> job_heap" where
  "set_next h a p = h(a := map_option (\<lambda>n. n\<lparr>next_job := p\<rparr>) (h a))"

definition q_init :: queue where
  "q_init = \<lparr>q_head = None, q_tail = None, q_closed = False\<rparr>"

definition q_close :: "queue \<Rightarrow> queue" where
  "q_close q = q\<lparr>q_closed := True\<rparr>"

definition q_push :: "job_heap \<times> queue \<Rightarrow> nat \<Rightarrow> job_heap \<times> queue" where
  "q_push s a =
     (let q = snd s; h = set_next (fst s) a None in
      case q_tail q of
        None \<Rightarrow> (h, q\<lparr>q_head := Some a, q_tail := Some a\<rparr>)
      | Some t \<Rightarrow> (set_next h t (Some a), q\<lparr>q_tail := Some a\<rparr>))"

text \<open>The common part of the two pops: unlink the head.  A head that points to no job is undefined.\<close>

definition unlink_head :: "job_heap \<times> queue \<Rightarrow> nat \<Rightarrow> queue option" where
  "unlink_head s a =
     (case fst s a of
        None \<Rightarrow> None
      | Some n \<Rightarrow>
          let q = (snd s)\<lparr>q_head := next_job n\<rparr>
          in Some (if next_job n = None then q\<lparr>q_tail := None\<rparr> else q))"

text \<open>\<open>Wait\<close>: the caller sleeps; \<open>Null\<close>: the null pointer; \<open>Popped\<close>: a job.\<close>

datatype pop_result = Wait | Null | Popped nat "job_heap \<times> queue" | Dangling

definition take_head :: "job_heap \<times> queue \<Rightarrow> nat \<Rightarrow> pop_result" where
  "take_head s a =
     (case unlink_head s a of None \<Rightarrow> Dangling | Some q \<Rightarrow> Popped a (fst s, q))"

definition q_pop :: "job_heap \<times> queue \<Rightarrow> pop_result" where
  "q_pop s =
     (case q_head (snd s) of
        None \<Rightarrow> if q_closed (snd s) then Null else Wait
      | Some a \<Rightarrow> take_head s a)"

definition q_try_pop :: "job_heap \<times> queue \<Rightarrow> pop_result" where
  "q_try_pop s = (case q_head (snd s) of None \<Rightarrow> Null | Some a \<Rightarrow> take_head s a)"

section \<open>The list a queue stands for\<close>

text \<open>\<open>chain h p as e\<close>: following \<^verbatim>\<open>next\<close> from \<open>p\<close> visits the jobs \<open>as\<close> and ends at \<open>e\<close>.\<close>

fun chain :: "job_heap \<Rightarrow> ptr \<Rightarrow> nat list \<Rightarrow> ptr \<Rightarrow> bool" where
  "chain h p [] e \<longleftrightarrow> p = e"
| "chain h p (a # as) e \<longleftrightarrow> p = Some a \<and> (\<exists>n. h a = Some n \<and> chain h (next_job n) as e)"

definition queue_rep :: "job_heap \<times> queue \<Rightarrow> nat list \<Rightarrow> bool" where
  "queue_rep s as \<longleftrightarrow>
     distinct as \<and> chain (fst s) (q_head (snd s)) as None \<and>
     q_tail (snd s) = (if as = [] then None else Some (last as))"

lemma set_next_simps [simp]:
  "b \<noteq> a \<Longrightarrow> set_next h a p b = h b" "set_next h a p a = map_option (\<lambda>n. n\<lparr>next_job := p\<rparr>) (h a)"
  by (simp_all add: set_next_def)

lemma set_next_dom [simp]: "dom (set_next h a p) = dom h"
  by (auto simp: set_next_def)

lemma chain_set_next: "a \<notin> set as \<Longrightarrow> chain (set_next h a q) p as e = chain h p as e"
  by (induction as arbitrary: p) auto

lemma chain_append: "chain h p (as @ bs) e \<longleftrightarrow> (\<exists>m. chain h p as m \<and> chain h m bs e)"
  by (induction as arbitrary: p) auto

lemma chain_dom: "chain h p as e \<Longrightarrow> set as \<subseteq> dom h"
  by (induction as arbitrary: p) auto

lemma q_init_rep: "queue_rep (h, q_init) []"
  by (simp add: queue_rep_def q_init_def)

lemma q_push_rep:
  assumes rep: "queue_rep s as" and a: "a \<in> dom (fst s)" "a \<notin> set as"
  shows "queue_rep (q_push s a) (as @ [a])"
proof (cases as rule: rev_cases)
  case Nil
  with rep a show ?thesis
    by (auto simp: queue_rep_def q_push_def Let_def)
next
  case (snoc pre t)
  let ?h = "set_next (set_next (fst s) a None) t (Some a)"
  have t: "t \<noteq> a" "t \<notin> set pre" "a \<notin> set pre" using rep a(2) snoc by (auto simp: queue_rep_def)
  from rep snoc obtain n where n: "chain (fst s) (q_head (snd s)) pre (Some t)" "fst s t = Some n"
    by (auto simp: queue_rep_def chain_append)
  have "chain ?h (q_head (snd s)) pre (Some t)" using n(1) t by (simp add: chain_set_next)
  moreover have "chain ?h (Some t) [t, a] None" using n(2) t(1) a(1) by auto
  ultimately have "chain ?h (q_head (snd s)) (pre @ [t, a]) None" unfolding chain_append by blast
  with rep a(2) snoc show ?thesis by (simp add: queue_rep_def q_push_def Let_def)
qed

lemma take_head_rep:
  assumes rep: "queue_rep s (a # as)"
  shows "\<exists>s'. take_head s a = Popped a s' \<and> queue_rep s' as \<and> fst s' = fst s \<and> q_closed (snd s') = q_closed (snd s)"
proof -
  from rep obtain n where n: "fst s a = Some n" "chain (fst s) (next_job n) as None"
    by (auto simp: queue_rep_def)
  have "next_job n = None \<longleftrightarrow> as = []" using n(2) by (cases as) auto
  with n rep show ?thesis
    by (auto simp: take_head_def unlink_head_def Let_def queue_rep_def)
qed

section \<open>The interface\<close>

text \<open>
  A first-in first-out queue of items: what the threads use.  \<open>rep s as\<close> says that state \<open>s\<close>
  holds the items \<open>as\<close>, oldest first; \<open>fit s x\<close> that \<open>x\<close> may be pushed.
\<close>

locale fifo =
  fixes push :: "'s \<Rightarrow> 'a \<Rightarrow> 's"
    and pop :: "'s \<Rightarrow> ('a \<times> 's) option"
    and rep :: "'s \<Rightarrow> 'a list \<Rightarrow> bool"
    and fit :: "'s \<Rightarrow> 'a \<Rightarrow> bool"
  assumes push_rep: "rep s as \<Longrightarrow> fit s a \<Longrightarrow> a \<notin> set as \<Longrightarrow> rep (push s a) (as @ [a])"
    and pop_empty: "rep s [] \<Longrightarrow> pop s = None"
    and pop_rep: "rep s (a # as) \<Longrightarrow> \<exists>s'. pop s = Some (a, s') \<and> rep s' as"
    and push_fit: "rep s as \<Longrightarrow> fit s b \<Longrightarrow> fit (push s a) b"
    and pop_fit: "rep s as \<Longrightarrow> fit s b \<Longrightarrow> pop s = Some (a, s') \<Longrightarrow> fit s' b"
begin

text \<open>A schedule of the threads: \<open>Some x\<close> pushes, \<open>None\<close> tries to pop.  The run returns what
  was popped, in order.\<close>

fun run :: "'a option list \<Rightarrow> 's \<Rightarrow> 'a list \<times> 's" where
  "run [] s = ([], s)"
| "run (Some x # ops) s = run ops (push s x)"
| "run (None # ops) s =
     (case pop s of
        None \<Rightarrow> run ops s
      | Some (y, s') \<Rightarrow> (case run ops s' of (ys, s'') \<Rightarrow> (y # ys, s'')))"

definition pushed :: "'a option list \<Rightarrow> 'a list" where
  "pushed ops = List.map_filter id ops"

lemma pushed_simps [simp]:
  "pushed [] = []" "pushed (Some x # ops) = x # pushed ops" "pushed (None # ops) = pushed ops"
  by (simp_all add: pushed_def List.map_filter_simps)

text \<open>Whatever the schedule, what was popped and what is left is what was there and what was
  pushed, in that order: nothing is lost, repeated or overtaken.\<close>

lemma run_fifo:
  assumes "rep s as" "\<forall>x \<in> set (pushed ops). fit s x" "distinct (as @ pushed ops)"
    and "run ops s = (ys, s')"
  shows "\<exists>rest. rep s' rest \<and> ys @ rest = as @ pushed ops"
  using assms
proof (induction ops s arbitrary: as ys rule: run.induct)
  case (1 s)
  then show ?case by auto
next
  case (2 x ops s)
  have "rep (push s x) (as @ [x])" using 2 by (intro push_rep) auto
  moreover have "\<forall>y \<in> set (pushed ops). fit (push s x) y" using 2 push_fit by auto
  ultimately show ?case using 2(1) [of "as @ [x]" ys] 2(4,5) by auto
next
  case (3 ops s)
  show ?case
  proof (cases as)
    case Nil
    with 3(3) have "pop s = None" by (simp add: pop_empty)
    with 3(1) [of as ys] 3(3-6) show ?thesis by simp
  next
    case (Cons a as')
    with 3(3) obtain s1 where s1: "pop s = Some (a, s1)" "rep s1 as'" using pop_rep by blast
    obtain zs s2 where r: "run ops s1 = (zs, s2)" by (cases "run ops s1")
    with s1 3(6) have "ys = a # zs" "s' = s2" by simp_all
    moreover have "\<forall>x \<in> set (pushed ops). fit s1 x" using 3(3,4) pop_fit s1(1) by auto
    ultimately show ?thesis
      using 3(2) [OF s1(1) refl s1(2), of zs] 3(5) r Cons by auto
  qed
qed

end

text \<open>\<^verbatim>\<open>q_try_pop\<close> as the interface wants it, and the interpretation.\<close>

definition pop_item :: "job_heap \<times> queue \<Rightarrow> (nat \<times> (job_heap \<times> queue)) option" where
  "pop_item s = (case q_try_pop s of Popped a s' \<Rightarrow> Some (a, s') | _ \<Rightarrow> None)"

lemma queue_rep_head: "queue_rep s as \<Longrightarrow> q_head (snd s) = (case as of [] \<Rightarrow> None | a # _ \<Rightarrow> Some a)"
  by (cases as) (auto simp: queue_rep_def)

lemma pop_item_heap: "pop_item s = Some (a, s') \<Longrightarrow> fst s' = fst s"
  by (auto simp: pop_item_def q_try_pop_def take_head_def split: option.splits)

interpretation jq: fifo q_push pop_item queue_rep "\<lambda>s a. a \<in> dom (fst s)"
proof
  fix s as a assume "queue_rep s as" "a \<in> dom (fst s)" "a \<notin> set as"
  then show "queue_rep (q_push s a) (as @ [a])" by (rule q_push_rep)
next
  fix s assume "queue_rep s []"
  then show "pop_item s = None"
    by (simp add: pop_item_def q_try_pop_def queue_rep_head)
next
  fix s a as assume rep: "queue_rep s (a # as)"
  from take_head_rep [OF rep] queue_rep_head [OF rep]
  show "\<exists>s'. pop_item s = Some (a, s') \<and> queue_rep s' as"
    by (auto simp: pop_item_def q_try_pop_def)
next
  fix s :: "job_heap \<times> queue" and as a b
  assume "b \<in> dom (fst s)"
  then show "b \<in> dom (fst (q_push s a))"
    by (auto simp: q_push_def Let_def set_next_def split: option.split)
next
  fix s as b a s'
  assume "b \<in> dom (fst s)" "pop_item s = Some (a, s')"
  then show "b \<in> dom (fst s')" by (simp add: pop_item_heap)
qed

text \<open>The blocking pop: it waits exactly on an open empty queue, and a closed queue is still drained.\<close>

lemma q_pop_cases:
  assumes "queue_rep s as"
  shows "q_pop s = (if as = [] then if q_closed (snd s) then Null else Wait else q_try_pop s)"
  using queue_rep_head [OF assms] by (cases as) (simp_all add: q_pop_def q_try_pop_def)

lemma try_pop_no_dangling: "queue_rep s as \<Longrightarrow> q_try_pop s \<noteq> Dangling"
  using queue_rep_head [of s as] take_head_rep [of s "hd as" "tl as"] by (cases as) (auto simp: q_try_pop_def)

end
