(* ===== verification/Chat_Frame.thy ===== *)
theory Chat_Frame
  imports Chat_Queue
begin

text \<open>
  The input side of \<^verbatim>\<open>src/hw2/chatroom_server.c\<close>: \<^verbatim>\<open>handle_client_message\<close> appends what
  it received to the client's buffer, cuts the complete lines out of it and makes a job of each.
  The buffer is an array of which only a prefix is in use, and \<^verbatim>\<open>strchr\<close> looks at the bytes
  behind it as well: they are part of the model.  Running off the end of the array, or copying to a
  place outside it, is undefined.
\<close>

section \<open>The loop over the lines\<close>

definition INBUF :: nat where "INBUF = 2048"

text \<open>\<^verbatim>\<open>strchr(s, '\n')\<close> on an array from \<open>s\<close> on: the place of the newline, or the null pointer when a
  zero comes first; \<open>None\<close> when the array ends before either.\<close>

fun strchr_nl :: "string \<Rightarrow> nat option option" where
  "strchr_nl [] = None"
| "strchr_nl (c # cs) =
     (if c = NL then Some (Some 0)
      else if c = NUL then Some None
      else map_option (map_option Suc) (strchr_nl cs))"

definition make_job :: "int \<Rightarrow> string \<Rightarrow> string \<Rightarrow> job" where
  "make_job f u line =
     \<lparr>sender_fd = f, j_username = take (MAX_NAME - 1) u, j_msg = take (MAX_MSG - 1) line\<rparr>"

lemma strchr_bound: "strchr_nl s = Some (Some k) \<Longrightarrow> k < length s"
  by (induction s arbitrary: k) (auto split: if_splits)

function frame_loop ::
  "int \<Rightarrow> string \<Rightarrow> string \<Rightarrow> nat \<Rightarrow> job list \<Rightarrow> (job list \<times> string \<times> nat) option" where
  "frame_loop f u buf start jobs =
     (case strchr_nl (drop start buf) of
        None \<Rightarrow> None
      | Some None \<Rightarrow> Some (jobs, buf, start)
      | Some (Some k) \<Rightarrow>
          (let nl = start + k;
               b1 = buf[nl := NUL];
               b2 = (if 0 < k \<and> b1 ! (nl - 1) = CR then b1[nl - 1 := NUL] else b1);
               line = cstr_of (drop start b2)
           in frame_loop f u b2 (nl + 1) (if line = [] then jobs else jobs @ [make_job f u line])))"
  by pat_completeness auto
termination
  by (relation "measure (\<lambda>(f, u, buf, start, jobs). length buf - start)") (auto dest!: strchr_bound)

declare frame_loop.simps [simp del]

text \<open>What becomes of a piece of input: the client is dropped when its buffer would overflow.\<close>

datatype frame_result =
    Overflow
  | Unsafe
  | Framed "job list" string int

definition frame_input :: "int \<Rightarrow> string \<Rightarrow> string \<Rightarrow> int \<Rightarrow> string \<Rightarrow> frame_result" where
  "frame_input f u buf len data =
     (if len + int (length data) < int INBUF then
        (case memcpy_at buf len data of
           None \<Rightarrow> Unsafe
         | Some b \<Rightarrow>
             (case frame_loop f u b 0 [] of
                None \<Rightarrow> Unsafe
              | Some (jobs, b', start) \<Rightarrow>
                  (let remaining = len + int (length data) - int start;
                       b'' = (if 0 < remaining
                              then take (nat remaining) (drop start b') @ drop (nat remaining) b' else b')
                   in Framed jobs b'' remaining)))
      else Overflow)"

section \<open>Lines\<close>

text \<open>The complete lines of a text and what follows the last of them.\<close>

fun lines_of :: "string \<Rightarrow> string list \<times> string" where
  "lines_of [] = ([], [])"
| "lines_of (c # cs) =
     (case lines_of cs of
        (ls, r) \<Rightarrow>
          if c = NL then ([] # ls, r)
          else (case ls of [] \<Rightarrow> ([], c # r) | l # ls' \<Rightarrow> ((c # l) # ls', r)))"

definition strip_cr :: "string \<Rightarrow> string" where
  "strip_cr l = (if l \<noteq> [] \<and> last l = CR then butlast l else l)"

definition line_jobs :: "int \<Rightarrow> string \<Rightarrow> string list \<Rightarrow> job list" where
  "line_jobs f u ls = map (make_job f u) (filter (\<lambda>l. l \<noteq> []) (map strip_cr ls))"

lemma line_jobs_append [simp]: "line_jobs f u (xs @ ys) = line_jobs f u xs @ line_jobs f u ys"
  by (simp add: line_jobs_def)

lemma lines_of_no_newline: "NL \<notin> set s \<Longrightarrow> lines_of s = ([], s)"
  by (induction s) auto

lemma lines_of_line: "NL \<notin> set l \<Longrightarrow> lines_of (l @ NL # s) = (l # fst (lines_of s), snd (lines_of s))"
  by (induction l) (auto split: prod.split)

lemma rest_no_newline: "NL \<notin> set (snd (lines_of s))"
  by (induction s) (auto split: prod.splits list.splits)

text \<open>Lines are found one by one, or not at all.\<close>

lemma line_cases:
  obtains "NL \<notin> set s" | l s' where "s = l @ NL # s'" "NL \<notin> set l"
  using split_list_first [of NL s] by blast

text \<open>Two pieces of text: the rest of the first is continued by the second.\<close>

lemma lines_of_append:
  "lines_of (a @ b) =
     (fst (lines_of a) @ fst (lines_of (snd (lines_of a) @ b)), snd (lines_of (snd (lines_of a) @ b)))"
proof (induction "length a" arbitrary: a rule: less_induct)
  case less
  show ?case
  proof (cases a rule: line_cases)
    case 1
    then show ?thesis by (simp add: lines_of_no_newline)
  next
    case (2 l s')
    with less [of s'] show ?thesis by (simp add: lines_of_line)
  qed
qed

lemma lines_of_tail: "NL \<notin> set t \<Longrightarrow> lines_of (s @ t) = (fst (lines_of s), snd (lines_of s) @ t)"
  using rest_no_newline [of s] by (simp add: lines_of_append [of s t] lines_of_no_newline)

lemma length_rest: "length (snd (lines_of s)) \<le> length s"
  by (induction s) (auto split: prod.splits list.splits)

lemma rest_suffix: "drop (length s - length (snd (lines_of s))) s = snd (lines_of s)"
proof (induction "length s" arbitrary: s rule: less_induct)
  case less
  show ?case
  proof (cases s rule: line_cases)
    case 1
    then show ?thesis by (simp add: lines_of_no_newline)
  next
    case (2 l s')
    have "Suc (length l + length s') - length (snd (lines_of s')) =
        length l + Suc (length s' - length (snd (lines_of s')))"
      using length_rest [of s'] by simp
    with 2 less [of s'] length_rest [of s'] show ?thesis by (simp add: lines_of_line Suc_diff_le)
  qed
qed

section \<open>The loop finds the lines\<close>

lemma strchr_none: "NL \<notin> set s \<Longrightarrow> NUL \<notin> set s \<Longrightarrow> strchr_nl (s @ NUL # t) = Some None"
  by (induction s) auto

lemma strchr_some: "NL \<notin> set l \<Longrightarrow> NUL \<notin> set l \<Longrightarrow> strchr_nl (l @ NL # t) = Some (Some (length l))"
  by (induction l) auto

text \<open>One round on a line \<open>l\<close> behind a prefix \<open>pre\<close>: both terminators become zeros.\<close>

lemma frame_step:
  assumes "strchr_nl (drop start buf) = Some (Some k)"
    and "(if 0 < k \<and> buf[start + k := NUL] ! (start + k - 1) = CR
          then buf[start + k := NUL, start + k - 1 := NUL] else buf[start + k := NUL]) = b2"
    and "cstr_of (drop start b2) = line"
  shows "frame_loop f u buf start jobs =
    frame_loop f u b2 (start + k + 1) (if line = [] then jobs else jobs @ [make_job f u line])"
  using assms by (subst frame_loop.simps) (simp add: Let_def)

lemma frame_round:
  assumes "NL \<notin> set l" "NUL \<notin> set l"
  shows "\<exists>l'. length l' = length l \<and> NL \<notin> set l' \<and>
    frame_loop f u (pre @ l @ NL # t) (length pre) jobs =
    frame_loop f u ((pre @ l' @ [NUL]) @ t) (length (pre @ l' @ [NUL])) (jobs @ line_jobs f u [l])"
proof -
  let ?buf = "pre @ l @ NL # t"
  have s: "strchr_nl (drop (length pre) ?buf) = Some (Some (length l))"
    using assms by (simp add: strchr_some)
  have b1: "?buf[length pre + length l := NUL] = pre @ l @ NUL # t" by (simp add: list_update_append)
  show ?thesis
  proof (cases l rule: rev_cases)
    case Nil
    have "frame_loop f u ?buf (length pre) jobs =
        frame_loop f u (pre @ l @ NUL # t) (length pre + length l + 1) jobs"
      using frame_step [OF s, of "pre @ l @ NUL # t" "[]"] b1 by (simp add: Nil cstr_of_def)
    then show ?thesis by (intro exI [of _ "[]"]) (simp add: Nil line_jobs_def strip_cr_def)
  next
    case (snoc k c)
    have at: "(pre @ l @ NUL # t) ! (length pre + length l - 1) = c"
      "(pre @ l @ NUL # t)[length pre + length l - 1 := NUL] = pre @ (k @ [NUL]) @ NUL # t"
      by (simp_all add: snoc nth_append list_update_append)
    have "NUL \<notin> set k" using assms(2) snoc by simp
    then have cs: "cstr_of (drop (length pre) (pre @ (k @ [NUL]) @ NUL # t)) = k"
      "cstr_of (drop (length pre) (pre @ l @ NUL # t)) = l" using assms(2) by simp_all
    show ?thesis
    proof (cases "c = CR")
      case True
      have "(if 0 < length l \<and> ?buf[length pre + length l := NUL] ! (length pre + length l - 1) = CR
          then ?buf[length pre + length l := NUL, length pre + length l - 1 := NUL]
          else ?buf[length pre + length l := NUL]) = pre @ (k @ [NUL]) @ NUL # t"
        unfolding b1 at using True snoc by simp
      from frame_step [OF s this cs(1), of f u jobs] True assms(1) snoc show ?thesis
        by (intro exI [of _ "k @ [NUL]"]) (simp add: line_jobs_def strip_cr_def)
    next
      case False
      have "(if 0 < length l \<and> ?buf[length pre + length l := NUL] ! (length pre + length l - 1) = CR
          then ?buf[length pre + length l := NUL, length pre + length l - 1 := NUL]
          else ?buf[length pre + length l := NUL]) = pre @ l @ NUL # t"
        unfolding b1 at using False by simp
      from frame_step [OF s this cs(2), of f u jobs] False assms(1) snoc show ?thesis
        by (intro exI [of _ l]) (simp add: line_jobs_def strip_cr_def)
    qed
  qed
qed

text \<open>On the text \<open>s\<close>, ended by a zero, the loop makes the jobs of its lines and stops behind the last;
  it leaves no newline before the zero.\<close>

lemma frame_loop_lines:
  assumes "NUL \<notin> set s" "NL \<notin> set pre"
  shows "\<exists>pre'. frame_loop f u (pre @ s @ NUL # t) (length pre) jobs =
      Some (jobs @ line_jobs f u (fst (lines_of s)), pre' @ snd (lines_of s) @ NUL # t, length pre') \<and>
    length pre' + length (snd (lines_of s)) = length pre + length s \<and> NL \<notin> set pre'"
  using assms
proof (induction "length s" arbitrary: s pre jobs rule: less_induct)
  case less
  show ?case
  proof (cases s rule: line_cases)
    case 1
    with less.prems show ?thesis
      by (intro exI [of _ pre]) (subst frame_loop.simps, simp add: strchr_none lines_of_no_newline line_jobs_def)
  next
    case (2 l s')
    with less.prems have "NUL \<notin> set l" "NUL \<notin> set s'" by auto
    from frame_round [OF 2(2) this(1), of f u pre "s' @ NUL # t" jobs] obtain l' where l': "length l' = length l"
      "NL \<notin> set l'" "frame_loop f u (pre @ l @ NL # s' @ NUL # t) (length pre) jobs =
        frame_loop f u ((pre @ l' @ [NUL]) @ s' @ NUL # t) (length (pre @ l' @ [NUL])) (jobs @ line_jobs f u [l])"
      by blast
    have len: "length s' < length s" by (simp add: 2)
    have nl: "NL \<notin> set (pre @ l' @ [NUL])" using less.prems(2) l'(2) by simp
    from less.hyps [OF len \<open>NUL \<notin> set s'\<close> nl, of "jobs @ line_jobs f u [l]"] l'(1,3) 2 show ?thesis
      by (auto simp: lines_of_line line_jobs_def)
  qed
qed

section \<open>The input buffer\<close>

text \<open>A buffer in use: its array holds no newline and ends with a zero, and the part in use, the
  unfinished line, holds no zero.\<close>

definition inbuf_ok :: "string \<Rightarrow> int \<Rightarrow> bool" where
  "inbuf_ok buf len \<longleftrightarrow>
     length buf = INBUF \<and> 0 \<le> len \<and> len < int INBUF \<and> NL \<notin> set buf \<and> last buf = NUL \<and>
     NUL \<notin> set (take (nat len) buf)"

lemma frame_input_lines:
  assumes ok: "inbuf_ok buf len" and data: "NUL \<notin> set data" "len + int (length data) < int INBUF"
  defines "inp \<equiv> take (nat len) buf @ data"
  shows "\<exists>buf'. frame_input f u buf len data =
      Framed (line_jobs f u (fst (lines_of inp))) buf' (int (length (snd (lines_of inp)))) \<and>
    inbuf_ok buf' (int (length (snd (lines_of inp)))) \<and>
    take (length (snd (lines_of inp))) buf' = snd (lines_of inp)"
proof -
  let ?n = "nat len" and ?rest = "snd (lines_of inp)"
  have len: "length buf = INBUF" "?n + length data < INBUF" "len = int ?n"
    using ok data(2) by (auto simp: inbuf_ok_def)
  let ?bk = "drop (?n + length data) buf"
  have inp: "length inp = ?n + length data" "NUL \<notin> set inp"
    using len ok data(1) by (simp_all add: inp_def inbuf_ok_def)
  have bk: "?bk \<noteq> []" "NL \<notin> set ?bk" "last ?bk = NUL"
    using ok len by (auto simp: inbuf_ok_def dest: in_set_dropD)
  then have "NUL \<in> set ?bk" using last_in_set by metis
  then obtain stale t where st: "?bk = stale @ NUL # t" "NUL \<notin> set stale"
    by (metis split_list_first)
  have nl: "NL \<notin> set stale" "NL \<notin> set t" using bk(2) st(1) by auto
  have copy: "memcpy_at buf len data = Some (inp @ stale @ NUL # t)"
    using memcpy_at_fits [of ?n data buf] len st(1) by (simp add: inp_def)
  have "lines_of (inp @ stale) = (fst (lines_of inp), ?rest @ stale)"
    using nl(1) by (rule lines_of_tail)
  moreover have "NUL \<notin> set (inp @ stale)" using inp(2) st(2) by simp
  ultimately obtain pre where loop: "frame_loop f u (inp @ stale @ NUL # t) 0 [] =
      Some (line_jobs f u (fst (lines_of inp)), pre @ (?rest @ stale) @ NUL # t, length pre)"
    and pre: "length pre + length ?rest = length inp" "NL \<notin> set pre"
    using frame_loop_lines [of "inp @ stale" "[]" f u t "[]"] by auto
  let ?b = "pre @ ?rest @ stale @ NUL # t"
  let ?buf' = "if 0 < length ?rest then ?rest @ drop (length ?rest) ?b else ?b"
  have rem: "len + int (length data) - int (length pre) = int (length ?rest)"
    using pre(1) inp(1) ok by (auto simp: inbuf_ok_def)
  have "frame_input f u buf len data =
      Framed (line_jobs f u (fst (lines_of inp))) ?buf' (int (length ?rest))"
    unfolding frame_input_def copy option.case loop prod.case Let_def rem
    using data(2) by simp
  moreover have "inbuf_ok ?buf' (int (length ?rest))"
  proof -
    have "length ?b = INBUF"
      using pre(1) inp(1) len st(1) by (metis (no_types, opaque_lifting) append.assoc length_append length_drop
          add.assoc le_add_diff_inverse less_imp_le)
    moreover have "length ?rest < INBUF" using length_rest [of inp] inp(1) len(2) by simp
    moreover have "NL \<notin> set ?b" using pre(2) rest_no_newline [of inp] nl by simp
    moreover have "last ?b = NUL" using bk(3) st(1) by (cases t) auto
    moreover have "NUL \<notin> set ?rest"
      using inp(2) rest_suffix [of inp] by (metis in_set_dropD)
    moreover have "last (drop (length ?rest) ?b) = last ?b" "drop (length ?rest) ?b \<noteq> []"
      using pre(1) by (auto intro!: last_drop)
    ultimately show ?thesis
      using rest_no_newline [of inp] by (auto simp: inbuf_ok_def dest: in_set_dropD)
  qed
  moreover have "take (length ?rest) ?buf' = ?rest" by simp
  ultimately show ?thesis by blast
qed

text \<open>A fresh buffer, if its memory happens to be zero.\<close>

lemma inbuf_ok_zero: "inbuf_ok (replicate INBUF NUL) 0"
  by (simp add: inbuf_ok_def INBUF_def)

end
