(* ===== verification/Chat_Server.thy ===== *)
theory Chat_Server
  imports Chat_Frame Scan
begin

text \<open>
  The rest of \<^verbatim>\<open>src/hw2/chatroom_server.c\<close>: the client list, connections, the messages a
  worker processes, broadcasts and the select loop.  A client is a block of memory at an address that
  \<^verbatim>\<open>malloc\<close> gave; the linked list of clients is the list of their addresses, newest first.
  The two job queues are the lists that \<open>Chat_Queue\<close> shows them to stand for; they are only ever
  closed together (\<open>q_shut\<close>).  Allocation is taken to succeed.  Reading a client that
  has been freed is undefined and gives \<open>None\<close>.  Threads interleave at the places where a worker holds no
  lock: its handling of a message is a sequence of phases, each of them one step.
\<close>

section \<open>State\<close>

record client =
  c_fd :: int
  c_name :: string
  c_inbuf :: string
  c_len :: int

record chat =
  store :: "nat \<Rightarrow> client option"
  client_list :: "nat list"
  current_clients :: int
  job_q :: "job list"
  bcast_q :: "job list"
  open_fds :: "int set"
  server_fd :: int
  q_shut :: bool
  shutdown_flag :: bool

text \<open>A call of \<^verbatim>\<open>send_to_client\<close>, a line on stderr, a line on stdout.\<close>

datatype chat_out = Msg int string | Perr string | Line string

definition snprintf :: "nat \<Rightarrow> string \<Rightarrow> string" where
  "snprintf n s = take (n - 1) s"

definition strncpy_z :: "nat \<Rightarrow> string \<Rightarrow> string" where
  "strncpy_z n s = take (n - 1) s"

definition live :: "chat \<Rightarrow> client list" where
  "live s = List.map_filter (store s) (client_list s)"

text \<open>\<^verbatim>\<open>send_to_client\<close>: what the calls of \<^verbatim>\<open>send\<close> return is given; the result is what went
  out.\<close>

fun send_to_client :: "string \<Rightarrow> int list \<Rightarrow> string" where
  "send_to_client msg [] = []"
| "send_to_client msg (n # ns) =
     (if msg = [] \<or> n \<le> 0 then []
      else take (nat n) msg @ send_to_client (drop (nat n) msg) ns)"

section \<open>Connections\<close>

definition full_msg :: string where
  "full_msg = ''Server is full. Please try again later.'' @ [NL]"

definition greeting :: string where
  "greeting = ''Welcome to Chatroom! Please enter your username:'' @ [NL]"

text \<open>\<open>acc\<close> is the descriptor \<^verbatim>\<open>accept\<close> returned, \<open>a\<close> the address of the new block and \<open>mem\<close> what
  its buffer held.\<close>

definition handle_new_connection ::
  "int \<Rightarrow> int option \<Rightarrow> nat \<Rightarrow> string \<Rightarrow> chat \<Rightarrow> chat \<times> chat_out list" where
  "handle_new_connection max_clients acc a mem s =
     (if max_clients \<le> current_clients s then
        (case acc of None \<Rightarrow> (s, []) | Some f \<Rightarrow> (s, [Msg f full_msg]))
      else case acc of
        None \<Rightarrow> (s, [Perr ''accept''])
      | Some f \<Rightarrow>
          (s\<lparr>store := (store s)(a \<mapsto> \<lparr>c_fd = f, c_name = [], c_inbuf = mem, c_len = 0\<rparr>),
             client_list := a # client_list s, current_clients := current_clients s + 1,
             open_fds := insert f (open_fds s)\<rparr>,
           [Msg f greeting]))"

definition broadcast_message :: "chat \<Rightarrow> string \<Rightarrow> int \<Rightarrow> chat_out list" where
  "broadcast_message s msg exclude =
     map (\<lambda>c. Msg (c_fd c) msg) (filter (\<lambda>c. c_fd c \<noteq> exclude) (live s))"

definition leave_msg :: "string \<Rightarrow> string" where
  "leave_msg u = snprintf 256 (u @ '' has left the chat.'' @ [NL])"

definition remove_client :: "nat \<Rightarrow> chat \<Rightarrow> (chat \<times> chat_out list) option" where
  "remove_client a s =
     (case store s a of
        None \<Rightarrow> None
      | Some c \<Rightarrow>
          (let s' = s\<lparr>client_list := remove1 a (client_list s), current_clients := current_clients s - 1,
                      open_fds := open_fds s - {c_fd c}, store := (store s)(a := None)\<rparr>;
               u = strncpy_z MAX_NAME (c_name c)
           in Some (s', if u \<noteq> [] then broadcast_message s' (leave_msg u) (- 1) else [])))"

text \<open>An empty \<open>data\<close> is a \<^verbatim>\<open>recv\<close> that returned 0 or failed.\<close>

definition handle_client_message :: "nat \<Rightarrow> string \<Rightarrow> chat \<Rightarrow> (chat \<times> chat_out list) option" where
  "handle_client_message a data s =
     (case store s a of
        None \<Rightarrow> None
      | Some c \<Rightarrow>
          if data = [] then remove_client a s
          else case frame_input (c_fd c) (c_name c) (c_inbuf c) (c_len c) (take 1023 data) of
            Unsafe \<Rightarrow> None
          | Overflow \<Rightarrow> remove_client a s
          | Framed jobs buf len \<Rightarrow>
              Some (s\<lparr>store := (store s)(a \<mapsto> c\<lparr>c_inbuf := buf, c_len := len\<rparr>),
                      job_q := job_q s @ jobs\<rparr>, []))"

section \<open>Messages\<close>

definition valid_name :: "string \<Rightarrow> bool" where
  "valid_name u \<longleftrightarrow> u \<noteq> [] \<and> list_all (\<lambda>c. isalnum c \<or> c = CHR ''_'') u"

definition invalid_name_msg :: string where
  "invalid_name_msg = ''Invalid username. Use letters, digits, or underscores only.'' @ [NL]"

definition ask_name_msg :: string where
  "ask_name_msg = ''Please enter your username:'' @ [NL]"

definition taken_msg :: "string \<Rightarrow> string" where
  "taken_msg u = snprintf 256 (''Username '' @ [DQ] @ u @ [DQ] @ '' is already in use. Try another:'' @ [NL])"

definition welcome_msg :: "string \<Rightarrow> string" where
  "welcome_msg u = snprintf 256 (''Let'' @ [CHR 0x27] @ ''s start chatting, '' @ u @ ''!'' @ [NL])"

definition join_msg :: "string \<Rightarrow> string" where
  "join_msg u = snprintf 256 (u @ '' joined the chat.'' @ [NL])"

definition invalid_command_msg :: string where
  "invalid_command_msg = ''Invalid command. Type /who, /me, or /quit.'' @ [NL]"

definition me_usage_msg :: string where
  "me_usage_msg = ''Usage: /me <action>'' @ [NL]"

text \<open>\<^verbatim>\<open>strncat(buf, s, sizeof(buf) - strlen(buf) - 1)\<close> on an array of \<open>n\<close>.\<close>

definition strncat :: "nat \<Rightarrow> string \<Rightarrow> string \<Rightarrow> string" where
  "strncat n buf s = buf @ take (n - length buf - 1) s"

definition who_line :: "string \<Rightarrow> client \<Rightarrow> string" where
  "who_line buf c =
     (if c_name c = [] then buf
      else strncat 2048 (strncat 2048 (strncat 2048 buf '' - '') (c_name c)) [NL])"

definition who_msg :: "chat \<Rightarrow> string" where
  "who_msg s = foldl who_line (''Active users:'' @ [NL]) (live s)"

definition bcast_job :: "client \<Rightarrow> string \<Rightarrow> job" where
  "bcast_job c m =
     \<lparr>sender_fd = c_fd c, j_username = strncpy_z MAX_NAME (c_name c), j_msg = strncpy_z MAX_MSG m\<rparr>"

definition strip_nl :: "string \<Rightarrow> string" where
  "strip_nl m = rev (dropWhile (\<lambda>c. c = NL \<or> c = CR) (rev m))"

text \<open>\<^verbatim>\<open>sscanf(msg, "%255s %1023[^\n]", cmd, args)\<close>, the array of arguments being zero before.\<close>

definition parse_command :: "string \<Rightarrow> (string \<times> string) option" where
  "parse_command m =
     (case scan_s 255 m of
        None \<Rightarrow> None
      | Some (cmd, rest) \<Rightarrow> Some (cmd, takeWhile (\<lambda>c. c \<noteq> NL) (take 1023 (skip_ws rest))))"

definition enqueue_bcast :: "job \<Rightarrow> chat \<Rightarrow> chat" where
  "enqueue_bcast j s = s\<lparr>bcast_q := bcast_q s @ [j]\<rparr>"

lemma enqueue_simps [simp]:
  "store (enqueue_bcast j s) = store s" "client_list (enqueue_bcast j s) = client_list s"
  "current_clients (enqueue_bcast j s) = current_clients s" "open_fds (enqueue_bcast j s) = open_fds s"
  "shutdown_flag (enqueue_bcast j s) = shutdown_flag s" "job_q (enqueue_bcast j s) = job_q s"
  by (simp_all add: enqueue_bcast_def)

definition run_command :: "client \<Rightarrow> string \<Rightarrow> chat \<Rightarrow> chat \<times> chat_out list" where
  "run_command c m s =
     (case parse_command m of
        None \<Rightarrow> (s, [Msg (c_fd c) invalid_command_msg])
      | Some (cmd, args) \<Rightarrow>
          let cmd' = map tolower cmd in
          if cmd' = ''/who'' then (s, [Msg (c_fd c) (who_msg s)])
          else if cmd' = ''/me'' then
            (if args = [] then (s, [Msg (c_fd c) me_usage_msg])
             else (enqueue_bcast
                     (bcast_job c (snprintf 2048 (''*'' @ c_name c @ '' '' @ args @ ''*'' @ [NL]))) s, []))
          else if cmd' = ''/quit'' then (s\<lparr>open_fds := open_fds s - {c_fd c}\<rparr>, [])
          else (s, [Msg (c_fd c) invalid_command_msg]))"

definition chat_line :: "client \<Rightarrow> string \<Rightarrow> string" where
  "chat_line c m = snprintf 2048 (c_name c @ '': '' @ m @ [NL])"

definition handle_text :: "client \<Rightarrow> string \<Rightarrow> chat \<Rightarrow> chat \<times> chat_out list" where
  "handle_text c raw s =
     (let m = strip_nl raw in
      if m \<noteq> [] \<and> hd m = CHR ''/'' then run_command c m s
      else (enqueue_bcast (bcast_job c (chat_line c m)) s, []))"

section \<open>A worker's phases\<close>

text \<open>
  \<open>Idle\<close>: at the test of the loop of \<^verbatim>\<open>worker_thread\<close>; \<open>Popping\<close>: in \<^verbatim>\<open>q_pop\<close>, or
  asleep there; \<open>Exited\<close>: the thread has returned; \<open>Lookup\<close>: a job was popped; \<open>Found\<close>: its sender was found under the lock; \<open>Checking\<close>: the
  name is valid; \<open>Naming\<close>: it was found free under the lock.
\<close>

datatype phase =
    Idle
  | Popping
  | Exited
  | Lookup job
  | Found job nat
  | Checking nat string
  | Naming nat string

definition find_sender :: "chat \<Rightarrow> int \<Rightarrow> nat option" where
  "find_sender s f =
     find (\<lambda>a. case store s a of Some c \<Rightarrow> c_fd c = f | None \<Rightarrow> False) (client_list s)"

definition is_username_taken :: "chat \<Rightarrow> string \<Rightarrow> bool" where
  "is_username_taken s u = list_ex (\<lambda>c. strcaseeq (c_name c) u) (live s)"

definition worker_step :: "phase \<Rightarrow> chat \<Rightarrow> (chat \<times> phase \<times> chat_out list) option" where
  "worker_step w s =
     (case w of
        Idle \<Rightarrow> Some (s, if shutdown_flag s then Exited else Popping, [])
      | Popping \<Rightarrow>
          (case job_q s of
             [] \<Rightarrow> Some (s, if q_shut s then Exited else Popping, [])
           | j # js \<Rightarrow> Some (s\<lparr>job_q := js\<rparr>, Lookup j, []))
      | Exited \<Rightarrow> Some (s, Exited, [])
      | Lookup j \<Rightarrow>
          (case find_sender s (sender_fd j) of
             None \<Rightarrow> Some (s, Idle, [])
           | Some a \<Rightarrow> Some (s, Found j a, []))
      | Found j a \<Rightarrow>
          (case store s a of
             None \<Rightarrow> None
           | Some c \<Rightarrow>
               if c_name c = [] then
                 (let u = strncpy_z MAX_NAME (j_msg j) in
                  if \<not> valid_name u
                  then Some (s, Idle, [Msg (c_fd c) invalid_name_msg, Msg (c_fd c) ask_name_msg])
                  else Some (s, Checking a u, []))
               else (case handle_text c (j_msg j) s of (s', out) \<Rightarrow> Some (s', Idle, out)))
      | Checking a u \<Rightarrow>
          if is_username_taken s u then
            (case store s a of
               None \<Rightarrow> None
             | Some c \<Rightarrow> Some (s, Idle, [Msg (c_fd c) (taken_msg u)]))
          else Some (s, Naming a u, [])
      | Naming a u \<Rightarrow>
          (case store s a of
             None \<Rightarrow> None
           | Some c \<Rightarrow>
               let c' = c\<lparr>c_name := strncpy_z MAX_NAME u\<rparr>
               in Some (enqueue_bcast \<lparr>sender_fd = c_fd c, j_username = [], j_msg = strncpy_z MAX_MSG (join_msg u)\<rparr>
                          (s\<lparr>store := (store s)(a \<mapsto> c')\<rparr>),
                        Idle, [Msg (c_fd c) (welcome_msg u)])))"

text \<open>\<^verbatim>\<open>process_message\<close> without interruption: its phases one after the other.\<close>

fun run_phases :: "nat \<Rightarrow> phase \<Rightarrow> chat \<Rightarrow> (chat \<times> chat_out list) option" where
  "run_phases 0 w s = Some (s, [])"
| "run_phases (Suc n) w s =
     (if w = Idle then Some (s, [])
      else case worker_step w s of
        None \<Rightarrow> None
      | Some (s', w', out) \<Rightarrow> map_option (\<lambda>(s'', out'). (s'', out @ out')) (run_phases n w' s'))"

definition process_message :: "job \<Rightarrow> chat \<Rightarrow> (chat \<times> chat_out list) option" where
  "process_message j s = run_phases 4 (Lookup j) s"

section \<open>The select loop\<close>

text \<open>
  \<open>sel_error\<close>: \<^verbatim>\<open>select\<close> failed with an error other than an interruption, as it does when a
  descriptor in its set is not open; \<open>ready f\<close>: \<open>f\<close> is set afterwards.
\<close>

record chat_env =
  sel_error :: bool
  ready_fd :: "int \<Rightarrow> bool"
  listener_fd :: int
  accepted :: "int option"
  new_block :: nat
  block_mem :: string
  received :: "nat \<Rightarrow> string"

definition select_ok :: "chat \<Rightarrow> bool" where
  "select_ok s = list_all (\<lambda>c. c_fd c \<in> open_fds s) (live s)"

fun handle_ready :: "chat_env \<Rightarrow> nat list \<Rightarrow> chat \<Rightarrow> (chat \<times> chat_out list) option" where
  "handle_ready env [] s = Some (s, [])"
| "handle_ready env (a # as) s =
     (case store s a of
        None \<Rightarrow> None
      | Some c \<Rightarrow>
          if ready_fd env (c_fd c) then
            (case handle_client_message a (received env a) s of
               None \<Rightarrow> None
             | Some (s', out) \<Rightarrow> map_option (\<lambda>(s'', out'). (s'', out @ out')) (handle_ready env as s'))
          else handle_ready env as s)"

definition drain_bcast :: "chat \<Rightarrow> chat \<times> chat_out list" where
  "drain_bcast s =
     (s\<lparr>bcast_q := []\<rparr>, concat (map (\<lambda>j. broadcast_message s (j_msg j) (sender_fd j)) (bcast_q s)))"

datatype iter_result = Stopped "chat_out list" | Next chat "chat_out list" | Freed

definition chat_iter :: "int \<Rightarrow> chat_env \<Rightarrow> chat \<Rightarrow> iter_result" where
  "chat_iter max_clients env s =
     (if shutdown_flag s then Stopped []
      else if sel_error env \<or> \<not> select_ok s then Stopped [Perr ''select'']
      else
        (case (if ready_fd env (listener_fd env)
               then handle_new_connection max_clients (accepted env) (new_block env) (block_mem env) s
               else (s, [])) of
           (s1, o1) \<Rightarrow>
             (case handle_ready env (client_list s1) s1 of
                None \<Rightarrow> Freed
              | Some (s2, o2) \<Rightarrow> (case drain_bcast s2 of (s3, o3) \<Rightarrow> Next s3 (o1 @ o2 @ o3)))))"

text \<open>The clean-up behind the loop, the handler of the interrupt, and what comes before the loop.\<close>

definition chat_cleanup :: "chat \<Rightarrow> chat \<times> chat_out list" where
  "chat_cleanup s =
     (s\<lparr>open_fds := open_fds s - set (map c_fd (live s)) - (if 0 \<le> server_fd s then {server_fd s} else {}),
        store := (\<lambda>a. if a \<in> set (client_list s) then None else store s a),
        client_list := [], q_shut := True\<rparr>,
      [Line (''Shutting down server...'' @ [NL])])"

definition handle_signal :: "chat \<Rightarrow> chat \<times> chat_out list" where
  "handle_signal s =
     (s\<lparr>shutdown_flag := True, q_shut := True,
        open_fds := (if 0 \<le> server_fd s then open_fds s - {server_fd s} else open_fds s),
        server_fd := (if 0 \<le> server_fd s then - 1 else server_fd s)\<rparr>,
      [Line ([NL] @ ''Received SIGINT (Ctrl+C). Initiating graceful shutdown...'' @ [NL])])"

definition chat_usage :: "string \<Rightarrow> string" where
  "chat_usage prog = ''Usage: '' @ prog @ '' <port> <num_workers> <max_clients>'' @ [NL]"

definition chat_args :: "string \<Rightarrow> string list \<Rightarrow> string + (int \<times> int \<times> int)" where
  "chat_args prog args =
     (case args of
        [p, w, m] \<Rightarrow>
          if atoi p \<le> 0 \<or> atoi w \<le> 0 \<or> atoi m \<le> 0 then Inl (''Invalid arguments'' @ [NL])
          else Inr (atoi p, atoi w, atoi m)
      | _ \<Rightarrow> Inl (chat_usage prog))"

definition chat_start :: "int \<Rightarrow> chat" where
  "chat_start f = \<lparr>store = Map.empty, client_list = [], current_clients = 0, job_q = [], bcast_q = [],
     open_fds = {f}, server_fd = f, q_shut = False, shutdown_flag = False\<rparr>"

text \<open>What the calls of the set-up return.  The port goes through \<^verbatim>\<open>htons\<close>, which keeps its low
  sixteen bits.\<close>

record setup_env =
  sock :: int
  reuse_ok :: bool
  bind_ok :: "u16 \<Rightarrow> bool"
  listen_ok :: bool
  thread_ok :: "nat \<Rightarrow> bool"

definition chat_setup :: "setup_env \<Rightarrow> int \<times> int \<times> int \<Rightarrow> string + (chat \<times> chat_out list)" where
  "chat_setup env pwm =
     (case pwm of (port, workers, max_clients) \<Rightarrow>
        if sock env < 0 then Inl ''socket''
        else if \<not> reuse_ok env then Inl ''setsockopt''
        else if \<not> bind_ok env (word_of_int port) then Inl ''bind''
        else if \<not> listen_ok env then Inl ''listen''
        else if \<not> list_all (thread_ok env) [0..<nat workers] then Inl ''pthread_create''
        else Inr (chat_start (sock env),
          [Line (''Chatroom server listening on port '' @ dec_int port @ [NL]),
           Line (''Workers: '' @ dec_int workers @ '', Max clients: '' @ dec_int max_clients @ [NL])]))"

section \<open>All the threads\<close>

text \<open>
  The main thread and \<open>W\<close> workers, each step of each at any time: a superset of what the program's
  own order allows; the interrupt comes at any time.  The kernel gives a descriptor that is not open, \<^verbatim>\<open>malloc\<close> a block that is
  not in use.
\<close>

record system =
  chat :: chat
  worker :: "nat \<Rightarrow> phase"

inductive chat_step :: "nat \<Rightarrow> int \<Rightarrow> system \<Rightarrow> system \<Rightarrow> bool" for W :: nat and max_clients :: int where
  connect: "store (chat S) a = None \<Longrightarrow> (\<And>f. acc = Some f \<Longrightarrow> 0 \<le> f \<and> f \<notin> open_fds (chat S)) \<Longrightarrow>
    handle_new_connection max_clients acc a mem (chat S) = (s', out) \<Longrightarrow>
    chat_step W max_clients S (S\<lparr>chat := s'\<rparr>)"
| input: "a \<in> set (client_list (chat S)) \<Longrightarrow> handle_client_message a data (chat S) = Some (s', out) \<Longrightarrow>
    chat_step W max_clients S (S\<lparr>chat := s'\<rparr>)"
| drain: "bcast_q (chat S) = j # js \<Longrightarrow>
    chat_step W max_clients S (S\<lparr>chat := (chat S)\<lparr>bcast_q := js\<rparr>\<rparr>)"
| work: "i < W \<Longrightarrow> worker_step (worker S i) (chat S) = Some (s', w', out) \<Longrightarrow>
    chat_step W max_clients S (S\<lparr>chat := s', worker := (worker S)(i := w')\<rparr>)"
| interrupt: "handle_signal (chat S) = (s', out) \<Longrightarrow> chat_step W max_clients S (S\<lparr>chat := s'\<rparr>)"

inductive chat_reachable :: "nat \<Rightarrow> int \<Rightarrow> system \<Rightarrow> bool" for W :: nat and max_clients :: int where
  start: "0 \<le> f \<Longrightarrow> chat_reachable W max_clients \<lparr>chat = chat_start f, worker = (\<lambda>_. Idle)\<rparr>"
| step: "chat_reachable W max_clients S \<Longrightarrow> chat_step W max_clients S S' \<Longrightarrow> chat_reachable W max_clients S'"

inductive_cases chat_step_elim: "chat_step W max_clients S S'"

end
