(* ===== verification/Chat_Props.thy ===== *)
theory Chat_Props
  imports Chat_Server
begin

text \<open>The properties of the chatroom server: its queue, its input buffer, its invariants over all
  interleavings of the threads, and what it makes of messages.\<close>

section \<open>Invariants\<close>

definition name_ok :: "string \<Rightarrow> bool" where
  "name_ok u \<longleftrightarrow> u = [] \<or> valid_name u \<and> length u < MAX_NAME"

definition chat_inv :: "chat \<Rightarrow> bool" where
  "chat_inv s \<longleftrightarrow>
     distinct (client_list s) \<and> set (client_list s) = dom (store s) \<and>
     current_clients s = int (length (client_list s)) \<and>
     (\<forall>a c. store s a = Some c \<longrightarrow> name_ok (c_name c))"

definition phase_ok :: "phase \<Rightarrow> bool" where
  "phase_ok w \<longleftrightarrow>
     (case w of
        Checking a u \<Rightarrow> valid_name u \<and> length u < MAX_NAME
      | Naming a u \<Rightarrow> valid_name u \<and> length u < MAX_NAME
      | _ \<Rightarrow> True)"

definition unique_names :: "chat \<Rightarrow> bool" where
  "unique_names s \<longleftrightarrow>
     (\<forall>a b c d. store s a = Some c \<longrightarrow> store s b = Some d \<longrightarrow> a \<noteq> b \<longrightarrow> c_name c \<noteq> [] \<longrightarrow>
        \<not> strcaseeq (c_name c) (c_name d))"

text \<open>A name that was found free still is.\<close>

definition naming_free :: "phase \<Rightarrow> chat \<Rightarrow> bool" where
  "naming_free w s \<longleftrightarrow>
     (case w of Naming a u \<Rightarrow> \<forall>b c. store s b = Some c \<longrightarrow> \<not> strcaseeq (c_name c) u | _ \<Rightarrow> True)"

lemma strcaseeq_sym: "strcaseeq a b \<longleftrightarrow> strcaseeq b a"
  by (auto simp: strcaseeq_def)

lemma strcaseeq_Nil [simp]: "strcaseeq [] u \<longleftrightarrow> u = []" "strcaseeq u [] \<longleftrightarrow> u = []"
  by (auto simp: strcaseeq_def)

lemma set_live: "set (live s) = {c. \<exists>a \<in> set (client_list s). store s a = Some c}"
  by (force simp: live_def List.map_filter_def)

lemma taken_iff:
  "chat_inv s \<Longrightarrow> is_username_taken s u \<longleftrightarrow> (\<exists>a c. store s a = Some c \<and> strcaseeq (c_name c) u)"
  by (auto simp: is_username_taken_def list_ex_iff set_live chat_inv_def)

text \<open>A step of the main thread adds a client without a name, drops one, or changes no name.\<close>

lemma connect_store:
  assumes "handle_new_connection m acc a mem s = (s', out)" "store s a = None"
  shows "(store s' = store s \<and> client_list s' = client_list s \<and> current_clients s' = current_clients s) \<or>
    (\<exists>f. acc = Some f \<and> store s' = (store s)(a \<mapsto> \<lparr>c_fd = f, c_name = [], c_inbuf = mem, c_len = 0\<rparr>) \<and>
      client_list s' = a # client_list s \<and> current_clients s' = current_clients s + 1)"
  using assms by (auto simp: handle_new_connection_def split: if_splits option.splits)

lemma remove_store:
  "remove_client a s = Some (s', out) \<Longrightarrow>
   store s' = (store s)(a := None) \<and> client_list s' = remove1 a (client_list s) \<and>
   current_clients s' = current_clients s - 1"
  by (auto simp: remove_client_def Let_def split: option.splits)

lemma input_store:
  assumes "handle_client_message a data s = Some (s', out)"
  shows "(store s' = (store s)(a := None) \<and> client_list s' = remove1 a (client_list s) \<and>
       current_clients s' = current_clients s - 1) \<or>
    (\<exists>c c'. store s a = Some c \<and> store s' = (store s)(a \<mapsto> c') \<and> c_name c' = c_name c \<and> c_fd c' = c_fd c \<and>
       client_list s' = client_list s \<and> current_clients s' = current_clients s)"
  using assms remove_store [of a s s' out]
  by (auto simp: handle_client_message_def split: option.splits if_splits frame_result.splits)

lemma handle_text_store:
  "handle_text c m s = (s', out) \<Longrightarrow>
   store s' = store s \<and> client_list s' = client_list s \<and> current_clients s' = current_clients s"
  by (auto simp: handle_text_def run_command_def Let_def split: if_splits option.splits prod.splits)

text \<open>A step of a worker changes at most one name, to the one it was naming.\<close>

lemma worker_store:
  assumes "worker_step w s = Some (s', w', out)"
  shows "client_list s' = client_list s \<and> current_clients s' = current_clients s \<and>
    ((store s' = store s \<and> (phase_ok w \<longrightarrow> phase_ok w') \<and> (\<forall>a u. w' = Naming a u \<longrightarrow> \<not> is_username_taken s u)) \<or>
     (\<exists>a u c. w = Naming a u \<and> store s a = Some c \<and> w' = Idle \<and>
        store s' = (store s)(a \<mapsto> c\<lparr>c_name := strncpy_z MAX_NAME u\<rparr>)))"
proof (cases w)
  case Popping
  with assms show ?thesis by (auto simp: worker_step_def phase_ok_def split: list.splits if_splits)
next
  case (Lookup j)
  with assms show ?thesis by (auto simp: worker_step_def phase_ok_def split: option.splits)
next
  case (Found j a)
  then show ?thesis
    using assms handle_text_store [of _ "j_msg j" s]
    by (auto simp: worker_step_def phase_ok_def Let_def strncpy_z_def MAX_NAME_def
        split: option.splits if_splits prod.splits)
next
  case (Checking a u)
  with assms show ?thesis by (auto simp: worker_step_def phase_ok_def split: option.splits if_splits)
next
  case (Naming a u)
  with assms show ?thesis by (auto simp: worker_step_def phase_ok_def Let_def split: option.splits)
qed (use assms in \<open>auto simp: worker_step_def phase_ok_def split: if_splits\<close>)

lemma strncpy_name: "length u < MAX_NAME \<Longrightarrow> strncpy_z MAX_NAME u = u"
  by (simp add: strncpy_z_def)

text \<open>One step of any thread keeps the invariant.\<close>

definition system_inv :: "system \<Rightarrow> bool" where
  "system_inv S \<longleftrightarrow> chat_inv (chat S) \<and> (\<forall>i. phase_ok (worker S i))"

lemma chat_inv_drop:
  "chat_inv s \<Longrightarrow> a \<in> dom (store s) \<Longrightarrow> store s' = (store s)(a := None) \<Longrightarrow>
   client_list s' = remove1 a (client_list s) \<Longrightarrow> current_clients s' = current_clients s - 1 \<Longrightarrow> chat_inv s'"
  using length_pos_if_in_set [of a "client_list s"]
  by (auto simp: chat_inv_def length_remove1 of_nat_diff Suc_leI)

lemma chat_inv_add:
  "chat_inv s \<Longrightarrow> store s a = None \<Longrightarrow> c_name c = [] \<Longrightarrow> store s' = (store s)(a \<mapsto> c) \<Longrightarrow>
   client_list s' = a # client_list s \<Longrightarrow> current_clients s' = current_clients s + 1 \<Longrightarrow> chat_inv s'"
  by (auto simp: chat_inv_def name_ok_def)

lemma chat_inv_set:
  "chat_inv s \<Longrightarrow> store s a = Some c \<Longrightarrow> name_ok (c_name c') \<Longrightarrow> store s' = (store s)(a \<mapsto> c') \<Longrightarrow>
   client_list s' = client_list s \<Longrightarrow> current_clients s' = current_clients s \<Longrightarrow> chat_inv s'"
  by (auto simp: chat_inv_def)

lemma chat_inv_same:
  "chat_inv s \<Longrightarrow> store s' = store s \<Longrightarrow> client_list s' = client_list s \<Longrightarrow>
   current_clients s' = current_clients s \<Longrightarrow> chat_inv s'"
  by (simp add: chat_inv_def)

lemma input_inv:
  assumes "chat_inv s" "a \<in> set (client_list s)" "handle_client_message a data s = Some (s', out)"
  shows "chat_inv s'"
  using input_store [OF assms(3)]
proof
  assume drop: "store s' = (store s)(a := None) \<and> client_list s' = remove1 a (client_list s) \<and>
    current_clients s' = current_clients s - 1"
  have "a \<in> dom (store s)" using assms(1,2) by (simp add: chat_inv_def)
  from chat_inv_drop [OF assms(1) this] drop show ?thesis by blast
next
  assume "\<exists>c c'. store s a = Some c \<and> store s' = (store s)(a \<mapsto> c') \<and> c_name c' = c_name c \<and>
    c_fd c' = c_fd c \<and> client_list s' = client_list s \<and> current_clients s' = current_clients s"
  then obtain c c' where c: "store s a = Some c" "store s' = (store s)(a \<mapsto> c')" "c_name c' = c_name c"
    "client_list s' = client_list s" "current_clients s' = current_clients s" by blast
  moreover have "name_ok (c_name c')" using assms(1) c(1,3) by (simp add: chat_inv_def)
  ultimately show ?thesis using chat_inv_set [OF assms(1) c(1)] by blast
qed

lemma connect_inv:
  assumes "chat_inv s" "store s a = None" "handle_new_connection m acc a mem s = (s', out)"
  shows "chat_inv s'"
  using connect_store [OF assms(3,2)]
proof
  assume "store s' = store s \<and> client_list s' = client_list s \<and> current_clients s' = current_clients s"
  with assms(1) show ?thesis by (auto intro: chat_inv_same)
next
  assume "\<exists>f. acc = Some f \<and> store s' = (store s)(a \<mapsto> \<lparr>c_fd = f, c_name = [], c_inbuf = mem, c_len = 0\<rparr>) \<and>
      client_list s' = a # client_list s \<and> current_clients s' = current_clients s + 1"
  then obtain f where f: "store s' = (store s)(a \<mapsto> \<lparr>c_fd = f, c_name = [], c_inbuf = mem, c_len = 0\<rparr>)"
    "client_list s' = a # client_list s" "current_clients s' = current_clients s + 1" by blast
  show ?thesis by (rule chat_inv_add [OF assms(1,2) _ f]) simp
qed

lemma worker_inv:
  assumes "chat_inv s" "phase_ok w" "worker_step w s = Some (s', w', out)"
  shows "chat_inv s' \<and> phase_ok w'"
proof -
  have w: "client_list s' = client_list s" "current_clients s' = current_clients s"
    using worker_store [OF assms(3)] by blast+
  from worker_store [OF assms(3)] consider "store s' = store s" "phase_ok w'"
    | a u c where "w = Naming a u" "store s a = Some c" "w' = Idle"
        "store s' = (store s)(a \<mapsto> c\<lparr>c_name := strncpy_z MAX_NAME u\<rparr>)"
    using assms(2) by blast
  then show ?thesis
  proof cases
    case 1
    with w chat_inv_same [OF assms(1)] show ?thesis by blast
  next
    case (2 a u c)
    then have "name_ok (c_name (c\<lparr>c_name := strncpy_z MAX_NAME u\<rparr>))"
      using assms(2) by (simp add: phase_ok_def name_ok_def strncpy_name)
    from chat_inv_set [OF assms(1) 2(2) this 2(4) w] 2(3) show ?thesis by (simp add: phase_ok_def)
  qed
qed

lemma chat_step_inv: "chat_step W m S S' \<Longrightarrow> system_inv S \<Longrightarrow> system_inv S'"
proof (induction rule: chat_step.induct)
  case (connect S a acc mem s' out)
  then show ?case using connect_inv by (auto simp: system_inv_def)
next
  case (input a S data s' out)
  then show ?case using input_inv by (auto simp: system_inv_def)
next
  case (drain S j js)
  then show ?case by (simp add: system_inv_def chat_inv_def)
next
  case (work i S s' w' out)
  with worker_inv [of "chat S" "worker S i" s' w' out] show ?case by (auto simp: system_inv_def)
next
  case (interrupt S s' out)
  then show ?case by (auto simp: system_inv_def chat_inv_def handle_signal_def)
qed

lemma chat_reachable_inv: "chat_reachable W m S \<Longrightarrow> system_inv S"
proof (induction rule: chat_reachable.induct)
  case start
  then show ?case by (simp add: system_inv_def chat_inv_def chat_start_def phase_ok_def)
qed (blast intro: chat_step_inv)

text \<open>With one worker, names stay apart.\<close>

definition names_inv :: "system \<Rightarrow> bool" where
  "names_inv S \<longleftrightarrow> unique_names (chat S) \<and> naming_free (worker S 0) (chat S)"

definition names_kept :: "chat \<Rightarrow> chat \<Rightarrow> bool" where
  "names_kept s s' \<longleftrightarrow> (\<forall>b d. store s' b = Some d \<longrightarrow>
     c_name d = [] \<or> (\<exists>c. store s b = Some c \<and> c_name d = c_name c))"

lemma unique_names_mono:
  assumes "unique_names s" "naming_free w s" "names_kept s s'" "phase_ok w"
  shows "unique_names s' \<and> naming_free w s'"
proof
  show "unique_names s'"
    unfolding unique_names_def
  proof (intro allI impI)
    fix a b c d assume h: "store s' a = Some c" "store s' b = Some d" "a \<noteq> b" "c_name c \<noteq> []"
    from assms(3) h(1,4) obtain c0 where "store s a = Some c0" "c_name c = c_name c0"
      unfolding names_kept_def by blast
    with assms(1) h(3,4) have "\<not> strcaseeq (c_name c) (c_name d0)" if "store s b = Some d0" for d0
      using that by (simp add: unique_names_def)
    with assms(3) h(2,4) show "\<not> strcaseeq (c_name c) (c_name d)"
      unfolding names_kept_def by (metis strcaseeq_Nil(2))
  qed
  show "naming_free w s'"
  proof (cases w)
    case (Naming a u)
    then have "u \<noteq> []" using assms(4) by (simp add: phase_ok_def valid_name_def)
    with assms(2,3) Naming show ?thesis
      unfolding naming_free_def names_kept_def by (auto simp: eq_commute [of "[]"]) (metis strcaseeq_Nil(1))
  qed (simp_all add: naming_free_def)
qed

lemma connect_names:
  "handle_new_connection m acc a mem s = (s', out) \<Longrightarrow> store s a = None \<Longrightarrow> names_kept s s'"
  using connect_store [of m acc a mem s s' out] by (auto simp: names_kept_def split: if_splits)

lemma input_names:
  assumes "handle_client_message a data s = Some (s', out)"
  shows "names_kept s s'"
  using input_store [OF assms]
proof
  assume "\<exists>c c'. store s a = Some c \<and> store s' = (store s)(a \<mapsto> c') \<and> c_name c' = c_name c \<and>
    c_fd c' = c_fd c \<and> client_list s' = client_list s \<and> current_clients s' = current_clients s"
  then show ?thesis by (auto simp: names_kept_def split: if_splits)
qed (simp add: names_kept_def)

lemma names_inv_kept:
  assumes "system_inv S" "names_inv S" "names_kept (chat S) s'"
  shows "names_inv (S\<lparr>chat := s'\<rparr>)"
  using unique_names_mono [OF _ _ assms(3), of "worker S 0"] assms(1,2)
  by (simp add: names_inv_def system_inv_def)

lemma chat_step_names:
  assumes "chat_step 1 m S S'" "system_inv S" "names_inv S"
  shows "names_inv S'"
  using assms(1)
proof cases
  case (connect a acc mem s' out)
  from names_inv_kept [OF assms(2,3) connect_names [OF connect(4,2)]] connect(1) show ?thesis by simp
next
  case (input a data s' out)
  from names_inv_kept [OF assms(2,3) input_names [OF input(3)]] input(1) show ?thesis by simp
next
  case (drain j js)
  have "names_kept (chat S) ((chat S)\<lparr>bcast_q := js\<rparr>)" by (simp add: names_kept_def)
  from names_inv_kept [OF assms(2,3) this] drain(1) show ?thesis by simp
next
  case (work i s' w' out)
  have inv: "chat_inv (chat S)" "phase_ok (worker S 0)" "unique_names (chat S)" "naming_free (worker S 0) (chat S)"
    using assms(2,3) by (auto simp: system_inv_def names_inv_def)
  from worker_store [OF work(3)] work(2) consider
      "store s' = store (chat S)" "\<forall>a u. w' = Naming a u \<longrightarrow> \<not> is_username_taken (chat S) u"
    | a u c where "worker S 0 = Naming a u" "store (chat S) a = Some c" "w' = Idle"
        "store s' = (store (chat S))(a \<mapsto> c\<lparr>c_name := strncpy_z MAX_NAME u\<rparr>)"
    by auto
  then have "unique_names s' \<and> naming_free w' s'"
  proof cases
    case 1
    with inv(1,3) show ?thesis
      by (cases w') (auto simp: unique_names_def naming_free_def taken_iff)
  next
    case (2 a u c)
    have u: "strncpy_z MAX_NAME u = u" "u \<noteq> []" using inv(2) 2(1) by (auto simp: phase_ok_def strncpy_name valid_name_def)
    have free: "\<not> strcaseeq (c_name d) u" "\<not> strcaseeq u (c_name d)" if "store (chat S) b = Some d" for b d
      using inv(4) 2(1) that by (auto simp: naming_free_def strcaseeq_sym [of u])
    have "unique_names s'"
      unfolding unique_names_def
    proof (intro allI impI)
      fix x y cx cy assume h: "store s' x = Some cx" "store s' y = Some cy" "x \<noteq> y" "c_name cx \<noteq> []"
      then show "\<not> strcaseeq (c_name cx) (c_name cy)"
        using free 2(4) u inv(3) by (auto simp: unique_names_def split: if_splits)
    qed
    then show ?thesis using 2(3) by (simp add: naming_free_def)
  qed
  then show ?thesis using work by (simp add: names_inv_def)
next
  case (interrupt s' out)
  have "names_kept (chat S) s'" using interrupt(2) by (auto simp: names_kept_def handle_signal_def)
  from names_inv_kept [OF assms(2,3) this] interrupt(1) show ?thesis by simp
qed

lemma chat_reachable_names: "chat_reachable 1 m S \<Longrightarrow> names_inv S"
proof (induction rule: chat_reachable.induct)
  case start
  then show ?case by (simp add: names_inv_def unique_names_def naming_free_def chat_start_def)
qed (blast intro: chat_step_names chat_reachable_inv)

section \<open>Properties of the threads\<close>

text \<open>C14. The linked list of jobs is a first-in first-out queue: for any schedule of pushes and pops, what
  was popped followed by what is left is exactly what was pushed, in order, with nothing lost,
  repeated or overtaken.\<close>

theorem job_queue_is_fifo:
  assumes "\<forall>a \<in> set (jq.pushed ops). a \<in> dom h" "distinct (jq.pushed ops)"
    and "jq.run ops (h, q_init) = (popped, s')"
  shows "\<exists>rest. queue_rep s' rest \<and> popped @ rest = jq.pushed ops"
  using jq.run_fifo [OF q_init_rep, of ops h popped s'] assms by simp

definition w_job :: job where
  "w_job = \<lparr>sender_fd = 4, j_username = '''', j_msg = ''hi''\<rparr>"

theorem job_queue_is_fifo_witness:
  "fst (jq.run [Some 1, Some 2, None, Some 3, None] (\<lambda>_. Some \<lparr>item = w_job, next_job = None\<rparr>, q_init)) = [1, 2] \<and>
   (\<exists>rest. [1, 2] @ rest = [1, 2, 3])"
proof -
  let ?h = "\<lambda>_ :: nat. Some \<lparr>item = w_job, next_job = None\<rparr>"
  obtain popped s' where r: "jq.run [Some 1, Some 2, None, Some 3, None] (?h, q_init) = (popped, s')"
    by (cases "jq.run [Some 1, Some 2, None, Some 3, None] (?h, q_init)")
  have "popped = [1, 2]"
    using r by (simp add: q_push_def pop_item_def q_try_pop_def take_head_def unlink_head_def q_init_def
        set_next_def Let_def)
  with job_queue_is_fifo [OF _ _ r] r show ?thesis by (auto simp: dom_def)
qed

text \<open>C15. In every state the threads can reach, the count of clients is the length of the list, the list
  holds every allocated client once, and every name is empty or a valid name that fits its array.\<close>

theorem chat_state_well_formed:
  assumes "chat_reachable W max_clients S"
  shows "current_clients (chat S) = int (length (client_list (chat S))) \<and>
    distinct (client_list (chat S)) \<and> set (client_list (chat S)) = dom (store (chat S)) \<and>
    (store (chat S) a = Some c \<longrightarrow> c_name c = [] \<or> valid_name (c_name c) \<and> length (c_name c) < MAX_NAME)"
  using chat_reachable_inv [OF assms] by (auto simp: system_inv_def chat_inv_def name_ok_def)

definition w_sys0 :: system where
  "w_sys0 = \<lparr>chat = chat_start 3, worker = (\<lambda>_. Idle)\<rparr>"

definition blank_client :: "int \<Rightarrow> client" where
  "blank_client f = \<lparr>c_fd = f, c_name = [], c_inbuf = replicate INBUF NUL, c_len = 0\<rparr>"

text \<open>Two clients connect: 4 at block 0, then 5 at block 1.\<close>

definition w_two_clients :: chat where
  "w_two_clients = \<lparr>store = [0 \<mapsto> blank_client 4, 1 \<mapsto> blank_client 5], client_list = [1, 0], current_clients = 2,
     job_q = [], bcast_q = [], open_fds = {5, 4, 3}, server_fd = 3, q_shut = False, shutdown_flag = False\<rparr>"

lemma w_two_clients_running [simp]: "\<not> shutdown_flag w_two_clients"
  by (simp add: w_two_clients_def)

lemma w_connected: "chat_reachable W 10 \<lparr>chat = w_two_clients, worker = (\<lambda>_. Idle)\<rparr>"
proof -
  let ?mem = "replicate INBUF NUL"
  let ?s1 = "(chat_start 3)\<lparr>store := [0 \<mapsto> blank_client 4], client_list := [0], current_clients := 1, open_fds := {4, 3}\<rparr>"
  have "chat_step W 10 w_sys0 (w_sys0\<lparr>chat := ?s1\<rparr>)"
    by (rule chat_step.connect [where a = 0 and acc = "Some 4" and mem = ?mem and out = "[Msg 4 greeting]"])
       (simp_all add: w_sys0_def chat_start_def handle_new_connection_def blank_client_def)
  then have r1: "chat_reachable W 10 (w_sys0\<lparr>chat := ?s1\<rparr>)"
    unfolding w_sys0_def by (rule chat_reachable.step [rotated]) (simp add: chat_reachable.start)
  have "chat_step W 10 (w_sys0\<lparr>chat := ?s1\<rparr>) ((w_sys0\<lparr>chat := ?s1\<rparr>)\<lparr>chat := w_two_clients\<rparr>)"
    by (rule chat_step.connect [where a = 1 and acc = "Some 5" and mem = ?mem and out = "[Msg 5 greeting]"])
       (simp_all add: w_sys0_def chat_start_def handle_new_connection_def blank_client_def w_two_clients_def
         fun_upd_twist)
  from chat_reachable.step [OF r1 this] show ?thesis by (simp add: w_sys0_def)
qed

theorem chat_state_well_formed_witness:
  "chat_reachable 2 10 \<lparr>chat = w_two_clients, worker = (\<lambda>_. Idle)\<rparr> \<and> current_clients w_two_clients = 2"
  using chat_state_well_formed [OF w_connected, of 2] w_connected by (simp add: w_two_clients_def)

text \<open>C16. With one worker no two clients ever have the same name, whatever the case of its letters and
  however the main thread and the worker interleave.\<close>

theorem names_unique_one_worker:
  assumes "chat_reachable 1 max_clients S" "store (chat S) a = Some c" "store (chat S) b = Some d"
    and "a \<noteq> b" "c_name c \<noteq> []"
  shows "\<not> strcaseeq (c_name c) (c_name d)"
  using chat_reachable_names [OF assms(1)] assms(2-5) by (auto simp: names_inv_def unique_names_def)

text \<open>A worker's run on its own.\<close>

lemma worker_run:
  assumes "chat_reachable W m \<lparr>chat = s, worker = ws\<rparr>" "i < W" "worker_step (ws i) s = Some (s', w', out)"
  shows "chat_reachable W m \<lparr>chat = s', worker = ws(i := w')\<rparr>"
  using chat_reachable.step [OF assms(1) chat_step.work [of i W "\<lparr>chat = s, worker = ws\<rparr>"]] assms(2,3) by simp

text \<open>A line from a client whose buffer is fresh becomes a job.\<close>

lemma input_run:
  assumes "chat_reachable W m \<lparr>chat = s, worker = ws\<rparr>" "a \<in> set (client_list s)" "store s a = Some (blank_client f)"
    and "l \<noteq> []" "length l < 32" "NL \<notin> set l" "NUL \<notin> set l" "last l \<noteq> CR"
  shows "\<exists>c'. chat_reachable W m \<lparr>chat = s\<lparr>store := (store s)(a \<mapsto> c'),
      job_q := job_q s @ [\<lparr>sender_fd = f, j_username = [], j_msg = l\<rparr>]\<rparr>, worker = ws\<rparr> \<and>
    c_fd c' = f \<and> c_name c' = []"
proof -
  let ?buf = "replicate INBUF NUL" and ?data = "l @ [NL]"
  have lines: "lines_of (take (nat 0) ?buf @ ?data) = ([l], [])"
    using lines_of_line [OF assms(6), of "[]"] by simp
  have "NUL \<notin> set ?data" "0 + int (length ?data) < int INBUF" using assms(5,7) by (simp_all add: INBUF_def)
  from frame_input_lines [OF inbuf_ok_zero this, of f "[]"] obtain buf' where
    fr: "frame_input f [] ?buf 0 ?data = Framed (line_jobs f [] [l]) buf' 0"
    unfolding lines by auto
  have job: "line_jobs f [] [l] = [\<lparr>sender_fd = f, j_username = [], j_msg = l\<rparr>]"
    using assms(4,5,8) by (simp add: line_jobs_def strip_cr_def make_job_def MAX_MSG_def)
  let ?c' = "(blank_client f)\<lparr>c_inbuf := buf', c_len := 0\<rparr>"
  have "handle_client_message a ?data s = Some (s\<lparr>store := (store s)(a \<mapsto> ?c'),
      job_q := job_q s @ [\<lparr>sender_fd = f, j_username = [], j_msg = l\<rparr>]\<rparr>, [])"
    using assms(3,5) fr job by (simp add: handle_client_message_def blank_client_def)
  then have "chat_step W m \<lparr>chat = s, worker = ws\<rparr> (\<lparr>chat = s, worker = ws\<rparr>\<lparr>chat := s\<lparr>store := (store s)(a \<mapsto> ?c'),
      job_q := job_q s @ [\<lparr>sender_fd = f, j_username = [], j_msg = l\<rparr>]\<rparr>\<rparr>)"
    using assms(2) by (intro chat_step.input [where data = ?data and out = "[]"]) simp_all
  from chat_reachable.step [OF assms(1) this] show ?thesis
    by (intro exI [of _ ?c']) (simp add: blank_client_def)
qed

text \<open>The job of a client without a name, up to the point where the name is found free.\<close>

lemma naming_run:
  assumes r: "chat_reachable W m \<lparr>chat = s, worker = ws\<rparr>" and i: "i < W" "ws i = Idle"
    and q: "job_q s = \<lparr>sender_fd = f, j_username = [], j_msg = u\<rparr> # js" "\<not> shutdown_flag s"
    and a: "find_sender s f = Some a" "store s a = Some c" "c_name c = []"
    and u: "valid_name u" "length u < MAX_NAME" and free: "\<not> is_username_taken s u"
  shows "chat_reachable W m \<lparr>chat = s\<lparr>job_q := js\<rparr>, worker = ws(i := Naming a u)\<rparr>"
proof -
  let ?j = "\<lparr>sender_fd = f, j_username = [], j_msg = u\<rparr>" and ?s = "s\<lparr>job_q := js\<rparr>"
  have same: "find_sender ?s f = Some a" "is_username_taken ?s u = False"
    using a(1) free by (simp_all add: find_sender_def is_username_taken_def live_def)
  have "worker_step (ws i) s = Some (s, Popping, [])" using i(2) q(2) by (simp add: worker_step_def)
  from worker_run [OF r i(1) this] have r0: "chat_reachable W m \<lparr>chat = s, worker = ws(i := Popping)\<rparr>" .
  have "worker_step ((ws(i := Popping)) i) s = Some (?s, Lookup ?j, [])" using q(1) by (simp add: worker_step_def)
  from worker_run [OF r0 i(1) this] have r1: "chat_reachable W m \<lparr>chat = ?s, worker = ws(i := Lookup ?j)\<rparr>"
    by (simp only: fun_upd_upd)
  have "worker_step ((ws(i := Lookup ?j)) i) ?s = Some (?s, Found ?j a, [])"
    using same(1) by (simp add: worker_step_def)
  from worker_run [OF r1 i(1) this] have r2: "chat_reachable W m \<lparr>chat = ?s, worker = ws(i := Found ?j a)\<rparr>"
    by (simp only: fun_upd_upd)
  have "worker_step ((ws(i := Found ?j a)) i) ?s = Some (?s, Checking a u, [])"
    using a u by (simp add: worker_step_def strncpy_name Let_def)
  from worker_run [OF r2 i(1) this] have r3: "chat_reachable W m \<lparr>chat = ?s, worker = ws(i := Checking a u)\<rparr>"
    by (simp only: fun_upd_upd)
  have "worker_step ((ws(i := Checking a u)) i) ?s = Some (?s, Naming a u, [])"
    using same(2) by (simp add: worker_step_def)
  from worker_run [OF r3 i(1) this] show ?thesis by (simp only: fun_upd_upd)
qed

lemma naming_done:
  assumes r: "chat_reachable W m \<lparr>chat = s, worker = ws\<rparr>" and i: "i < W" "ws i = Naming a u"
    and a: "store s a = Some c" and u: "length u < MAX_NAME"
  shows "\<exists>s'. chat_reachable W m \<lparr>chat = s', worker = ws(i := Idle)\<rparr> \<and>
    store s' = (store s)(a \<mapsto> c\<lparr>c_name := u\<rparr>)"
proof -
  obtain s' out where "worker_step (ws i) s = Some (s', Idle, out)" "store s' = (store s)(a \<mapsto> c\<lparr>c_name := u\<rparr>)"
    using i(2) a u by (simp add: worker_step_def strncpy_name Let_def)
  with worker_run [OF r i(1)] show ?thesis by blast
qed

theorem names_unique_one_worker_witness:
  "\<exists>S. chat_reachable 1 10 S \<and> (\<exists>c d. store (chat S) 0 = Some c \<and> store (chat S) 1 = Some d \<and>
     c_name c = ''bob'' \<and> \<not> strcaseeq (c_name c) (c_name d))"
proof -
  note conn = w_connected [of 1]
  obtain c where c: "c_fd c = 4" "c_name c = []"
    and r1: "chat_reachable 1 10 \<lparr>chat = w_two_clients\<lparr>store := (store w_two_clients)(0 \<mapsto> c),
      job_q := job_q w_two_clients @ [\<lparr>sender_fd = 4, j_username = [], j_msg = ''bob''\<rparr>]\<rparr>, worker = (\<lambda>_. Idle)\<rparr>"
    using input_run [OF conn, of 0 4 "''bob''"] by (auto simp: w_two_clients_def)
  let ?s = "w_two_clients\<lparr>store := (store w_two_clients)(0 \<mapsto> c), job_q := []\<rparr>"
  have "chat_reachable 1 10 \<lparr>chat = ?s, worker = (\<lambda>_. Idle)(0 := Naming 0 ''bob'')\<rparr>"
    using naming_run [OF r1, of 0 4 "''bob''" "[]" 0 c] c
    by (simp add: w_two_clients_def find_sender_def blank_client_def is_username_taken_def live_def
        List.map_filter_simps valid_name_def isalnum_def isdigit_def isupper_def islower_def code_def MAX_NAME_def)
  from naming_done [OF this, of 0 0 "''bob''" c] obtain s' ws where
    r: "chat_reachable 1 10 \<lparr>chat = s', worker = ws\<rparr>" "store s' = (store ?s)(0 \<mapsto> c\<lparr>c_name := ''bob''\<rparr>)"
    by (auto simp: MAX_NAME_def)
  from names_unique_one_worker [OF r(1), of 0 "c\<lparr>c_name := ''bob''\<rparr>" 1 "blank_client 5"] r
  show ?thesis by (auto simp: w_two_clients_def)
qed

lemma w_two_jobs:
  "\<exists>c d. c_fd c = 4 \<and> c_name c = [] \<and> c_fd d = 5 \<and> c_name d = [] \<and>
    chat_reachable W 10 \<lparr>chat = w_two_clients\<lparr>store := [0 \<mapsto> c, 1 \<mapsto> d],
      job_q := [\<lparr>sender_fd = 4, j_username = [], j_msg = ''bob''\<rparr>, \<lparr>sender_fd = 5, j_username = [], j_msg = ''bob''\<rparr>]\<rparr>,
      worker = (\<lambda>_. Idle)\<rparr>"
proof -
  obtain c where c: "c_fd c = 4" "c_name c = []"
    and r1: "chat_reachable W 10 \<lparr>chat = w_two_clients\<lparr>store := (store w_two_clients)(0 \<mapsto> c),
      job_q := [\<lparr>sender_fd = 4, j_username = [], j_msg = ''bob''\<rparr>]\<rparr>, worker = (\<lambda>_. Idle)\<rparr>"
    using input_run [OF w_connected, of 0 4 "''bob''"] by (auto simp: w_two_clients_def)
  obtain d where "c_fd d = 5" "c_name d = []"
    and "chat_reachable W 10 \<lparr>chat = w_two_clients\<lparr>store := (store w_two_clients)(0 \<mapsto> c, 1 \<mapsto> d),
      job_q := [\<lparr>sender_fd = 4, j_username = [], j_msg = ''bob''\<rparr>, \<lparr>sender_fd = 5, j_username = [], j_msg = ''bob''\<rparr>]\<rparr>,
      worker = (\<lambda>_. Idle)\<rparr>"
    using input_run [OF r1, of 1 5 "''bob''"] by (auto simp: w_two_clients_def)
  moreover have "(store w_two_clients)(0 \<mapsto> c, 1 \<mapsto> d) = [0 \<mapsto> c, 1 \<mapsto> d]"
    by (auto simp: w_two_clients_def fun_eq_iff)
  ultimately show ?thesis using c by auto
qed

lemma bob_ok: "valid_name ''bob''" "length ''bob'' < MAX_NAME"
  by (simp_all add: valid_name_def isalnum_def isdigit_def isupper_def islower_def code_def MAX_NAME_def)

text \<open>With two workers the check of a name and its assignment can interleave: two clients end up with
  the same name.\<close>

theorem names_race_two_workers:
  "\<exists>S c d. chat_reachable 2 10 S \<and> store (chat S) 0 = Some c \<and> store (chat S) 1 = Some d \<and>
     c_name c = ''bob'' \<and> c_name d = ''bob''"
proof -
  obtain c d where cd: "c_fd c = 4" "c_name c = []" "c_fd d = 5" "c_name d = []"
    and r: "chat_reachable 2 10 \<lparr>chat = w_two_clients\<lparr>store := [0 \<mapsto> c, 1 \<mapsto> d],
      job_q := [\<lparr>sender_fd = 4, j_username = [], j_msg = ''bob''\<rparr>, \<lparr>sender_fd = 5, j_username = [], j_msg = ''bob''\<rparr>]\<rparr>,
      worker = (\<lambda>_. Idle)\<rparr>"
    using w_two_jobs [of 2] by blast
  let ?s = "\<lambda>js. w_two_clients\<lparr>store := [0 \<mapsto> c, 1 \<mapsto> d], job_q := js\<rparr>"
  have facts: "find_sender (?s js) 4 = Some 0" "find_sender (?s js) 5 = Some 1"
    "\<not> is_username_taken (?s js) ''bob''" for js
    using cd by (simp_all add: find_sender_def w_two_clients_def is_username_taken_def live_def List.map_filter_simps)
  have "chat_reachable 2 10 \<lparr>chat = ?s [\<lparr>sender_fd = 5, j_username = [], j_msg = ''bob''\<rparr>],
      worker = (\<lambda>_. Idle)(0 := Naming 0 ''bob'')\<rparr>"
    using naming_run [OF r, of 0 4 "''bob''" _ 0 c] facts(1,3) cd bob_ok by simp
  from naming_run [OF this, of 1 5 "''bob''" "[]" 1 d]
  have "chat_reachable 2 10 \<lparr>chat = ?s [], worker = (\<lambda>_. Idle)(0 := Naming 0 ''bob'', 1 := Naming 1 ''bob'')\<rparr>"
    using facts(2,3) cd bob_ok by simp
  from naming_done [OF this, of 0 0 "''bob''" c] obtain s1 where
    r1: "chat_reachable 2 10 \<lparr>chat = s1, worker = ((\<lambda>_. Idle)(0 := Naming 0 ''bob'', 1 := Naming 1 ''bob''))(0 := Idle)\<rparr>"
    and s1: "store s1 = [0 \<mapsto> c, 1 \<mapsto> d](0 \<mapsto> c\<lparr>c_name := ''bob''\<rparr>)"
    using bob_ok(2) by auto
  from naming_done [OF r1, of 1 1 "''bob''" d] obtain s2 ws where
    r2: "chat_reachable 2 10 \<lparr>chat = s2, worker = ws\<rparr>"
    and s2: "store s2 = (store s1)(1 \<mapsto> d\<lparr>c_name := ''bob''\<rparr>)"
    using s1 bob_ok(2) by auto
  show ?thesis
    by (rule exI [of _ "\<lparr>chat = s2, worker = ws\<rparr>"], rule exI [of _ "c\<lparr>c_name := ''bob''\<rparr>"],
        rule exI [of _ "d\<lparr>c_name := ''bob''\<rparr>"]) (simp add: r2 s1 s2)
qed

text \<open>C19. A worker keeps a client's address while no lock is held: when the main thread drops the client
  in between, the worker reads freed memory, with a single worker already.\<close>

theorem worker_uses_freed_client:
  "\<exists>S. chat_reachable 1 10 S \<and> worker_step (worker S 0) (chat S) = None"
proof -
  obtain c d where cd: "c_fd c = 4" "c_name c = []" "c_fd d = 5" "c_name d = []"
    and r: "chat_reachable 1 10 \<lparr>chat = w_two_clients\<lparr>store := [0 \<mapsto> c, 1 \<mapsto> d],
      job_q := [\<lparr>sender_fd = 4, j_username = [], j_msg = ''bob''\<rparr>, \<lparr>sender_fd = 5, j_username = [], j_msg = ''bob''\<rparr>]\<rparr>,
      worker = (\<lambda>_. Idle)\<rparr>"
    using w_two_jobs [of 1] by blast
  let ?s = "\<lambda>js. w_two_clients\<lparr>store := [0 \<mapsto> c, 1 \<mapsto> d], job_q := js\<rparr>"
  let ?js = "[\<lparr>sender_fd = 5, j_username = [], j_msg = ''bob''\<rparr>]" and ?ws = "(\<lambda>_. Idle)(0 := Naming 0 ''bob'')"
  have facts: "find_sender (?s js) 4 = Some 0" "\<not> is_username_taken (?s js) ''bob''" for js
    using cd by (simp_all add: find_sender_def w_two_clients_def is_username_taken_def live_def List.map_filter_simps)
  have r1: "chat_reachable 1 10 \<lparr>chat = ?s ?js, worker = ?ws\<rparr>"
    using naming_run [OF r, of 0 4 "''bob''" _ 0 c] facts cd bob_ok by simp
  obtain s' out where s': "handle_client_message 0 [] (?s ?js) = Some (s', out)" "store s' 0 = None"
    by (simp add: handle_client_message_def remove_client_def Let_def)
  have "chat_step 1 10 \<lparr>chat = ?s ?js, worker = ?ws\<rparr> (\<lparr>chat = ?s ?js, worker = ?ws\<rparr>\<lparr>chat := s'\<rparr>)"
    using s'(1) by (intro chat_step.input [where a = 0 and data = "[]" and out = out]) (simp_all add: w_two_clients_def)
  from chat_reachable.step [OF r1 this] s'(2) show ?thesis
    by (intro exI [of _ "\<lparr>chat = s', worker = ?ws\<rparr>"]) (simp add: worker_step_def)
qed

end
