(* ===== verification/Chat_Text.thy ===== *)
theory Chat_Text
  imports Chat_Server
begin

text \<open>
  The properties of what clients of the chatroom send: how a byte stream becomes lines, what becomes
  of a line, and how an answer goes out.
\<close>

section \<open>A stream in pieces\<close>

text \<open>Successive receives of one client; \<open>None\<close> when one of them overflows the buffer.\<close>

fun feed :: "int \<Rightarrow> string \<Rightarrow> string \<Rightarrow> int \<Rightarrow> string list \<Rightarrow> (job list \<times> string \<times> int) option" where
  "feed f u buf len [] = Some ([], buf, len)"
| "feed f u buf len (d # ds) =
     (case frame_input f u buf len d of
        Framed js b l \<Rightarrow> map_option (\<lambda>(js', b', l'). (js @ js', b', l')) (feed f u b l ds)
      | _ \<Rightarrow> None)"

definition lines_within :: "nat \<Rightarrow> string \<Rightarrow> bool" where
  "lines_within N s \<longleftrightarrow>
     (\<forall>l \<in> set (fst (lines_of s)). length l \<le> N) \<and> length (snd (lines_of s)) \<le> N"

lemma lines_within_rest: "lines_within N (a @ b) \<Longrightarrow> lines_within N (snd (lines_of a) @ b)"
  by (simp add: lines_within_def lines_of_append [of a b])

lemma lines_within_prefix:
  assumes "NL \<notin> set p" "lines_within N (p @ b)"
  shows "length p \<le> N"
proof (cases b rule: line_cases)
  case 1
  with assms show ?thesis by (simp add: lines_within_def lines_of_no_newline)
next
  case (2 l s')
  then have "lines_of (p @ b) = ((p @ l) # fst (lines_of s'), snd (lines_of s'))"
    using assms(1) lines_of_line [of "p @ l" s'] by simp
  with assms(2) show ?thesis by (simp add: lines_within_def)
qed

lemma feed_lines:
  assumes "inbuf_ok buf len" "NUL \<notin> set (concat ds)" "\<forall>d \<in> set ds. length d \<le> 1023"
    and "NL \<notin> set (take (nat len) buf)" "lines_within 1024 (take (nat len) buf @ concat ds)"
  shows "\<exists>buf'. feed f u buf len ds =
      Some (line_jobs f u (fst (lines_of (take (nat len) buf @ concat ds))), buf',
        int (length (snd (lines_of (take (nat len) buf @ concat ds))))) \<and>
    take (length (snd (lines_of (take (nat len) buf @ concat ds)))) buf' =
      snd (lines_of (take (nat len) buf @ concat ds))"
  using assms
proof (induction ds arbitrary: buf len)
  case Nil
  have "lines_of (take (nat len) buf) = ([], take (nat len) buf)" by (rule lines_of_no_newline [OF Nil.prems(4)])
  moreover have "int (length (take (nat len) buf)) = len" using Nil.prems(1) by (auto simp: inbuf_ok_def)
  ultimately show ?case by (simp add: line_jobs_def)
next
  case (Cons d ds)
  let ?p = "take (nat len) buf"
  let ?r = "snd (lines_of (?p @ d))"
  have p: "length ?p \<le> 1024" "length ?p = nat len" "0 \<le> len"
    using lines_within_prefix [OF Cons.prems(4,5)] Cons.prems(1) by (auto simp: inbuf_ok_def)
  have "NUL \<notin> set d" "len + int (length d) < int INBUF"
    using Cons.prems(2,3) p by (auto simp: INBUF_def)
  from frame_input_lines [OF Cons.prems(1) this, of f u] obtain b where
    b: "frame_input f u buf len d = Framed (line_jobs f u (fst (lines_of (?p @ d)))) b (int (length ?r))"
    "inbuf_ok b (int (length ?r))" "take (length ?r) b = ?r" by blast
  have within: "lines_within 1024 (?r @ concat ds)"
    using lines_within_rest [of 1024 "?p @ d" "concat ds"] Cons.prems(5) by simp
  have ih: "\<exists>buf'. feed f u b (int (length ?r)) ds =
      Some (line_jobs f u (fst (lines_of (?r @ concat ds))), buf',
        int (length (snd (lines_of (?r @ concat ds))))) \<and>
    take (length (snd (lines_of (?r @ concat ds)))) buf' = snd (lines_of (?r @ concat ds))"
    using Cons.IH [OF b(2)] Cons.prems(2,3) b(3) rest_no_newline [of "?p @ d"] within by simp
  have split: "lines_of (?p @ d @ concat ds) =
      (fst (lines_of (?p @ d)) @ fst (lines_of (?r @ concat ds)), snd (lines_of (?r @ concat ds)))"
    using lines_of_append [of "?p @ d" "concat ds"] by simp
  from ih show ?case by (auto simp: split b(1))
qed

text \<open>C17. The jobs made of a stream do not depend on how TCP cut it, when four conditions hold.  The memory
  of the client's buffer holds no newline and ends with a zero (\<open>inbuf_ok\<close>; \<^verbatim>\<open>malloc\<close> leaves it
  uninitialised and no code establishes this: \<open>stale_newline_invents_line\<close> shows what a newline there does).
  The client sends no zero byte (\<open>nul_byte_mutes_client\<close>).  Its lines, and the unfinished last one, have at
  most 1024 characters, and each piece at most 1023, which is what the code asks \<^verbatim>\<open>recv\<close> for.  Then
  the jobs are those of the lines of the whole stream, in order, what is kept is its unfinished last line, and the
  client is not dropped for want of room.\<close>

theorem framing_ignores_segmentation:
  assumes "inbuf_ok buf len" "NUL \<notin> set (concat ds)" "\<forall>d \<in> set ds. length d \<le> 1023"
    and "lines_within 1024 (take (nat len) buf @ concat ds)"
  shows "\<exists>buf'. feed f u buf len ds =
      Some (line_jobs f u (fst (lines_of (take (nat len) buf @ concat ds))), buf',
        int (length (snd (lines_of (take (nat len) buf @ concat ds))))) \<and>
    take (length (snd (lines_of (take (nat len) buf @ concat ds)))) buf' =
      snd (lines_of (take (nat len) buf @ concat ds))"
proof -
  have "NL \<notin> set (take (nat len) buf)" using assms(1) by (auto simp: inbuf_ok_def dest: in_set_takeD)
  from feed_lines [OF assms(1-3) this assms(4)] show ?thesis .
qed

theorem framing_ignores_segmentation_witness:
  "\<exists>buf'. feed 4 ''al'' (replicate INBUF NUL) 0 [''he'', ''llo'' @ [CR], [NL] @ ''you''] =
     Some ([make_job 4 ''al'' ''hello''], buf', 3) \<and> take 3 buf' = ''you''"
proof -
  let ?ds = "[''he'', ''llo'' @ [CR], [NL] @ ''you'']"
  have lines: "lines_of (take (nat 0) (replicate INBUF NUL) @ concat ?ds) = ([''hello'' @ [CR]], ''you'')"
    by simp
  have "lines_within 1024 (take (nat 0) (replicate INBUF NUL) @ concat ?ds)"
    unfolding lines_within_def lines by simp
  from framing_ignores_segmentation [OF inbuf_ok_zero _ _ this, of 4 "''al''"] show ?thesis
    unfolding lines by (simp add: line_jobs_def strip_cr_def numeral_3_eq_3 del: feed.simps)
qed

section \<open>Memory that is not zero\<close>

lemma strchr_line: "NL \<notin> set l \<Longrightarrow> NUL \<notin> set l \<Longrightarrow> strchr_nl (l @ NL # t) = Some (Some (length l))"
  by (induction l) auto

text \<open>A new client whose buffer was allocated over memory with a newline in it, behind characters that are not
  zero: the first piece it sends, without a newline of its own, becomes a line together with what the memory held,
  and the length of the unfinished line goes below zero, so that the next piece is copied in front of the
  buffer.\<close>

theorem stale_newline_invents_line:
  assumes "buf = stale @ NL # NUL # rest" "length buf = INBUF" "NL \<notin> set stale" "NUL \<notin> set stale"
    and "NL \<notin> set d" "NUL \<notin> set d" "length d \<le> length stale" "0 < length stale"
    and "last (d @ drop (length d) stale) \<noteq> CR"
  shows "\<exists>buf'. frame_input f u buf 0 d = Framed [make_job f u (d @ drop (length d) stale)] buf'
      (int (length d) - int (length stale) - 1)"
proof -
  define l where "l = d @ drop (length d) stale"
  have fits: "length d < INBUF" using assms(1,2,7) by simp
  have copy: "memcpy_at buf 0 d = Some (l @ NL # NUL # rest)"
    using memcpy_at_fits [of 0 d buf] fits assms(1,2,7) by (simp add: l_def)
  have clean: "NL \<notin> set l" "NUL \<notin> set l" using assms(3-6) by (auto simp: l_def dest: in_set_dropD)
  have n: "length l = length stale" "l \<noteq> []" using assms(7,8) by (auto simp: l_def)
  have cr: "l ! (length l - 1) \<noteq> CR" using assms(9) n(2) by (simp add: last_conv_nth flip: l_def)
  have first: "strchr_nl (l @ NL # NUL # rest) = Some (Some (length l))" by (rule strchr_line [OF clean])
  have b1: "(l @ NL # NUL # rest)[length l := NUL] = l @ NUL # NUL # rest" by (simp only: list_update_length)
  have nth: "(l @ NUL # NUL # rest) ! (length l - 1) = l ! (length l - 1)"
    by (rule nth_append_left) (use assms(8) n(1) in linarith)
  have line: "cstr_of (l @ NUL # NUL # rest) = l"
    using clean(2) by (auto simp: cstr_of_def takeWhile_append)
  have stop: "frame_loop f u (l @ NUL # NUL # rest) (Suc (length l)) [make_job f u l] =
      Some ([make_job f u l], l @ NUL # NUL # rest, Suc (length l))"
    by (simp add: frame_loop.simps)
  have "frame_loop f u (l @ NL # NUL # rest) 0 [] =
      Some ([make_job f u l], l @ NUL # NUL # rest, Suc (length l))"
    unfolding frame_loop.simps [of f u "l @ NL # NUL # rest" 0] drop_0 first option.case Let_def add_0 b1 nth
    using cr n(2) line stop by simp
  then show ?thesis
    using fits n by (simp add: frame_input_def copy Let_def flip: l_def)
qed

theorem stale_newline_invents_line_witness:
  "\<exists>buf'. frame_input 4 [] (''secret'' @ NL # NUL # replicate (INBUF - 8) NUL) 0 ''hi'' =
     Framed [make_job 4 [] ''hicret''] buf' (- 5)"
  using stale_newline_invents_line [OF refl, of "''secret''" "replicate (INBUF - 8) NUL" "''hi''" 4 "[]"]
  by (simp add: INBUF_def)

section \<open>A zero byte\<close>

lemma strchr_nul: "NL \<notin> set s \<Longrightarrow> strchr_nl (s @ NUL # t) = Some None"
  by (induction s) auto

lemma frame_input_nul:
  assumes "length buf = INBUF" "take (nat len) buf = s @ NUL # t" "NL \<notin> set s" "0 \<le> len"
  shows "frame_input f u buf len d = Overflow \<or>
    (\<exists>buf'. frame_input f u buf len d = Framed [] buf' (len + int (length d)) \<and> length buf' = INBUF \<and>
       take (nat (len + int (length d))) buf' = s @ NUL # t @ d)"
proof (cases "len + int (length d) < int INBUF")
  case True
  let ?b = "take (nat len) buf @ d @ drop (nat len + length d) buf"
  have fits: "nat len + length d < INBUF" "int (nat len) = len" using True assms(4) by auto
  then have copy: "memcpy_at buf len d = Some ?b"
    using memcpy_at_fits [of "nat len" d buf] assms(1) by simp
  have "strchr_nl (drop 0 ?b) = Some None" using strchr_nul [OF assms(3)] assms(2) by simp
  then have loop: "frame_loop f u ?b 0 [] = Some ([], ?b, 0)" by (simp add: frame_loop.simps)
  have n: "nat (len + int (length d)) = nat len + length d" using assms(4) by (simp add: nat_add_distrib)
  have "take (nat len + length d) ?b = take (nat len) buf @ d" using fits assms(1) by simp
  then have pre: "take (nat len + length d) ?b = s @ NUL # t @ d" by (simp add: assms(2))
  have "frame_input f u buf len d = Framed [] ?b (len + int (length d))"
    using True append_take_drop_id [of "nat len + length d" ?b] unfolding frame_input_def Let_def copy option.case loop prod.case
    by (simp add: n)
  moreover have "length ?b = INBUF" using fits assms(1) by simp
  ultimately show ?thesis using pre n by metis
next
  case False
  then show ?thesis by (simp add: frame_input_def)
qed

text \<open>Once a zero byte stands in a client's buffer with no newline before it, nothing the client sends
  is heard again: every receive adds to the buffer and makes no job, until it overflows.\<close>

theorem nul_byte_mutes_client:
  assumes "length buf = INBUF" "take (nat len) buf = s @ NUL # t" "NL \<notin> set s" "0 \<le> len"
    and "feed f u buf len ds = Some (js, buf', len')"
  shows "js = [] \<and> len' = len + int (length (concat ds)) \<and> take (nat len') buf' = s @ NUL # t @ concat ds"
  using assms
proof (induction ds arbitrary: buf len t js)
  case Nil
  then show ?case by simp
next
  case (Cons d ds)
  from Cons.prems(5) have "frame_input f u buf len d \<noteq> Overflow" by (auto split: frame_result.splits)
  with frame_input_nul [OF Cons.prems(1-4), of f u d] obtain b where
    b: "frame_input f u buf len d = Framed [] b (len + int (length d))" "length b = INBUF"
      "take (nat (len + int (length d))) b = s @ NUL # t @ d" by blast
  with Cons.prems(5) have "feed f u b (len + int (length d)) ds = Some (js, buf', len')"
    by auto
  from Cons.IH [OF b(2) _ Cons.prems(3) _ this, of "t @ d"] b(3) Cons.prems(4) show ?case by auto
qed

theorem nul_byte_mutes_client_witness:
  "\<exists>buf'. feed 4 ''al'' (''a'' @ replicate (INBUF - 1) NUL) 2 [''hello'' @ [NL]] = Some ([], buf', 8)"
proof -
  let ?buf = "''a'' @ replicate (INBUF - 1) NUL"
  have len: "length ?buf = INBUF" by (simp add: INBUF_def)
  have pre: "take (nat 2) ?buf = ''a'' @ NUL # []" by (simp add: INBUF_def numeral_2_eq_2 take_Cons')
  have "frame_input 4 ''al'' ?buf 2 (''hello'' @ [NL]) \<noteq> Overflow"
    by (auto simp: frame_input_def INBUF_def Let_def split: option.splits)
  with frame_input_nul [OF len pre, of 4 "''al''" "''hello'' @ [NL]"] obtain b l where
    "feed 4 ''al'' ?buf 2 [''hello'' @ [NL]] = Some ([], b, l)" by auto
  with nul_byte_mutes_client [OF len pre _ _ this] show ?thesis by simp
qed

section \<open>Chat messages\<close>

lemma find_sender_client:
  "find_sender s f = Some a \<Longrightarrow> a \<in> set (client_list s) \<and> (\<exists>c. store s a = Some c \<and> c_fd c = f)"
  by (auto simp: find_sender_def find_Some_iff in_set_conv_nth split: option.splits)

text \<open>A worker alone with a job of a client that has a name.\<close>

lemma process_named:
  assumes "find_sender s (sender_fd j) = Some a" "store s a = Some c" "c_name c \<noteq> []"
  shows "process_message j s = Some (handle_text c (j_msg j) s)"
proof -
  obtain s' out where h: "handle_text c (j_msg j) s = (s', out)" by fastforce
  have "worker_step (Lookup j) s = Some (s, Found j a, [])"
    "worker_step (Found j a) s = Some (s', Idle, out)"
    using assms h by (simp_all add: worker_step_def)
  with h show ?thesis by (simp add: process_message_def numeral_eq_Suc)
qed

lemma strip_nl_none: "m = [] \<or> last m \<notin> {NL, CR} \<Longrightarrow> strip_nl m = m"
  by (cases m rule: rev_cases) (auto simp: strip_nl_def)

lemma strip_nl_no_newline: "NL \<notin> set m \<Longrightarrow> NL \<notin> set (strip_nl m)"
  using set_dropWhileD [of NL _ "rev m"] by (auto simp: strip_nl_def)

text \<open>What the others see of a message.\<close>

definition shown :: "string \<Rightarrow> string \<Rightarrow> string" where
  "shown u m = take 1023 (u @ '': '' @ m @ [NL])"

lemma bcast_chat_line: "bcast_job c (chat_line c m) =
    \<lparr>sender_fd = c_fd c, j_username = strncpy_z MAX_NAME (c_name c), j_msg = shown (c_name c) m\<rparr>"
  by (simp add: bcast_job_def chat_line_def snprintf_def strncpy_z_def MAX_MSG_def shown_def min_def
      del: take_append)

lemma drain_one:
  "bcast_q s = [] \<Longrightarrow>
   snd (drain_bcast (enqueue_bcast j s)) =
     map (\<lambda>d. Msg (c_fd d) (j_msg j)) (filter (\<lambda>d. c_fd d \<noteq> sender_fd j) (live s))"
  by (simp add: drain_bcast_def enqueue_bcast_def broadcast_message_def live_def)

text \<open>C18. A line that is no command is sent, as \<^verbatim>\<open>name: line\<close>, to every client but its sender by
  the next drain of the broadcast queue, and nothing is sent to anybody before.\<close>

theorem chat_message_reaches_others:
  assumes "find_sender s (sender_fd j) = Some a" "store s a = Some c" "c_name c \<noteq> []"
    and "j_msg j = m" "m = [] \<or> hd m \<noteq> CHR ''/'' \<and> last m \<notin> {NL, CR}" "bcast_q s = []"
  shows "\<exists>s'. process_message j s = Some (s', []) \<and> live s' = live s \<and>
    snd (drain_bcast s') =
      map (\<lambda>d. Msg (c_fd d) (shown (c_name c) m)) (filter (\<lambda>d. c_fd d \<noteq> c_fd c) (live s))"
proof -
  have "strip_nl m = m" using assms(5) by (intro strip_nl_none) auto
  then have "handle_text c m s = (enqueue_bcast (bcast_job c (chat_line c m)) s, [])"
    using assms(5) by (auto simp: handle_text_def)
  with process_named [OF assms(1-3)] assms(4) drain_one [OF assms(6)] show ?thesis
    by (simp add: bcast_chat_line live_def)
qed

definition w_room :: chat where
  "w_room = \<lparr>store = [0 \<mapsto> \<lparr>c_fd = 4, c_name = ''al'', c_inbuf = [], c_len = 0\<rparr>,
       1 \<mapsto> \<lparr>c_fd = 5, c_name = ''bo'', c_inbuf = [], c_len = 0\<rparr>],
     client_list = [1, 0], current_clients = 2, job_q = [], bcast_q = [], open_fds = {3, 4, 5},
     server_fd = 3, q_shut = False, shutdown_flag = False\<rparr>"

lemma w_room_facts:
  "find_sender w_room 4 = Some 0"
  "store w_room 0 = Some \<lparr>c_fd = 4, c_name = ''al'', c_inbuf = [], c_len = 0\<rparr>"
  "live w_room = [\<lparr>c_fd = 5, c_name = ''bo'', c_inbuf = [], c_len = 0\<rparr>,
     \<lparr>c_fd = 4, c_name = ''al'', c_inbuf = [], c_len = 0\<rparr>]"
  by (simp_all add: w_room_def find_sender_def live_def List.map_filter_simps)

theorem chat_message_reaches_others_witness:
  "\<exists>s'. process_message \<lparr>sender_fd = 4, j_username = ''al'', j_msg = ''hi''\<rparr> w_room = Some (s', []) \<and>
     snd (drain_bcast s') = [Msg 5 (''al: hi'' @ [NL])]"
  using chat_message_reaches_others [OF _ w_room_facts(2), of "\<lparr>sender_fd = 4, j_username = ''al'', j_msg = ''hi''\<rparr>" "''hi''"]
  by (auto simp: w_room_facts shown_def w_room_def [THEN arg_cong, of bcast_q])

text \<open>The text others see is the whole line as long as name and message together stay below 1021
  characters; beyond that it is cut, and its newline is lost.\<close>

theorem shown_text:
  assumes "NL \<notin> set u" "NL \<notin> set m"
  shows "j_msg (bcast_job (c\<lparr>c_name := u\<rparr>) (chat_line (c\<lparr>c_name := u\<rparr>) m)) =
      (if length u + length m \<le> 1020 then u @ '': '' @ m @ [NL] else take 1023 (u @ '': '' @ m)) \<and>
    (NL \<in> set (j_msg (bcast_job (c\<lparr>c_name := u\<rparr>) (chat_line (c\<lparr>c_name := u\<rparr>) m))) \<longleftrightarrow>
      length u + length m \<le> 1020)"
  using assms by (auto simp: bcast_chat_line shown_def take_Cons' dest: in_set_takeD)

theorem shown_text_witness:
  "NL \<notin> set (j_msg (bcast_job \<lparr>c_fd = 4, c_name = ''al'', c_inbuf = [], c_len = 0\<rparr>
     (chat_line \<lparr>c_fd = 4, c_name = ''al'', c_inbuf = [], c_len = 0\<rparr> (replicate 1020 CHR ''x''))))"
  using shown_text [of "''al''" "replicate 1020 CHR ''x''" "\<lparr>c_fd = 4, c_name = [], c_inbuf = [], c_len = 0\<rparr>"]
  by simp

text \<open>A client that says \<^verbatim>\<open>/quit\<close> takes the server down: its descriptor is closed by the worker
  but stays in the list, so the main loop's next \<^verbatim>\<open>select\<close> fails and the loop ends.\<close>

theorem quit_stops_server:
  assumes "find_sender s (sender_fd j) = Some a" "store s a = Some c" "c_name c \<noteq> []"
    and "strip_nl (j_msg j) = CHR ''/'' # m" "parse_command (CHR ''/'' # m) = Some (cmd, args)"
    and "map tolower cmd = ''/quit''" "\<not> shutdown_flag s"
  shows "\<exists>s'. process_message j s = Some (s', []) \<and> a \<in> set (client_list s') \<and>
    chat_iter max_clients env s' = Stopped [Perr ''select'']"
proof -
  let ?s' = "s\<lparr>open_fds := open_fds s - {c_fd c}\<rparr>"
  have "handle_text c (j_msg j) s = (?s', [])"
    using assms(4-6) by (simp add: handle_text_def run_command_def)
  with process_named [OF assms(1-3)] have run: "process_message j s = Some (?s', [])" by simp
  have mem: "a \<in> set (client_list ?s')" using find_sender_client [OF assms(1)] by simp
  then have "c \<in> set (live ?s')" using assms(2) by (auto simp: live_def List.map_filter_def image_iff)
  then have "\<not> select_ok ?s'" by (auto simp: select_ok_def list_all_iff)
  then have "chat_iter max_clients env ?s' = Stopped [Perr ''select'']"
    using assms(7) by (simp add: chat_iter_def)
  with run mem show ?thesis by blast
qed

theorem quit_stops_server_witness:
  "\<forall>env. \<exists>s'. process_message \<lparr>sender_fd = 4, j_username = ''al'', j_msg = ''/QUIT now''\<rparr> w_room = Some (s', []) \<and>
     chat_iter 10 env s' = Stopped [Perr ''select'']"
proof
  fix env :: chat_env
  let ?j = "\<lparr>sender_fd = 4, j_username = ''al'', j_msg = ''/QUIT now''\<rparr>"
  have j: "find_sender w_room (sender_fd ?j) = Some 0" "strip_nl (j_msg ?j) = CHR ''/'' # ''QUIT now''"
    by (simp_all add: w_room_facts strip_nl_none)
  have p: "parse_command (CHR ''/'' # ''QUIT now'') = Some (''/QUIT'', ''now'')" "map tolower ''/QUIT'' = ''/quit''"
    by code_simp+
  have r: "c_name \<lparr>c_fd = 4, c_name = ''al'', c_inbuf = [], c_len = 0\<rparr> \<noteq> []" "\<not> shutdown_flag w_room"
    by (simp_all add: w_room_def)
  from quit_stops_server [OF j(1) w_room_facts(2) r(1) j(2) p r(2), of 10 env] show "\<exists>s'. process_message ?j w_room = Some (s', []) \<and>
      chat_iter 10 env s' = Stopped [Perr ''select'']" by blast
qed

section \<open>Sending\<close>

text \<open>An answer goes out in order and without gaps however the kernel splits it, and as a whole once
  the calls of \<^verbatim>\<open>send\<close> have taken all of it; an error ends it early.\<close>

theorem send_to_client_whole:
  "(\<exists>k. send_to_client msg ns = take k msg) \<and>
   ((\<forall>n \<in> set ns. 0 < n) \<and> int (length msg) \<le> sum_list ns \<longrightarrow> send_to_client msg ns = msg)"
proof (induction msg ns rule: send_to_client.induct)
  case (1 msg)
  show ?case by (auto intro: exI [of _ 0])
next
  case (2 msg n ns)
  show ?case
  proof (cases "msg = [] \<or> n \<le> 0")
    case True
    then show ?thesis by (auto intro: exI [of _ 0])
  next
    case False
    with 2 obtain k where k: "send_to_client (drop (nat n) msg) ns = take k (drop (nat n) msg)" by blast
    have pre: "take (nat n) msg @ take k (drop (nat n) msg) = take (nat n + k) msg"
      by (simp add: take_add)
    with False 2 show ?thesis by (auto simp: k intro!: exI [of _ "nat n + k"])
  qed
qed

theorem send_to_client_whole_witness: "send_to_client ''hello'' [2, 1, 2] = ''hello''"
  using send_to_client_whole [of "''hello''" "[2, 1, 2]"] by simp

section \<open>The test client\<close>

text \<open>\<^verbatim>\<open>test_client.c\<close>: three reads, each printed when it brought bytes, and three lines
  sent; \<open>None\<close> is a read that failed, \<open>Inl\<close> the call that is reported with an exit status of 1.\<close>

datatype client_out = Sends string | Prints string

definition show_read :: "string option \<Rightarrow> client_out list" where
  "show_read r =
     (case r of
        Some d \<Rightarrow> if d = [] then [] else [Prints (''Server: '' @ cstr_of (take 1023 d @ [NUL]))]
      | None \<Rightarrow> [])"

definition test_client :: "bool \<Rightarrow> bool \<Rightarrow> string option \<Rightarrow> string option \<Rightarrow> string option \<Rightarrow> string + client_out list" where
  "test_client sock_ok conn_ok r1 r2 r3 =
     (if \<not> sock_ok then Inl ''socket''
      else if \<not> conn_ok then Inl ''connect''
      else Inr (show_read r1 @ [Sends (''testuser'' @ [NL])] @ show_read r2 @ [Sends (''Hello everyone!'' @ [NL])] @
                show_read r3 @ [Sends (''/quit'' @ [NL])]))"

end
