(* ===== verification/Fib_Server.thy ===== *)
theory Fib_Server
  imports Scan
begin

text \<open>
  The threaded Fibonacci service, \<^verbatim>\<open>src/lab4/lab4.c\<close>: the computation, the split of the range
  over the threads, a worker's text, the answer to a client and the accept loop; and its client,
  \<^verbatim>\<open>src/lab4/client_test.c\<close>.  A \<^verbatim>\<open>long\<close> is a 64-bit word read as a signed number; its sum
  wraps as the compiled program's does (C leaves it undefined).  Appending to a full array is
  \<open>None\<close>.
\<close>

section \<open>The computation\<close>

definition DEFAULT_NUM_THREADS :: int where "DEFAULT_NUM_THREADS = 4"
definition MAX_MSG_LEN :: nat where "MAX_MSG_LEN = 1024"

fun fib_loop :: "nat \<Rightarrow> 64 word \<Rightarrow> 64 word \<Rightarrow> 64 word" where
  "fib_loop 0 a b = b"
| "fib_loop (Suc k) a b = fib_loop k b (a + b)"

definition fib :: "int \<Rightarrow> 64 word" where
  "fib n = (if n \<le> 2 then 1 else fib_loop (nat (n - 2)) 1 1)"

text \<open>\<^verbatim>\<open>strcat\<close> on an array of \<open>n\<close>.\<close>

definition strcat :: "nat \<Rightarrow> string \<Rightarrow> string \<Rightarrow> string option" where
  "strcat n buf s = (if length buf + length s < n then Some (buf @ s) else None)"

definition long_text :: "64 word \<Rightarrow> string" where
  "long_text w = take 31 (dec_int (sint w))"

record fib_data =
  tid :: int
  start_at :: int
  end_at :: int
  fsum :: "64 word"
  fresult :: string

function fib_range :: "int \<Rightarrow> int \<Rightarrow> bool \<Rightarrow> 64 word \<Rightarrow> string \<Rightarrow> (64 word \<times> string) option" where
  "fib_range i e first s res =
     (if e < i then Some (s, res)
      else case (if first then Some res else strcat 256 res [SP]) of
        None \<Rightarrow> None
      | Some r1 \<Rightarrow>
          (case strcat 256 r1 (long_text (fib i)) of
             None \<Rightarrow> None
           | Some r2 \<Rightarrow> fib_range (i + 1) e False (s + fib i) r2))"
  by pat_completeness auto
termination by (relation "measure (\<lambda>(i, e, f, s, r). nat (e + 1 - i))") auto

declare fib_range.simps [simp del]

definition fib_worker :: "fib_data \<Rightarrow> fib_data option" where
  "fib_worker d =
     map_option (\<lambda>(s, r). d\<lparr>fsum := s, fresult := r\<rparr>) (fib_range (start_at d) (end_at d) True 0 [])"

section \<open>The answer to a client\<close>

text \<open>The parts of the range, from thread \<open>i\<close> on; \<open>cs\<close> is where the next begins.\<close>

function split_range :: "int \<Rightarrow> int \<Rightarrow> int \<Rightarrow> int \<Rightarrow> int \<Rightarrow> fib_data list" where
  "split_range T per rem i cs =
     (if i < T then
        (let e = cs + (per + (if i < rem then 1 else 0)) - 1
         in \<lparr>tid = i + 1, start_at = cs, end_at = e, fsum = 0, fresult = []\<rparr> # split_range T per rem (i + 1) (e + 1))
      else [])"
  by pat_completeness auto
termination by (relation "measure (\<lambda>(T, per, rem, i, cs). nat (T - i))") auto

declare split_range.simps [simp del]

definition thread_ranges :: "int \<Rightarrow> int \<Rightarrow> fib_data list" where
  "thread_ranges N T = split_range T (N div T) (N mod T) 0 1"

text \<open>The dash between the bounds is U+2013, three bytes in the source.\<close>

definition dash :: string where
  "dash = [CHR 0xE2, CHR 0x80, CHR 0x93]"

definition range_text :: "fib_data \<Rightarrow> string" where
  "range_text d = ''['' @ dec_int (start_at d) @ dash @ dec_int (end_at d) @ '']''"

definition thread_line :: "fib_data \<Rightarrow> string" where
  "thread_line d = take 511 (''T'' @ dec_int (tid d) @ '': '' @ range_text d @ '' -> '' @ fresult d @ [NL])"

datatype fib_out = Log string | Write string | Close

definition client_tag :: "int \<Rightarrow> string" where
  "client_tag num = ''[Client '' @ dec_int num @ '']''"

definition thread_log :: "int \<Rightarrow> fib_data \<Rightarrow> fib_out" where
  "thread_log num d =
     Log (client_tag num @ ''[Thread '' @ dec_int (tid d) @ ''] Range '' @ range_text d @ '': sum='' @
       dec_int (sint (fsum d)) @ [NL])"

fun collect :: "int \<Rightarrow> fib_data list \<Rightarrow> string \<Rightarrow> 64 word \<Rightarrow> fib_out list \<Rightarrow> (string \<times> 64 word \<times> fib_out list) option" where
  "collect num [] resp tot out = Some (resp, tot, out)"
| "collect num (d # ds) resp tot out =
     (case fib_worker d of
        None \<Rightarrow> None
      | Some r \<Rightarrow>
          (case strcat 4096 resp (thread_line r) of
             None \<Rightarrow> None
           | Some resp' \<Rightarrow> collect num ds resp' (tot + fsum r) (out @ [thread_log num r])))"

definition summary_text :: "int \<Rightarrow> 64 word \<Rightarrow> string" where
  "summary_text N tot =
     take 255 (''Total computed = '' @ dec_int N @ '' Fibonacci numbers'' @ [NL] @ ''Sum = '' @ dec_int (sint tot) @ [NL])"

definition compute :: "int \<Rightarrow> int \<Rightarrow> int \<Rightarrow> fib_out list option" where
  "compute num T N =
     (case collect num (thread_ranges N T) [] 0 [] of
        None \<Rightarrow> None
      | Some (resp, tot, out) \<Rightarrow>
          (case strcat 4096 resp (summary_text N tot) of
             None \<Rightarrow> None
           | Some resp' \<Rightarrow>
               Some (out @ [Log (client_tag num @ '' Total sum = '' @ dec_int (sint tot) @ [NL]), Write resp'])))"

definition prompt_text :: "int \<Rightarrow> string" where
  "prompt_text port = take 255 (''Connected from '' @ dec_int port @ ''. Please enter an integer N:'' @ [NL])"

text \<open>\<open>inp\<close> is what \<^verbatim>\<open>read\<close> delivers; an empty one is an end of file or an error.\<close>

definition client_handler :: "int \<Rightarrow> int \<Rightarrow> int \<Rightarrow> string \<Rightarrow> fib_out list option" where
  "client_handler port num T inp =
     (let hello = [Log (''[INFO] New client from port '' @ dec_int port @ [NL]), Write (prompt_text port)];
          got = take (MAX_MSG_LEN - 1) inp; N = atoi (cstr_of got)
      in if got = [] then Some (hello @ [Log (client_tag num @ '' Failed to read N'' @ [NL]), Close])
         else if N \<le> 0 then Some (hello @ [Log (client_tag num @ '' Invalid N = '' @ dec_int N @ [NL]), Close])
         else map_option (\<lambda>out. hello @ [Log (client_tag num @ '' Received N = '' @ dec_int N @ [NL])] @ out @ [Close])
                (compute num T N))"

section \<open>The server\<close>

definition fib_usage :: "string \<Rightarrow> string" where
  "fib_usage prog = ''Usage: '' @ prog @ '' <port> [num_threads]'' @ [NL]"

definition fib_args :: "string \<Rightarrow> string list \<Rightarrow> string + (int \<times> int)" where
  "fib_args prog args =
     (case args of
        [p] \<Rightarrow> Inr (atoi p, DEFAULT_NUM_THREADS)
      | [p, t] \<Rightarrow> if atoi t \<le> 0 then Inl (''Invalid number of threads'' @ [NL]) else Inr (atoi p, atoi t)
      | _ \<Rightarrow> Inl (fib_usage prog))"

record listen_env =
  l_sock :: int
  l_opt :: int
  l_bind :: "u16 \<Rightarrow> int"
  l_listen :: int

definition fib_listen :: "listen_env \<Rightarrow> int \<Rightarrow> string + string" where
  "fib_listen env port =
     (if l_sock env < 0 then Inl ''socket error''
      else if l_opt env \<noteq> 0 then Inl ''setsockopt''
      else if l_bind env (word_of_int port) < 0 then Inl ''bind error''
      else if l_listen env < 0 then Inl ''listen error''
      else Inr (''[INFO] Server listening on port '' @ dec_int port @ [NL]))"

text \<open>The accept loop over the results of \<^verbatim>\<open>accept\<close>: the handler started for each connection,
  with its number; \<open>Inl\<close> is a message.\<close>

fun accept_loop :: "int \<Rightarrow> int \<Rightarrow> int list \<Rightarrow> (string + (int \<times> int \<times> int)) list" where
  "accept_loop counter T [] = []"
| "accept_loop counter T (f # fs) =
     (if f < 0 then Inl ''accept error'' # accept_loop counter T fs
      else Inr (f, counter + 1, T) # accept_loop (counter + 1) T fs)"

section \<open>The test client\<close>

definition MAX_RESPONSE :: nat where "MAX_RESPONSE = 8192"

definition fib_request :: "int \<Rightarrow> string" where
  "fib_request N = take 31 (dec_int N @ [NL])"

text \<open>What the client prints of the pieces it reads: each as a C string, up to an empty one.\<close>

fun show_reads :: "string list \<Rightarrow> string" where
  "show_reads [] = []"
| "show_reads (r # rs) = (if r = [] then [] else cstr_of (take (MAX_RESPONSE - 1) r) @ show_reads rs)"

text \<open>\<open>conn\<close>: what socket, \<^verbatim>\<open>inet_pton\<close> and connect return; \<open>greet\<close>: the first read; \<open>typed\<close>: the user's
  line; \<open>reads\<close>: the later reads.  The result is what is printed, \<open>Inl\<close> what it fails with.\<close>

definition fib_client :: "string list \<Rightarrow> int \<times> int \<times> int \<Rightarrow> string \<Rightarrow> string \<Rightarrow> string list \<Rightarrow> string + (string \<times> string)" where
  "fib_client args conn greet typed reads =
     (case (args, conn) of
        ([ip, p], sock, pton, con) \<Rightarrow>
          if sock < 0 then Inl ''socket error''
          else if pton \<le> 0 then Inl ''inet_pton error''
          else if con < 0 then Inl ''connect error''
          else (case scan_d typed of
            None \<Rightarrow> Inl (''Invalid input'' @ [NL])
          | Some (N, _) \<Rightarrow>
              Inr (''Connected to server '' @ ip @ '':'' @ dec_int (atoi p) @ [NL] @ cstr_of (take (MAX_RESPONSE - 1) greet) @
                  ''Enter N: '' @ [NL] @ ''Server response:'' @ [NL] @ ''================'' @ [NL] @ show_reads reads @
                  ''================'' @ [NL], fib_request N))
      | _ \<Rightarrow> Inl ''usage'')"

section \<open>Fibonacci numbers\<close>

fun fibs :: "nat \<Rightarrow> nat" where
  "fibs 0 = 0"
| "fibs (Suc 0) = 1"
| "fibs (Suc (Suc n)) = fibs (Suc n) + fibs n"

lemma fib_loop_fibs:
  "fib_loop k (of_nat (fibs (Suc m))) (of_nat (fibs (Suc (Suc m)))) = of_nat (fibs (k + Suc (Suc m)))"
proof (induction k arbitrary: m)
  case (Suc k)
  have "(of_nat (fibs (Suc m)) + of_nat (fibs (Suc (Suc m))) :: 64 word) = of_nat (fibs (Suc (Suc (Suc m))))"
    by simp
  with Suc [of "Suc m"] show ?case by (simp del: fibs.simps)
qed simp

lemma fib_fibs: "0 < n \<Longrightarrow> fib n = of_nat (fibs (nat n))"
proof -
  assume n: "0 < n"
  show ?thesis
  proof (cases "n \<le> 2")
    case True
    with n have "n = 1 \<or> n = 2" by auto
    then show ?thesis by (auto simp: fib_def numeral_2_eq_2)
  next
    case False
    then have "nat n = nat (n - 2) + Suc (Suc 0)" by auto
    with False fib_loop_fibs [of "nat (n - 2)" 0] show ?thesis by (simp add: fib_def)
  qed
qed

lemma fibs_step_mono: "fibs n \<le> fibs (Suc n)"
  by (induction n rule: fibs.induct) auto

lemma fibs_mono: "m \<le> n \<Longrightarrow> fibs m \<le> fibs n"
  by (rule lift_Suc_mono_le [of fibs]) (rule fibs_step_mono)

text \<open>The sum of the first \<open>n\<close> numbers.\<close>

lemma sum_fibs: "(\<Sum>i = 1..n. fibs i) + 1 = fibs (n + 2)"
  by (induction n) simp_all

end
