(* ===== verification/Fib_Props.thy ===== *)
theory Fib_Props
  imports Fib_Server
begin

text \<open>The properties of the Fibonacci service: the split of the range, the workers' texts and their
  limits, and the answer to a client.\<close>

section \<open>The range\<close>

lemma upto_join: "a \<le> b + 1 \<Longrightarrow> b \<le> c \<Longrightarrow> [a..b] @ [b + 1..c] = [a..c :: int]"
  using upto_split1 [of a "b + 1" c] by (cases "b = c") simp_all

definition range_start :: "int \<Rightarrow> int \<Rightarrow> int \<Rightarrow> int" where
  "range_start per rem i = 1 + i * per + min i rem"

lemma split_range_cover:
  assumes "0 \<le> i" "i \<le> T" "0 \<le> per" "0 \<le> rem" "rem \<le> T"
  shows "concat (map (\<lambda>d. [start_at d..end_at d]) (split_range T per rem i (range_start per rem i))) =
      [range_start per rem i..T * per + rem] \<and>
    length (split_range T per rem i (range_start per rem i)) = nat (T - i) \<and>
    (\<forall>d \<in> set (split_range T per rem i (range_start per rem i)). i < tid d \<and> tid d \<le> T \<and>
      1 \<le> start_at d \<and> start_at d \<le> end_at d + 1 \<and> end_at d \<le> T * per + rem \<and>
      end_at d + 1 - start_at d \<in> {per, per + 1})"
  using assms
proof (induction "nat (T - i)" arbitrary: i)
  case 0
  then show ?case by (simp add: split_range.simps range_start_def)
next
  case (Suc k)
  let ?e = "range_start per rem (i + 1) - 1"
  have e: "range_start per rem i + (per + (if i < rem then 1 else 0)) - 1 = ?e"
    by (auto simp: range_start_def algebra_simps)
  have rest: "split_range T per rem i (range_start per rem i) =
      \<lparr>tid = i + 1, start_at = range_start per rem i, end_at = ?e, fsum = 0, fresult = []\<rparr> #
      split_range T per rem (i + 1) (range_start per rem (i + 1))"
    using Suc.hyps(2) by (subst split_range.simps) (simp add: Let_def e)
  have "(i + 1) * per \<le> T * per" using Suc by (intro mult_right_mono) auto
  then have bounds: "1 \<le> range_start per rem i" "range_start per rem i \<le> ?e + 1" "?e \<le> T * per + rem"
    "?e + 1 - range_start per rem i \<in> {per, per + 1}"
    using Suc.prems by (auto simp: range_start_def algebra_simps)
  have ih: "concat (map (\<lambda>d. [start_at d..end_at d]) (split_range T per rem (i + 1) (range_start per rem (i + 1)))) =
      [?e + 1..T * per + rem] \<and>
    length (split_range T per rem (i + 1) (range_start per rem (i + 1))) = nat (T - (i + 1)) \<and>
    (\<forall>d \<in> set (split_range T per rem (i + 1) (range_start per rem (i + 1))). i + 1 < tid d \<and> tid d \<le> T \<and>
      1 \<le> start_at d \<and> start_at d \<le> end_at d + 1 \<and> end_at d \<le> T * per + rem \<and>
      end_at d + 1 - start_at d \<in> {per, per + 1})"
    using Suc.hyps(1) [of "i + 1"] Suc.hyps(2) Suc.prems by simp
  have i: "i < T" using Suc.hyps(2) by simp
  show ?case
    unfolding rest using ih upto_join [OF bounds(2,3)] bounds i Suc.hyps(2) by auto
qed

lemma thread_ranges_cover:
  assumes "0 \<le> N" "0 < T"
  shows "concat (map (\<lambda>d. [start_at d..end_at d]) (thread_ranges N T)) = [1..N] \<and>
    length (thread_ranges N T) = nat T \<and>
    (\<forall>d \<in> set (thread_ranges N T). 0 < tid d \<and> tid d \<le> T \<and> 1 \<le> start_at d \<and> start_at d \<le> end_at d + 1 \<and>
      end_at d \<le> N \<and> end_at d + 1 - start_at d \<in> {N div T, N div T + 1})"
proof -
  have s: "range_start (N div T) (N mod T) 0 = 1" using assms by (simp add: range_start_def)
  have n: "T * (N div T) + N mod T = N" by simp
  show ?thesis
    using split_range_cover [of 0 T "N div T" "N mod T"] assms
    unfolding thread_ranges_def s n by (simp add: pos_imp_zdiv_nonneg_iff less_imp_le)
qed

text \<open>C20. The threads' ranges, one after the other, are exactly 1 to N: nothing is computed twice or left
  out, and no two threads' loads differ by more than one.\<close>

theorem ranges_partition:
  assumes "0 < N" "0 < T"
  shows "concat (map (\<lambda>d. [start_at d..end_at d]) (thread_ranges N T)) = [1..N] \<and>
    length (thread_ranges N T) = nat T \<and>
    (\<forall>d \<in> set (thread_ranges N T). end_at d + 1 - start_at d \<in> {N div T, N div T + 1})"
  using thread_ranges_cover [of N T] assms by simp

theorem ranges_partition_witness:
  "concat (map (\<lambda>d. [start_at d..end_at d]) (thread_ranges 10 4)) = [1..10]"
  using ranges_partition [of 10 4] by simp

section \<open>Values\<close>

text \<open>The numbers by a loop, for evaluation.\<close>

fun fl :: "nat \<Rightarrow> nat \<Rightarrow> nat \<Rightarrow> nat" where
  "fl 0 a b = a"
| "fl (Suc k) a b = fl k b (a + b)"

lemma fl_numeral [simp]: "fl (numeral k) a b = fl (pred_numeral k) b (a + b)"
  by (simp add: numeral_eq_Suc)

lemma fl_fibs: "fl k (fibs m) (fibs (Suc m)) = fibs (m + k)"
proof (induction k arbitrary: m)
  case (Suc k)
  have "fibs m + fibs (Suc m) = fibs (Suc (Suc m))" by simp
  with Suc [of "Suc m"] show ?case by (simp del: fibs.simps)
qed simp

lemma fibs_fl: "fibs (k + 3) = fl k 2 3"
  using fl_fibs [of k 3] by (simp add: numeral_eq_Suc add.commute)

lemma fibs_92: "fibs 92 = 7540113804746346429"
  using fibs_fl [of 89] by (simp del: fibs.simps)

lemma sint_fib: "0 < n \<Longrightarrow> n \<le> 92 \<Longrightarrow> sint (fib n) = int (fibs (nat n))"
proof -
  assume n: "0 < n" "n \<le> 92"
  have "fibs (nat n) \<le> fibs 92" using n by (intro fibs_mono) simp
  then have "int (fibs (nat n)) < 2 ^ 63" by (simp add: fibs_92)
  then show ?thesis
    by (simp add: fib_fibs [OF n(1)] signed_of_nat take_bit_nat_eq_self signed_take_bit_int_eq_self)
qed

text \<open>\<^verbatim>\<open>fib\<close> computes the Fibonacci numbers up to the 92nd; the 93rd no longer fits a
  \<^verbatim>\<open>long\<close>, and what a client is told is negative.\<close>

theorem fib_correct_to_92:
  "(0 < n \<and> n \<le> 92 \<longrightarrow> sint (fib n) = int (fibs (nat n))) \<and> sint (fib 93) < 0"
proof -
  have "fibs 93 = 12200160415121876738" using fibs_fl [of 90] by (simp del: fibs.simps)
  then have "fib 93 = 12200160415121876738" by (simp add: fib_fibs)
  moreover have "sint (12200160415121876738 :: 64 word) < 0" by simp
  ultimately show ?thesis using sint_fib by simp
qed

theorem fib_correct_to_92_witness: "sint (fib 10) = 55"
  using fib_correct_to_92 [of 10] fibs_fl [of 7] by (simp del: fibs.simps)

section \<open>A worker's text\<close>

text \<open>Words with a blank between them.\<close>

definition spaced :: "string list \<Rightarrow> string" where
  "spaced ws = tl (concat (map (\<lambda>w. SP # w) ws))"

definition fib_words :: "int \<Rightarrow> int \<Rightarrow> string list" where
  "fib_words i e = map (\<lambda>k. long_text (fib k)) [i..e]"

lemma fib_words_Cons: "i \<le> e \<Longrightarrow> fib_words i e = long_text (fib i) # fib_words (i + 1) e"
  by (simp add: fib_words_def upto_rec1)

lemma fib_range_more:
  "length res < 256 \<Longrightarrow> fib_range i e False s res =
    (let r = res @ concat (map (\<lambda>w. SP # w) (fib_words i e))
     in if length r < 256 then Some (s + sum_list (map fib [i..e]), r) else None)"
proof (induction "nat (e + 1 - i)" arbitrary: i s res)
  case 0
  then show ?case by (simp add: fib_range.simps fib_words_def)
next
  case (Suc k)
  then have ie: "i \<le> e" by simp
  let ?r = "res @ SP # long_text (fib i)"
  show ?case
  proof (cases "length ?r < 256")
    case True
    have "fib_range i e False s res = fib_range (i + 1) e False (s + fib i) ?r"
      using True ie by (subst fib_range.simps) (simp add: strcat_def)
    with Suc.hyps(1) [of "i + 1" ?r] Suc.hyps(2) True ie show ?thesis
      by (simp add: fib_words_Cons upto_rec1 add.assoc)
  next
    case False
    with ie show ?thesis
      by (subst fib_range.simps) (auto simp: strcat_def fib_words_Cons Let_def)
  qed
qed

lemma fib_worker_text:
  "fib_worker d =
    (let r = spaced (fib_words (start_at d) (end_at d))
     in if length r < 256
        then Some (d\<lparr>fsum := sum_list (map fib [start_at d..end_at d]), fresult := r\<rparr>) else None)"
proof (cases "start_at d \<le> end_at d")
  case True
  let ?w = "long_text (fib (start_at d))"
  have w: "length ?w < 256" by (simp add: long_text_def)
  then have "fib_range (start_at d) (end_at d) True 0 [] = fib_range (start_at d + 1) (end_at d) False (0 + fib (start_at d)) ?w"
    using True by (subst fib_range.simps) (simp add: strcat_def)
  with fib_range_more [OF w] True show ?thesis
    by (simp add: fib_worker_def fib_words_Cons spaced_def upto_rec1 Let_def)
next
  case False
  then show ?thesis by (simp add: fib_worker_def fib_range.simps fib_words_def spaced_def)
qed

text \<open>A worker's text is its numbers in order with single blanks between them and its sum their sum;
  when the text does not fit its array of 256 the worker writes behind it.\<close>

theorem worker_text:
  "fib_worker d =
    (let r = spaced (fib_words (start_at d) (end_at d))
     in if length r < 256
        then Some (d\<lparr>fsum := sum_list (map fib [start_at d..end_at d]), fresult := r\<rparr>) else None)"
  by (rule fib_worker_text)

section \<open>Lengths\<close>

fun dlen :: "nat \<Rightarrow> nat" where
  "dlen n = (if n < 10 then 1 else Suc (dlen (n div 10)))"

declare dlen.simps [simp del]

lemma length_dec: "length (dec n) = dlen n"
proof (induction n rule: dec.induct)
  case (1 n)
  then show ?case by (cases "n < 10") (simp_all add: dec.simps [of n] dlen.simps [of n])
qed

lemma dlen_numeral [simp]: "dlen (numeral k) = (if numeral k < (10 :: nat) then 1 else Suc (dlen (numeral k div 10)))"
  by (subst dlen.simps) (rule refl)

lemma dlen_1 [simp]: "dlen (Suc 0) = 1"
  by (simp add: dlen.simps)

lemma dlen_le: "n < 10 ^ k \<Longrightarrow> 0 < k \<Longrightarrow> dlen n \<le> k"
proof (induction k arbitrary: n)
  case (Suc k)
  show ?case
  proof (cases "n < 10")
    case False
    then have "n div 10 < 10 ^ k" "0 < k" using Suc.prems by (auto intro!: Nat.gr0I)
    with Suc.IH False show ?thesis by (simp add: dlen.simps [of n])
  qed (simp add: dlen.simps [of n])
qed simp

text \<open>What a range takes in a worker's array, its last blank included.\<close>

definition wsum :: "int \<Rightarrow> int \<Rightarrow> nat" where
  "wsum i e = sum_list (map (\<lambda>k. Suc (length (long_text (fib k)))) [i..e])"

lemma wsum_set: "wsum i e = (\<Sum>k \<in> {i..e}. Suc (length (long_text (fib k))))"
  by (simp add: wsum_def interv_sum_list_conv_sum_set_int)

lemma wsum_mono: "a \<le> i \<Longrightarrow> e \<le> b \<Longrightarrow> wsum i e \<le> wsum a b"
  unfolding wsum_set by (rule sum_mono2) auto

lemma length_spaced: "length (spaced (fib_words i e)) = wsum i e - 1"
  by (simp add: spaced_def fib_words_def wsum_def length_concat comp_def)

lemma length_long_text: "0 < k \<Longrightarrow> k \<le> 92 \<Longrightarrow> length (long_text (fib k)) = min 31 (dlen (fibs (nat k)))"
  by (simp add: long_text_def sint_fib dec_int_def length_dec min.commute)

fun loop_len :: "nat \<Rightarrow> nat \<Rightarrow> nat \<Rightarrow> nat" where
  "loop_len 0 a b = 0"
| "loop_len (Suc k) a b = Suc (min 31 (dlen a)) + loop_len k b (a + b)"

lemma loop_len_numeral [simp]:
  "loop_len (numeral k) a b = Suc (min 31 (dlen a)) + loop_len (pred_numeral k) b (a + b)"
  by (simp add: numeral_eq_Suc)

lemma loop_len_wsum:
  "0 < m \<Longrightarrow> m + k \<le> 93 \<Longrightarrow> loop_len k (fibs m) (fibs (Suc m)) = wsum (int m) (int m + int k - 1)"
proof (induction k arbitrary: m)
  case (Suc k)
  have "fibs m + fibs (Suc m) = fibs (Suc (Suc m))" by simp
  with Suc.IH [of "Suc m"] Suc.prems have "loop_len (Suc k) (fibs m) (fibs (Suc m)) =
      Suc (min 31 (dlen (fibs m))) + wsum (int m + 1) (int m + int k)"
    by (simp del: fibs.simps add: add.commute)
  moreover have "wsum (int m) (int m + int k) = Suc (min 31 (dlen (fibs m))) + wsum (int m + 1) (int m + int k)"
    using Suc.prems by (simp add: wsum_def upto_rec1 length_long_text)
  ultimately show ?case by simp
qed (simp add: wsum_def)

lemma fib_1_2: "long_text (fib 1) = ''1''" "long_text (fib 2) = ''1''"
proof -
  have "dec 1 = ''1''" by (simp add: dec.simps digit_char_def) code_simp
  then show "long_text (fib 1) = ''1''" "long_text (fib 2) = ''1''"
    by (simp_all add: long_text_def fib_def dec_int_def)
qed

lemma wsum_split: "1 \<le> n \<Longrightarrow> wsum 1 (n + 2) = 4 + wsum 3 (n + 2)"
proof -
  assume "1 \<le> n"
  then have "[1..n + 2] = 1 # 2 # [3..n + 2]" using upto_rec1 [of 1 "n + 2"] upto_rec1 [of 2 "n + 2"] by simp
  then show ?thesis by (simp only: wsum_def list.map sum_list.Cons fib_1_2) simp
qed

lemma fibs_3_4: "fibs 3 = 2" "fibs (Suc 3) = 3"
  by (simp_all add: numeral_3_eq_3)

lemma wsum_43: "wsum 1 43 = 248"
proof -
  have "wsum 3 43 = loop_len 41 2 3" using loop_len_wsum [of 3 41] by (simp only: fibs_3_4) simp
  also have "\<dots> = 244" by (simp del: fibs.simps)
  finally show ?thesis using wsum_split [of 41] by simp
qed

lemma wsum_44: "wsum 1 44 = 258"
proof -
  have "[1..44 :: int] = [1..43] @ [44]" using upto_rec2 [of 1 44] by (simp del: upto_rec_numeral)
  then have "wsum 1 44 = wsum 1 43 + Suc (length (long_text (fib 44)))" by (simp only: wsum_def) simp
  moreover have "fibs 44 = 701408733" using fibs_fl [of 41] by (simp del: fibs.simps)
  ultimately show ?thesis by (simp add: wsum_43 length_long_text)
qed

section \<open>The answer\<close>

lemma result_array_limit_aux:
  assumes "0 < N" "N \<le> 43" "0 < T" "d \<in> set (thread_ranges N T)"
  shows "length (spaced (fib_words (start_at d) (end_at d))) < 256"
proof -
  have "1 \<le> start_at d" "end_at d \<le> 43" using thread_ranges_cover [of N T] assms by fastforce+
  then have "wsum (start_at d) (end_at d) \<le> 248" using wsum_mono [of 1 _ _ 43] wsum_43 by metis
  then show ?thesis by (simp add: length_spaced)
qed

text \<open>With up to 43 numbers no worker's array overflows, however they are split; a single thread
  that computes 44 or more writes behind its array.\<close>

theorem result_array_limit:
  "(0 < N \<and> N \<le> 43 \<and> 0 < T \<longrightarrow> (\<forall>d \<in> set (thread_ranges N T). fib_worker d \<noteq> None)) \<and>
   (44 \<le> N \<longrightarrow> compute num 1 N = None)"
proof (intro conjI impI ballI)
  fix d assume h: "0 < N \<and> N \<le> 43 \<and> 0 < T" "d \<in> set (thread_ranges N T)"
  then show "fib_worker d \<noteq> None" using result_array_limit_aux [of N T d] by (simp add: fib_worker_text)
next
  assume N: "44 \<le> N"
  have r: "thread_ranges N 1 = [\<lparr>tid = 1, start_at = 1, end_at = N, fsum = 0, fresult = []\<rparr>]"
    by (simp add: thread_ranges_def split_range.simps Let_def)
  have "258 \<le> wsum 1 N" using wsum_mono [of 1 1 44 N] N wsum_44 by simp
  then have "\<not> wsum 1 N - 1 < 256" by simp
  then show "compute num 1 N = None" by (simp add: compute_def r fib_worker_text length_spaced Let_def)
qed

theorem result_array_limit_witness:
  "list_all (\<lambda>d. fib_worker d \<noteq> None) (thread_ranges 43 4) \<and> compute 7 1 44 = None"
  using result_array_limit [of 43 4] result_array_limit [of 44 1 7] by (simp add: list_all_iff)

definition worked :: "fib_data \<Rightarrow> fib_data" where
  "worked d = d\<lparr>fsum := sum_list (map fib [start_at d..end_at d]),
     fresult := spaced (fib_words (start_at d) (end_at d))\<rparr>"

lemma collect_fits:
  assumes "\<forall>d \<in> set ds. fib_worker d = Some (worked d)"
    and "length resp + sum_list (map (\<lambda>d. length (thread_line (worked d))) ds) < 4096"
  shows "collect num ds resp tot out =
    Some (resp @ concat (map (\<lambda>d. thread_line (worked d)) ds), tot + sum_list (map (\<lambda>d. fsum (worked d)) ds),
      out @ map (\<lambda>d. thread_log num (worked d)) ds)"
  using assms
  by (induction ds arbitrary: resp tot out) (simp_all add: strcat_def)

lemma length_dec_int: "0 \<le> v \<Longrightarrow> v < 10 ^ k \<Longrightarrow> 0 < k \<Longrightarrow> length (dec_int v) \<le> k"
  using dlen_le [of "nat v" k] by (simp add: dec_int_def length_dec nat_less_iff)

lemma line_length:
  assumes "0 < tid d" "tid d \<le> 100" "1 \<le> start_at d" "start_at d \<le> end_at d + 1" "end_at d \<le> 43"
  shows "length (thread_line (worked d)) \<le> 20 + wsum (start_at d) (end_at d)"
proof -
  have "length (dec_int (tid d)) \<le> 3" "length (dec_int (start_at d)) \<le> 2" "length (dec_int (end_at d)) \<le> 2"
    using assms by (auto intro!: length_dec_int)
  then show ?thesis
    by (simp add: thread_line_def worked_def range_text_def dash_def length_spaced)
qed

lemma sum_list_map_concat:
  fixes f :: "'a \<Rightarrow> 'b :: monoid_add"
  shows "sum_list (map f (concat xss)) = sum_list (map (\<lambda>xs. sum_list (map f xs)) xss)"
  by (induction xss) simp_all

text \<open>Sums over all the threads are sums over the range.\<close>

lemma ranges_sum:
  fixes f :: "int \<Rightarrow> 'b :: monoid_add"
  assumes "0 < N" "0 < T"
  shows "sum_list (map (\<lambda>d. sum_list (map f [start_at d..end_at d])) (thread_ranges N T)) = sum_list (map f [1..N])"
  using sum_list_map_concat [of f "map (\<lambda>d. [start_at d..end_at d]) (thread_ranges N T)"] thread_ranges_cover [of N T] assms
  by (simp add: comp_def)

lemma sum_fib: "sum_list (map fib [1..int n]) + 1 = of_nat (fibs (n + 2))"
proof (induction n)
  case (Suc n)
  have "[1..int (Suc n)] = [1..int n] @ [int (Suc n)]" using upto_rec2 [of 1 "int (Suc n)"] by simp
  moreover have "fib (int (Suc n)) = of_nat (fibs (Suc n))" by (subst fib_fibs) (simp_all add: nat_add_distrib)
  ultimately have "sum_list (map fib [1..int (Suc n)]) + 1 = of_nat (fibs (n + 2)) + of_nat (fibs (Suc n))"
    using Suc by (simp add: algebra_simps del: fibs.simps)
  also have "\<dots> = of_nat (fibs (Suc n + 2))" by simp
  finally show ?case .
qed simp

lemma fibs_pos: "0 < n \<Longrightarrow> 0 < fibs n"
  using fibs_mono [of 1 n] by simp

lemma fibs_bound: "n \<le> 92 \<Longrightarrow> int (fibs n) < 2 ^ 63"
  using fibs_mono [of n 92] by (simp add: fibs_92)

lemma sint_small: "int m < 2 ^ 63 \<Longrightarrow> sint (of_nat m :: 64 word) = int m"
  by (simp add: signed_of_nat signed_take_bit_int_eq_self)

lemma dec_int_pred: "0 < m \<Longrightarrow> dec_int (int m - 1) = dec (m - 1)"
  by (cases m) (simp_all add: dec_int_def)

lemma sint_sum:
  assumes "0 < N" "N \<le> 90"
  shows "sint (sum_list (map fib [1..N])) = int (fibs (nat N + 2)) - 1"
proof -
  have N: "int (nat N) = N" using assms by simp
  have pos: "0 < fibs (nat N + 2)" by (rule fibs_pos) simp
  then have "of_nat (fibs (nat N + 2)) = (of_nat (fibs (nat N + 2) - 1) + 1 :: 64 word)"
    by (metis Suc_pred' add.commute of_nat_Suc)
  with sum_fib [of "nat N"] N have "sum_list (map fib [1..N]) = of_nat (fibs (nat N + 2) - 1)" by simp
  moreover have "int (fibs (nat N + 2)) < 2 ^ 63" using assms by (intro fibs_bound) simp
  ultimately show ?thesis using pos sint_small [of "fibs (nat N + 2) - 1"] by (simp add: of_nat_diff del: fibs.simps)
qed

text \<open>C21. For at most 43 numbers and 100 threads the client is told the right sum, the \<open>N + 2\<close>nd Fibonacci
  number less one, behind the threads' lines in order; the server logs the same sum.\<close>

theorem client_gets_right_sum:
  assumes "0 < N" "N \<le> 43" "0 < T" "T \<le> 100"
  defines "sm \<equiv> dec (fibs (nat N + 2) - 1)"
  shows "compute num T N =
    Some (map (\<lambda>d. thread_log num (worked d)) (thread_ranges N T) @
      [Log (client_tag num @ '' Total sum = '' @ sm @ [NL]),
       Write (concat (map (\<lambda>d. thread_line (worked d)) (thread_ranges N T)) @
         ''Total computed = '' @ dec (nat N) @ '' Fibonacci numbers'' @ [NL] @ ''Sum = '' @ sm @ [NL])])"
proof -
  let ?ds = "thread_ranges N T" and ?tot = "sum_list (map fib [1..N])"
  note cover = thread_ranges_cover [OF less_imp_le [OF assms(1)] assms(3)]
  have ok: "\<forall>d \<in> set ?ds. fib_worker d = Some (worked d)"
    using result_array_limit_aux [OF assms(1,2,3)] by (auto simp: fib_worker_text worked_def Let_def)
  have "sum_list (map (\<lambda>d. length (thread_line (worked d))) ?ds) \<le>
      sum_list (map (\<lambda>d. 20 + wsum (start_at d) (end_at d)) ?ds)"
    using cover assms by (intro sum_list_mono line_length) auto
  also have "\<dots> = 20 * nat T + wsum 1 N"
    using cover ranges_sum [OF assms(1,3), of "\<lambda>k. Suc (length (long_text (fib k)))"]
    by (simp add: sum_list_addf wsum_def sum_list_triv)
  also have "\<dots> \<le> 2248" using wsum_mono [of 1 1 N 43] wsum_43 assms by simp
  finally have fits: "sum_list (map (\<lambda>d. length (thread_line (worked d))) ?ds) \<le> 2248" .
  have tot: "sum_list (map (\<lambda>d. fsum (worked d)) ?ds) = ?tot"
    using ranges_sum [OF assms(1,3), of fib] by (simp add: worked_def)
  have pos: "0 < fibs (nat N + 2)" by (rule fibs_pos) simp
  then have told: "dec_int (sint ?tot) = sm"
    using sint_sum [of N] assms dec_int_pred [OF pos] by (simp del: fibs.simps)
  have "nat N + 2 \<le> 92" using assms by simp
  then have "int (fibs (nat N + 2)) < 2 ^ 63" by (rule fibs_bound)
  then have "fibs (nat N + 2) - 1 < 10 ^ 19" by (simp del: fibs.simps)
  then have "length sm \<le> 19" by (simp add: sm_def length_dec dlen_le del: power_numeral)
  moreover have "length (dec (nat N)) \<le> 2" using assms by (simp add: length_dec dlen_le)
  moreover have N: "dec_int N = dec (nat N)" using assms by (simp add: dec_int_def)
  ultimately have summary: "summary_text N ?tot =
      ''Total computed = '' @ dec (nat N) @ '' Fibonacci numbers'' @ [NL] @ ''Sum = '' @ sm @ [NL]"
    and len: "length (summary_text N ?tot) < 1000"
    by (simp_all add: summary_text_def told N)
  have "collect num ?ds [] 0 [] = Some (concat (map (\<lambda>d. thread_line (worked d)) ?ds), ?tot,
      map (\<lambda>d. thread_log num (worked d)) ?ds)"
    using collect_fits [OF ok, of "[]" num 0 "[]"] fits tot by simp
  moreover have "length (concat (map (\<lambda>d. thread_line (worked d)) ?ds)) \<le> 2248"
    using fits by (simp add: length_concat comp_def)
  ultimately show ?thesis
    using len by (simp add: compute_def strcat_def summary told)
qed

theorem client_gets_right_sum_witness:
  "\<exists>logs lines. compute 1 4 10 = Some (logs @ [Log (client_tag 1 @ '' Total sum = '' @ dec 143 @ [NL]),
     Write (lines @ ''Total computed = '' @ dec 10 @ '' Fibonacci numbers'' @ [NL] @ ''Sum = '' @ dec 143 @ [NL])])"
proof -
  have "fibs (nat 10 + 2) - 1 = 143" using fibs_fl [of 9] by (simp del: fibs.simps)
  with client_gets_right_sum [of 10 4 1] show ?thesis by auto
qed

end
