(* ===== verification/Board_Server.thy ===== *)
theory Board_Server
  imports Scan
begin

text \<open>
  The message board, \<^verbatim>\<open>src/lab3/server.c\<close>, one process with \<^verbatim>\<open>select\<close>, and its client
  \<^verbatim>\<open>src/lab3/client.c\<close>.  A round of the server is \<open>board_iter\<close>: what the kernel answers in it
  is the environment.  A slot without a client holds 0, which is also the descriptor of the standard
  input: the code asks \<^verbatim>\<open>FD_ISSET\<close> for it all the same, and so does the model.  The counter of
  posts is an \<^verbatim>\<open>int\<close> in the code; the model's number is that integer for the first 2147483647 posts,
  after which the code would overflow it.
\<close>

section \<open>State\<close>

definition MAX_SLOTS :: nat where "MAX_SLOTS = 5"
definition MSG_LEN :: nat where "MSG_LEN = 1024"
definition BOARD_SIZE :: nat where "BOARD_SIZE = 10"

record board =
  slots :: "int list"
  n_conn :: int
  posts :: "string list"
  post_count :: nat

datatype read_result = Eof | Failed | Got string

datatype board_out = Say string | Err string | Deliver int string | Shut int

record board_env =
  b_select :: int
  b_ready :: "int \<Rightarrow> bool"
  b_listen :: int
  b_typed :: read_result
  b_accept :: int
  b_read :: "nat \<Rightarrow> read_result"

definition board_start :: board where
  "board_start = \<lparr>slots = replicate MAX_SLOTS 0, n_conn = 0, posts = replicate BOARD_SIZE [], post_count = 0\<rparr>"

section \<open>A client's line\<close>

text \<open>The line up to the first end of line; \<^verbatim>\<open>read\<close> is given one byte less than the array has.\<close>

definition board_line :: "string \<Rightarrow> string" where
  "board_line d = takeWhile (\<lambda>c. c \<noteq> CR \<and> c \<noteq> NL) (cstr_of (take (MSG_LEN - 1) d))"

definition post_msg :: "string \<Rightarrow> string \<Rightarrow> string" where
  "post_msg pre l = drop (length pre) l"

definition line_out :: "string \<Rightarrow> string" where
  "line_out m = take MSG_LEN (m @ [NL])"

definition add_post :: "string \<Rightarrow> board \<Rightarrow> board" where
  "add_post m s =
     s\<lparr>posts := (posts s)[post_count s mod BOARD_SIZE := take (MSG_LEN - 1) m], post_count := post_count s + 1\<rparr>"

definition to_others :: "int \<Rightarrow> string \<Rightarrow> board \<Rightarrow> board_out list" where
  "to_others f m s = map (\<lambda>g. Deliver g (line_out m)) (filter (\<lambda>g. 0 < g \<and> g \<noteq> f) (slots s))"

definition get_board :: "int \<Rightarrow> board \<Rightarrow> board_out list" where
  "get_board f s = map (\<lambda>m. Deliver f (line_out m)) (filter (\<lambda>m. m \<noteq> []) (posts s))"

definition handle_line :: "int \<Rightarrow> string \<Rightarrow> board \<Rightarrow> board \<times> board_out list" where
  "handle_line f l s =
     (if starts_with ''POST '' l then
        (let m = post_msg ''POST '' l; s' = add_post m s in (s', to_others f m s'))
      else if l = ''GET'' then (s, get_board f s)
      else (s, []))"

definition drop_slot :: "nat \<Rightarrow> board \<Rightarrow> board" where
  "drop_slot i s = s\<lparr>slots := (slots s)[i := 0], n_conn := n_conn s - 1\<rparr>"

definition handle_slot :: "board_env \<Rightarrow> nat \<Rightarrow> board \<Rightarrow> board \<times> board_out list" where
  "handle_slot env i s =
     (let f = slots s ! i in
      if b_ready env f then
        (case b_read env i of
           Eof \<Rightarrow> (drop_slot i s, [Say (''Client disconnected.'' @ [NL]), Shut f])
         | Failed \<Rightarrow> (drop_slot i s, [Err ''read error'', Shut f])
         | Got d \<Rightarrow> handle_line f (board_line d) s)
      else (s, []))"

fun handle_slots :: "board_env \<Rightarrow> nat list \<Rightarrow> board \<Rightarrow> board \<times> board_out list" where
  "handle_slots env [] s = (s, [])"
| "handle_slots env (i # is) s =
     (case handle_slot env i s of
        (s1, o1) \<Rightarrow> (case handle_slots env is s1 of (s2, o2) \<Rightarrow> (s2, o1 @ o2)))"

section \<open>A round\<close>

text \<open>The first empty slot, if there is one.\<close>

fun free_slot :: "int list \<Rightarrow> nat option" where
  "free_slot [] = None"
| "free_slot (f # fs) = (if f = 0 then Some 0 else map_option Suc (free_slot fs))"

definition accept_client :: "int \<Rightarrow> board \<Rightarrow> board \<times> board_out list" where
  "accept_client f s =
     (if int MAX_SLOTS \<le> n_conn s then (s, [Say (''Too many clients, rejecting connection.'' @ [NL]), Shut f])
      else (case free_slot (slots s) of
          None \<Rightarrow> s
        | Some i \<Rightarrow> s\<lparr>slots := (slots s)[i := f], n_conn := n_conn s + 1\<rparr>,
        [Say (''New client connected.'' @ [NL])]))"

text \<open>\<open>Leave\<close>: the process exits, with the outputs and whether it is a success.\<close>

datatype round = Leave "board_out list" bool | Go board "board_out list"

definition board_iter :: "board_env \<Rightarrow> board \<Rightarrow> round" where
  "board_iter env s =
     (let o0 = (if b_select env < 0 then [Err ''select error''] else []) in
      if b_ready env 0 \<and> b_typed env = Eof
      then Leave (o0 @ [Say (''Shutting down server due to EOF.'' @ [NL])] @
             map Shut (filter (\<lambda>f. 0 < f) (slots s)) @ [Shut (b_listen env)]) True
      else if b_ready env (b_listen env) \<and> b_accept env < 0 then Leave (o0 @ [Err ''accept'']) False
      else
        (case (if b_ready env (b_listen env) then accept_client (b_accept env) s else (s, [])) of
           (s1, o1) \<Rightarrow>
             (case handle_slots env [0..<MAX_SLOTS] s1 of (s2, o2) \<Rightarrow> Go s2 (o0 @ o1 @ o2))))"

text \<open>Before the loop.\<close>

definition board_port :: "string \<Rightarrow> string list \<Rightarrow> string + int" where
  "board_port prog args =
     (case args of [p] \<Rightarrow> Inr (9877 + atoi p)
      | _ \<Rightarrow> Inl (''Usage: '' @ prog @ '' <port_offset>'' @ [NL]))"

definition board_listen :: "int \<Rightarrow> int \<Rightarrow> (u16 \<Rightarrow> int) \<Rightarrow> int \<Rightarrow> int \<Rightarrow> string + string" where
  "board_listen fd opt bnd lst port =
     (if fd < 0 then Inl ''socket error''
      else if opt \<noteq> 0 then Inl ''setsockopt''
      else if bnd (word_of_int port) < 0 then Inl ''bind error''
      else if lst < 0 then Inl ''listen error''
      else Inr (''TCP server listening on port '' @ dec_int port @ [NL]))"

section \<open>The client\<close>

definition LINE_SIZE :: nat where "LINE_SIZE = 1024"

text \<open>What a round of the client prints, what it sends (\<open>None\<close>: it shuts its side down) and whether it
  goes on.  \<open>typed\<close> is what the standard input still holds.\<close>

definition handle_server_message :: "read_result \<Rightarrow> string \<times> bool" where
  "handle_server_message r =
     (case r of
        Got d \<Rightarrow> if d = [] then (''Server closed connection'' @ [NL], False)
                 else (cstr_of (take (LINE_SIZE - 1) d), True)
      | _ \<Rightarrow> (''Server closed connection'' @ [NL], False))"

definition handle_user_input :: "string \<Rightarrow> string option \<times> string" where
  "handle_user_input typed =
     (if typed = [] then (None, [])
      else (let l = fgets_one LINE_SIZE typed in (Some (cstr_of l), drop (length l) typed)))"

definition board_client_round ::
  "bool \<Rightarrow> bool \<Rightarrow> read_result \<Rightarrow> string \<Rightarrow> string \<times> bool \<times> string option list \<times> string" where
  "board_client_round sock_ready stdin_ready r typed =
     (case (if sock_ready then handle_server_message r else ([], True)) of
        (shown, go) \<Rightarrow>
          if go \<and> stdin_ready
          then (case handle_user_input typed of (sent, rest) \<Rightarrow> (shown, go, [sent], rest))
          else (shown, go, [], typed))"

definition board_client_setup :: "string list \<Rightarrow> int \<Rightarrow> int \<Rightarrow> (u16 \<Rightarrow> int) \<Rightarrow> string + string" where
  "board_client_setup args fd pton con =
     (case args of
        [p] \<Rightarrow>
          if fd < 0 then Inl ''socket error''
          else if pton \<le> 0 then Inl ''inet_pton error''
          else if con (word_of_int (atoi p)) < 0 then Inl ''connect error''
          else Inr (''Connected to server on port '' @ dec_int (atoi p) @ [NL])
      | _ \<Rightarrow> Inl ''usage'')"

section \<open>Lemmas\<close>

lemma handle_line_slots: "handle_line f l s = (s', out) \<Longrightarrow> slots s' = slots s \<and> n_conn s' = n_conn s"
  by (auto simp: handle_line_def add_post_def Let_def split: if_splits)

lemma free_slot_Some: "free_slot fs = Some i \<Longrightarrow> i < length fs \<and> fs ! i = 0"
  by (induction fs arbitrary: i) (auto split: if_splits)

lemma free_slot_None: "free_slot fs = None \<Longrightarrow> 0 \<notin> set fs"
  by (induction fs) (auto split: if_splits)

lemma handle_slot_drop:
  assumes "handle_slot env i s = (s', out)"
  shows "(slots s' = slots s \<and> n_conn s' = n_conn s) \<or> (b_ready env (slots s ! i) \<and> slots s' = (slots s)[i := 0] \<and>
    n_conn s' = n_conn s - 1 \<and> posts s' = posts s \<and> post_count s' = post_count s)"
  using assms handle_line_slots [of "slots s ! i" _ s s' out]
  by (auto simp: handle_slot_def Let_def drop_slot_def split: if_splits read_result.splits)

end
