(* ===== verification/Board_Props.thy ===== *)
theory Board_Props
  imports Board_Server
begin

text \<open>The properties of the message board: its ring of posts, its count of clients, and what a line on
  the server's standard input does to them.\<close>

section \<open>The ring of posts\<close>

text \<open>The messages a round of reads posts, in the order of the slots.\<close>

definition posted :: "board_env \<Rightarrow> int list \<Rightarrow> nat \<Rightarrow> string option" where
  "posted env fs i =
     (if b_ready env (fs ! i) then
        (case b_read env i of
           Got d \<Rightarrow> if starts_with ''POST '' (board_line d) then Some (post_msg ''POST '' (board_line d)) else None
         | _ \<Rightarrow> None)
      else None)"

definition after_accept :: "board_env \<Rightarrow> board \<Rightarrow> board" where
  "after_accept env s = (if b_ready env (b_listen env) then fst (accept_client (b_accept env) s) else s)"

definition round_posts :: "board_env \<Rightarrow> board \<Rightarrow> string list" where
  "round_posts env s = List.map_filter (posted env (slots (after_accept env s))) [0..<MAX_SLOTS]"

text \<open>\<open>board_reachable s ms\<close>: rounds from the start lead to \<open>s\<close>, and \<open>ms\<close> was posted in them.\<close>

inductive board_reachable :: "board \<Rightarrow> string list \<Rightarrow> bool" where
  start: "board_reachable board_start []"
| round: "board_reachable s ms \<Longrightarrow> board_iter env s = Go s' out \<Longrightarrow>
    board_reachable s' (ms @ round_posts env s)"

definition ring_of :: "string list \<Rightarrow> board \<Rightarrow> bool" where
  "ring_of ms s \<longleftrightarrow>
     length (posts s) = BOARD_SIZE \<and> post_count s = length ms \<and>
     (\<forall>k < length ms. length ms \<le> k + BOARD_SIZE \<longrightarrow> posts s ! (k mod BOARD_SIZE) = ms ! k) \<and>
     (\<forall>j < BOARD_SIZE. length ms \<le> j \<longrightarrow> posts s ! j = [])"

lemma mod_apart:
  fixes k n b :: nat
  assumes "k < n" "n < k + b"
  shows "k mod b \<noteq> n mod b"
proof
  assume "k mod b = n mod b"
  then have "b dvd n - k" by (metis mod_eq_dvd_iff_nat assms(1) less_imp_le)
  with assms show False by (auto dest!: dvd_imp_le)
qed

lemma ring_add:
  assumes "ring_of ms s" "length m < MSG_LEN"
  shows "ring_of (ms @ [m]) (add_post m s)"
proof -
  let ?n = "length ms"
  have n: "length (posts s) = BOARD_SIZE" "post_count s = ?n" using assms by (simp_all add: ring_of_def)
  have m: "take (MSG_LEN - 1) m = m" using assms(2) by simp
  have slot: "?n mod BOARD_SIZE < BOARD_SIZE" by (simp add: BOARD_SIZE_def)
  have "posts (add_post m s) ! (k mod BOARD_SIZE) = (ms @ [m]) ! k" if "k < Suc ?n" "Suc ?n \<le> k + BOARD_SIZE" for k
  proof (cases "k = ?n")
    case True
    then show ?thesis using n slot m by (simp add: add_post_def)
  next
    case False
    then have "k mod BOARD_SIZE \<noteq> ?n mod BOARD_SIZE" using that by (intro mod_apart) auto
    with False that assms(1) n show ?thesis by (auto simp: add_post_def ring_of_def nth_append)
  qed
  moreover have "posts (add_post m s) ! j = []" if "j < BOARD_SIZE" "Suc ?n \<le> j" for j
    using that assms(1) n by (auto simp: add_post_def ring_of_def)
  ultimately show ?thesis using n by (auto simp: ring_of_def add_post_def)
qed

lemma board_line_short: "length (board_line d) < MSG_LEN"
  using length_takeWhile_le [of "\<lambda>c. c \<noteq> CR \<and> c \<noteq> NL" "cstr_of (take (MSG_LEN - 1) d)"]
    length_cstr_of [of "take (MSG_LEN - 1) d"]
  by (simp add: board_line_def MSG_LEN_def)

lemma ring_slot:
  assumes "ring_of ms s" "handle_slot env i s = (s', out)"
  shows "ring_of (ms @ (case posted env (slots s) i of None \<Rightarrow> [] | Some m \<Rightarrow> [m])) s' \<and>
    (\<forall>j. j \<noteq> i \<longrightarrow> slots s' ! j = slots s ! j)"
proof -
  have same: "ring_of ms t" if "posts t = posts s" "post_count t = post_count s" for t
    using assms(1) that by (simp add: ring_of_def)
  have "length (post_msg p (board_line d)) < MSG_LEN" for p d
    using board_line_short [of d] by (simp add: post_msg_def)
  then have "ring_of (ms @ [post_msg p (board_line d)]) (add_post (post_msg p (board_line d)) s)" for p d
    by (rule ring_add [OF assms(1)])
  with assms(1,2) same show ?thesis
    by (auto simp: handle_slot_def posted_def handle_line_def Let_def drop_slot_def add_post_def
        split: if_splits read_result.splits)
qed

lemma map_filter_same: "(\<And>x. x \<in> set xs \<Longrightarrow> f x = g x) \<Longrightarrow> List.map_filter f xs = List.map_filter g xs"
  by (induction xs) (simp_all add: List.map_filter_simps split: option.split)

lemma ring_slots:
  assumes "ring_of ms s" "handle_slots env is s = (s', out)" "distinct is"
  shows "ring_of (ms @ List.map_filter (posted env (slots s)) is) s'"
  using assms
proof (induction "is" arbitrary: ms s out)
  case Nil
  then show ?case by (simp add: List.map_filter_simps)
next
  case (Cons i "is")
  obtain s1 o1 where 1: "handle_slot env i s = (s1, o1)" by fastforce
  obtain o2 where 2: "handle_slots env is s1 = (s', o2)"
    using Cons.prems(2) 1 by (auto split: prod.splits)
  note ring_slot [OF Cons.prems(1) 1]
  moreover have "posted env (slots s1) j = posted env (slots s) j" if "j \<in> set is" for j
    using calculation that Cons.prems(3) by (auto simp: posted_def)
  then have "List.map_filter (posted env (slots s1)) is = List.map_filter (posted env (slots s)) is"
    by (rule map_filter_same)
  ultimately show ?case
    using Cons.IH [OF _ 2] Cons.prems(3) append_assoc [of ms "[_]"]
    by (fastforce simp: List.map_filter_simps split: option.splits)
qed

lemma ring_iter:
  assumes "ring_of ms s" "board_iter env s = Go s' out"
  shows "ring_of (ms @ round_posts env s) s'"
proof -
  have "ring_of ms (after_accept env s)"
    using assms(1) by (auto simp: after_accept_def accept_client_def ring_of_def split: option.splits)
  moreover obtain o2 where "handle_slots env [0..<MAX_SLOTS] (after_accept env s) = (s', o2)"
    using assms(2) by (cases "b_ready env (b_listen env)")
      (auto simp: board_iter_def Let_def after_accept_def split: if_splits prod.splits)
  ultimately show ?thesis by (simp add: round_posts_def ring_slots)
qed

text \<open>C22. The board is a ring of the last ten posts: after any rounds, whoever comes and goes, the \<open>k\<close>th
  message ever posted stands in place \<open>k mod 10\<close> until ten more have been posted, and places never
  written are empty.\<close>

theorem board_keeps_last_posts:
  assumes "board_reachable s ms"
  shows "post_count s = length ms \<and>
    (\<forall>k < length ms. length ms \<le> k + 10 \<longrightarrow> posts s ! (k mod 10) = ms ! k) \<and>
    (\<forall>j < 10. length ms \<le> j \<longrightarrow> posts s ! j = [])"
proof -
  have "ring_of ms s"
    using assms
  proof (induction rule: board_reachable.induct)
    case start
    then show ?case by (simp add: ring_of_def board_start_def BOARD_SIZE_def)
  next
    case (round s ms env s' out)
    from ring_iter [OF round.IH round.hyps(2)] show ?case .
  qed
  then show ?thesis by (simp add: ring_of_def BOARD_SIZE_def)
qed

section \<open>The count of clients\<close>

definition taken_slots :: "board \<Rightarrow> nat" where
  "taken_slots s = length (filter (\<lambda>f. f \<noteq> 0) (slots s))"

definition slots_ok :: "board \<Rightarrow> bool" where
  "slots_ok s \<longleftrightarrow> length (slots s) = MAX_SLOTS \<and> (\<forall>f \<in> set (slots s). 0 \<le> f) \<and> n_conn s = int (taken_slots s)"

text \<open>Rounds in which the standard input stays silent and \<^verbatim>\<open>accept\<close> gives another descriptor than it.\<close>

inductive quiet_reachable :: "board \<Rightarrow> bool" where
  start: "quiet_reachable board_start"
| round: "quiet_reachable s \<Longrightarrow> board_iter env s = Go s' out \<Longrightarrow> \<not> b_ready env 0 \<Longrightarrow> b_accept env \<noteq> 0 \<Longrightarrow>
    quiet_reachable s'"

lemma filter_update:
  "i < length fs \<Longrightarrow>
   int (length (filter (\<lambda>f. f \<noteq> 0) (fs[i := g]))) =
     int (length (filter (\<lambda>f. f \<noteq> 0) fs)) - (if fs ! i \<noteq> 0 then 1 else 0) + (if g \<noteq> (0 :: int) then 1 else 0)"
  using arg_cong [OF id_take_nth_drop [of i fs], of "\<lambda>l. length (filter (\<lambda>f. f \<noteq> 0) l)"]
  by (simp add: upd_conv_take_nth_drop)

lemma slots_ok_drop:
  assumes "slots_ok s" "i < MAX_SLOTS" "slots s ! i \<noteq> 0"
  shows "slots_ok (s\<lparr>slots := (slots s)[i := 0], n_conn := n_conn s - 1\<rparr>)"
  using assms filter_update [of i "slots s" 0]
  by (auto simp: slots_ok_def taken_slots_def dest!: set_update_subset_insert [THEN subsetD])

lemma slots_ok_slot:
  assumes "slots_ok s" "handle_slot env i s = (s', out)" "i < MAX_SLOTS" "\<not> b_ready env 0"
  shows "slots_ok s'"
  using handle_slot_drop [OF assms(2)]
proof
  assume "slots s' = slots s \<and> n_conn s' = n_conn s"
  with assms(1) show ?thesis by (simp add: slots_ok_def taken_slots_def)
next
  assume "b_ready env (slots s ! i) \<and> slots s' = (slots s)[i := 0] \<and> n_conn s' = n_conn s - 1 \<and>
    posts s' = posts s \<and> post_count s' = post_count s"
  moreover from this assms(4) have "slots s ! i \<noteq> 0" by auto
  from slots_ok_drop [OF assms(1,3) this] have "slots_ok (s\<lparr>slots := (slots s)[i := 0], n_conn := n_conn s - 1\<rparr>)" .
  ultimately show ?thesis by (simp add: slots_ok_def taken_slots_def)
qed

lemma slots_ok_slots:
  "slots_ok s \<Longrightarrow> handle_slots env is s = (s', out) \<Longrightarrow> \<forall>i \<in> set is. i < MAX_SLOTS \<Longrightarrow> \<not> b_ready env 0 \<Longrightarrow>
   slots_ok s'"
proof (induction "is" arbitrary: s out)
  case (Cons i "is")
  then show ?case by (auto split: prod.splits intro: slots_ok_slot)
qed simp

lemma slots_ok_accept:
  assumes "slots_ok s" "0 < f"
  shows "slots_ok (fst (accept_client f s))"
proof (cases "free_slot (slots s)")
  case (Some i)
  with assms free_slot_Some [OF Some] filter_update [of i "slots s" f] show ?thesis
    by (auto simp: accept_client_def slots_ok_def taken_slots_def dest!: set_update_subset_insert [THEN subsetD])
qed (use assms in \<open>auto simp: accept_client_def\<close>)

text \<open>As long as nothing is typed at the server, the count of clients is the number of taken slots and
  never exceeds five.\<close>

theorem client_count_when_quiet:
  assumes "quiet_reachable s"
  shows "n_conn s = int (taken_slots s) \<and> n_conn s \<le> 5"
proof -
  have "slots_ok s"
    using assms
  proof (induction rule: quiet_reachable.induct)
    case start
    then show ?case by (simp add: slots_ok_def taken_slots_def board_start_def)
  next
    case (round s env s' out)
    let ?s1 = "if b_ready env (b_listen env) then fst (accept_client (b_accept env) s) else s"
    obtain o2 where run: "handle_slots env [0..<MAX_SLOTS] ?s1 = (s', o2)"
      "b_ready env (b_listen env) \<longrightarrow> 0 \<le> b_accept env"
      using round.hyps(2) by (cases "b_ready env (b_listen env)")
        (auto simp: board_iter_def Let_def split: if_splits prod.splits)
    have "slots_ok ?s1" using slots_ok_accept [OF round.IH, of "b_accept env"] round.IH run(2) round.hyps(4) by auto
    with slots_ok_slots [OF this run(1)] round.hyps(3) show ?case by auto
  qed
  then show ?thesis
    using length_filter_le [of "\<lambda>f. f \<noteq> 0" "slots s"] by (simp add: slots_ok_def taken_slots_def MAX_SLOTS_def)
qed

section \<open>Witnesses\<close>

text \<open>A client connects as 5, then posts a line, with nothing typed at the server.\<close>

definition w_env :: "(int \<Rightarrow> bool) \<Rightarrow> read_result \<Rightarrow> board_env" where
  "w_env rd r = \<lparr>b_select = 1, b_ready = rd, b_listen = 3, b_typed = Got [], b_accept = 5, b_read = (\<lambda>_. r)\<rparr>"

definition w_joined :: board where
  "w_joined = board_start\<lparr>slots := [5, 0, 0, 0, 0], n_conn := 1\<rparr>"

lemma slots_range: "[0..<MAX_SLOTS] = [0, 1, 2, 3, 4]"
  by (simp add: MAX_SLOTS_def upt_rec)

lemma w_join: "board_iter (w_env (\<lambda>f. f = 3) Eof) board_start = Go w_joined [Say (''New client connected.'' @ [NL])]"
  by (simp add: board_iter_def w_env_def accept_client_def board_start_def MAX_SLOTS_def w_joined_def
      numeral_eq_Suc handle_slot_def)

lemma w_line: "board_line (''POST hi'' @ [NL]) = ''POST hi''" "starts_with ''POST '' ''POST hi''"
  "post_msg ''POST '' ''POST hi'' = ''hi''"
  by (simp_all add: board_line_def MSG_LEN_def starts_with_def post_msg_def cstr_of_def)

lemma w_post: "\<exists>s' out. board_iter (w_env (\<lambda>f. f = 5) (Got (''POST hi'' @ [NL]))) w_joined = Go s' out"
  by (auto simp: board_iter_def w_env_def split: prod.split)

theorem board_keeps_last_posts_witness: "\<exists>s. board_reachable s [''hi''] \<and> posts s ! 0 = ''hi''"
proof -
  let ?e1 = "w_env (\<lambda>f. f = 3) Eof" and ?e2 = "w_env (\<lambda>f. f = 5) (Got (''POST hi'' @ [NL]))"
  have p1: "round_posts ?e1 board_start = []"
    by (simp add: round_posts_def after_accept_def accept_client_def w_env_def board_start_def posted_def
        slots_range MAX_SLOTS_def List.map_filter_simps numeral_eq_Suc)
  have p2: "round_posts ?e2 w_joined = [''hi'']"
    using w_line by (simp add: round_posts_def after_accept_def w_env_def w_joined_def posted_def
        slots_range List.map_filter_simps numeral_eq_Suc)
  obtain s out where s: "board_iter ?e2 w_joined = Go s out" using w_post by blast
  have "board_reachable w_joined []"
    using board_reachable.round [OF board_reachable.start w_join] by (simp add: p1)
  from board_reachable.round [OF this s] have r: "board_reachable s [''hi'']" by (simp only: p2 append_Nil)
  with board_keeps_last_posts [OF r] show ?thesis by auto
qed

theorem client_count_when_quiet_witness: "n_conn w_joined = 1 \<and> taken_slots w_joined = 1"
proof -
  have "quiet_reachable w_joined"
    by (rule quiet_reachable.round [OF quiet_reachable.start w_join]) (simp_all add: w_env_def)
  from client_count_when_quiet [OF this] show ?thesis by (simp add: w_joined_def)
qed

text \<open>A line typed at the server and an end of file after it make the count of clients negative: every
  slot without a client reads the standard input in its place.\<close>

theorem typed_line_breaks_count:
  "\<exists>s out. board_iter (w_env (\<lambda>f. f = 0) Eof) board_start = Go s out \<and> n_conn s = - 5 \<and> taken_slots s = 0 \<and>
     Shut 0 \<in> set out"
  by (simp add: board_iter_def w_env_def slots_range handle_slot_def drop_slot_def board_start_def taken_slots_def
      MAX_SLOTS_def numeral_eq_Suc)

end
