(* ===== verification/Router_V1.thy ===== *)
theory Router_V1
  imports Router_Loop
begin

text \<open>
  The earlier version of the router, \<^verbatim>\<open>src/hw3/starter/starter/router.c\<close>, from its sockets on
  (the file begins with the helpers \<open>Router_Table\<close> and \<open>Router_Conf\<close> model).  It binds to and sends
  to the routers' own addresses, adds costs in sixteen bits, checks neighbours by address, parses
  messages in a receive buffer of 4096 bytes whose length it checks, and prints what it does.
\<close>

section \<open>Sockets\<close>

definition udp_bind_v1 :: "int \<Rightarrow> int \<Rightarrow> string \<Rightarrow> u16 \<Rightarrow> string + int" where
  "udp_bind_v1 s b err p =
     (if s < 0 then Inl (''socket: '' @ err)
      else if b < 0 then Inl (''bind '' @ dec (unat p) @ '': '' @ err)
      else Inr s)"

text \<open>A line on stdout, or a datagram on a socket to an address and port.\<close>

datatype v1_out = Out string | Dgram chan u32 u16 "byte list"

definition out_of :: "action \<Rightarrow> v1_out list" where
  "out_of a = (case a of Print s \<Rightarrow> [Out s] | SendTo _ _ _ \<Rightarrow> [])"

definition log_table_v1 :: "router_t \<Rightarrow> string \<Rightarrow> v1_out list" where
  "log_table_v1 r why = concat (map out_of (log_table r why))"

section \<open>Distance vectors\<close>

definition advertise_v1 :: "neighbor_t \<Rightarrow> route_entry_t \<Rightarrow> dv_entry" where
  "advertise_v1 nb route =
     \<lparr>net = dest_net route, emask = rt_mask route,
      ecost = htons (if next_hop route = nb_ip nb then of_nat INF_COST else rt_cost route)\<rparr>"

definition send_dv_msg_v1 :: "router_t \<Rightarrow> neighbor_t \<Rightarrow> dv_msg_t" where
  "send_dv_msg_v1 r nb =
     \<lparr>dv_type = MSG_DV, sender_id = htons (self_id r), num = htons (of_nat (length (routes r))),
      ents = map (advertise_v1 nb) (routes r)\<rparr>"

text \<open>\<open>snt\<close> is what \<^verbatim>\<open>sendto\<close> returns for the datagram.\<close>

definition send_dv_v1 :: "(byte list \<Rightarrow> int) \<Rightarrow> router_t \<Rightarrow> neighbor_t \<Rightarrow> v1_out list" where
  "send_dv_v1 snt r nb =
     (let n = length (routes r);
          bytes = take (1 + 2 + 2 + n * 10) (dv_bytes (send_dv_msg_v1 r nb))
      in [Dgram Ctrl (nb_ip nb) (nb_ctrl_port nb) bytes,
          Out (tag r @ ''DEBUG: send_dv to '' @ ipstr (nb_ip nb) @ '':'' @ dec (unat (nb_ctrl_port nb)) @
               '', entries='' @ dec n @ '', sent='' @ dec_int (snt bytes) @ '' bytes'' @ [NL])])"

definition broadcast_dv_v1 :: "(byte list \<Rightarrow> int) \<Rightarrow> router_t \<Rightarrow> v1_out list" where
  "broadcast_dv_v1 snt r = concat (map (\<lambda>nb. if alive nb then send_dv_v1 snt r nb else []) (neighbors r))"

text \<open>The sum of two sixteen-bit costs, kept in sixteen bits.\<close>

definition dv_cost_v1 :: "neighbor_t \<Rightarrow> u16 \<Rightarrow> u16" where
  "dv_cost_v1 nb advertised_cost =
     (let new_cost = nb_cost nb + advertised_cost
      in if INF_COST \<le> unat new_cost then of_nat INF_COST else new_cost)"

definition route_debug :: "router_t \<Rightarrow> u32 \<Rightarrow> route_entry_t \<Rightarrow> u16 \<Rightarrow> v1_out" where
  "route_debug r n route new_cost =
     Out (tag r @ ''DEBUG:   Route '' @ ipstr n @ '': old_cost='' @ dec (unat (rt_cost route)) @ '', new_cost='' @
          dec (unat new_cost) @ '', old_next_hop='' @ (if next_hop route \<noteq> 0 then ''set'' else ''unset'') @ [NL])"

definition dv_entry_update_v1 ::
  "router_t \<Rightarrow> neighbor_t \<Rightarrow> int \<Rightarrow> int \<Rightarrow> dv_entry \<Rightarrow> router_t \<times> bool \<times> v1_out list" where
  "dv_entry_update_v1 r nb t1 t2 d =
     (let new_cost = dv_cost_v1 nb (ntohs (ecost d)) in
      case rt_find_or_add t1 r (net d) (emask d) of
        (r', None) \<Rightarrow> (r', False, [])
      | (r', Some i) \<Rightarrow>
          let route = routes r' ! i; dbg = route_debug r (net d) route new_cost in
          if new_cost < rt_cost route then
            (set_route r' i (route\<lparr>rt_cost := new_cost, next_hop := nb_ip nb, last_update := t2\<rparr>), True,
             [dbg, Out (tag r @ ''DEBUG:     -> UPDATING (better cost)'' @ [NL])])
          else if next_hop route = nb_ip nb \<and> new_cost \<noteq> rt_cost route then
            (set_route r' i (route\<lparr>rt_cost := new_cost, last_update := t2\<rparr>), True,
             [dbg, Out (tag r @ ''DEBUG:     -> UPDATING (same next_hop, cost changed)'' @ [NL])])
          else (r', False, [dbg]))"

definition V1_BUF :: nat where "V1_BUF = 4096"

text \<open>The loop over the claimed count; an entry beyond the receive buffer is undefined.\<close>

function dv_loop_v1 ::
  "router_t \<Rightarrow> neighbor_t \<Rightarrow> (nat \<Rightarrow> int) \<Rightarrow> byte list \<Rightarrow> nat \<Rightarrow> nat \<Rightarrow> bool \<Rightarrow> v1_out list \<Rightarrow>
   (router_t \<times> bool \<times> v1_out list) option"
where
  "dv_loop_v1 r nb ck buf n i changed out =
     (if i < n then
        if 15 + 10 * i \<le> V1_BUF then
          case dv_entry_update_v1 r nb (ck (2 * i)) (ck (2 * i + 1)) (dv_entry_at buf i) of
            (r', c, o1) \<Rightarrow> dv_loop_v1 r' nb ck buf n (Suc i) (changed \<or> c) (out @ o1)
        else None
      else Some (r, changed, out))"
  by pat_completeness auto
termination
  by (relation "measure (\<lambda>(r, nb, ck, buf, n, i, changed, out). n - i)") auto

declare dv_loop_v1.simps [simp del]

text \<open>\<open>i\<close> is the neighbour; \<open>t0\<close> the clock at the start.\<close>

definition dv_update_v1 ::
  "router_t \<Rightarrow> nat \<Rightarrow> int \<Rightarrow> (nat \<Rightarrow> int) \<Rightarrow> byte list \<Rightarrow> (router_t \<times> bool \<times> v1_out list) option" where
  "dv_update_v1 r i t0 ck buf =
     (let nb = hear t0 (neighbors r ! i); r1 = set_neighbor r i nb; n = unat (ntohs (rd16 buf 3))
      in dv_loop_v1 r1 nb ck buf n 0 False
           [Out (tag r @ ''DEBUG: Processing '' @ dec n @ '' route entries from neighbor (cost to nb='' @
                 dec (unat (nb_cost nb)) @ '')'' @ [NL])])"

section \<open>Data packets\<close>

text \<open>What \<^verbatim>\<open>%.*s\<close> prints: the length field goes unconverted, and the text may run to the end of the
  receive buffer.\<close>

definition payload_str_v1 :: "byte list \<Rightarrow> u16 \<Rightarrow> string option" where
  "payload_str_v1 buf len =
     (let s = map (\<lambda>b. char_of (unat b)) (drop 12 buf) in
      if unat len \<le> length s \<or> NUL \<in> set s then Some (cstr_of (take (unat len) s)) else None)"

definition dec_ttl :: "byte list \<Rightarrow> byte list" where
  "dec_ttl buf = buf[1 := buf ! 1 - 1]"

definition forward_data_v1 :: "router_t \<Rightarrow> byte list \<Rightarrow> nat \<Rightarrow> v1_out list option" where
  "forward_data_v1 r buf in_len =
     (let m = data_of_bytes buf; dst = ipstr (dst_ip m) in
      case rt_lookup r (dst_ip m) of
        None \<Rightarrow> Some [Out (tag r @ ''NO MATCH dst='' @ dst @ [NL])]
      | Some k \<Rightarrow>
          let best = routes r ! k in
          if next_hop best = 0 then
            map_option (\<lambda>p. [Out (tag r @ ''DELIVER connected dst='' @ dst @ '' payload='' @ [DQ] @ p @ [DQ, NL])])
              (payload_str_v1 buf (payload_len m))
          else if dst_ip m = self_ip r then
            map_option (\<lambda>p. [Out (tag r @ ''DELIVER self src='' @ ipstr (src_ip m) @ '' ttl='' @
                dec (unat (ttl m)) @ '' payload='' @ [DQ] @ p @ [DQ, NL])])
              (payload_str_v1 buf (payload_len m))
          else if ttl m \<le> 1 then Some [Out (tag r @ ''DROP ttl=0'' @ [NL])]
          else
            (case find_neighbor r (next_hop best) of
               None \<Rightarrow> Some [Out (tag r @ ''NEXT HOP DOWN '' @ ipstr (next_hop best) @ [NL])]
             | Some nb \<Rightarrow>
                 if \<not> alive nb then Some [Out (tag r @ ''NEXT HOP DOWN '' @ ipstr (next_hop best) @ [NL])]
                 else Some
                   [Out (tag r @ ''FWD dst='' @ dst @ '' via='' @ ipstr (next_hop best) @ '' cost='' @
                      dec (unat (rt_cost best)) @ '' ttl='' @ dec (unat (ttl m - 1)) @ [NL]),
                    Dgram Data (nb_ip nb) (get_data_port (nb_ctrl_port nb)) (take in_len (dec_ttl buf))]))"

section \<open>The event loop\<close>

definition expired_v1 :: "int \<Rightarrow> neighbor_t \<Rightarrow> bool" where
  "expired_v1 tm nb \<longleftrightarrow> alive nb \<and> DEAD_INTERVAL_SEC < tm - last_heard nb"

definition timeout_step_v1 :: "int \<Rightarrow> router_t \<times> bool \<Rightarrow> nat \<Rightarrow> router_t \<times> bool" where
  "timeout_step_v1 tm rc i =
     (case rc of (r, changed) \<Rightarrow>
        let nb = neighbors r ! i in
        if expired_v1 tm nb then
          ((set_neighbor r i (nb\<lparr>alive := False\<rparr>))
             \<lparr>routes := map (\<lambda>e. if next_hop e = nb_ip nb then e\<lparr>rt_cost := of_nat INF_COST\<rparr> else e) (routes r)\<rparr>,
           changed \<or> list_ex (\<lambda>e. next_hop e = nb_ip nb) (routes r))
        else (r, changed))"

definition check_timeouts_v1 :: "int \<Rightarrow> router_t \<Rightarrow> router_t \<times> v1_out list" where
  "check_timeouts_v1 tm r =
     (case foldl (timeout_step_v1 tm) (r, False) [0..<length (neighbors r)] of
        (r', changed) \<Rightarrow> (r', if changed then log_table_v1 r' ''neighbor-dead'' else []))"

fun neighbor_at :: "neighbor_t list \<Rightarrow> u32 \<Rightarrow> nat option" where
  "neighbor_at [] a = None"
| "neighbor_at (nb # nbs) a = (if nb_ip nb = a then Some 0 else map_option Suc (neighbor_at nbs a))"

text \<open>\<open>from\<close> is the sender's address, \<open>dgram\<close> the datagram, \<open>stack\<close> what the buffer held before.\<close>

definition handle_ctrl_v1 ::
  "int \<Rightarrow> (nat \<Rightarrow> int) \<Rightarrow> byte list \<Rightarrow> u32 \<Rightarrow> byte list \<Rightarrow> router_t \<Rightarrow> (router_t \<times> v1_out list) option" where
  "handle_ctrl_v1 t0 ck stack from_ip dgram r =
     (let buf = recv_into stack dgram; len = min (length dgram) V1_BUF in
      if len < 5 then Some (r, [])
      else
        let o1 = [Out (tag r @ ''DEBUG: Received '' @ dec len @ '' bytes, type='' @ dec (unat (buf ! 0)) @ [NL])] in
        if buf ! 0 \<noteq> MSG_DV then Some (r, o1)
        else
          (case neighbor_at (neighbors r) from_ip of
             None \<Rightarrow> Some (r, o1 @ [Out (tag r @ ''DEBUG: Neighbor '' @ ipstr from_ip @
                 '' NOT FOUND in neighbor list'' @ [NL])])
           | Some i \<Rightarrow>
               map_option (\<lambda>(r', changed, o2).
                   (r', o1 @ [Out (tag r @ ''DEBUG: Found neighbor '' @ ipstr from_ip @ [NL])] @ o2 @
                     [Out (tag r @ ''DEBUG: dv_update returned '' @ (if changed then ''1'' else ''0'') @ [NL])] @
                     (if changed then log_table_v1 r' ''dv-update'' else [])))
                 (dv_update_v1 r i t0 ck buf)))"

definition handle_data_v1 :: "byte list \<Rightarrow> byte list \<Rightarrow> router_t \<Rightarrow> v1_out list option" where
  "handle_data_v1 stack dgram r =
     (let buf = recv_into stack dgram; len = min (length dgram) V1_BUF in
      if 12 \<le> len \<and> buf ! 0 = MSG_DATA then forward_data_v1 r buf len else Some [])"

record v1_env =
  v1_interrupted :: bool
  v1_now :: int
  v1_t0 :: int
  v1_clk :: "nat \<Rightarrow> int"
  v1_sent :: "byte list \<Rightarrow> int"
  v1_ctrl :: "(u32 \<times> byte list) option"
  v1_data :: "byte list option"
  v1_stack :: "byte list"

definition main_iter_v1 :: "v1_env \<Rightarrow> rstate \<Rightarrow> (rstate \<times> v1_out list) option" where
  "main_iter_v1 env s =
     (if v1_interrupted env then Some (s, [])
      else
        let r = router s; t = v1_now env; due = next_broadcast s \<le> t;
            o1 = (if due then Out (tag r @ ''DEBUG: Broadcasting DV updates'' @ [NL]) # broadcast_dv_v1 (v1_sent env) r else []);
            nx = (if due then t + UPDATE_INTERVAL_SEC else next_broadcast s) in
        case check_timeouts_v1 t r of (r2, o2) \<Rightarrow>
        case (case v1_ctrl env of
                None \<Rightarrow> Some (r2, [])
              | Some (a, d) \<Rightarrow> handle_ctrl_v1 (v1_t0 env) (v1_clk env) (v1_stack env) a d r2) of
          None \<Rightarrow> None
        | Some (r3, o3) \<Rightarrow>
            map_option (\<lambda>o4. (\<lparr>router = r3, next_broadcast = nx\<rparr>, o1 @ o2 @ o3 @ o4))
              (case v1_data env of None \<Rightarrow> Some [] | Some d \<Rightarrow> handle_data_v1 (v1_stack env) d r3))"

end
