(* ===== verification/V1_Props.thy ===== *)
theory V1_Props
  imports Router_V1
begin

text \<open>The properties of the earlier router: where it agrees with the later one, and what its
  sixteen-bit sum does to a poisoned route.\<close>

lemma unat_dv_cost_v1:
  "unat (nb_cost nb) + unat c \<le> INF_COST \<Longrightarrow> unat (dv_cost_v1 nb c) = unat (dv_cost nb c)"
  using unat_dv_cost [of nb c] by (simp add: dv_cost_v1_def Let_def unat_word_ariths router_consts)

lemma dv_cost_v1_eq:
  assumes "unat (nb_cost nb) + unat c \<le> INF_COST"
  shows "dv_cost_v1 nb c = ucast (dv_cost nb c)" "ucast (dv_cost_v1 nb c) = dv_cost nb c"
proof -
  note u = unat_dv_cost_v1 [OF assms]
  show "dv_cost_v1 nb c = ucast (dv_cost nb c)"
    using u unat_ucast_dv_cost [of nb c] unat_dv_cost [of nb c] by (simp add: word_unat_eq_iff)
  show "ucast (dv_cost_v1 nb c) = dv_cost nb c"
    using u by (simp add: word_unat_eq_iff)
qed

lemma hop_same:
  "next_hop e = a \<Longrightarrow> e\<lparr>rt_cost := c, next_hop := a, last_update := t\<rparr> = e\<lparr>rt_cost := c, last_update := t\<rparr>"
  by (cases e) simp

text \<open>One entry: without an overflow both versions do the same to the table.\<close>

lemma entry_agrees:
  assumes "unat (nb_cost nb) + unat (ntohs (ecost d)) \<le> INF_COST"
  shows "(case dv_entry_update_v1 r nb t1 t2 d of (r', c, out) \<Rightarrow> (r', c)) = dv_entry_update r nb t1 t2 d"
proof -
  let ?c = "ntohs (ecost d)"
  obtain r' k where f: "rt_find_or_add t1 r (net d) (emask d) = (r', k)" by fastforce
  note c = dv_cost_v1_eq [OF assms]
  have lt: "dv_cost_v1 nb ?c < w \<longleftrightarrow> dv_cost nb ?c < ucast w" for w
    using unat_dv_cost_v1 [OF assms] by (simp add: dv_cost_less word_less_nat_alt)
  have ne: "dv_cost_v1 nb ?c = w \<longleftrightarrow> dv_cost nb ?c = ucast w" for w
    using unat_dv_cost_v1 [OF assms] by (simp add: dv_cost_eq word_unat_eq_iff)
  show ?thesis
  proof (cases "INF_COST \<le> unat ?c")
    case True
    with assms have "unat (dv_cost_v1 nb ?c) = INF_COST"
      using unat_dv_cost_v1 [OF assms] unat_dv_cost [of nb ?c] by simp
    then have inf: "dv_cost_v1 nb ?c = of_nat INF_COST" by (simp add: word_unat_eq_iff)
    have "\<not> (of_nat INF_COST :: u16) < w" for w by (simp add: word_less_nat_alt)
    moreover have "(of_nat INF_COST :: u16) \<noteq> w \<longleftrightarrow> unat w < INF_COST" for w
      using unat_u16_bound [of w] by (auto simp: word_unat_eq_iff)
    ultimately show ?thesis
      using True by (auto simp: dv_entry_update_v1_def dv_entry_update_def Let_def f inf split: option.split)
  next
    case False
    then show ?thesis
      by (auto simp: dv_entry_update_v1_def dv_entry_update_def Let_def f lt ne c(1) [symmetric] hop_same split: option.split)
  qed
qed

lemma loop_agrees:
  assumes "n \<le> MAX_DEST" "\<forall>i < n. unat (nb_cost nb) + unat (ntohs (ecost (dv_entry_at buf i))) \<le> INF_COST"
  shows "map_option (\<lambda>(r', c, out). (r', c)) (dv_loop_v1 r nb ck buf n i changed out) =
    dv_loop r nb ck (dv_of_bytes buf) n i changed"
  using assms
proof (induction "n - i" arbitrary: r i changed out)
  case 0
  then show ?case by (simp add: dv_loop_v1.simps dv_loop.simps)
next
  case (Suc k)
  then have i: "i < n" "i < MAX_DEST" "15 + 10 * i \<le> V1_BUF" "k = n - Suc i"
    by (auto simp: V1_BUF_def MAX_DEST_def)
  have e: "ents (dv_of_bytes buf) ! i = dv_entry_at buf i" using i(2) by (simp add: dv_of_bytes_def)
  obtain r' c o1 where v1: "dv_entry_update_v1 r nb (ck (2 * i)) (ck (2 * i + 1)) (dv_entry_at buf i) = (r', c, o1)"
    by (metis prod_cases3)
  with entry_agrees [of nb "dv_entry_at buf i" r "ck (2 * i)" "ck (2 * i + 1)"] Suc.prems(2) i(1)
  have "dv_entry_update r nb (ck (2 * i)) (ck (2 * i + 1)) (dv_entry_at buf i) = (r', c)" by simp
  with Suc.hyps(1) [OF i(4) Suc.prems] v1 i e show ?case
    by (simp add: dv_loop_v1.simps [of r nb ck buf n i] dv_loop.simps [of r nb ck _ n i])
qed

text \<open>C23. As long as a message claims at most 128 entries and no sum of link cost and advertised cost
  exceeds 65535, the two versions of \<^verbatim>\<open>dv_update\<close> leave the same router and report the same change.\<close>

theorem v1_update_agrees:
  assumes "unat (ntohs (rd16 buf 3)) \<le> MAX_DEST"
    and "\<forall>k < unat (ntohs (rd16 buf 3)).
      unat (nb_cost (neighbors r ! i)) + unat (ntohs (ecost (dv_entry_at buf k))) \<le> INF_COST"
  shows "map_option (\<lambda>(r', c, out). (r', c)) (dv_update_v1 r i t0 ck buf) =
    dv_update (set_neighbor r i (hear t0 (neighbors r ! i))) (hear t0 (neighbors r ! i)) ck (dv_of_bytes buf)"
  using loop_agrees [OF assms(1), of "hear t0 (neighbors r ! i)" buf] assms(2)
  by (simp add: dv_update_v1_def dv_update_def Let_def hear_def) (simp add: dv_of_bytes_def)

text \<open>A receive buffer with one entry, of a given cost.\<close>

definition w_dv :: "u16 \<Rightarrow> byte list" where
  "w_dv c = dv_bytes \<lparr>dv_type = MSG_DV, sender_id = htons 2, num = htons 1,
     ents = [\<lparr>net = 10, emask = 255, ecost = htons c\<rparr>]\<rparr> @ replicate 4081 0"

definition w_router :: router_t where
  "w_router = \<lparr>self_id = 1, self_ip = 1, ctrl_port = 4000,
     neighbors = [\<lparr>nb_ip = 2, nb_ctrl_port = 4001, nb_cost = 3, last_heard = 0, alive = True\<rparr>], routes = []\<rparr>"

lemma w_dv_facts: "unat (ntohs (rd16 (w_dv c) 3)) = 1" "ecost (dv_entry_at (w_dv c) 0) = htons c"
proof -
  let ?m = "\<lparr>dv_type = MSG_DV, sender_id = htons 2, num = htons 1, ents = [\<lparr>net = 10, emask = 255, ecost = htons c\<rparr>]\<rparr>"
  have "num (dv_of_bytes (w_dv c)) = htons 1" unfolding w_dv_def by (simp add: dv_of_bytes_header)
  then show "unat (ntohs (rd16 (w_dv c) 3)) = 1" by (simp add: dv_of_bytes_def)
  show "ecost (dv_entry_at (w_dv c) 0) = htons c" unfolding w_dv_def by (subst dv_entry_at_written) simp_all
qed

theorem v1_update_agrees_witness:
  "map_option (\<lambda>(r', c, out). (r', c)) (dv_update_v1 w_router 0 7 (\<lambda>_. 7) (w_dv 4)) =
    dv_update (set_neighbor w_router 0 (hear 7 (neighbors w_router ! 0))) (hear 7 (neighbors w_router ! 0)) (\<lambda>_. 7)
      (dv_of_bytes (w_dv 4))"
  by (rule v1_update_agrees) (simp_all add: w_dv_facts w_router_def MAX_DEST_def INF_COST_def)

text \<open>Poison reverse does not work in the earlier version: over a link of cost \<open>w > 0\<close> an entry of
  infinite cost wraps to \<open>w - 1\<close>, and the destination that was declared unreachable is installed at
  that cost.\<close>

theorem v1_accepts_poison:
  assumes "table_ok r" "i < length (neighbors r)" "0 < unat (nb_cost (neighbors r ! i))"
    and "unat (ntohs (rd16 buf 3)) = 1" "ecost (dv_entry_at buf 0) = htons (of_nat INF_COST)"
    and "case route_map r (net (dv_entry_at buf 0), emask (dv_entry_at buf 0)) of
        None \<Rightarrow> length (routes r) < MAX_DEST
      | Some e \<Rightarrow> unat (nb_cost (neighbors r ! i)) \<le> unat (rt_cost e)"
  shows "\<exists>r' out e. dv_update_v1 r i t0 ck buf = Some (r', True, out) \<and>
    route_map r' (net (dv_entry_at buf 0), emask (dv_entry_at buf 0)) = Some e \<and>
    unat (rt_cost e) = unat (nb_cost (neighbors r ! i)) - 1 \<and> next_hop e = nb_ip (neighbors r ! i)"
proof -
  let ?nb = "hear t0 (neighbors r ! i)" and ?d = "dv_entry_at buf 0"
  let ?r1 = "set_neighbor r i ?nb" and ?k = "(net ?d, emask ?d)"
  let ?w = "unat (nb_cost (neighbors r ! i))"
  have nb: "nb_cost ?nb = nb_cost (neighbors r ! i)" "nb_ip ?nb = nb_ip (neighbors r ! i)" by (simp_all add: hear_def)
  have ok: "table_ok ?r1" and view: "route_map ?r1 = route_map r" "routes ?r1 = routes r"
    using assms(1) by (simp_all add: set_neighbor_def table_ok_def route_map_def)
  have wrap: "(?w + 65535) mod 65536 = ?w - 1"
    using assms(3) unat_u16_less [of "nb_cost (neighbors r ! i)"] mod_add_self2 [of "?w - 1" 65536] by (simp add: add.commute)
  have cost: "unat (dv_cost_v1 ?nb (of_nat INF_COST)) = ?w - 1"
    using assms(3) unat_u16_bound [of "nb_cost (neighbors r ! i)"]
    by (simp add: dv_cost_v1_def Let_def nb unat_word_ariths router_consts wrap)
  obtain r2 m where fa: "rt_find_or_add (ck 0) ?r1 (fst ?k) (snd ?k) = (r2, m)" by fastforce
  have "m \<noteq> None"
    using rt.full [OF ok, of "ck 0" ?k r2] rt.room [OF ok, of "ck 0" ?k] fa assms(6) view by (auto split: option.splits)
  then obtain j where j: "m = Some j" by blast
  note f = rt.found [OF ok, of "ck 0" ?k r2 j] rt.found_entry [OF ok, of "ck 0" ?k r2 j]
  have old: "?w - 1 < unat (rt_cost (routes r2 ! j))"
    using f(2) fa j assms(3,6) view unat_u16_bound [of "nb_cost (neighbors r ! i)"]
    by (auto simp: blank_route_def router_consts split: option.splits)
  let ?e = "(routes r2 ! j)\<lparr>rt_cost := dv_cost_v1 ?nb (of_nat INF_COST), next_hop := nb_ip ?nb, last_update := ck 1\<rparr>"
  obtain o1 where step: "dv_entry_update_v1 ?r1 ?nb (ck 0) (ck 1) ?d = (set_route r2 j ?e, True, o1)"
    using fa j old cost assms(5) by (simp add: dv_entry_update_v1_def Let_def word_less_nat_alt)
  have "route_map (set_route r2 j ?e) ?k = Some ?e"
    using rt.store_view [of r2 j ?e] f fa j by (simp add: route_key_def)
  moreover have "\<exists>out. dv_update_v1 r i t0 ck buf = Some (set_route r2 j ?e, True, out)"
    using step assms(4) by (simp add: dv_update_v1_def Let_def dv_loop_v1.simps V1_BUF_def)
  ultimately show ?thesis using cost nb(2) by force
qed

theorem v1_accepts_poison_witness:
  "\<exists>r' out e. dv_update_v1 w_router 0 7 (\<lambda>_. 7) (w_dv 65535) = Some (r', True, out) \<and>
     route_map r' (net (dv_entry_at (w_dv 65535) 0), emask (dv_entry_at (w_dv 65535) 0)) = Some e \<and>
     unat (rt_cost e) = 2 \<and> next_hop e = 2"
  using v1_accepts_poison [of w_router 0 "w_dv 65535" 7 "\<lambda>_. 7"] w_dv_facts [of 65535]
  by (simp add: w_router_def table_ok_def route_map_def router_consts)

end
