(* ===== verification/Sendpkt.thy ===== *)
theory Sendpkt
  imports Router_Loop Scan
begin

text \<open>
  The packet injector, \<^verbatim>\<open>src/hw3/starter/sendpkt.c\<close>: its arguments, the text it packs into the
  payload and the datagram it sends to a router's data port.
\<close>

section \<open>The program\<close>

text \<open>The loop over the words from \<^verbatim>\<open>argv[5]\<close> on: it stops at the first that does not fit.\<close>

fun pack_words :: "string list \<Rightarrow> string \<Rightarrow> string" where
  "pack_words [] msg = msg"
| "pack_words (w # ws) msg =
     (if PAYLOAD_SIZE \<le> length msg + length w + 1 then msg
      else pack_words ws (msg @ w @ (if ws = [] then [] else [SP])))"

definition sendpkt_msg :: "u32 \<Rightarrow> u32 \<Rightarrow> byte \<Rightarrow> string \<Rightarrow> data_msg_t" where
  "sendpkt_msg src dst t msg =
     \<lparr>d_type = MSG_DATA, ttl = t, src_ip = src, dst_ip = dst, payload_len = htons (of_nat (length msg)),
      payload = char_bytes msg @ replicate (PAYLOAD_SIZE - length msg) 0\<rparr>"

definition sendpkt_bytes :: "data_msg_t \<Rightarrow> nat \<Rightarrow> byte list" where
  "sendpkt_bytes p off = take (1 * 2 + 4 * 2 + 2 + off) (data_bytes p)"

definition sendpkt_usage :: "string \<Rightarrow> string" where
  "sendpkt_usage prog = ''Usage: '' @ prog @ '' <router_ctrl_port> <src_ip> <dst_ip> <ttl> <msg...>'' @ [NL]"

text \<open>The exit code with what is printed, or the port and the datagram; \<open>sock\<close> and \<open>snt\<close> are what
  \<^verbatim>\<open>socket\<close> and \<^verbatim>\<open>sendto\<close> return.\<close>

definition sendpkt :: "string \<Rightarrow> string list \<Rightarrow> int \<Rightarrow> int \<Rightarrow> (int \<times> string) + (u16 \<times> byte list)" where
  "sendpkt prog args sock snt =
     (case args of
        port # src # dst # t # w # ws \<Rightarrow>
          (let data_port = get_data_port (word_of_int (atoi port)) in
           case inet_aton src of
             None \<Rightarrow> Inl (2, ''bad src_ip'' @ [NL])
           | Some a \<Rightarrow>
               (case inet_aton dst of
                  None \<Rightarrow> Inl (2, ''bad dst_ip'' @ [NL])
                | Some b \<Rightarrow>
                    let msg = pack_words (w # ws) [];
                        bytes = sendpkt_bytes (sendpkt_msg a b (word_of_int (atoi t)) msg) (length msg)
                    in if sock < 0 then Inl (3, ''socket'')
                       else if snt < 0 then Inl (4, ''sendto'')
                       else Inr (data_port, bytes)))
      | _ \<Rightarrow> Inl (1, sendpkt_usage prog))"

section \<open>The text\<close>

fun words :: "string list \<Rightarrow> string" where
  "words [] = []"
| "words (w # ws) = (if ws = [] then w else w @ SP # words ws)"

lemma pack_words_fits: "length msg + length (words ws) + 1 < PAYLOAD_SIZE \<Longrightarrow> pack_words ws msg = msg @ words ws"
proof (induction ws msg rule: pack_words.induct)
  case (2 w ws msg)
  then show ?case by (cases ws) auto
qed simp

lemma pack_words_bound: "length msg < PAYLOAD_SIZE \<Longrightarrow> length (pack_words ws msg) < PAYLOAD_SIZE"
  by (induction ws msg rule: pack_words.induct) auto

text \<open>The router reads the packet as it was meant, whatever its buffer held.\<close>

lemma sendpkt_received:
  assumes "length msg < PAYLOAD_SIZE" "length buf = data_size"
  shows "data_of_bytes (recv_into buf (sendpkt_bytes (sendpkt_msg a b t msg) (length msg))) =
    (sendpkt_msg a b t msg)\<lparr>payload := char_bytes msg @ take (PAYLOAD_SIZE - length msg) (drop (12 + length msg) buf)\<rparr>"
proof -
  let ?p = "(sendpkt_msg a b t msg)\<lparr>payload := char_bytes msg\<rparr>"
  let ?h = "[MSG_DATA, t] @ le32 a @ le32 b @ le16 (htons (of_nat (length msg)))"
  have "data_bytes (sendpkt_msg a b t msg) = ?h @ char_bytes msg @ replicate (PAYLOAD_SIZE - length msg) 0"
    "data_bytes ?p = ?h @ char_bytes msg" "length ?h = 12"
    by (simp_all add: data_bytes_def sendpkt_msg_def)
  then have "sendpkt_bytes (sendpkt_msg a b t msg) (length msg) = data_bytes ?p"
    by (simp only: sendpkt_bytes_def take_append) (simp add: char_bytes_def)
  moreover have "length (data_bytes ?p) = 12 + length msg" by (simp add: char_bytes_def)
  ultimately have "recv_into buf (sendpkt_bytes (sendpkt_msg a b t msg) (length msg)) =
      data_bytes ?p @ drop (12 + length msg) buf"
    using assms by (simp add: recv_into_fits data_size_def)
  then show ?thesis
    using assms(1) by (simp add: data_of_data_bytes)
qed

lemma plen_sendpkt: "length msg < PAYLOAD_SIZE \<Longrightarrow> plen ((sendpkt_msg a b t msg)\<lparr>payload := p\<rparr>) = length msg"
  by (simp add: plen_def sendpkt_msg_def unat_of_nat PAYLOAD_SIZE_def)

lemma payload_sendpkt:
  assumes "length msg < PAYLOAD_SIZE" "NUL \<notin> set msg"
  shows "payload_str ((sendpkt_msg a b t msg)\<lparr>payload := char_bytes msg @ rest\<rparr>) = Some msg"
  using assms plen_sendpkt [OF assms(1)] char_of_bytes [of msg]
  by (simp add: payload_str_def Let_def)

section \<open>From the command line to the router's log\<close>

text \<open>The words given to \<^verbatim>\<open>sendpkt\<close> appear, blanks between them, in the log of the router whose
  address they were sent to, with the source and TTL given, whatever its receive buffer held.\<close>

theorem sendpkt_text_arrives:
  assumes "sendpkt prog (port # src # dst # t # w # ws) sock snt = Inr (p, bytes)"
    and "length (words (w # ws)) \<le> 126" "NUL \<notin> set (words (w # ws))"
    and "inet_aton src = Some a" "inet_aton dst = Some (self_ip r)"
    and "\<forall>i. rt_lookup r (self_ip r) = Some i \<longrightarrow> next_hop (routes r ! i) \<noteq> 0" "length buf = data_size"
  shows "p = get_data_port (word_of_int (atoi port)) \<and>
    handle_data buf bytes r =
      Some [Print (tag r @ ''DELIVER self src='' @ ipstr a @ '' ttl='' @ dec (unat (word_of_int (atoi t) :: byte)) @
        '' payload='' @ [DQ] @ words (w # ws) @ [DQ, NL])]"
proof -
  let ?msg = "words (w # ws)" and ?t = "word_of_int (atoi t) :: byte"
  let ?m = "(sendpkt_msg a (self_ip r) ?t ?msg)\<lparr>payload := char_bytes ?msg @
    take (PAYLOAD_SIZE - length ?msg) (drop (12 + length ?msg) buf)\<rparr>"
  have len: "length ?msg < PAYLOAD_SIZE" "length ([] :: string) + length ?msg + 1 < PAYLOAD_SIZE"
    using assms(2) by (simp_all add: PAYLOAD_SIZE_def)
  have packed: "pack_words (w # ws) [] = ?msg" using pack_words_fits [OF len(2)] by simp
  have out: "p = get_data_port (word_of_int (atoi port))"
    "bytes = sendpkt_bytes (sendpkt_msg a (self_ip r) ?t ?msg) (length ?msg)"
    using assms(1,4,5) packed by (auto simp: sendpkt_def Let_def simp del: pack_words.simps words.simps split: if_splits)
  have "bytes \<noteq> []" unfolding out(2) by (simp add: sendpkt_bytes_def data_bytes_def)
  moreover have "data_of_bytes (recv_into buf bytes) = ?m"
    unfolding out(2) by (rule sendpkt_received [OF len(1) assms(7)])
  moreover have "forward_data r ?m = Some [log_self r ?m ?msg]"
    using assms(6) payload_sendpkt [OF len(1) assms(3)]
    by (auto simp: forward_data_def Let_def sendpkt_msg_def simp del: words.simps split: option.splits)
  ultimately have "handle_data buf bytes r = Some [log_self r ?m ?msg]"
    by (simp add: handle_data_def Let_def sendpkt_msg_def del: words.simps)
  then show ?thesis
    by (simp add: out(1) log_self_def sendpkt_msg_def del: words.simps)
qed

definition w_dest :: router_t where
  "w_dest = \<lparr>self_id = 7, self_ip = the (inet_aton ''10.0.0.1''), ctrl_port = 4000, neighbors = [], routes = []\<rparr>"

lemma w_addr: "inet_aton ''10.0.0.1'' = Some (htonl 167772161)" "inet_aton ''10.0.0.2'' = Some (htonl 167772162)"
proof -
  have "dec 10 = ''10''" "dec 0 = ''0''" "dec 1 = ''1''" "dec 2 = ''2''" by code_simp+
  then show "inet_aton ''10.0.0.1'' = Some (htonl 167772161)" "inet_aton ''10.0.0.2'' = Some (htonl 167772162)"
    using inet_aton_quad [of 10 0 0 1] inet_aton_quad [of 10 0 0 2] by simp_all
qed

theorem sendpkt_text_arrives_witness:
  "\<exists>p bytes. sendpkt ''sendpkt'' [''4000'', ''10.0.0.2'', ''10.0.0.1'', ''5'', ''hello'', ''there''] 3 40 = Inr (p, bytes) \<and>
     handle_data (replicate data_size 0) bytes w_dest =
       Some [Print (tag w_dest @ ''DELIVER self src='' @ ipstr (htonl 167772162) @ '' ttl='' @ dec 5 @
         '' payload='' @ [DQ] @ ''hello there'' @ [DQ, NL])]"
proof -
  have self: "self_ip w_dest = htonl 167772161" by (simp add: w_dest_def w_addr)
  have five: "atoi ''5'' = 5"
    by (simp add: atoi_def scan_d_def isdigit_def isspace_def code_def dec_val_def dec_digit_def)
  obtain p bytes where run: "sendpkt ''sendpkt'' [''4000'', ''10.0.0.2'', ''10.0.0.1'', ''5'', ''hello'', ''there''] 3 40 = Inr (p, bytes)"
    by (simp add: sendpkt_def w_addr Let_def)
  have "\<forall>i. rt_lookup w_dest (self_ip w_dest) = Some i \<longrightarrow> next_hop (routes w_dest ! i) \<noteq> 0"
    by (simp add: rt_lookup_def w_dest_def)
  from sendpkt_text_arrives [OF run _ _ w_addr(2) _ this] five self w_addr(1) run show ?thesis by auto
qed

end
