(* ===== verification/Unp_Read.thy ===== *)
theory Unp_Read
  imports Scan
begin

text \<open>
  Input, output and error reporting of the UNP library, \<^verbatim>\<open>src/unpv13e-master/lib\<close>:
  \<^verbatim>\<open>readline\<close> with its private buffer, \<^verbatim>\<open>readn\<close>, \<^verbatim>\<open>writen\<close> and the
  functions of \<^verbatim>\<open>error.c\<close>, with the simpler readers of \<^verbatim>\<open>src/unpv13e-master/server\<close>.
  What the kernel returns from successive calls is a script; a descriptor with an empty script blocks.
\<close>

section \<open>The kernel's side\<close>

definition UNP_MAXLINE :: nat where "UNP_MAXLINE = 4096"

text \<open>What becomes readable: bytes (none: the end of the file, which stays), an interruption, an error.\<close>

datatype kev = Chunk string | Intr | Fail

datatype kres = KData string | KIntr | KFail | KBlock

text \<open>\<^verbatim>\<open>read\<close> of at most \<open>n\<close> bytes: what does not fit stays for the next call.\<close>

fun kread :: "nat \<Rightarrow> kev list \<Rightarrow> kres \<times> kev list" where
  "kread n [] = (KBlock, [])"
| "kread n (Chunk d # s) = (KData (take n d), if d \<noteq> [] \<and> length d \<le> n then s else Chunk (drop n d) # s)"
| "kread n (Intr # s) = (KIntr, s)"
| "kread n (Fail # s) = (KFail, s)"

section \<open>readline\<close>

text \<open>The three static variables of \<^verbatim>\<open>readline.c\<close>; \<^verbatim>\<open>read_ptr\<close> is an index.\<close>

record rline =
  read_cnt :: int
  read_ptr :: nat
  read_buf :: string

datatype my_res = Char char | AtEof | ReadErr | Blocks

definition next_char :: "rline \<Rightarrow> rline \<times> my_res" where
  "next_char r =
     (r\<lparr>read_cnt := read_cnt r - 1, read_ptr := read_ptr r + 1\<rparr>, Char (read_buf r ! read_ptr r))"

fun fill :: "rline \<Rightarrow> kev list \<Rightarrow> (rline \<times> my_res) \<times> kev list" where
  "fill r [] = ((r, Blocks), [])"
| "fill r (Intr # s) = fill (r\<lparr>read_cnt := - 1\<rparr>) s"
| "fill r (Fail # s) = ((r\<lparr>read_cnt := - 1\<rparr>, ReadErr), s)"
| "fill r (Chunk d # s) =
     (case kread UNP_MAXLINE (Chunk d # s) of
        (KData e, s') \<Rightarrow>
          (let r' = r\<lparr>read_cnt := int (length e), read_buf := recv_into (read_buf r) e\<rparr>
           in if e = [] then ((r', AtEof), s') else (next_char (r'\<lparr>read_ptr := 0\<rparr>), s'))
      | (_, s') \<Rightarrow> ((r, Blocks), s'))"

definition my_read :: "rline \<Rightarrow> kev list \<Rightarrow> (rline \<times> my_res) \<times> kev list" where
  "my_read r s = (if read_cnt r \<le> 0 then fill r s else (next_char r, s))"

text \<open>What is stored before the terminating zero, and the value returned.\<close>

datatype rl_result = Line string int | LineErr | LineBlocks

function readline_loop :: "nat \<Rightarrow> nat \<Rightarrow> string \<Rightarrow> rline \<Rightarrow> kev list \<Rightarrow> rl_result \<times> rline \<times> kev list" where
  "readline_loop maxlen n out r s =
     (if n < maxlen then
        (case my_read r s of
           ((r', Char c), s') \<Rightarrow>
             if c = NL then (Line (out @ [c]) (int n), r', s')
             else readline_loop maxlen (n + 1) (out @ [c]) r' s'
         | ((r', AtEof), s') \<Rightarrow> (Line out (int n - 1), r', s')
         | ((r', ReadErr), s') \<Rightarrow> (LineErr, r', s')
         | ((r', Blocks), s') \<Rightarrow> (LineBlocks, r', s'))
      else (Line out (int n), r, s))"
  by pat_completeness auto
termination by (relation "measure (\<lambda>(maxlen, n, out, r, s). maxlen - n)") auto

declare readline_loop.simps [simp del]

definition readline :: "nat \<Rightarrow> rline \<Rightarrow> kev list \<Rightarrow> rl_result \<times> rline \<times> kev list" where
  "readline maxlen r s = readline_loop maxlen 1 [] r s"

text \<open>What is left in the buffer, for the caller.\<close>

definition readlinebuf :: "rline \<Rightarrow> int \<times> string option" where
  "readlinebuf r =
     (read_cnt r, if read_cnt r \<noteq> 0 then Some (take (nat (read_cnt r)) (drop (read_ptr r) (read_buf r))) else None)"

section \<open>The one-byte reader and the re-entrant reader\<close>

function sreadline_loop :: "nat \<Rightarrow> nat \<Rightarrow> string \<Rightarrow> kev list \<Rightarrow> rl_result \<times> kev list" where
  "sreadline_loop maxlen n out s =
     (if n < maxlen then
        (case kread 1 s of
           (KData [c], s') \<Rightarrow>
             if c = NL then (Line (out @ [c]) (int n), s') else sreadline_loop maxlen (n + 1) (out @ [c]) s'
         | (KData _, s') \<Rightarrow> (if n = 1 then Line [] 0 else Line out (int n), s')
         | (KBlock, s') \<Rightarrow> (LineBlocks, s')
         | (_, s') \<Rightarrow> (LineErr, s'))
      else (Line out (int n), s))"
  by pat_completeness auto
termination by (relation "measure (\<lambda>(maxlen, n, out, s). maxlen - n)") auto

declare sreadline_loop.simps [simp del]

definition sreadline :: "nat \<Rightarrow> kev list \<Rightarrow> rl_result \<times> kev list" where
  "sreadline maxlen s = sreadline_loop maxlen 1 [] s"

definition readline_rinit :: "rline \<Rightarrow> rline" where
  "readline_rinit r = r\<lparr>read_cnt := 0, read_ptr := 0\<rparr>"

function readline_r_loop :: "nat \<Rightarrow> nat \<Rightarrow> string \<Rightarrow> rline \<Rightarrow> kev list \<Rightarrow> rl_result \<times> rline \<times> kev list" where
  "readline_r_loop maxlen n out r s =
     (if n < maxlen then
        (case my_read r s of
           ((r', Char c), s') \<Rightarrow>
             if c = NL then (Line (out @ [c]) (int n), r', s')
             else readline_r_loop maxlen (n + 1) (out @ [c]) r' s'
         | ((r', AtEof), s') \<Rightarrow> (if n = 1 then Line [] 0 else Line out (int n), r', s')
         | ((r', ReadErr), s') \<Rightarrow> (LineErr, r', s')
         | ((r', Blocks), s') \<Rightarrow> (LineBlocks, r', s'))
      else (Line out (int n), r, s))"
  by pat_completeness auto
termination by (relation "measure (\<lambda>(maxlen, n, out, r, s). maxlen - n)") auto

declare readline_r_loop.simps [simp del]

definition readline_r :: "nat \<Rightarrow> rline \<Rightarrow> kev list \<Rightarrow> rl_result \<times> rline \<times> kev list" where
  "readline_r maxlen r s = readline_r_loop maxlen 1 [] r s"

section \<open>readn and writen\<close>

datatype io_result = Done string int | IoErr string | IoBlocks string

function readn_loop :: "nat \<Rightarrow> nat \<Rightarrow> string \<Rightarrow> kev list \<Rightarrow> io_result \<times> kev list" where
  "readn_loop n nleft out s =
     (if 0 < nleft then
        (case s of
           [] \<Rightarrow> (IoBlocks out, [])
         | Intr # s' \<Rightarrow> readn_loop n nleft out s'
         | Fail # s' \<Rightarrow> (IoErr out, s')
         | Chunk d # s' \<Rightarrow>
             if d = [] then (Done out (int (n - nleft)), s)
             else if length d \<le> nleft then readn_loop n (nleft - length d) (out @ d) s'
             else (Done (out @ take nleft d) (int n), Chunk (drop nleft d) # s'))
      else (Done out (int (n - nleft)), s))"
  by pat_completeness auto
termination by (relation "measure (\<lambda>(n, nleft, out, s). length s)") auto

declare readn_loop.simps [simp del]

definition readn :: "nat \<Rightarrow> kev list \<Rightarrow> io_result \<times> kev list" where
  "readn n s = readn_loop n n [] s"

text \<open>What \<^verbatim>\<open>write\<close> returns: a count, an interruption, another error.  The result is what went
  out and the value returned.\<close>

datatype wev = Wrote nat | WIntr | WFail

fun writen_loop :: "nat \<Rightarrow> string \<Rightarrow> string \<Rightarrow> wev list \<Rightarrow> io_result" where
  "writen_loop n out [] ws = Done out (int n)"
| "writen_loop n out (b # bs) [] = IoBlocks out"
| "writen_loop n out (b # bs) (WIntr # ws) = writen_loop n out (b # bs) ws"
| "writen_loop n out (b # bs) (WFail # ws) = IoErr out"
| "writen_loop n out (b # bs) (Wrote k # ws) =
     (if k = 0 then IoErr out
      else writen_loop n (out @ take k (b # bs)) (drop k (b # bs)) ws)"

definition writen :: "string \<Rightarrow> wev list \<Rightarrow> io_result" where
  "writen buf ws = writen_loop (length buf) [] buf ws"

section \<open>Errors\<close>

datatype report = Syslog string string | Stderr string

datatype err_end = Returns | Exits int | Aborts

text \<open>\<open>msg\<close> is the formatted text, \<open>estr\<close> what \<^verbatim>\<open>strerror\<close> says of the saved \<^verbatim>\<open>errno\<close>.\<close>

definition err_text :: "bool \<Rightarrow> string \<Rightarrow> string \<Rightarrow> string" where
  "err_text errnoflag msg estr =
     (let buf = take (UNP_MAXLINE - 1) msg; n = length buf;
          buf' = (if errnoflag then buf @ take (UNP_MAXLINE - n - 1) ('': '' @ estr) else buf)
      in buf' @ [NL])"

definition err_doit :: "bool \<Rightarrow> bool \<Rightarrow> string \<Rightarrow> string \<Rightarrow> string \<Rightarrow> report" where
  "err_doit daemon errnoflag level msg estr =
     (if daemon then Syslog level (err_text errnoflag msg estr) else Stderr (err_text errnoflag msg estr))"

definition err_ret :: "bool \<Rightarrow> string \<Rightarrow> string \<Rightarrow> report \<times> err_end" where
  "err_ret daemon msg estr = (err_doit daemon True ''LOG_INFO'' msg estr, Returns)"

definition err_sys_unp :: "bool \<Rightarrow> string \<Rightarrow> string \<Rightarrow> report \<times> err_end" where
  "err_sys_unp daemon msg estr = (err_doit daemon True ''LOG_ERR'' msg estr, Exits 1)"

definition err_dump :: "bool \<Rightarrow> string \<Rightarrow> string \<Rightarrow> report \<times> err_end" where
  "err_dump daemon msg estr = (err_doit daemon True ''LOG_ERR'' msg estr, Aborts)"

definition err_msg :: "bool \<Rightarrow> string \<Rightarrow> report \<times> err_end" where
  "err_msg daemon msg = (err_doit daemon False ''LOG_INFO'' msg [], Returns)"

definition err_quit :: "bool \<Rightarrow> string \<Rightarrow> report \<times> err_end" where
  "err_quit daemon msg = (err_doit daemon False ''LOG_ERR'' msg [], Exits 1)"

text \<open>The wrappers that give up on an error.\<close>

definition Readline :: "bool \<Rightarrow> string \<Rightarrow> nat \<Rightarrow> rline \<Rightarrow> kev list \<Rightarrow> (report \<times> err_end) + (rl_result \<times> rline \<times> kev list)" where
  "Readline daemon estr maxlen r s =
     (case readline maxlen r s of
        (LineErr, r', s') \<Rightarrow> Inl (err_sys_unp daemon ''readline error'' estr)
      | x \<Rightarrow> Inr x)"

definition Readn :: "bool \<Rightarrow> string \<Rightarrow> nat \<Rightarrow> kev list \<Rightarrow> (report \<times> err_end) + (io_result \<times> kev list)" where
  "Readn daemon estr n s =
     (case readn n s of
        (IoErr out, s') \<Rightarrow> Inl (err_sys_unp daemon ''readn error'' estr)
      | x \<Rightarrow> Inr x)"

definition Writen :: "bool \<Rightarrow> string \<Rightarrow> string \<Rightarrow> wev list \<Rightarrow> (report \<times> err_end) + io_result" where
  "Writen daemon estr buf ws =
     (case writen buf ws of
        IoErr out \<Rightarrow> Inl (err_sys_unp daemon ''writen error'' estr)
      | x \<Rightarrow> Inr x)"

end
