(* ===== verification/Unp_Read_Props.thy ===== *)
theory Unp_Read_Props
  imports Unp_Read
begin

text \<open>The properties of the readers and writers of the UNP library: a line does not depend on how the
  kernel delivers it, counts are exact or off by one where the code makes them so, and everything
  written goes out once.\<close>

section \<open>What is there to read\<close>

text \<open>The bytes a script delivers up to its end, and what comes then.\<close>

fun data_of :: "kev list \<Rightarrow> string" where
  "data_of [] = []"
| "data_of (Chunk d # s) = (if d = [] then [] else d @ data_of s)"
| "data_of (Intr # s) = data_of s"
| "data_of (Fail # s) = []"

fun tail_of :: "kev list \<Rightarrow> kev list" where
  "tail_of [] = []"
| "tail_of (Chunk d # s) = (if d = [] then Chunk [] # s else tail_of s)"
| "tail_of (Intr # s) = tail_of s"
| "tail_of (Fail # s) = Fail # s"

definition pending :: "rline \<Rightarrow> string" where
  "pending r = take (nat (read_cnt r)) (drop (read_ptr r) (read_buf r))"

definition rline_ok :: "rline \<Rightarrow> bool" where
  "rline_ok r \<longleftrightarrow> length (read_buf r) = UNP_MAXLINE \<and>
     (0 < read_cnt r \<longrightarrow> int (read_ptr r) + read_cnt r \<le> int UNP_MAXLINE)"

lemma next_char_pending:
  assumes "rline_ok r" "0 < read_cnt r"
  shows "\<exists>r' c. next_char r = (r', Char c) \<and> rline_ok r' \<and> pending r = c # pending r'"
proof -
  obtain k where k: "read_cnt r = int (Suc k)" using assms(2) by (metis Suc_pred' pos_int_cases of_nat_0_less_iff)
  then have "read_ptr r + Suc k \<le> length (read_buf r)" using assms by (simp add: rline_ok_def)
  then have "drop (read_ptr r) (read_buf r) = read_buf r ! read_ptr r # drop (Suc (read_ptr r)) (read_buf r)"
    by (intro Cons_nth_drop_Suc [symmetric]) simp
  moreover have "nat (read_cnt r) = Suc k" "nat (read_cnt r - 1) = k" using k by simp_all
  ultimately show ?thesis using assms k by (auto simp: next_char_def rline_ok_def pending_def)
qed

lemma fill_char:
  assumes "length (read_buf r) = UNP_MAXLINE" "data_of s = c # rest"
  shows "\<exists>r' s'. fill r s = ((r', Char c), s') \<and> rline_ok r' \<and> pending r' @ data_of s' = rest \<and> tail_of s' = tail_of s"
  using assms
proof (induction r s rule: fill.induct)
  case (4 r d s)
  then have d: "d \<noteq> []" by auto
  let ?e = "take UNP_MAXLINE d"
  let ?s = "if length d \<le> UNP_MAXLINE then s else Chunk (drop UNP_MAXLINE d) # s"
  let ?r = "r\<lparr>read_cnt := int (length ?e), read_buf := recv_into (read_buf r) ?e, read_ptr := 0\<rparr>"
  have e: "?e \<noteq> []" "length ?e \<le> UNP_MAXLINE" using d by (auto simp: UNP_MAXLINE_def)
  then have "rline_ok ?r" "0 < read_cnt ?r" using 4(1) by (auto simp: rline_ok_def)
  from next_char_pending [OF this] obtain r' c' where
    n: "next_char ?r = (r', Char c')" "rline_ok r'" "pending ?r = c' # pending r'" by blast
  have "pending ?r = ?e" using e 4(1) by (simp add: pending_def recv_into_def min_def)
  moreover have "?e @ data_of ?s = d @ data_of s" by simp
  ultimately have "c' # (pending r' @ data_of ?s) = c # rest" using n(3) 4(2) d by (metis append_Cons data_of.simps(2))
  moreover have "tail_of ?s = tail_of (Chunk d # s)" using d by simp
  moreover have "fill r (Chunk d # s) = ((r', Char c'), ?s)" using d e n(1) by (simp add: Let_def)
  ultimately show ?case using n(2) by auto
qed auto

lemma fill_end:
  assumes "data_of s = []" "read_cnt r \<le> 0" "length (read_buf r) = UNP_MAXLINE"
  shows "\<exists>r' s'. fill r s = ((r', case tail_of s of [] \<Rightarrow> Blocks | Chunk _ # _ \<Rightarrow> AtEof | _ \<Rightarrow> ReadErr), s') \<and>
    rline_ok r' \<and> pending r' = [] \<and> (tail_of s = [] \<or> hd (tail_of s) = Chunk [] \<longrightarrow> data_of s' = [] \<and> tail_of s' = tail_of s)"
  using assms
proof (induction r s rule: fill.induct)
  case (4 r d s)
  then show ?case by (auto simp: rline_ok_def pending_def Let_def split: if_splits)
qed (auto simp: rline_ok_def pending_def)

lemma my_read_char:
  assumes "rline_ok r" "pending r @ data_of s = c # rest"
  shows "\<exists>r' s'. my_read r s = ((r', Char c), s') \<and> rline_ok r' \<and> pending r' @ data_of s' = rest \<and> tail_of s' = tail_of s"
proof (cases "read_cnt r \<le> 0")
  case True
  with assms fill_char [of r s c rest] show ?thesis by (simp add: my_read_def pending_def rline_ok_def)
next
  case False
  with next_char_pending [OF assms(1)] assms(2) show ?thesis by (auto simp: my_read_def)
qed

lemma my_read_end:
  assumes "rline_ok r" "pending r @ data_of s = []"
  shows "\<exists>r' s'. my_read r s = ((r', case tail_of s of [] \<Rightarrow> Blocks | Chunk _ # _ \<Rightarrow> AtEof | _ \<Rightarrow> ReadErr), s') \<and>
    rline_ok r' \<and> pending r' = [] \<and> (tail_of s = [] \<or> hd (tail_of s) = Chunk [] \<longrightarrow> data_of s' = [] \<and> tail_of s' = tail_of s)"
proof (cases "read_cnt r \<le> 0")
  case True
  with assms fill_end [of s r] show ?thesis by (simp add: my_read_def rline_ok_def)
next
  case False
  with next_char_pending [OF assms(1)] assms(2) show ?thesis by auto
qed

section \<open>Lines\<close>

text \<open>The line a reader with room for \<open>m\<close> more characters takes from the bytes \<open>d\<close> that come before the
  end \<open>t\<close>: what it has of it, the value returned, and the bytes left.  \<open>out\<close> of length \<open>k\<close> is stored
  already.\<close>

definition line_ref :: "nat \<Rightarrow> string \<Rightarrow> string \<Rightarrow> kev list \<Rightarrow> rl_result \<times> string" where
  "line_ref m out d t =
     (if NL \<in> set (take m d) then
        (let l = takeWhile (\<lambda>c. c \<noteq> NL) d @ [NL]
         in (Line (out @ l) (int (length out + length l)), drop (length l) d))
      else if m \<le> length d then (Line (out @ take m d) (int (length out + m) + 1), drop m d)
      else (case t of
          [] \<Rightarrow> LineBlocks
        | Chunk _ # _ \<Rightarrow> Line (out @ d) (int (length out + length d))
        | _ \<Rightarrow> LineErr, []))"

lemma line_ref_Cons:
  "line_ref (Suc m) out (c # d) t =
     (if c = NL then (Line (out @ [c]) (int (length out) + 1), d) else line_ref m (out @ [c]) d t)"
  by (auto simp: line_ref_def Let_def split: list.split kev.split)

lemma readline_loop_ref:
  assumes "rline_ok r" "0 < n" "n \<le> maxlen" "length out = n - 1"
  shows "\<exists>r' s'. readline_loop maxlen n out r s =
      (fst (line_ref (maxlen - n) out (pending r @ data_of s) (tail_of s)), r', s') \<and> rline_ok r' \<and>
    (fst (line_ref (maxlen - n) out (pending r @ data_of s) (tail_of s)) \<noteq> LineErr \<longrightarrow>
      pending r' @ data_of s' = snd (line_ref (maxlen - n) out (pending r @ data_of s) (tail_of s)) \<and>
      tail_of s' = tail_of s)"
  using assms
proof (induction "maxlen - n" arbitrary: n out r s)
  case 0
  then have "n = maxlen" by simp
  with 0 show ?case by (simp add: readline_loop.simps line_ref_def)
next
  case (Suc m)
  then have n: "n < maxlen" "maxlen - n = Suc m" by auto
  show ?case
  proof (cases "pending r @ data_of s")
    case Nil
    from my_read_end [OF Suc.prems(1) Nil] obtain r' s' where
      e: "my_read r s = ((r', case tail_of s of [] \<Rightarrow> Blocks | Chunk _ # _ \<Rightarrow> AtEof | _ \<Rightarrow> ReadErr), s')" "rline_ok r'"
        "pending r' = []" "tail_of s = [] \<or> hd (tail_of s) = Chunk [] \<longrightarrow> data_of s' = [] \<and> tail_of s' = tail_of s" by blast
    have t: "tail_of s = [] \<or> (\<exists>u. tail_of s = Chunk [] # u) \<or> (\<exists>u. tail_of s = Fail # u)"
      by (induction s rule: tail_of.induct) auto
    show ?thesis
      using n Suc.prems e t by (subst (1) readline_loop.simps) (auto simp: Nil line_ref_def)
  next
    case (Cons c rest)
    from my_read_char [OF Suc.prems(1) Cons] obtain r' s' where
      e: "my_read r s = ((r', Char c), s')" "rline_ok r'" "pending r' @ data_of s' = rest" "tail_of s' = tail_of s" by blast
    show ?thesis
    proof (cases "c = NL")
      case True
      with n Suc.prems e show ?thesis by (subst (1) readline_loop.simps) (simp add: Cons line_ref_Cons)
    next
      case False
      have m: "maxlen - Suc n = m" using n by simp
      have "m = maxlen - (n + 1)" "0 < n + 1" "n + 1 \<le> maxlen" "length (out @ [c]) = (n + 1) - 1"
        using n Suc.prems by auto
      from Suc.hyps(1) [OF this(1) e(2) this(2-4), of s'] False n e show ?thesis
        by (subst (1) readline_loop.simps) (auto simp: Cons line_ref_Cons m)
    qed
  qed
qed

text \<open>\<^verbatim>\<open>readline\<close> takes the next line off the bytes that are there and that come, whatever pieces the
  kernel delivers them in and whatever interrupts it: up to and including the newline, at most
  \<^verbatim>\<open>maxlen - 1\<close> characters, or what is left at the end of the file; what it does not take stays for
  the next call.\<close>

theorem readline_takes_line:
  assumes "rline_ok r" "0 < maxlen"
  shows "\<exists>r' s'. readline maxlen r s = (fst (line_ref (maxlen - 1) [] (pending r @ data_of s) (tail_of s)), r', s') \<and>
    rline_ok r' \<and>
    (fst (line_ref (maxlen - 1) [] (pending r @ data_of s) (tail_of s)) \<noteq> LineErr \<longrightarrow>
      pending r' @ data_of s' = snd (line_ref (maxlen - 1) [] (pending r @ data_of s) (tail_of s)) \<and>
      tail_of s' = tail_of s)"
  using readline_loop_ref [OF assms(1), of 1 maxlen "[]" s] assms(2) by (simp add: readline_def)

definition w_rline :: rline where
  "w_rline = \<lparr>read_cnt = 0, read_ptr = 0, read_buf = replicate UNP_MAXLINE NUL\<rparr>"

lemma w_rline_ok [simp]: "rline_ok w_rline" "pending w_rline = []"
  by (simp_all add: w_rline_def rline_ok_def pending_def)

theorem readline_takes_line_witness:
  "\<exists>r' s'. readline 80 w_rline [Chunk ''he'', Intr, Chunk (''llo'' @ [NL] @ ''x'')] = (Line (''hello'' @ [NL]) 6, r', s') \<and>
     pending r' @ data_of s' = ''x''"
proof -
  let ?s = "[Chunk ''he'', Intr, Chunk (''llo'' @ [NL] @ ''x'')]"
  have ref: "line_ref (80 - 1) [] (pending w_rline @ data_of ?s) (tail_of ?s) = (Line (''hello'' @ [NL]) 6, ''x'')"
    by (simp add: line_ref_def)
  show ?thesis using readline_takes_line [OF w_rline_ok(1), of 80 ?s] unfolding ref by auto
qed

text \<open>A line that does not fit is cut, and the count \<^verbatim>\<open>readline\<close> returns for the piece is one
  more than the characters it stored.\<close>

theorem readline_overcounts_long_line:
  assumes "rline_ok r" "1 < maxlen" "NL \<notin> set (take (maxlen - 1) (pending r @ data_of s))"
    and "maxlen - 1 \<le> length (pending r @ data_of s)"
  shows "\<exists>l. fst (readline maxlen r s) = Line l (int maxlen) \<and> length l = maxlen - 1"
  using readline_takes_line [OF assms(1), of maxlen s] assms(2-4) by (auto simp: line_ref_def)

theorem readline_overcounts_long_line_witness:
  "\<exists>l. fst (readline 4 w_rline [Chunk ''hello'']) = Line l 4 \<and> length l = 3"
  using readline_overcounts_long_line [OF w_rline_ok(1), of 4 "[Chunk ''hello'']"] by simp

section \<open>The simpler readers\<close>

lemma sreadline_loop_eof:
  "NL \<notin> set d \<Longrightarrow> n + length d < maxlen \<Longrightarrow> 0 < n \<Longrightarrow> (d = [] \<longrightarrow> 1 < n) \<Longrightarrow>
   fst (sreadline_loop maxlen n out (if d = [] then [Chunk []] else [Chunk d, Chunk []])) =
     Line (out @ d) (int (n + length d))"
proof (induction d arbitrary: n out)
  case Nil
  then show ?case by (simp add: sreadline_loop.simps)
next
  case (Cons c d)
  from Cons.IH [of "Suc n" "out @ [c]"] Cons.prems show ?case
    by (subst sreadline_loop.simps) (auto split: if_splits)
qed

text \<open>On an unfinished last line the one-byte reader of the servers returns one more than it stored;
  the library's \<^verbatim>\<open>readline\<close> returns the right count there.\<close>

theorem server_readline_overcounts:
  assumes "d \<noteq> []" "NL \<notin> set d" "length d + 1 < maxlen" "rline_ok r" "pending r = []"
  shows "fst (sreadline maxlen [Chunk d, Chunk []]) = Line d (int (length d) + 1) \<and>
    fst (readline maxlen r [Chunk d, Chunk []]) = Line d (int (length d))"
proof
  show "fst (sreadline maxlen [Chunk d, Chunk []]) = Line d (int (length d) + 1)"
    using sreadline_loop_eof [of d 1 maxlen "[]"] assms by (simp add: sreadline_def)
  have "\<not> maxlen - 1 \<le> length d" "NL \<notin> set (take (maxlen - 1) d)" using assms(2,3) by (auto dest: in_set_takeD)
  then have "line_ref (maxlen - 1) [] (pending r @ data_of [Chunk d, Chunk []]) (tail_of [Chunk d, Chunk []]) =
      (Line d (int (length d)), [])"
    using assms(1,5) by (simp add: line_ref_def)
  then show "fst (readline maxlen r [Chunk d, Chunk []]) = Line d (int (length d))"
    using readline_takes_line [OF assms(4), of maxlen "[Chunk d, Chunk []]"] assms(3) by auto
qed

theorem server_readline_overcounts_witness:
  "fst (sreadline 80 [Chunk ''bye'', Chunk []]) = Line ''bye'' 4 \<and>
   fst (readline 80 w_rline [Chunk ''bye'', Chunk []]) = Line ''bye'' 3"
  using server_readline_overcounts [of "''bye''" 80 w_rline] by simp

section \<open>readn and writen\<close>

definition readn_ref :: "nat \<Rightarrow> nat \<Rightarrow> string \<Rightarrow> string \<Rightarrow> kev list \<Rightarrow> io_result" where
  "readn_ref n nleft out d t =
     (if nleft \<le> length d then Done (out @ take nleft d) (int n)
      else case t of
          [] \<Rightarrow> IoBlocks (out @ d)
        | Chunk _ # _ \<Rightarrow> Done (out @ d) (int (n - (nleft - length d)))
        | _ \<Rightarrow> IoErr (out @ d))"

lemma readn_loop_ref:
  "nleft \<le> n \<Longrightarrow> fst (readn_loop n nleft out s) = readn_ref n nleft out (data_of s) (tail_of s) \<and>
   (nleft \<le> length (data_of s) \<longrightarrow> data_of (snd (readn_loop n nleft out s)) = drop nleft (data_of s))"
proof (induction n nleft out s rule: readn_loop.induct)
  case (1 n nleft out s)
  show ?case
  proof (cases "0 < nleft")
    case True
    show ?thesis
    proof (cases s)
      case (Cons e s')
      show ?thesis
      proof (cases e)
        case (Chunk d)
        with 1 True Cons show ?thesis
          by (subst (1 2) readn_loop.simps) (auto simp: readn_ref_def split: list.split kev.split)
      qed (use 1 True Cons in \<open>auto simp: readn_loop.simps [of n nleft out "_ # s'"] readn_ref_def\<close>)
    qed (use True in \<open>simp add: readn_loop.simps readn_ref_def\<close>)
  next
    case False
    then show ?thesis by (simp add: readn_loop.simps readn_ref_def)
  qed
qed

lemma writen_loop_prefix:
  "(\<forall>o' k. writen_loop n out buf ws = Done o' k \<longrightarrow> o' = out @ buf \<and> k = int n) \<and>
   (\<forall>o'. writen_loop n out buf ws = IoErr o' \<or> writen_loop n out buf ws = IoBlocks o' \<longrightarrow>
      (\<exists>j. o' = out @ take j buf))"
proof (induction n out buf ws rule: writen_loop.induct)
  case (5 n out b bs k ws)
  show ?case
  proof (cases "k = 0")
    case True
    then show ?thesis by (auto intro: exI [of _ 0])
  next
    case False
    have "\<exists>j'. take k (b # bs) @ take j (drop k (b # bs)) = take j' (b # bs)" for j
      by (intro exI [of _ "k + j"]) (simp only: take_add)
    with False 5 show ?thesis by (auto simp del: take_Cons)
  qed
qed (auto intro: exI [of _ 0])

text \<open>What \<^verbatim>\<open>writen\<close> reports as written is the whole buffer, once and in order, and
  \<^verbatim>\<open>readn\<close> of as many bytes gives it back however the stream is cut or interrupted, leaving what
  follows.\<close>

theorem writen_readn_round_trip:
  assumes "writen buf ws = Done sent k" "data_of s = sent @ rest"
  shows "k = int (length buf) \<and> fst (readn (length buf) s) = Done buf (int (length buf)) \<and>
    data_of (snd (readn (length buf) s)) = rest"
proof -
  have "sent = buf" "k = int (length buf)"
    using writen_loop_prefix [of "length buf" "[]" buf ws] assms(1) by (auto simp: writen_def)
  with readn_loop_ref [of "length buf" "length buf" "[]" s] assms(2) show ?thesis
    by (simp add: readn_def readn_ref_def)
qed

theorem writen_readn_round_trip_witness:
  "writen ''hello'' [Wrote 2, WIntr, Wrote 3] = Done ''hello'' 5 \<and>
   fst (readn 5 [Chunk ''h'', Intr, Chunk ''ello!'']) = Done ''hello'' 5"
proof -
  have w: "writen ''hello'' [Wrote 2, WIntr, Wrote 3] = Done ''hello'' 5" by (simp add: writen_def numeral_eq_Suc)
  show ?thesis
    using writen_readn_round_trip [OF w, of "[Chunk ''h'', Intr, Chunk ''ello!'']" "''!''"] w by (simp add: eval_nat_numeral)
qed

section \<open>Error messages\<close>

text \<open>The text of an error report, its newline and its terminating zero always fit the array of
  \<^verbatim>\<open>MAXLINE + 1\<close>, and end with the newline.\<close>

lemma err_text_fits: "length (err_text e msg estr) + 1 \<le> UNP_MAXLINE + 1 \<and> last (err_text e msg estr) = NL"
  by (auto simp: err_text_def Let_def UNP_MAXLINE_def)

end
