(* ===== verification/Unp_Addr.thy ===== *)
theory Unp_Addr
  imports Scan
begin

text \<open>
  Addresses and checksums of the UNP libraries: \<^verbatim>\<open>inet_aton.c\<close>, \<^verbatim>\<open>inet_pton.c\<close>,
  \<^verbatim>\<open>inet_ntop.c\<close>, their IPv4-only versions and \<^verbatim>\<open>in_cksum.c\<close> of
  \<^verbatim>\<open>src/unpv13e-master/libfree\<close>, and \<^verbatim>\<open>sock_ntop.c\<close> of \<^verbatim>\<open>src/unpv13e-master/lib\<close>.
  A string is what stands before its terminating zero; an address is its bytes in network order.
\<close>

section \<open>inet_aton\<close>

text \<open>\<^verbatim>\<open>u_long\<close> has 64 bits on the host of the repository's binaries.\<close>

fun aton_loop :: "string \<Rightarrow> nat \<Rightarrow> 64 word \<Rightarrow> 64 word \<Rightarrow> (nat \<times> 64 word) option" where
  "aton_loop [] dots acc addr = (if 255 < acc then None else Some (dots, push_bit 8 addr OR acc))"
| "aton_loop (c # cs) dots acc addr =
     (if isdigit c then aton_loop cs dots (acc * 10 + of_nat (dec_digit c)) addr
      else if c = CHR ''.'' then
        (if 3 < dots + 1 then None
         else if 255 < acc then None
         else aton_loop cs (dots + 1) 0 (push_bit 8 addr OR acc))
      else None)"

definition gated_aton :: "string \<Rightarrow> u32 option" where
  "gated_aton s =
     (case aton_loop s 0 0 0 of
        None \<Rightarrow> None
      | Some (dots, addr) \<Rightarrow>
          Some (htonl (ucast (if dots < 3 then push_bit (8 * (3 - dots)) addr else addr))))"

section \<open>inet_pton\<close>

definition IN6ADDRSZ :: nat where "IN6ADDRSZ = 16"
definition INADDRSZ :: nat where "INADDRSZ = 4"
definition INT16SZ :: nat where "INT16SZ = 2"

text \<open>\<open>bs\<close> are the octets before the current one, \<open>cur\<close> the current one.\<close>

fun pton4_loop :: "string \<Rightarrow> bool \<Rightarrow> nat \<Rightarrow> nat list \<Rightarrow> nat \<Rightarrow> nat list option" where
  "pton4_loop [] saw octets bs cur = (if octets < 4 then None else Some (bs @ [cur]))"
| "pton4_loop (ch # src) saw octets bs cur =
     (if isdigit ch then
        (let new = cur * 10 + dec_digit ch in
         if 255 < new then None
         else if \<not> saw then
           (if 4 < octets + 1 then None else pton4_loop src True (octets + 1) bs new)
         else pton4_loop src saw octets bs new)
      else if ch = CHR ''.'' \<and> saw then
        (if octets = 4 then None else pton4_loop src False octets (bs @ [cur]) 0)
      else None)"

definition inet_pton4 :: "string \<Rightarrow> byte list option" where
  "inet_pton4 src = map_option (map of_nat) (pton4_loop src False 0 [] 0)"

definition word_bytes :: "nat \<Rightarrow> byte list" where
  "word_bytes v = [of_nat (v div 256), of_nat v]"

text \<open>The shift by hand: \<open>n\<close> bytes from \<open>k\<close> on move to the end of the array, one by one.\<close>

definition shift_step :: "nat \<Rightarrow> nat \<Rightarrow> byte list \<Rightarrow> nat \<Rightarrow> byte list" where
  "shift_step k n a i = (a[IN6ADDRSZ - i := a ! (k + n - i)])[k + n - i := 0]"

definition shift_tail :: "nat \<Rightarrow> byte list \<Rightarrow> byte list" where
  "shift_tail k bs =
     (let n = length bs - k
      in foldl (shift_step k n) (bs @ replicate (IN6ADDRSZ - length bs) 0) [1..<n + 1])"

definition pton6_finish :: "bool \<Rightarrow> nat \<Rightarrow> byte list \<Rightarrow> nat option \<Rightarrow> byte list option" where
  "pton6_finish saw val bs colonp =
     (if saw \<and> IN6ADDRSZ < length bs + INT16SZ then None
      else
        let bs' = (if saw then bs @ word_bytes val else bs) in
        case colonp of
          Some k \<Rightarrow> Some (shift_tail k bs')
        | None \<Rightarrow> if length bs' = IN6ADDRSZ then Some bs' else None)"

fun pton6_loop :: "string \<Rightarrow> string \<Rightarrow> bool \<Rightarrow> nat \<Rightarrow> byte list \<Rightarrow> nat option \<Rightarrow> byte list option" where
  "pton6_loop [] curtok saw val bs colonp = pton6_finish saw val bs colonp"
| "pton6_loop (ch # src) curtok saw val bs colonp =
     (case hex_digit ch of
        Some d \<Rightarrow>
          (let v = val * 16 + d in if 65535 < v then None else pton6_loop src curtok True v bs colonp)
      | None \<Rightarrow>
          if ch = CHR '':'' then
            (if \<not> saw then
               (if colonp \<noteq> None then None else pton6_loop src src saw val bs (Some (length bs)))
             else if IN6ADDRSZ < length bs + INT16SZ then None
             else pton6_loop src src False 0 (bs @ word_bytes val) colonp)
          else if ch = CHR ''.'' \<and> length bs + INADDRSZ \<le> IN6ADDRSZ then
            (case inet_pton4 curtok of
               None \<Rightarrow> None
             | Some q \<Rightarrow> pton6_finish False val (bs @ q) colonp)
          else None)"

definition inet_pton6 :: "string \<Rightarrow> byte list option" where
  "inet_pton6 src =
     (case src of
        c # rest \<Rightarrow>
          if c = CHR '':'' then
            (if rest \<noteq> [] \<and> hd rest = CHR '':'' then pton6_loop rest rest False 0 [] None else None)
          else pton6_loop src src False 0 [] None
      | [] \<Rightarrow> pton6_loop [] [] False 0 [] None)"

datatype family = AF_INET | AF_INET6 | AF_other int

text \<open>\<open>Inl\<close>: the family is not supported.\<close>

definition inet_pton :: "family \<Rightarrow> string \<Rightarrow> unit + byte list option" where
  "inet_pton af src =
     (case af of AF_INET \<Rightarrow> Inr (inet_pton4 src) | AF_INET6 \<Rightarrow> Inr (inet_pton6 src) | AF_other _ \<Rightarrow> Inl ())"

text \<open>The IPv4-only version, over \<^verbatim>\<open>inet_aton\<close>.\<close>

definition inet_pton_v4only :: "(string \<Rightarrow> u32 option) \<Rightarrow> family \<Rightarrow> string \<Rightarrow> unit + byte list option" where
  "inet_pton_v4only aton af src = (if af = AF_INET then Inr (map_option le32 (aton src)) else Inl ())"

section \<open>inet_ntop\<close>

definition quad :: "byte list \<Rightarrow> string" where
  "quad a = dec (unat (a ! 0)) @ ''.'' @ dec (unat (a ! 1)) @ ''.'' @ dec (unat (a ! 2)) @ ''.'' @ dec (unat (a ! 3))"

text \<open>\<open>None\<close>: no space, or a family that is not supported.\<close>

definition inet_ntop4 :: "byte list \<Rightarrow> nat \<Rightarrow> string option" where
  "inet_ntop4 a room = (if room < length (quad a) then None else Some (quad a))"

definition inet_ntop_v4only :: "family \<Rightarrow> byte list \<Rightarrow> nat \<Rightarrow> string option" where
  "inet_ntop_v4only af a len =
     (if af = AF_INET then (let temp = take 15 (quad a) in if len \<le> length temp then None else Some temp)
      else None)"

definition hex_char :: "nat \<Rightarrow> char" where
  "hex_char d = char_of (if d < 10 then 48 + d else 87 + d)"

fun hex :: "nat \<Rightarrow> string" where
  "hex n = (if n < 16 then [hex_char n] else hex (n div 16) @ [hex_char (n mod 16)])"

declare hex.simps [simp del]

definition words_of :: "byte list \<Rightarrow> nat list" where
  "words_of a = map (\<lambda>i. unat (a ! (2 * i)) * 256 + unat (a ! (2 * i + 1))) [0..<8]"

type_synonym run = "(nat \<times> nat) option"

text \<open>The better of two runs of zeros, (start, length): the first unless the other is longer.\<close>

definition better :: "run \<Rightarrow> run \<Rightarrow> run" where
  "better best cur =
     (case cur of
        None \<Rightarrow> best
      | Some (b, l) \<Rightarrow> (case best of None \<Rightarrow> cur | Some (b', l') \<Rightarrow> if l' < l then cur else best))"

fun best_run :: "nat \<Rightarrow> nat list \<Rightarrow> run \<Rightarrow> run \<Rightarrow> run" where
  "best_run i [] best cur =
     (case better best cur of
        Some (b, l) \<Rightarrow> if l < 2 then None else Some (b, l)
      | None \<Rightarrow> None)"
| "best_run i (w # ws) best cur =
     (if w = 0 then
        best_run (i + 1) ws best (case cur of None \<Rightarrow> Some (i, 1) | Some (b, l) \<Rightarrow> Some (b, l + 1))
      else best_run (i + 1) ws (better best cur) None)"

definition in_run :: "run \<Rightarrow> nat \<Rightarrow> bool" where
  "in_run best i = (case best of None \<Rightarrow> False | Some (b, l) \<Rightarrow> b \<le> i \<and> i < b + l)"

definition encapsulated :: "nat list \<Rightarrow> run \<Rightarrow> bool" where
  "encapsulated ws best \<longleftrightarrow>
     (case best of None \<Rightarrow> False | Some (b, l) \<Rightarrow> b = 0 \<and> (l = 6 \<or> l = 5 \<and> ws ! 5 = 65535))"

text \<open>The text of words \<open>i\<close> to 7.\<close>

fun ntop6_loop :: "byte list \<Rightarrow> nat list \<Rightarrow> run \<Rightarrow> nat list \<Rightarrow> string" where
  "ntop6_loop a ws best [] = []"
| "ntop6_loop a ws best (i # is) =
     (if in_run best i then
        (if map_option fst best = Some i then '':'' else []) @ ntop6_loop a ws best is
      else
        (if i \<noteq> 0 then '':'' else []) @
        (if i = 6 \<and> encapsulated ws best then quad (drop 12 a)
         else hex (ws ! i) @ ntop6_loop a ws best is))"

definition ntop6_text :: "byte list \<Rightarrow> string" where
  "ntop6_text a =
     (let ws = words_of a; best = best_run 0 ws None None
      in ntop6_loop a ws best [0..<8] @
         (case best of Some (b, l) \<Rightarrow> if b + l = 8 then '':'' else [] | None \<Rightarrow> []))"

definition inet_ntop6 :: "byte list \<Rightarrow> nat \<Rightarrow> string option" where
  "inet_ntop6 a room = (if room < length (ntop6_text a) + 1 then None else Some (ntop6_text a))"

definition inet_ntop :: "family \<Rightarrow> byte list \<Rightarrow> nat \<Rightarrow> string option" where
  "inet_ntop af a room =
     (case af of AF_INET \<Rightarrow> inet_ntop4 a room | AF_INET6 \<Rightarrow> inet_ntop6 a room | AF_other _ \<Rightarrow> None)"

section \<open>sock_ntop\<close>

datatype sockaddr =
    Sin "byte list" u16
  | Sin6 "byte list" u16
  | Sun string
  | Sother int

definition sock_ntop :: "sockaddr \<Rightarrow> nat \<Rightarrow> string option" where
  "sock_ntop sa salen =
     (case sa of
        Sin a port \<Rightarrow>
          map_option (\<lambda>str. if ntohs port \<noteq> 0 then str @ take 7 ('':'' @ dec (unat (ntohs port))) else str)
            (inet_ntop AF_INET a 128)
      | Sin6 a port \<Rightarrow>
          map_option (\<lambda>str. if ntohs port \<noteq> 0 then ''['' @ str @ take 7 ('']:'' @ dec (unat (ntohs port))) else str)
            (inet_ntop AF_INET6 a 127)
      | Sun path \<Rightarrow> Some (if path = [] then ''(no pathname bound)'' else take 127 path)
      | Sother f \<Rightarrow> Some (take 127 (''sock_ntop: unknown AF_xxx: '' @ dec_int f @ '', len '' @ dec salen)))"

definition sock_ntop_host :: "sockaddr \<Rightarrow> nat \<Rightarrow> string option" where
  "sock_ntop_host sa salen =
     (case sa of
        Sin a port \<Rightarrow> inet_ntop AF_INET a 128
      | Sin6 a port \<Rightarrow> inet_ntop AF_INET6 a 128
      | Sun path \<Rightarrow> Some (if path = [] then ''(no pathname bound)'' else take 127 path)
      | Sother f \<Rightarrow> Some (take 127 (''sock_ntop_host: unknown AF_xxx: '' @ dec_int f @ '', len '' @ dec salen)))"

text \<open>The sign of \<^verbatim>\<open>memcmp\<close> and \<^verbatim>\<open>strcmp\<close>, which is all they promise.\<close>

fun cmp_sign :: "nat list \<Rightarrow> nat list \<Rightarrow> int" where
  "cmp_sign [] [] = 0"
| "cmp_sign [] (y # ys) = - 1"
| "cmp_sign (x # xs) [] = 1"
| "cmp_sign (x # xs) (y # ys) = (if x < y then - 1 else if y < x then 1 else cmp_sign xs ys)"

definition sock_cmp_addr :: "sockaddr \<Rightarrow> sockaddr \<Rightarrow> int" where
  "sock_cmp_addr sa1 sa2 =
     (case (sa1, sa2) of
        (Sin a p, Sin b q) \<Rightarrow> cmp_sign (map unat a) (map unat b)
      | (Sin6 a p, Sin6 b q) \<Rightarrow> cmp_sign (map unat a) (map unat b)
      | (Sun a, Sun b) \<Rightarrow> cmp_sign (map code a) (map code b)
      | _ \<Rightarrow> - 1)"

section \<open>in_cksum\<close>

text \<open>The sum of the 16-bit words in host order; an odd byte is the low byte of a last word.\<close>

fun cksum_sum :: "byte list \<Rightarrow> u32 \<Rightarrow> u32" where
  "cksum_sum [] acc = acc"
| "cksum_sum [a] acc = acc + ucast (of_le16 a 0)"
| "cksum_sum (a # b # bs) acc = cksum_sum bs (acc + ucast (of_le16 a b))"

definition cksum_fold :: "u32 \<Rightarrow> u16" where
  "cksum_fold acc =
     (let s1 = drop_bit 16 acc + (acc AND 0xffff); s2 = s1 + drop_bit 16 s1 in ucast (NOT s2))"

definition in_cksum :: "byte list \<Rightarrow> u16" where
  "in_cksum bs = cksum_fold (cksum_sum bs 0)"

end
