(* ===== verification/Unp_Addr_Props.thy ===== *)
theory Unp_Addr_Props
  imports Unp_Addr
begin

text \<open>The properties of the address and checksum routines: a sent checksum verifies, addresses read back
  as they were printed, and where the parsers differ from what they promise.\<close>

section \<open>The checksum\<close>

text \<open>The sum as a natural number.\<close>

fun cksum_nat :: "byte list \<Rightarrow> nat" where
  "cksum_nat [] = 0"
| "cksum_nat [a] = unat (of_le16 a 0)"
| "cksum_nat (a # b # bs) = unat (of_le16 a b) + cksum_nat bs"

lemma cksum_sum_nat: "cksum_sum bs acc = acc + of_nat (cksum_nat bs)"
  by (induction bs acc rule: cksum_sum.induct) (simp_all add: algebra_simps)

lemma cksum_nat_bound: "cksum_nat bs \<le> 65535 * ((length bs + 1) div 2)"
proof (induction bs rule: cksum_nat.induct)
  case (2 a)
  then show ?case using unat_u16_less [of "of_le16 a 0"] by simp
next
  case (3 a b bs)
  then show ?case using unat_u16_less [of "of_le16 a b"] by simp
qed simp

lemma cksum_nat_append: "even (length bs) \<Longrightarrow> cksum_nat (bs @ le16 w) = cksum_nat bs + unat w"
  by (induction bs rule: cksum_nat.induct) (simp_all add: le16_def)

text \<open>The end-around carry: the sum modulo 65535, with 65535 for a multiple of it other than 0.\<close>

definition ones_sum :: "nat \<Rightarrow> nat" where
  "ones_sum n = (if n = 0 then 0 else (n - 1) mod 65535 + 1)"

lemma ones_sum_complement: "ones_sum (s + (65535 - ones_sum s)) = 65535"
proof (cases "s = 0")
  case False
  define r where "r = (s - 1) mod 65535"
  have "r < 65535" by (simp add: r_def)
  moreover have "s - 1 = (s - 1) div 65535 * 65535 + r" by (simp add: r_def)
  ultimately have t: "s + (65535 - (r + 1)) = (s - 1) div 65535 * 65535 + 65535" using False by linarith
  have "ones_sum (q * 65535 + 65535) = 65535" for q
  proof -
    have "(q * 65535 + 65535 - 1) mod 65535 = (65534 + q * 65535) mod 65535" by (simp add: add.commute)
    also have "\<dots> = 65534" by simp
    finally show ?thesis by (simp add: ones_sum_def)
  qed
  moreover have "ones_sum s = r + 1" using False by (simp add: ones_sum_def r_def)
  ultimately show ?thesis by (simp only: t)
qed (simp add: ones_sum_def)

lemma fold_nat:
  assumes "s < 2 ^ 32"
  shows "(let f = s div 65536 + s mod 65536; g = f + f div 65536 in g mod 65536) = ones_sum s"
proof -
  define f where "f = s div 65536 + s mod 65536"
  have s: "s = 65535 * (s div 65536) + f" by (simp add: f_def)
  have f: "f \<le> 131070" using assms by (simp add: f_def)
  have zero: "f = 0 \<longleftrightarrow> s = 0" using s by (auto simp: f_def)
  have "ones_sum s = (if f = 0 then 0 else (f - 1) mod 65535 + 1)"
  proof (cases "f = 0")
    case False
    then have "s - 1 = 65535 * (s div 65536) + (f - 1)" using s by simp
    then have "(s - 1) mod 65535 = (f - 1) mod 65535" by simp
    with False zero show ?thesis by (simp add: ones_sum_def)
  qed (simp add: ones_sum_def zero)
  moreover have "(f + f div 65536) mod 65536 = (if f = 0 then 0 else (f - 1) mod 65535 + 1)"
  proof (cases "f < 65536")
    case True
    then show ?thesis by simp
  next
    case False
    then have "f div 65536 = 1" "f + 1 = (f - 65535) + 65536" "f - 65535 < 65536" "f - 1 = (f - 65536) + 65535"
      "f - 65536 < 65535" using f by auto
    then have "(f + f div 65536) mod 65536 = f - 65535" "(f - 1) mod 65535 = f - 65536" by (metis mod_add_self2 mod_less)+
    with False show ?thesis by simp
  qed
  ultimately show ?thesis by (simp add: f_def [symmetric] Let_def)
qed

lemma unat_not_u16: "unat (NOT w) = 65535 - unat (w :: u16)"
proof -
  have "uint (NOT w) = 65535 - uint w"
    using unsigned_not_eq [of w, where 'a = int] uint_lt2p [of w]
    by (simp add: take_bit_not_eq_mask_diff mask_eq_exp_minus_1 take_bit_int_eq_self)
  then have "int (unat (NOT w)) = 65535 - int (unat w)" by (simp only: uint_nat)
  with unat_u16_less [of w] show ?thesis by linarith
qed

lemma ucast_not_nat: "(ucast (NOT (of_nat x :: u32)) :: u16) = NOT (of_nat x)"
proof -
  have "(ucast (NOT w) :: u16) = NOT (ucast w)" for w :: u32 by (rule bit_word_eqI) (auto simp: bit_simps)
  moreover have "(ucast (of_nat x :: u32) :: u16) = of_nat x"
    by (simp add: word_unat_eq_iff unat_narrow unat_of_nat mod_mod_cancel)
  ultimately show ?thesis by metis
qed

lemma drop_bit_16_nat:
  assumes "s < 2 ^ 32"
  shows "drop_bit 16 (of_nat s :: u32) = of_nat (s div 65536)"
proof -
  have "unat (drop_bit 16 (of_nat s :: u32)) = drop_bit 16 (unat (of_nat s :: u32))" by (rule unat_drop_bit_eq)
  also have "\<dots> = s div 65536" using assms by (simp add: unat_of_nat drop_bit_eq_div)
  finally show ?thesis using assms by (intro word_unat_eq_iff [THEN iffD2]) (simp add: unat_of_nat)
qed

lemma cksum_fold_nat:
  assumes "s < 2 ^ 32"
  shows "unat (cksum_fold (of_nat s)) = 65535 - ones_sum s"
proof -
  let ?w = "of_nat s :: u32"
  let ?f = "s div 65536 + s mod 65536"
  have u: "unat ?w = s" using assms by (simp add: unat_of_nat)
  have hi: "drop_bit 16 ?w = of_nat (s div 65536)" by (rule drop_bit_16_nat [OF assms])
  have lo: "?w AND 0xffff = of_nat (s mod 65536)"
  proof -
    have "?w AND 0xffff = take_bit 16 ?w" by (simp add: take_bit_eq_mask mask_eq_exp_minus_1)
    moreover have "unat (take_bit 16 ?w) = take_bit 16 (unat ?w)" by (rule unsigned_take_bit_eq)
    ultimately have "unat (?w AND 0xffff) = s mod 65536" by (simp only: u) (simp add: take_bit_eq_mod)
    moreover have "unat (of_nat (s mod 65536) :: u32) = s mod 65536" using assms by (simp add: unat_of_nat)
    ultimately show ?thesis by (simp only: word_unat_eq_iff)
  qed
  have s1: "drop_bit 16 ?w + (?w AND 0xffff) = of_nat ?f" by (simp add: hi lo)
  have f: "?f < 2 ^ 32" using assms by simp
  have hi2: "drop_bit 16 (of_nat ?f :: u32) = of_nat (?f div 65536)" by (rule drop_bit_16_nat [OF f])
  have "cksum_fold ?w = ucast (NOT (of_nat (?f + ?f div 65536) :: u32))"
    unfolding cksum_fold_def Let_def s1 hi2 by simp
  also have "\<dots> = NOT (of_nat (?f + ?f div 65536) :: u16)"
    by (rule ucast_not_nat)
  finally have "unat (cksum_fold ?w) = 65535 - unat (of_nat (?f + ?f div 65536) :: u16)"
    by (simp add: unat_not_u16)
  also have "unat (of_nat (?f + ?f div 65536) :: u16) = ones_sum s"
    using fold_nat [OF assms] by (simp only: unat_of_nat Let_def) simp
  finally show ?thesis .
qed

text \<open>The checksum is what the sum of the message lacks to all ones.\<close>

lemma cksum_complement:
  assumes "cksum_nat m' = cksum_nat m + unat (in_cksum m)" "length m \<le> 131072"
  shows "in_cksum m' = 0"
proof -
  define s where "s = cksum_nat m"
  let ?c = "65535 - ones_sum s"
  have "s \<le> 65535 * ((length m + 1) div 2)" unfolding s_def by (rule cksum_nat_bound)
  moreover have "(length m + 1) div 2 \<le> 65536" using assms(2) by simp
  ultimately have s: "s \<le> 65535 * 65536" by (meson le_trans mult_le_mono2)
  have cs: "in_cksum m = cksum_fold (of_nat s)" by (simp add: in_cksum_def cksum_sum_nat s_def)
  have c: "unat (in_cksum m) = ?c" unfolding cs by (rule cksum_fold_nat) (use s in simp)
  have "cksum_nat m' = s + ?c" unfolding assms(1) c by (simp add: s_def)
  then have "in_cksum m' = cksum_fold (of_nat (s + ?c))" by (simp add: in_cksum_def cksum_sum_nat)
  moreover have "unat (cksum_fold (of_nat (s + ?c))) = 65535 - ones_sum (s + ?c)"
    by (rule cksum_fold_nat) (use s in simp)
  ultimately have "unat (in_cksum m') = 0" by (simp add: ones_sum_complement)
  then show ?thesis by (simp add: unat_eq_0)
qed

lemma cksum_nat_mid: "even (length a) \<Longrightarrow> cksum_nat (a @ le16 w @ b) = cksum_nat (a @ le16 0 @ b) + unat w"
  by (induction a rule: cksum_nat.induct) (simp_all add: le16_def of_le16_def [of 0 0])

text \<open>A checksum in its field, which is zero while it is computed.\<close>

lemma cksum_in_place:
  "even (length a) \<Longrightarrow> length a + length b \<le> 131070 \<Longrightarrow> in_cksum (a @ le16 (in_cksum (a @ le16 0 @ b)) @ b) = 0"
  using cksum_complement [of "a @ le16 (in_cksum (a @ le16 0 @ b)) @ b" "a @ le16 0 @ b"] cksum_nat_mid [of a "in_cksum (a @ le16 0 @ b)" b]
  by simp

text \<open>A receiver that sums a message followed by the checksum the sender computed over it gets 0, for
  every message of even length up to 131072 bytes (what the 32-bit accumulator holds).\<close>

theorem cksum_verifies:
  assumes "even (length bs)" "length bs \<le> 131072"
  shows "in_cksum (bs @ le16 (in_cksum bs)) = 0"
  by (rule cksum_complement) (use assms in \<open>simp_all add: cksum_nat_append\<close>)

lemma cksum_verifies_witness:
  "even (length [0x45, 0, 0xff, 0xff :: byte]) \<and> in_cksum ([0x45, 0, 0xff, 0xff] @ le16 (in_cksum [0x45, 0, 0xff, 0xff])) = 0"
  using cksum_verifies [of "[0x45, 0, 0xff, 0xff]"] by simp

section \<open>Dotted quads\<close>

lemma pton4_dec:
  assumes "n < 256" "k < 4"
  shows "pton4_loop (dec n @ rest) False k bs 0 = pton4_loop rest True (k + 1) bs n"
  using assms(1)
proof (induction n arbitrary: rest rule: dec.induct)
  case (1 n)
  show ?case
  proof (cases "n < 10")
    case True
    then show ?thesis using assms(2) by (simp add: dec.simps [of n])
  next
    case False
    then have "pton4_loop (dec n @ rest) False k bs 0 = pton4_loop (digit_char (n mod 10) # rest) True (k + 1) bs (n div 10)"
      using 1 by (simp add: dec.simps [of n])
    also have "\<dots> = pton4_loop rest True (k + 1) bs n" using 1(2) by (simp add: Let_def)
    finally show ?thesis .
  qed
qed

lemma not_digit: "\<not> isdigit CHR ''.''" "\<not> isdigit CHR '':''"
  by (simp_all add: isdigit_def code_def)

lemma pton4_quad: "length a = 4 \<Longrightarrow> inet_pton4 (quad a) = Some a"
proof -
  assume "length a = 4"
  then obtain w x y z where a: "a = [w, x, y, z]" by (auto simp: length_Suc_conv eval_nat_numeral)
  show ?thesis
    by (simp add: a inet_pton4_def quad_def pton4_dec not_digit pton4_dec [where rest = "[]", simplified] unat_u8_bound)
qed

interpretation quads: text_codec "\<lambda>a. length a = 4" quad inet_pton4
  by unfold_locales (rule pton4_quad)

text \<open>The address of the octets read so far, in the accumulator of \<^verbatim>\<open>inet_aton\<close>.\<close>

abbreviation acc4 :: "nat list \<Rightarrow> 64 word" where
  "acc4 bs \<equiv> foldl (\<lambda>acc b. push_bit 8 acc OR of_nat b) 0 bs"

lemma le32_acc4:
  assumes "length q = 4" "\<forall>b \<in> set q. b \<le> 255"
  shows "le32 (htonl (ucast (acc4 q))) = map of_nat q"
proof -
  obtain a b c d where q: "q = [a, b, c, d]" using assms(1) by (auto simp: length_Suc_conv eval_nat_numeral)
  have of_nat: "(of_nat x :: 64 word) = ucast (of_nat x :: byte)" if "x \<le> 255" for x
    using that by (simp add: word_unat_eq_iff unat_of_nat unsigned_ucast_eq take_bit_nat_eq_self)
  have le: "a \<le> 255" "b \<le> 255" "c \<le> 255" "d \<le> 255" using assms(2) by (simp_all add: q)
  define w x y z where "w = (of_nat a :: byte)" and "x = (of_nat b :: byte)"
    and "y = (of_nat c :: byte)" and "z = (of_nat d :: byte)"
  have "acc4 q = push_bit 8 (push_bit 8 (push_bit 8 (ucast w) OR ucast x) OR ucast y) OR ucast z"
    by (simp add: q of_nat le w_def x_def y_def z_def)
  also have "(ucast \<dots> :: u32) = of_le32 z y x w"
    unfolding of_le32_def by (rule bit_word_eqI) (auto simp: bit_simps)
  finally show ?thesis by (simp add: le32_htonl q w_def x_def y_def z_def)
qed

lemma aton_of_pton4:
  assumes "pton4_loop s saw k bs cur = Some q" "k = length bs + (if saw then 1 else 0)" "k \<le> 4" "\<not> saw \<longrightarrow> cur = 0 \<and> k < 4"
    "cur \<le> 255" "\<forall>b \<in> set bs. b \<le> 255"
  shows "aton_loop s (length bs) (of_nat cur) (acc4 bs) = Some (3, acc4 q) \<and> length q = 4 \<and> (\<forall>b \<in> set q. b \<le> 255)"
  using assms
proof (induction s saw k bs cur rule: pton4_loop.induct)
  case (1 saw octets bs cur)
  have "\<not> (255 :: 64 word) < of_nat cur" using 1(5) by (simp add: word_less_nat_alt unat_of_nat)
  with 1 show ?case by (auto split: if_splits)
next
  case (2 ch src saw octets bs cur)
  have cur: "\<not> (255 :: 64 word) < of_nat cur" using 2(8) by (simp add: word_less_nat_alt unat_of_nat)
  show ?case
  proof (cases "isdigit ch")
    case True
    define new where "new = cur * 10 + dec_digit ch"
    have new: "\<not> 255 < new" using 2(4) True by (auto simp: new_def Let_def)
    have acc: "aton_loop (ch # src) (length bs) (of_nat cur) (acc4 bs) = aton_loop src (length bs) (of_nat new) (acc4 bs)"
      using True by (simp add: new_def mult.commute)
    show ?thesis
    proof (cases saw)
      case s: True
      have "pton4_loop src saw octets bs new = Some q"
        using 2(4) True new s by (simp add: new_def)
      then show ?thesis
        unfolding acc using 2(2) [OF True new_def new] s new 2(5-7,9) by simp
    next
      case s: False
      have "pton4_loop src True (octets + 1) bs new = Some q" "octets + 1 \<le> 4"
        using 2(4) True new s by (simp_all add: new_def split: if_splits)
      then show ?thesis
        unfolding acc using 2(1) [OF True new_def new] s new 2(5-7,9) by simp
    qed
  next
    case False
    with 2(4) have "ch = CHR ''.''" "saw" "octets \<noteq> 4" by (auto split: if_splits)
    with False 2 cur show ?thesis by simp
  qed
qed

text \<open>Every string \<^verbatim>\<open>inet_pton\<close> accepts as an IPv4 address is accepted by the \<^verbatim>\<open>inet_aton\<close> of the
  library too, and the IPv4-only \<^verbatim>\<open>inet_pton\<close> built on it stores the same four bytes.\<close>

theorem pton_v4only_agrees:
  assumes "inet_pton AF_INET s = Inr (Some a)"
  shows "inet_pton_v4only gated_aton AF_INET s = Inr (Some a)"
proof -
  obtain q where q: "pton4_loop s False 0 [] 0 = Some q" "a = map of_nat q"
    using assms by (auto simp: inet_pton_def inet_pton4_def)
  have "aton_loop s 0 0 0 = Some (3, acc4 q)" and len: "length q = 4" and b: "\<forall>b \<in> set q. b \<le> 255"
    using aton_of_pton4 [OF q(1)] by simp_all
  then have "gated_aton s = Some (htonl (ucast (acc4 q)))" by (simp add: gated_aton_def)
  moreover have "le32 (htonl (ucast (acc4 q))) = map of_nat q"
    by (rule le32_acc4 [OF len b])
  ultimately show ?thesis by (simp add: inet_pton_v4only_def q(2))
qed

lemma pton_v4only_agrees_witness:
  "inet_pton AF_INET ''10.0.2.15'' = Inr (Some [10, 0, 2, 15]) \<and>
   inet_pton_v4only gated_aton AF_INET ''10.0.2.15'' = Inr (Some [10, 0, 2, 15])"
proof -
  have "inet_pton AF_INET ''10.0.2.15'' = Inr (Some [10, 0, 2, 15])" by code_simp
  then show ?thesis using pton_v4only_agrees by blast
qed

lemma aton_dec: "aton_loop (dec n @ rest) dots 0 addr = aton_loop rest dots (of_nat n) addr"
proof (induction n arbitrary: rest rule: dec.induct)
  case (1 n)
  show ?case
  proof (cases "n < 10")
    case True
    then show ?thesis by (simp add: dec.simps [of n])
  next
    case False
    then have "aton_loop (dec n @ rest) dots 0 addr =
        aton_loop (digit_char (n mod 10) # rest) dots (of_nat (n div 10)) addr"
      using 1 by (simp add: dec.simps [of n])
    also have "\<dots> = aton_loop rest dots (of_nat (n div 10 * 10 + n mod 10)) addr"
      by (simp only: aton_loop.simps of_nat_add of_nat_mult) simp
    finally show ?thesis by (simp only: div_mult_mod_eq)
  qed
qed

text \<open>The \<^verbatim>\<open>inet_aton\<close> of the library checks an octet against 255 only when it is complete, so a number of
  any length counts modulo 2 to the 64: 18446744073709551617.0.0.1 is the address 1.0.0.1, which
  \<^verbatim>\<open>inet_pton\<close> refuses; and the empty string is the address 0.0.0.0.\<close>

theorem aton_wraps:
  "gated_aton (dec (n + 2 ^ 64 * m) @ rest) = gated_aton (dec n @ rest) \<and>
   gated_aton '''' = Some 0 \<and>
   gated_aton ''18446744073709551617.0.0.1'' = Some (htonl 0x01000001) \<and>
   inet_pton AF_INET ''18446744073709551617.0.0.1'' = Inr None"
proof -
  have wrap: "gated_aton (dec (n + 2 ^ 64 * m) @ rest) = gated_aton (dec n @ rest)" for n m rest
  proof -
    have "(of_nat (n + 2 ^ 64 * m) :: 64 word) = of_nat n" by (simp only: word_unat_eq_iff unat_of_nat) simp
    then show ?thesis by (simp only: gated_aton_def aton_dec)
  qed
  have lit: "''18446744073709551617.0.0.1'' = dec (1 + 2 ^ 64 * 1) @ ''.0.0.1''" "''1.0.0.1'' = dec 1 @ ''.0.0.1''"
    by (simp_all add: dec.simps digit_char_def char_of_def bit_Suc_0_iff)
  have "gated_aton ''1.0.0.1'' = Some (htonl 0x01000001)"
    by (simp add: gated_aton_def isdigit_def dec_digit_def code_def)
  then have "gated_aton ''18446744073709551617.0.0.1'' = Some (htonl 0x01000001)" unfolding lit wrap .
  moreover have "gated_aton '''' = Some 0" by (simp add: gated_aton_def htonl_def of_le32_def)
  moreover have "inet_pton AF_INET ''18446744073709551617.0.0.1'' = Inr None"
    by (simp add: inet_pton_def inet_pton4_def isdigit_def dec_digit_def code_def)
  ultimately show ?thesis using wrap by blast
qed

end
