(* ===== verification/Unp_Ip6_Props.thy ===== *)
theory Unp_Ip6_Props
  imports Unp_Addr_Props
begin

text \<open>The IPv6 half of \<^verbatim>\<open>inet_pton.c\<close> and \<^verbatim>\<open>inet_ntop.c\<close>: the shift at a double colon,
  the longest run of zeros, and the round trip through the text.\<close>

section \<open>Hex digits and the shift\<close>

lemma hex_digit_hex_char: "d < 16 \<Longrightarrow> hex_digit (hex_char d) = Some d"
  by (auto simp: hex_digit_def hex_char_def ctype_defs code_def)

lemma pton6_hex:
  assumes "w < 65536"
  shows "pton6_loop (hex w @ rest) cur False 0 bs cp = pton6_loop rest cur True w bs cp"
  using assms
proof (induction w arbitrary: rest rule: hex.induct)
  case (1 w)
  show ?case
  proof (cases "w < 16")
    case True
    then show ?thesis by (simp add: hex.simps [of w] hex_digit_hex_char)
  next
    case False
    then have "pton6_loop (hex w @ rest) cur False 0 bs cp =
        pton6_loop (hex_char (w mod 16) # rest) cur True (w div 16) bs cp"
      using 1 by (simp add: hex.simps [of w])
    also have "\<dots> = pton6_loop rest cur True w bs cp" using 1(2) by (simp add: hex_digit_hex_char Let_def)
    finally show ?thesis .
  qed
qed

lemmas pton6_hex_end = pton6_hex [where rest = "[]", simplified]

lemma hex_head: "\<exists>d < 16. \<exists>cs. hex w = hex_char d # cs"
proof (induction w rule: hex.induct)
  case (1 w)
  then show ?case by (cases "w < 16") (auto simp: hex.simps [of w])
qed

lemma pton6_start: "inet_pton6 (hex w @ rest) = pton6_loop (hex w @ rest) (hex w @ rest) False 0 [] None"
proof -
  obtain d cs where d: "d < 16" "hex w = hex_char d # cs" using hex_head by blast
  have "hex_digit CHR '':'' = None" by code_simp
  with d have "hex_char d \<noteq> CHR '':''" using hex_digit_hex_char [of d] by auto
  with d show ?thesis by (simp add: inet_pton6_def)
qed

text \<open>The shift opens a gap of zeros at \<open>k\<close>, one byte at a time.\<close>

lemma move_byte:
  assumes "0 < r"
  shows "(p @ x # replicate r z @ q)[length p + r := x, length p := z] = p @ replicate r z @ x # q"
proof -
  obtain r' where r: "r = Suc r'" using assms by (cases r) auto
  have "p @ x # replicate r z @ q = p @ x # replicate r' z @ z # q"
    by (simp add: r replicate_append_same [symmetric])
  then show ?thesis by (simp add: r list_update_append)
qed

lemma shift_step_room:
  assumes "k + n = length bs" "length bs < 16" "i < n"
  shows "shift_step k n (take (length bs - i) bs @ replicate (16 - length bs) 0 @ drop (length bs - i) bs) (Suc i) =
    take (length bs - Suc i) bs @ replicate (16 - length bs) 0 @ drop (length bs - Suc i) bs"
proof -
  let ?m = "length bs - Suc i" and ?r = "16 - length bs"
  define p x q where "p = take ?m bs" and "x = bs ! ?m" and "q = drop (length bs - i) bs"
  have m: "Suc ?m = length bs - i" "?m < length bs" using assms by auto
  have t: "take (length bs - i) bs = p @ [x]" using m by (simp add: p_def x_def take_Suc_conv_app_nth flip: m(1))
  have d: "drop ?m bs = x # q" using m by (simp add: x_def q_def flip: m(1) Cons_nth_drop_Suc)
  have lp: "length p = ?m" using m by (simp add: p_def)
  have ix: "16 - Suc i = length p + ?r" "k + n - Suc i = length p" using assms lp by auto
  have "0 < ?r" using assms by simp
  from move_byte [OF this, of p x 0 q]
  show ?thesis unfolding shift_step_def IN6ADDRSZ_def t d ix p_def [symmetric] q_def [symmetric] by simp
qed

lemma shift_tail_room:
  assumes "k \<le> length bs" "length bs < 16"
  shows "shift_tail k bs = take k bs @ replicate (16 - length bs) 0 @ drop k bs"
proof -
  let ?n = "length bs - k"
  have "foldl (shift_step k ?n) (bs @ replicate (16 - length bs) 0) [1..<m + 1] =
      take (length bs - m) bs @ replicate (16 - length bs) 0 @ drop (length bs - m) bs" if "m \<le> ?n" for m
    using that
  proof (induction m)
    case (Suc m)
    have "[1..<Suc m + 1] = [1..<m + 1] @ [Suc m]" by simp
    with Suc shift_step_room [of k ?n bs m] assms show ?case by simp
  qed simp
  from this [of ?n] assms show ?thesis by (simp add: shift_tail_def IN6ADDRSZ_def)
qed

lemma shift_tail_full:
  assumes "k \<le> 16" "length bs = 16"
  shows "shift_tail k bs = take k bs @ replicate (16 - k) 0"
proof -
  have "foldl (shift_step k (16 - k)) bs [1..<m + 1] = take (16 - m) bs @ replicate m 0" if "m \<le> 16 - k" for m
    using that
  proof (induction m)
    case (Suc m)
    have "[1..<Suc m + 1] = [1..<m + 1] @ [Suc m]" by simp
    moreover have "shift_step k (16 - k) (take (16 - m) bs @ replicate m 0) (Suc m) = take (16 - Suc m) bs @ replicate (Suc m) 0"
    proof -
      have m: "16 - m = Suc (16 - Suc m)" "16 - Suc m < length bs" "k + (16 - k) - Suc m = 16 - Suc m" using Suc assms by auto
      have "length (take (16 - Suc m) bs) = 16 - Suc m" using assms by simp
      then show ?thesis
        unfolding shift_step_def IN6ADDRSZ_def m(3) unfolding m(1) take_Suc_conv_app_nth [OF m(2)]
        by (simp add: list_update_append)
    qed
    ultimately show ?case using Suc by simp
  qed (use assms in simp)
  from this [of "16 - k"] assms show ?thesis by (simp add: shift_tail_def IN6ADDRSZ_def)
qed

text \<open>A double colon in an address that already has its eight words is not ignored, whatever the comment
  above the function says: the shift moves each byte after it onto itself and then clears it, so that all the
  words after the double colon become zero and the call succeeds.\<close>

theorem pton6_full_clears:
  assumes "k \<le> 16" "length bs = 16"
  shows "pton6_finish False v bs (Some k) = Some (take k bs @ replicate (16 - k) 0) \<and>
    inet_pton6 ''1:2:3:4:5:6:7::8'' = Some [0, 1, 0, 2, 0, 3, 0, 4, 0, 5, 0, 6, 0, 7, 0, 0]"
  using assms by (intro conjI) (simp add: pton6_finish_def shift_tail_full, code_simp)

lemma pton6_full_clears_witness:
  "pton6_finish False 0 [1, 2, 3, 4, 5, 6, 7, 8, 9, 10, 11, 12, 13, 14, 15, 16] (Some 13) =
   Some [1, 2, 3, 4, 5, 6, 7, 8, 9, 10, 11, 12, 13, 0, 0, 0]"
  using pton6_full_clears [of 13 "[1, 2, 3, 4, 5, 6, 7, 8, 9, 10, 11, 12, 13, 14, 15, 16]" 0]
  by (simp add: numeral_eq_Suc)

section \<open>The round trip\<close>

declare pton6_loop.simps [simp del]

text \<open>A run lies before \<open>n\<close> and its words are zero.\<close>

definition zero_run :: "nat list \<Rightarrow> nat \<Rightarrow> run \<Rightarrow> bool" where
  "zero_run ws n r \<longleftrightarrow>
     (case r of None \<Rightarrow> True | Some (b, l) \<Rightarrow> b + l \<le> n \<and> (\<forall>j. b \<le> j \<and> j < b + l \<longrightarrow> ws ! j = 0))"

lemma zero_run_better: "zero_run ws n best \<Longrightarrow> zero_run ws n cur \<Longrightarrow> zero_run ws n (better best cur)"
  by (auto simp: zero_run_def better_def split: option.splits prod.splits)

lemma zero_run_mono: "zero_run ws n r \<Longrightarrow> n \<le> m \<Longrightarrow> zero_run ws m r"
  by (auto simp: zero_run_def split: option.splits)

lemma best_run_zero:
  assumes "zero_run all i best" "zero_run all i cur" "\<forall>b l. cur = Some (b, l) \<longrightarrow> b + l = i"
    "ws = drop i all" "i \<le> length all"
  shows "zero_run all (length all) (best_run i ws best cur) \<and>
    (\<forall>b l. best_run i ws best cur = Some (b, l) \<longrightarrow> 2 \<le> l)"
  using assms
proof (induction i ws best cur rule: best_run.induct)
  case (1 i best cur)
  then have "zero_run all (length all) (better best cur)" by (intro zero_run_better) (auto intro: zero_run_mono)
  then show ?case by (auto simp: zero_run_def split: option.splits prod.splits)
next
  case (2 i w ws best cur)
  have "i < length all" using 2(6) by (metis drop_eq_Nil2 list.distinct(1) not_le)
  with 2(6) have i: "i < length all" "ws = drop (i + 1) all" "w = all ! i"
    by (simp_all flip: Cons_nth_drop_Suc)
  show ?case
  proof (cases "w = 0")
    case True
    let ?cur = "case cur of None \<Rightarrow> Some (i, 1) | Some (b, l) \<Rightarrow> Some (b, l + 1)"
    have "zero_run all (i + 1) ?cur" "\<forall>b l. ?cur = Some (b, l) \<longrightarrow> b + l = i + 1"
      using 2(4,5) True i(3) by (auto simp: zero_run_def less_Suc_eq split: option.splits)
    then have "zero_run all (length all) (best_run (i + 1) ws best ?cur) \<and>
        (\<forall>b l. best_run (i + 1) ws best ?cur = Some (b, l) \<longrightarrow> 2 \<le> l)"
      by (rule 2(1) [OF True zero_run_mono [OF 2(3)], rotated]) (use i in simp_all)
    with True show ?thesis by simp
  next
    case False
    have "zero_run all (i + 1) (better best cur)"
      by (rule zero_run_mono [OF zero_run_better [OF 2(3,4)]]) simp
    then have "zero_run all (length all) (best_run (i + 1) ws (better best cur) None) \<and>
        (\<forall>b l. best_run (i + 1) ws (better best cur) None = Some (b, l) \<longrightarrow> 2 \<le> l)"
      by (rule 2(2) [OF False]) (use i in \<open>simp_all add: zero_run_def\<close>)
    with False show ?thesis by simp
  qed
qed

lemma words_of_bytes:
  assumes "length a = 16"
  shows "a = concat (map word_bytes (words_of a))" "length (words_of a) = 8" "\<forall>w \<in> set (words_of a). w < 65536"
proof -
  have b: "unat (x :: byte) * 256 + unat (y :: byte) < 65536" for x y
    using unat_u8_bound [of x] unat_u8_bound [of y] by simp
  have wb: "word_bytes (unat (x :: byte) * 256 + unat (y :: byte)) = [x, y]" for x y
  proof -
    have "(unat x * 256 + unat y) div 256 = unat x" using unat_u8_bound [of y] by simp
    moreover have "(of_nat (unat x * 256 + unat y) :: byte) = y"
      using unat_u8_bound [of y] by (simp only: word_unat_eq_iff unat_of_nat) (simp add: mod_simps)
    ultimately show ?thesis by (simp add: word_bytes_def)
  qed
  have up: "[0..<8] = [0, 1, 2, 3, 4, 5, 6, 7 :: nat]" by (simp add: upt_rec)
  obtain a0 a1 a2 a3 a4 a5 a6 a7 a8 a9 a10 a11 a12 a13 a14 a15 where
    a: "a = [a0, a1, a2, a3, a4, a5, a6, a7, a8, a9, a10, a11, a12, a13, a14, a15]"
    using assms by (auto simp: length_Suc_conv eval_nat_numeral)
  show "a = concat (map word_bytes (words_of a))"
    unfolding words_of_def up by (simp add: wb) (simp add: a)
  show "length (words_of a) = 8" by (simp add: words_of_def)
  show "\<forall>w \<in> set (words_of a). w < 65536" using b by (auto simp: words_of_def)
qed

text \<open>A dotted quad, read as hex digits first and then as the last four bytes.\<close>

lemma pton6_dec:
  assumes "n < 256"
  shows "\<exists>v \<le> n * n. pton6_loop (dec n @ rest) cur False 0 bs cp = pton6_loop rest cur True v bs cp"
  using assms
proof (induction n arbitrary: rest rule: dec.induct)
  case (1 n)
  have d: "hex_digit (digit_char d) = Some d" if "d < 10" for d
    using that by (simp add: hex_digit_def dec_digit_def [symmetric])
  show ?case
  proof (cases "n < 10")
    case True
    then have "n \<le> n * n" "n \<le> 65535" by simp_all
    then show ?thesis using True by (intro exI [of _ n]) (simp add: dec.simps [of n] d pton6_loop.simps(2))
  next
    case False
    let ?q = "n div 10" and ?r = "n mod 10"
    obtain v where v: "v \<le> ?q * ?q"
      "pton6_loop (dec ?q @ digit_char ?r # rest) cur False 0 bs cp = pton6_loop (digit_char ?r # rest) cur True v bs cp"
      using 1(1) [OF False _, of "digit_char ?r # rest"] div_le_dividend [of n 10] 1(2) le_less_trans by blast
    have "?q \<le> 25" "?r \<le> 9" using 1(2) by auto
    then have "v \<le> 25 * 25" using v(1) by (meson le_trans mult_le_mono)
    then have small: "v * 16 + ?r \<le> 65535" using \<open>?r \<le> 9\<close> by simp
    have "v * 16 + r \<le> (10 * q + r) * (10 * q + r)" if "v \<le> q * q" for q r :: nat
    proof -
      have "r \<le> r * r" by (cases r) simp_all
      moreover have "v * 16 \<le> (q * q) * 100" using that by linarith
      moreover have "(10 * q + r) * (10 * q + r) = (q * q) * 100 + 20 * q * r + r * r" by (simp add: algebra_simps)
      ultimately show ?thesis by linarith
    qed
    from this [OF v(1), of ?r] have "v * 16 + ?r \<le> n * n" by simp
    moreover have "pton6_loop (dec n @ rest) cur False 0 bs cp = pton6_loop rest cur True (v * 16 + ?r) bs cp"
      using v(2) False small by (simp add: dec.simps [of n] d pton6_loop.simps(2))
    ultimately show ?thesis by blast
  qed
qed

lemma pton6_quad:
  assumes "length q = 4" "length bs \<le> 12"
  shows "pton6_loop (quad q) (quad q) False 0 bs cp = pton6_finish False 0 (bs @ q) cp"
proof -
  let ?rest = "''.'' @ dec (unat (q ! 1)) @ ''.'' @ dec (unat (q ! 2)) @ ''.'' @ dec (unat (q ! 3))"
  obtain v where v: "pton6_loop (quad q) (quad q) False 0 bs cp = pton6_loop ?rest (quad q) True v bs cp"
    using pton6_dec [OF unat_u8_bound [of "q ! 0"], of ?rest "quad q" bs cp] unfolding quad_def by blast
  have "hex_digit CHR ''.'' = None" by code_simp
  then show ?thesis
    using assms unfolding v by (simp add: pton6_loop.simps(2) pton4_quad IN6ADDRSZ_def INADDRSZ_def pton6_finish_def)
qed

lemma in_run_simps [simp]:
  "in_run None i = False" "in_run (Some (b, l)) i = (b \<le> i \<and> i < b + l)"
  by (simp_all add: in_run_def)

lemma pton6_colon:
  "pton6_loop (CHR '':'' # src) cur False v bs None = pton6_loop src src False v bs (Some (length bs))"
  "length bs \<le> 14 \<Longrightarrow>
     pton6_loop (CHR '':'' # src) cur True v bs cp = pton6_loop src src False 0 (bs @ word_bytes v) cp"
proof -
  have "hex_digit CHR '':'' = None" by code_simp
  then show "pton6_loop (CHR '':'' # src) cur False v bs None = pton6_loop src src False v bs (Some (length bs))"
    "length bs \<le> 14 \<Longrightarrow>
     pton6_loop (CHR '':'' # src) cur True v bs cp = pton6_loop src src False 0 (bs @ word_bytes v) cp"
    by (simp_all add: IN6ADDRSZ_def INT16SZ_def pton6_loop.simps)
qed

lemma pton6_end:
  "pton6_loop [] cur saw v bs cp = pton6_finish saw v bs cp"
  "length bs \<le> 14 \<Longrightarrow> pton6_finish True v bs cp = pton6_finish False 0 (bs @ word_bytes v) cp"
  "length bs = 16 \<Longrightarrow> pton6_finish False v bs None = Some bs"
  "k \<le> length bs \<Longrightarrow> length bs < 16 \<Longrightarrow>
     pton6_finish False v bs (Some k) = Some (take k bs @ replicate (16 - length bs) 0 @ drop k bs)"
  by (simp_all add: pton6_finish_def IN6ADDRSZ_def INT16SZ_def shift_tail_room pton6_loop.simps(1))

lemma pton6_double: "inet_pton6 (CHR '':'' # CHR '':'' # src) = pton6_loop src src False 0 [] (Some 0)"
  using pton6_colon(1) [of src _ 0 "[]"] by (simp add: inet_pton6_def)

lemma word_bytes_simps [simp]: "length (word_bytes w) = 2" "word_bytes 0 = [0, 0]" "word_bytes 65535 = [255, 255]"
  by (simp_all add: word_bytes_def)

lemmas pton6_read = pton6_hex pton6_hex_end pton6_start pton6_start [where rest = "[]", simplified] pton6_colon
  pton6_end pton6_double

lemma words_ex:
  assumes "length a = 16"
  shows "\<exists>w0 w1 w2 w3 w4 w5 w6 w7. words_of a = [w0, w1, w2, w3, w4, w5, w6, w7] \<and>
    a = concat (map word_bytes [w0, w1, w2, w3, w4, w5, w6, w7]) \<and>
    list_all (\<lambda>w. w < 65536) [w0, w1, w2, w3, w4, w5, w6, w7]"
proof -
  obtain w0 w1 w2 w3 w4 w5 w6 w7 where w: "words_of a = [w0, w1, w2, w3, w4, w5, w6, w7]"
    using words_of_bytes(2) [OF assms] by (auto simp: length_Suc_conv eval_nat_numeral)
  have "a = concat (map word_bytes (words_of a))" "list_all (\<lambda>w. w < 65536) (words_of a)"
    using words_of_bytes(1,3) [OF assms] by (simp_all add: list_all_iff)
  with w show ?thesis by metis
qed

lemma zeros: "replicate 4 x = [x, x, x, x]" "replicate 6 x = [x, x, x, x, x, x]" "replicate 8 x = [x, x, x, x, x, x, x, x]"
  "replicate 10 x = [x, x, x, x, x, x, x, x, x, x]" "replicate 12 x = [x, x, x, x, x, x, x, x, x, x, x, x]"
  "replicate 14 x = [x, x, x, x, x, x, x, x, x, x, x, x, x, x]"
  "replicate 16 x = [x, x, x, x, x, x, x, x, x, x, x, x, x, x, x, x]"
  by (simp_all add: numeral_eq_Suc)

lemma upto_8: "[0..<8] = [0, 1, 2, 3, 4, 5, 6, 7 :: nat]"
  by (simp add: upt_rec)

text \<open>Without a run of zeros the text has all eight words.\<close>

lemma ntop6_none:
  assumes "best_run 0 (words_of a) None None = None" "length a = 16"
  shows "inet_pton6 (ntop6_text a) = Some a"
proof -
  obtain w0 w1 w2 w3 w4 w5 w6 w7 where w: "words_of a = [w0, w1, w2, w3, w4, w5, w6, w7]"
    and a: "a = concat (map word_bytes [w0, w1, w2, w3, w4, w5, w6, w7])"
    and b: "list_all (\<lambda>w. w < 65536) [w0, w1, w2, w3, w4, w5, w6, w7]"
    using words_ex [OF assms(2)] by blast
  have "ntop6_text a = hex w0 @ CHR '':'' # hex w1 @ CHR '':'' # hex w2 @ CHR '':'' # hex w3 @ CHR '':'' #
      hex w4 @ CHR '':'' # hex w5 @ CHR '':'' # hex w6 @ CHR '':'' # hex w7"
    unfolding ntop6_text_def Let_def assms(1) upto_8 unfolding w
    by (simp add: encapsulated_def)
  then show ?thesis using b by (simp add: pton6_read) (simp add: a)
qed

text \<open>The text with the words \<open>b\<close> to \<open>b + l - 1\<close> left out.\<close>

lemma ntop6_some:
  assumes "best_run 0 (words_of a) None None = Some (b, l)" "\<not> encapsulated (words_of a) (Some (b, l))" "length a = 16"
  shows "inet_pton6 (ntop6_text a) = Some a"
proof -
  obtain w0 w1 w2 w3 w4 w5 w6 w7 where w: "words_of a = [w0, w1, w2, w3, w4, w5, w6, w7]"
    and a: "a = concat (map word_bytes [w0, w1, w2, w3, w4, w5, w6, w7])"
    and lt: "list_all (\<lambda>w. w < 65536) [w0, w1, w2, w3, w4, w5, w6, w7]"
    using words_ex [OF assms(3)] by blast
  have z: "zero_run (words_of a) 8 (Some (b, l))" "2 \<le> l"
    using best_run_zero [of "words_of a" 0 None None "words_of a"] assms(1) words_of_bytes(2) [OF assms(3)]
    by (simp_all add: zero_run_def)
  have t: "ntop6_text a = ntop6_loop a (words_of a) (Some (b, l)) [0, 1, 2, 3, 4, 5, 6, 7] @
      (if b + l = 8 then '':'' else [])"
    unfolding ntop6_text_def Let_def assms(1) upto_8 by simp
  have "list_all (\<lambda>j. b \<le> j \<and> j < b + l \<longrightarrow> words_of a ! j = 0) [0, 1, 2, 3, 4, 5, 6, 7]"
    using z(1) by (simp add: zero_run_def)
  then have zero: "b = 0 \<Longrightarrow> w0 = 0" "b \<le> 1 \<Longrightarrow> 1 < b + l \<Longrightarrow> w1 = 0" "b \<le> 2 \<Longrightarrow> 2 < b + l \<Longrightarrow> w2 = 0"
    "b \<le> 3 \<Longrightarrow> 3 < b + l \<Longrightarrow> w3 = 0" "b \<le> 4 \<Longrightarrow> 4 < b + l \<Longrightarrow> w4 = 0" "b \<le> 5 \<Longrightarrow> 5 < b + l \<Longrightarrow> w5 = 0"
    "b \<le> 6 \<Longrightarrow> 6 < b + l \<Longrightarrow> w6 = 0" "b \<le> 7 \<Longrightarrow> 7 < b + l \<Longrightarrow> w7 = 0"
    using z(2) by (simp_all add: w)
  have "b + l \<le> 8" using z(1) by (simp add: zero_run_def)
  then have "b \<in> {0, 1, 2, 3, 4, 5, 6}" "l \<in> {2, 3, 4, 5, 6, 7, 8}" using z(2) by auto
  then show ?thesis
    unfolding t using \<open>b + l \<le> 8\<close> zero lt assms(2) unfolding w
    by (elim insertE emptyE; simp add: pton6_read; simp add: a zeros)
qed

text \<open>The text of an IPv4 address encapsulated in an IPv6 address.\<close>

lemma ntop6_quad:
  assumes "best_run 0 (words_of a) None None = Some (b, l)" "encapsulated (words_of a) (Some (b, l))" "length a = 16"
  shows "inet_pton6 (ntop6_text a) = Some a"
proof -
  obtain w0 w1 w2 w3 w4 w5 w6 w7 where w: "words_of a = [w0, w1, w2, w3, w4, w5, w6, w7]"
    and a: "a = concat (map word_bytes [w0, w1, w2, w3, w4, w5, w6, w7])"
    and lt: "list_all (\<lambda>w. w < 65536) [w0, w1, w2, w3, w4, w5, w6, w7]"
    using words_ex [OF assms(3)] by blast
  have z: "zero_run (words_of a) 8 (Some (b, l))"
    using best_run_zero [of "words_of a" 0 None None "words_of a"] assms(1) words_of_bytes(2) [OF assms(3)]
    by (simp add: zero_run_def)
  have t: "ntop6_text a = ntop6_loop a (words_of a) (Some (b, l)) [0, 1, 2, 3, 4, 5, 6, 7] @
      (if b + l = 8 then '':'' else [])"
    unfolding ntop6_text_def Let_def assms(1) upto_8 by simp
  have b: "b = 0" "l = 6 \<or> l = 5 \<and> w5 = 65535" using assms(2) by (auto simp: encapsulated_def w)
  have "list_all (\<lambda>j. j < l \<longrightarrow> words_of a ! j = 0) [0, 1, 2, 3, 4, 5]"
    using z b(1) by (simp add: zero_run_def)
  then have zero: "w0 = 0" "w1 = 0" "w2 = 0" "w3 = 0" "w4 = 0" "l = 6 \<Longrightarrow> w5 = 0" using b(2) by (auto simp: w)
  define q where "q = drop 12 a"
  have q: "length q = 4" "word_bytes w6 @ word_bytes w7 = q" using assms(3) by (simp_all add: q_def a)
  from b(2) show ?thesis
  proof
    assume l: "l = 6"
    have "ntop6_text a = CHR '':'' # CHR '':'' # quad q"
      unfolding t using zero b l assms(2) by (simp add: w q_def)
    then show ?thesis using q zero l by (simp add: pton6_double pton6_quad pton6_end a zeros)
  next
    assume l: "l = 5 \<and> w5 = 65535"
    then have "ntop6_text a = CHR '':'' # CHR '':'' # hex 65535 @ CHR '':'' # quad q"
      unfolding t using zero b assms(2) by (simp add: w q_def)
    then show ?thesis using q zero l by (simp add: pton6_double pton6_hex pton6_colon pton6_quad pton6_end a zeros)
  qed
qed

lemma pton6_ntop6: "length a = 16 \<Longrightarrow> inet_pton6 (ntop6_text a) = Some a"
  by (cases "best_run 0 (words_of a) None None") (use ntop6_none ntop6_some ntop6_quad in \<open>force+\<close>)

text \<open>C24. What \<^verbatim>\<open>inet_ntop\<close> prints, \<^verbatim>\<open>inet_pton\<close> reads back as the address it came from, for every IPv4 and
  every IPv6 address, with its longest run of zeros left out, and also where an IPv4 address stands in it.\<close>

theorem pton_ntop:
  assumes "length a = (if af = AF_INET then 4 else 16)" "inet_ntop af a room = Some s"
  shows "inet_pton af s = Inr (Some a)"
proof (cases af)
  case AF_INET
  with assms show ?thesis
    by (auto simp: inet_ntop_def inet_ntop4_def inet_pton_def pton4_quad split: if_splits)
next
  case AF_INET6
  then have "s = ntop6_text a" "length a = 16"
    using assms by (auto simp: inet_ntop_def inet_ntop6_def split: if_splits)
  with AF_INET6 show ?thesis by (simp add: inet_pton_def pton6_ntop6)
next
  case (AF_other x)
  with assms show ?thesis by (simp add: inet_ntop_def)
qed

lemma pton_ntop_witness:
  "inet_ntop AF_INET6 [0, 0, 0, 0, 0, 0, 0, 0, 0, 0, 255, 255, 10, 0, 2, 15] 46 = Some ''::ffff:10.0.2.15'' \<and>
   inet_pton AF_INET6 ''::ffff:10.0.2.15'' = Inr (Some [0, 0, 0, 0, 0, 0, 0, 0, 0, 0, 255, 255, 10, 0, 2, 15])"
proof -
  have "inet_ntop AF_INET6 [0, 0, 0, 0, 0, 0, 0, 0, 0, 0, 255, 255, 10, 0, 2, 15] 46 = Some ''::ffff:10.0.2.15''"
    by code_simp
  then show ?thesis using pton_ntop [of "[0, 0, 0, 0, 0, 0, 0, 0, 0, 0, 255, 255, 10, 0, 2, 15]" AF_INET6 46] by simp
qed

interpretation ip6: text_codec "\<lambda>a. length a = 16" ntop6_text inet_pton6
  by unfold_locales (rule pton6_ntop6)

lemma cmp_sign_0: "cmp_sign xs ys = 0 \<longleftrightarrow> xs = ys"
  by (induction xs ys rule: cmp_sign.induct) auto

lemma ntop4_length: "length a = 4 \<Longrightarrow> length (quad a) \<le> 15"
proof -
  have "length (dec n) \<le> 3" if "n < 256" for n
  proof -
    have "n div 10 div 10 < 10" using that by simp
    then show ?thesis by (cases "n < 10"; cases "n div 10 < 10") (simp_all add: dec.simps [of n] dec.simps [of "n div 10"] dec.simps [of "n div 10 div 10"])
  qed
  then have "length (dec (unat (b :: byte))) \<le> 3" for b using unat_u8_bound [of b] by simp
  from this [of "a ! 0"] this [of "a ! 1"] this [of "a ! 2"] this [of "a ! 3"] show ?thesis by (simp add: quad_def)
qed

lemma hex_length: "n < 65536 \<Longrightarrow> length (hex n) \<le> 4"
proof -
  assume "n < 65536"
  then have "n div 16 div 16 div 16 < 16" by simp
  then show ?thesis
    by (cases "n < 16"; cases "n div 16 < 16"; cases "n div 16 div 16 < 16")
       (simp_all add: hex.simps [of n] hex.simps [of "n div 16"] hex.simps [of "n div 16 div 16"]
         hex.simps [of "n div 16 div 16 div 16"])
qed

lemma ntop6_loop_length:
  assumes "length a = 16" "list_all (\<lambda>w. w < 65536) ws" "list_all (\<lambda>i. i < length ws) is"
  shows "length (ntop6_loop a ws best is) \<le> 5 * length is + 16"
  using assms(3)
proof (induction "is")
  case (Cons i "is")
  have "length (hex (ws ! i)) \<le> 4" using Cons.prems assms(2) by (intro hex_length) (auto simp: list_all_length)
  moreover have "length (quad (drop 12 a)) \<le> 15" using assms(1) by (intro ntop4_length) simp
  ultimately show ?case using Cons by auto
qed simp

lemma ntop6_length:
  assumes "length a = 16"
  shows "length (ntop6_text a) \<le> 57"
proof -
  have len: "length (ntop6_loop a (words_of a) b [0..<8]) \<le> 56" for b
    using ntop6_loop_length [OF assms, of "words_of a" "[0..<8]" b] words_of_bytes(2,3) [OF assms]
    by (simp add: list_all_iff)
  have "length (ntop6_loop a (words_of a) b [0..<8]) \<le> 57" for b using len [of b] by simp
  with len show ?thesis unfolding ntop6_text_def Let_def by (auto split: option.splits)
qed

text \<open>Two IPv4 addresses, or two IPv6 addresses, compare equal with
  \<^verbatim>\<open>sock_cmp_addr\<close> exactly when \<^verbatim>\<open>sock_ntop_host\<close> prints them alike, whatever their ports; and it always prints
  them.\<close>

theorem same_address_same_text:
  assumes "length a = 4" "length b = 4" "length c = 16" "length d = 16"
  shows "(sock_cmp_addr (Sin a p) (Sin b q) = 0 \<longleftrightarrow> sock_ntop_host (Sin a p) n = sock_ntop_host (Sin b q) m) \<and>
    (sock_cmp_addr (Sin6 c p) (Sin6 d q) = 0 \<longleftrightarrow> sock_ntop_host (Sin6 c p) n = sock_ntop_host (Sin6 d q) m) \<and>
    sock_ntop_host (Sin a p) n \<noteq> None \<and> sock_ntop_host (Sin6 c p) n \<noteq> None"
proof -
  have inj: "map unat xs = map unat ys \<longleftrightarrow> xs = ys" for xs ys :: "byte list"
    by (rule inj_map_eq_map) (simp add: inj_def word_unat_eq_iff)
  have "sock_ntop_host (Sin x p) n = Some (quad x)" if "length x = 4" for x p n
    using ntop4_length [OF that] by (simp add: sock_ntop_host_def inet_ntop_def inet_ntop4_def)
  moreover have "sock_ntop_host (Sin6 x p) n = Some (ntop6_text x)" if "length x = 16" for x p n
    using ntop6_length [OF that] by (simp add: sock_ntop_host_def inet_ntop_def inet_ntop6_def)
  moreover have "quad a = quad b \<longleftrightarrow> a = b" using assms(1,2) by (rule quads.enc_inj)
  moreover have "ntop6_text c = ntop6_text d \<longleftrightarrow> c = d" using assms(3,4) by (rule ip6.enc_inj)
  ultimately show ?thesis using assms by (simp add: sock_cmp_addr_def cmp_sign_0 inj)
qed

lemma same_address_same_text_witness:
  "sock_ntop_host (Sin [10, 0, 2, 15] 80) 16 = sock_ntop_host (Sin [10, 0, 2, 15] 443) 16 \<and>
   sock_ntop_host (Sin [10, 0, 2, 15] 80) 16 \<noteq> sock_ntop_host (Sin [10, 0, 2, 16] 80) 16"
  using same_address_same_text [of "[10, 0, 2, 15]" "[10, 0, 2, 15]" "replicate 16 0" "replicate 16 0" 80 443 16 16]
    same_address_same_text [of "[10, 0, 2, 15]" "[10, 0, 2, 16]" "replicate 16 0" "replicate 16 0" 80 80 16 16]
  by (simp add: sock_cmp_addr_def cmp_sign_0)

end
