(* ===== verification/Unp_Nonb.thy ===== *)
theory Unp_Nonb
  imports Prelude
begin

text \<open>
  The echo client with nonblocking input and output,
  \<^verbatim>\<open>src/unpv13e-master/nonblock/strclinonb.c\<close>: two buffers, from the standard input to the
  socket and from the socket to the standard output, each filled at one pointer and emptied at the other.
  One iteration of the loop is a function of the state and of what the system calls return in it.
  \<^verbatim>\<open>Select\<close>, \<^verbatim>\<open>Fcntl\<close> and \<^verbatim>\<open>Shutdown\<close>, which exit on an error, are taken to succeed.
\<close>

section \<open>The buffers\<close>

text \<open>The array and the two pointers into it, as indices.\<close>

record nbuf =
  arr :: string
  iptr :: nat
  optr :: nat

definition NB_MAXLINE :: nat where "NB_MAXLINE = 4096"

definition nbuf_empty :: "string \<Rightarrow> nbuf" where
  "nbuf_empty a = \<lparr>arr = a, iptr = 0, optr = 0\<rparr>"

text \<open>The bytes between the pointers.\<close>

definition held :: "nbuf \<Rightarrow> string" where
  "held b = take (iptr b - optr b) (drop (optr b) (arr b))"

text \<open>What \<^verbatim>\<open>read\<close> stores at the input pointer.\<close>

definition put_bytes :: "string \<Rightarrow> nbuf \<Rightarrow> nbuf" where
  "put_bytes d b = b\<lparr>arr := take (iptr b) (arr b) @ d @ drop (iptr b + length d) (arr b), iptr := iptr b + length d\<rparr>"

text \<open>What \<^verbatim>\<open>write\<close> took; an emptied buffer starts again at its beginning.\<close>

definition drop_bytes :: "nat \<Rightarrow> nbuf \<Rightarrow> nbuf" where
  "drop_bytes k b =
     (let b' = b\<lparr>optr := optr b + k\<rparr> in if optr b' = iptr b' then b'\<lparr>iptr := 0, optr := 0\<rparr> else b')"

section \<open>One iteration\<close>

record nstate =
  to_buf :: nbuf
  fr_buf :: nbuf
  stdineof :: bool

text \<open>What \<^verbatim>\<open>read\<close> and \<^verbatim>\<open>write\<close> return on a nonblocking descriptor: at most \<open>room\<close> bytes are read, at
  most what is offered is written.\<close>

datatype nread = NData string | NEof | NAgain | NErr

datatype nwrite = NWrote nat | NwAgain | NwErr

record nb_env =
  stdin_ready :: bool
  sock_readable :: bool
  stdout_ready :: bool
  sock_writable :: bool
  stdin_read :: "nat \<Rightarrow> nread"
  sock_read :: "nat \<Rightarrow> nread"
  stdout_write :: "string \<Rightarrow> nwrite"
  sock_write :: "string \<Rightarrow> nwrite"

text \<open>The calls of an iteration that moved bytes or ended a stream, in their order.\<close>

datatype nb_call = FromStdin string | EofStdin | FromSock string | EofSock | ToSock string | ToStdout string | Shutdown_wr

datatype nb_end = Goes | NormalEnd | ErrSys string | ErrQuit string

text \<open>Where the iteration stands after each part: the state, whether it goes on and its calls.  The reads also
  say whether they set the bit of the descriptor they feed in the write set.\<close>

type_synonym nb_step = "nstate \<times> nb_end \<times> nb_call list"

definition nb_stdin :: "nb_env \<Rightarrow> nstate \<Rightarrow> nb_step \<times> bool" where
  "nb_stdin e s =
     (let b = to_buf s in
      case stdin_read e (NB_MAXLINE - iptr b) of
        NErr \<Rightarrow> ((s, ErrSys ''read error on stdin'', []), False)
      | NAgain \<Rightarrow> ((s, Goes, []), False)
      | NEof \<Rightarrow> ((s\<lparr>stdineof := True\<rparr>, Goes, EofStdin # (if optr b = iptr b then [Shutdown_wr] else [])), False)
      | NData d \<Rightarrow> ((s\<lparr>to_buf := put_bytes d b\<rparr>, Goes, [FromStdin d]), True))"

definition nb_sock :: "nb_env \<Rightarrow> nstate \<Rightarrow> nb_step \<times> bool" where
  "nb_sock e s =
     (let b = fr_buf s in
      case sock_read e (NB_MAXLINE - iptr b) of
        NErr \<Rightarrow> ((s, ErrSys ''read error on socket'', []), False)
      | NAgain \<Rightarrow> ((s, Goes, []), False)
      | NEof \<Rightarrow>
          ((s, if stdineof s then NormalEnd else ErrQuit ''str_cli: server terminated prematurely'', [EofSock]), False)
      | NData d \<Rightarrow> ((s\<lparr>fr_buf := put_bytes d b\<rparr>, Goes, [FromSock d]), True))"

definition nb_stdout :: "nb_env \<Rightarrow> nstate \<Rightarrow> nb_step" where
  "nb_stdout e s =
     (let b = fr_buf s in
      if iptr b - optr b = 0 then (s, Goes, [])
      else case stdout_write e (held b) of
        NwErr \<Rightarrow> (s, ErrSys ''write error to stdout'', [])
      | NwAgain \<Rightarrow> (s, Goes, [])
      | NWrote k \<Rightarrow> (s\<lparr>fr_buf := drop_bytes k b\<rparr>, Goes, [ToStdout (take k (held b))]))"

definition nb_send :: "nb_env \<Rightarrow> nstate \<Rightarrow> nb_step" where
  "nb_send e s =
     (let b = to_buf s in
      if iptr b - optr b = 0 then (s, Goes, [])
      else case sock_write e (held b) of
        NwErr \<Rightarrow> (s, ErrSys ''write error to socket'', [])
      | NwAgain \<Rightarrow> (s, Goes, [])
      | NWrote k \<Rightarrow>
          (s\<lparr>to_buf := drop_bytes k b\<rparr>, Goes,
           ToSock (take k (held b)) # (if optr b + k = iptr b \<and> stdineof s then [Shutdown_wr] else [])))"

text \<open>A part runs when its bit is set and the function has not ended; otherwise nothing happens.\<close>

definition nb_when :: "bool \<Rightarrow> (nstate \<Rightarrow> nb_step) \<Rightarrow> nb_step \<Rightarrow> nb_step" where
  "nb_when on part st =
     (case st of
        (s, Goes, out) \<Rightarrow>
          if on then (case part s of (s', r, out') \<Rightarrow> (s', r, out @ out')) else st
      | _ \<Rightarrow> st)"

text \<open>The sets for \<^verbatim>\<open>select\<close> are computed from the state at the top of the loop; a bit is set on return
  when the descriptor is ready and was asked for, or when the read above has set it.\<close>

definition nb_iter :: "nb_env \<Rightarrow> nstate \<Rightarrow> nb_step" where
  "nb_iter e s0 =
     (let r_stdin = (\<not> stdineof s0 \<and> iptr (to_buf s0) < NB_MAXLINE \<and> stdin_ready e);
          r_sock = (iptr (fr_buf s0) < NB_MAXLINE \<and> sock_readable e);
          w_sock = (optr (to_buf s0) \<noteq> iptr (to_buf s0) \<and> sock_writable e);
          w_out = (optr (fr_buf s0) \<noteq> iptr (fr_buf s0) \<and> stdout_ready e);
          st0 = (s0, Goes, []);
          st1 = nb_when r_stdin (\<lambda>s. fst (nb_stdin e s)) st0;
          w_sock' = (w_sock \<or> r_stdin \<and> snd (nb_stdin e s0));
          st2 = nb_when r_sock (\<lambda>s. fst (nb_sock e s)) st1;
          w_out' = (w_out \<or> r_sock \<and> snd (nb_sock e (fst st1)));
          st3 = nb_when w_out' (nb_stdout e) st2
      in nb_when w_sock' (nb_send e) st3)"

text \<open>The loop, over what the system does in each iteration; the script ends where the observation does.\<close>

fun nb_loop :: "nb_env list \<Rightarrow> nstate \<Rightarrow> nb_step" where
  "nb_loop [] s = (s, Goes, [])"
| "nb_loop (e # es) s =
     (case nb_iter e s of
        (s', Goes, out) \<Rightarrow> (case nb_loop es s' of (s'', r, out') \<Rightarrow> (s'', r, out @ out'))
      | x \<Rightarrow> x)"

definition str_cli_nonb :: "string \<Rightarrow> string \<Rightarrow> nb_env list \<Rightarrow> nb_step" where
  "str_cli_nonb to_mem fr_mem es =
     nb_loop es \<lparr>to_buf = nbuf_empty to_mem, fr_buf = nbuf_empty fr_mem, stdineof = False\<rparr>"

end
