(* ===== verification/Unp_Nonb_Props.thy ===== *)
theory Unp_Nonb_Props
  imports Unp_Nonb
begin

text \<open>The nonblocking client as two first-in first-out channels: nothing is lost, doubled or reordered while
  it runs, and the half-close goes out once and behind the last byte.\<close>

section \<open>The buffers\<close>

definition nbuf_ok :: "nbuf \<Rightarrow> bool" where
  "nbuf_ok b \<longleftrightarrow> optr b \<le> iptr b \<and> iptr b \<le> length (arr b) \<and> length (arr b) = NB_MAXLINE"

lemma length_held: "nbuf_ok b \<Longrightarrow> length (held b) = iptr b - optr b"
  by (auto simp: nbuf_ok_def held_def min_def)

lemma held_nil: "nbuf_ok b \<Longrightarrow> held b = [] \<longleftrightarrow> optr b = iptr b"
  using length_held [of b] by (auto simp: nbuf_ok_def simp flip: length_0_conv)

lemma put_bytes:
  assumes "nbuf_ok b" "length d \<le> NB_MAXLINE - iptr b"
  shows "held (put_bytes d b) = held b @ d" "nbuf_ok (put_bytes d b)"
  using assms by (auto simp: nbuf_ok_def held_def put_bytes_def drop_take)

lemma drop_bytes:
  assumes "nbuf_ok b" "k \<le> length (held b)"
  shows "held (drop_bytes k b) = drop k (held b)" "nbuf_ok (drop_bytes k b)"
  using assms by (auto simp: nbuf_ok_def held_def drop_bytes_def Let_def drop_take add.commute)

section \<open>The invariant\<close>

definition from_stdin :: "nb_call list \<Rightarrow> string" where
  "from_stdin tr = concat (map (\<lambda>a. case a of FromStdin d \<Rightarrow> d | _ \<Rightarrow> []) tr)"

definition from_sock :: "nb_call list \<Rightarrow> string" where
  "from_sock tr = concat (map (\<lambda>a. case a of FromSock d \<Rightarrow> d | _ \<Rightarrow> []) tr)"

definition to_sock :: "nb_call list \<Rightarrow> string" where
  "to_sock tr = concat (map (\<lambda>a. case a of ToSock d \<Rightarrow> d | _ \<Rightarrow> []) tr)"

definition to_stdout :: "nb_call list \<Rightarrow> string" where
  "to_stdout tr = concat (map (\<lambda>a. case a of ToStdout d \<Rightarrow> d | _ \<Rightarrow> []) tr)"

definition fins :: "nb_call list \<Rightarrow> nat" where
  "fins tr = length (filter (\<lambda>a. a = Shutdown_wr) tr)"

lemmas call_defs = from_stdin_def from_sock_def to_sock_def to_stdout_def fins_def

lemma calls_cons [simp]:
  "from_stdin [] = []" "from_sock [] = []" "to_sock [] = []" "to_stdout [] = []" "fins [] = 0"
  "from_stdin (a # tr) = (case a of FromStdin d \<Rightarrow> d | _ \<Rightarrow> []) @ from_stdin tr"
  "from_sock (a # tr) = (case a of FromSock d \<Rightarrow> d | _ \<Rightarrow> []) @ from_sock tr"
  "to_sock (a # tr) = (case a of ToSock d \<Rightarrow> d | _ \<Rightarrow> []) @ to_sock tr"
  "to_stdout (a # tr) = (case a of ToStdout d \<Rightarrow> d | _ \<Rightarrow> []) @ to_stdout tr"
  "fins (a # tr) = (if a = Shutdown_wr then 1 else 0) + fins tr"
  by (simp_all add: call_defs)

lemma calls_append [simp]:
  "from_stdin (a @ b) = from_stdin a @ from_stdin b" "from_sock (a @ b) = from_sock a @ from_sock b"
  "to_sock (a @ b) = to_sock a @ to_sock b" "to_stdout (a @ b) = to_stdout a @ to_stdout b" "fins (a @ b) = fins a + fins b"
  by (simp_all add: call_defs)

text \<open>What the kernel promises: a read gives at least one byte and no more than there is room for, a write
  takes no more than it is offered.\<close>

definition env_ok :: "nb_env \<Rightarrow> bool" where
  "env_ok e \<longleftrightarrow>
     (\<forall>n d. stdin_read e n = NData d \<longrightarrow> d \<noteq> [] \<and> length d \<le> n) \<and>
     (\<forall>n d. sock_read e n = NData d \<longrightarrow> d \<noteq> [] \<and> length d \<le> n) \<and>
     (\<forall>d k. stdout_write e d = NWrote k \<longrightarrow> k \<le> length d) \<and>
     (\<forall>d k. sock_write e d = NWrote k \<longrightarrow> k \<le> length d)"

definition nb_inv :: "nstate \<Rightarrow> nb_call list \<Rightarrow> bool" where
  "nb_inv s tr \<longleftrightarrow>
     nbuf_ok (to_buf s) \<and> nbuf_ok (fr_buf s) \<and>
     from_stdin tr = to_sock tr @ held (to_buf s) \<and>
     from_sock tr = to_stdout tr @ held (fr_buf s) \<and>
     fins tr = (if stdineof s \<and> held (to_buf s) = [] then 1 else 0) \<and>
     to_sock (dropWhile (\<lambda>a. a \<noteq> Shutdown_wr) tr) = []"

text \<open>Before the half-close the calls behind it are those of the new part.\<close>

lemma after_fin_none: "fins tr = 0 \<Longrightarrow> dropWhile (\<lambda>a. a \<noteq> Shutdown_wr) (tr @ out) = dropWhile (\<lambda>a. a \<noteq> Shutdown_wr) out"
  by (induction tr) (auto split: if_splits)

lemma after_fin_append:
  "to_sock (dropWhile (\<lambda>a. a \<noteq> Shutdown_wr) tr) = [] \<Longrightarrow> to_sock out = [] \<Longrightarrow>
   to_sock (dropWhile (\<lambda>a. a \<noteq> Shutdown_wr) (tr @ out)) = []"
proof (induction tr)
  case Nil
  have "to_sock (dropWhile P out) = []" if "to_sock out = []" for P and out :: "nb_call list"
    using that by (induction out) auto
  with Nil show ?case by simp
qed auto

lemma nb_stdin_keeps:
  assumes "env_ok e" "nb_inv s tr" "\<not> stdineof s" "fst (nb_stdin e s) = (s', r, out)"
  shows "nb_inv s' (tr @ out)"
proof -
  have ok: "nbuf_ok (to_buf s)" and f: "fins tr = 0" using assms(2,3) by (simp_all add: nb_inv_def)
  show ?thesis
  proof (cases "stdin_read e (NB_MAXLINE - iptr (to_buf s))")
    case (NData d)
    then have "length d \<le> NB_MAXLINE - iptr (to_buf s)" using assms(1) by (auto simp: env_ok_def)
    from put_bytes [OF ok this] show ?thesis
      using assms(2-4) NData f by (auto simp: nb_stdin_def nb_inv_def Let_def after_fin_append)
  next
    case NEof
    then show ?thesis
      using assms(2-4) f held_nil [OF ok]
      by (auto simp: nb_stdin_def nb_inv_def Let_def after_fin_none)
  qed (use assms in \<open>auto simp: nb_stdin_def\<close>)
qed

lemma nb_sock_keeps:
  assumes "env_ok e" "nb_inv s tr" "fst (nb_sock e s) = (s', r, out)"
  shows "nb_inv s' (tr @ out)"
proof -
  have ok: "nbuf_ok (fr_buf s)" using assms(2) by (simp add: nb_inv_def)
  show ?thesis
  proof (cases "sock_read e (NB_MAXLINE - iptr (fr_buf s))")
    case (NData d)
    then have "length d \<le> NB_MAXLINE - iptr (fr_buf s)" using assms(1) by (auto simp: env_ok_def)
    from put_bytes [OF ok this] show ?thesis
      using assms(2-3) NData by (auto simp: nb_sock_def nb_inv_def Let_def after_fin_append)
  next
    case NEof
    then show ?thesis
      using assms(2-3) by (auto simp: nb_sock_def nb_inv_def Let_def after_fin_append)
  qed (use assms in \<open>auto simp: nb_sock_def\<close>)
qed

lemma nb_stdout_keeps:
  assumes "env_ok e" "nb_inv s tr" "nb_stdout e s = (s', r, out)"
  shows "nb_inv s' (tr @ out)"
proof -
  have ok: "nbuf_ok (fr_buf s)" using assms(2) by (simp add: nb_inv_def)
  show ?thesis
  proof (cases "iptr (fr_buf s) - optr (fr_buf s) = 0")
    case False
    show ?thesis
    proof (cases "stdout_write e (held (fr_buf s))")
      case (NWrote k)
      then have "k \<le> length (held (fr_buf s))" using assms(1) by (auto simp: env_ok_def)
      from drop_bytes [OF ok this] show ?thesis
        using assms(2-3) NWrote False by (auto simp: nb_stdout_def nb_inv_def Let_def after_fin_append)
    qed (use assms False in \<open>auto simp: nb_stdout_def\<close>)
  qed (use assms in \<open>auto simp: nb_stdout_def\<close>)
qed

lemma nb_send_keeps:
  assumes "env_ok e" "nb_inv s tr" "nb_send e s = (s', r, out)"
  shows "nb_inv s' (tr @ out)"
proof -
  let ?b = "to_buf s"
  have ok: "nbuf_ok ?b" using assms(2) by (simp add: nb_inv_def)
  show ?thesis
  proof (cases "iptr ?b - optr ?b = 0")
    case False
    then have ne: "held ?b \<noteq> []" "optr ?b < iptr ?b" using length_held [OF ok] by auto
    then have f: "fins tr = 0" using assms(2) by (simp add: nb_inv_def)
    show ?thesis
    proof (cases "sock_write e (held ?b)")
      case (NWrote k)
      then have k: "k \<le> length (held ?b)" using assms(1) by (auto simp: env_ok_def)
      have "drop k (held ?b) = [] \<longleftrightarrow> optr ?b + k = iptr ?b" using k ne length_held [OF ok] by auto
      with drop_bytes [OF ok k] show ?thesis
        using assms(2-3) NWrote False f
        by (auto simp: nb_send_def nb_inv_def Let_def after_fin_none)
    qed (use assms False in \<open>auto simp: nb_send_def\<close>)
  qed (use assms in \<open>auto simp: nb_send_def\<close>)
qed

section \<open>The loop\<close>

definition step_inv :: "nb_call list \<Rightarrow> nb_step \<Rightarrow> bool" where
  "step_inv tr st \<longleftrightarrow> nb_inv (fst st) (tr @ snd (snd st))"

lemma nb_when_keeps:
  assumes "step_inv tr st"
    "\<And>s out s' r' out'. st = (s, Goes, out) \<Longrightarrow> on \<Longrightarrow> part s = (s', r', out') \<Longrightarrow> nb_inv s (tr @ out) \<Longrightarrow>
       nb_inv s' ((tr @ out) @ out')"
  shows "step_inv tr (nb_when on part st)"
proof -
  obtain s r out where st: "st = (s, r, out)" by (cases st) auto
  show ?thesis
  proof (cases "r = Goes \<and> on")
    case True
    obtain s' r' out' where p: "part s = (s', r', out')" by (cases "part s") auto
    have "nb_inv s' ((tr @ out) @ out')" using assms True st p by (auto simp: step_inv_def)
    with True st p show ?thesis by (simp add: nb_when_def step_inv_def)
  next
    case False
    then have "nb_when on part st = st" by (auto simp: nb_when_def st split: nb_end.splits)
    with assms(1) show ?thesis by simp
  qed
qed

lemma nb_iter_keeps:
  assumes "env_ok e" "nb_inv s tr"
  shows "step_inv tr (nb_iter e s)"
proof -
  let ?on = "\<not> stdineof s \<and> iptr (to_buf s) < NB_MAXLINE \<and> stdin_ready e"
  have stdin: "step_inv tr (nb_when ?on (\<lambda>s. fst (nb_stdin e s)) (s, Goes, []))"
    by (rule nb_when_keeps) (use assms nb_stdin_keeps [OF assms(1)] in \<open>auto simp: step_inv_def\<close>)
  have sock: "step_inv tr (nb_when on (\<lambda>s. fst (nb_sock e s)) st)" if "step_inv tr st" for on st
    by (rule nb_when_keeps [OF that], rule nb_sock_keeps [OF assms(1)])
  have stdout: "step_inv tr (nb_when on (nb_stdout e) st)" if "step_inv tr st" for on st
    by (rule nb_when_keeps [OF that], rule nb_stdout_keeps [OF assms(1)])
  have send: "step_inv tr (nb_when on (nb_send e) st)" if "step_inv tr st" for on st
    by (rule nb_when_keeps [OF that], rule nb_send_keeps [OF assms(1)])
  show ?thesis
    unfolding nb_iter_def Let_def by (rule send [OF stdout [OF sock [OF stdin]]])
qed

lemma nb_loop_keeps:
  assumes "list_all env_ok es" "nb_inv s tr"
  shows "step_inv tr (nb_loop es s)"
  using assms
proof (induction es arbitrary: s tr)
  case (Cons e es)
  obtain s' r out where i: "nb_iter e s = (s', r, out)" by (cases "nb_iter e s") auto
  have "nb_inv s' (tr @ out)" using nb_iter_keeps [of e s tr] Cons.prems i by (simp add: step_inv_def)
  moreover have "step_inv (tr @ out) (nb_loop es s')" if "r = Goes"
    using Cons.IH [of s' "tr @ out"] Cons.prems calculation by simp
  ultimately show ?case
    by (cases r) (auto simp: i step_inv_def split: prod.splits)
qed (simp add: step_inv_def)

lemma nb_start: "length a = NB_MAXLINE \<Longrightarrow> length b = NB_MAXLINE \<Longrightarrow>
    nb_inv \<lparr>to_buf = nbuf_empty a, fr_buf = nbuf_empty b, stdineof = False\<rparr> []"
  by (simp add: nb_inv_def nbuf_ok_def nbuf_empty_def held_def)

lemma str_cli_inv:
  assumes "length a = NB_MAXLINE" "length b = NB_MAXLINE" "list_all env_ok es"
    "str_cli_nonb a b es = (s, r, tr)"
  shows "nb_inv s tr"
  using nb_loop_keeps [OF assms(3) nb_start [OF assms(1,2)]] assms(4)
  by (simp add: str_cli_nonb_def step_inv_def)

text \<open>C25. The nonblocking client is a pair of first-in first-out channels, whatever pieces the reads and writes
  come in and whatever call would block: at every moment the bytes read from the standard input are those written
  to the socket and then those held in the first buffer, and likewise from the socket to the standard output;
  no pointer leaves its array.\<close>

theorem nonb_channels:
  assumes "length a = NB_MAXLINE" "length b = NB_MAXLINE" "list_all env_ok es"
    "str_cli_nonb a b es = (s, r, tr)"
  shows "from_stdin tr = to_sock tr @ held (to_buf s) \<and> from_sock tr = to_stdout tr @ held (fr_buf s) \<and>
    optr (to_buf s) \<le> iptr (to_buf s) \<and> iptr (to_buf s) \<le> NB_MAXLINE \<and>
    optr (fr_buf s) \<le> iptr (fr_buf s) \<and> iptr (fr_buf s) \<le> NB_MAXLINE"
  using str_cli_inv [OF assms] by (auto simp: nb_inv_def nbuf_ok_def)

text \<open>The half-close goes out exactly once, as soon as the standard input has ended and the first buffer is
  empty, and no byte is written to the socket after it.\<close>

theorem nonb_half_close:
  assumes "length a = NB_MAXLINE" "length b = NB_MAXLINE" "list_all env_ok es"
    "str_cli_nonb a b es = (s, r, tr)"
  shows "fins tr = (if stdineof s \<and> held (to_buf s) = [] then 1 else 0) \<and>
    to_sock (dropWhile (\<lambda>c. c \<noteq> Shutdown_wr) tr) = []"
  using str_cli_inv [OF assms] by (simp add: nb_inv_def)

section \<open>Runs\<close>

text \<open>Three environments: bytes come from both sides and the outputs would block; the standard input ends; the
  socket ends.\<close>

definition quiet :: nb_env where
  "quiet = \<lparr>stdin_ready = False, sock_readable = False, stdout_ready = False, sock_writable = False,
     stdin_read = (\<lambda>n. NAgain), sock_read = (\<lambda>n. NAgain), stdout_write = (\<lambda>d. NwAgain), sock_write = (\<lambda>d. NwAgain)\<rparr>"

definition types :: "string \<Rightarrow> nb_env" where
  "types d = quiet\<lparr>stdin_ready := True, stdin_read := (\<lambda>n. if d \<noteq> [] \<and> length d \<le> n then NData d else NAgain),
     sock_write := (\<lambda>d. NWrote (length d))\<rparr>"

definition replies :: "string \<Rightarrow> nb_env" where
  "replies d = quiet\<lparr>sock_readable := True, sock_read := (\<lambda>n. if d \<noteq> [] \<and> length d \<le> n then NData d else NAgain)\<rparr>"

definition input_ends :: nb_env where
  "input_ends = quiet\<lparr>stdin_ready := True, stdin_read := (\<lambda>n. NEof)\<rparr>"

definition peer_ends :: nb_env where
  "peer_ends = quiet\<lparr>sock_readable := True, sock_read := (\<lambda>n. NEof)\<rparr>"

lemmas run_defs = quiet_def types_def replies_def input_ends_def peer_ends_def

lemma runs_ok: "env_ok quiet" "env_ok (types d)" "env_ok (replies d)" "env_ok input_ends" "env_ok peer_ends"
  by (simp_all add: env_ok_def run_defs)

lemmas nb_defs = nb_iter_def nb_when_def nb_stdin_def nb_sock_def nb_stdout_def nb_send_def Let_def nbuf_empty_def
  held_def put_bytes_def drop_bytes_def NB_MAXLINE_def

lemma run_type_end:
  "snd (str_cli_nonb a b [types ''ab'', input_ends]) =
   (Goes, [FromStdin ''ab'', ToSock ''ab'', EofStdin, Shutdown_wr])"
  by (simp add: str_cli_nonb_def nb_defs run_defs)

lemma nonb_channels_witness:
  "\<exists>s. str_cli_nonb (replicate NB_MAXLINE (CHR ''x'')) (replicate NB_MAXLINE (CHR ''x'')) [types ''ab'', input_ends] =
     (s, Goes, [FromStdin ''ab'', ToSock ''ab'', EofStdin, Shutdown_wr]) \<and>
   ''ab'' = ''ab'' @ held (to_buf s)"
proof -
  let ?a = "replicate NB_MAXLINE (CHR ''x'')"
  obtain s where s: "str_cli_nonb ?a ?a [types ''ab'', input_ends] =
      (s, Goes, [FromStdin ''ab'', ToSock ''ab'', EofStdin, Shutdown_wr])"
    using run_type_end [of ?a ?a] by (metis prod.collapse)
  have "list_all env_ok [types ''ab'', input_ends]" by (simp add: runs_ok)
  from nonb_channels [OF _ _ this s] s show ?thesis by auto
qed

lemma nonb_half_close_witness:
  "fins [FromStdin ''ab'', ToSock ''ab'', EofStdin, Shutdown_wr] = 1"
proof -
  let ?a = "replicate NB_MAXLINE (CHR ''x'')"
  obtain s where s: "str_cli_nonb ?a ?a [types ''ab'', input_ends] =
      (s, Goes, [FromStdin ''ab'', ToSock ''ab'', EofStdin, Shutdown_wr])"
    using run_type_end [of ?a ?a] by (metis prod.collapse)
  have "list_all env_ok [types ''ab'', input_ends]" by (simp add: runs_ok)
  from nonb_half_close [OF _ _ this s] show ?thesis by (simp split: if_splits)
qed

text \<open>When the server ends the connection after the client's half-close, the client returns at once and
  drops what it still holds for the standard output: a reply that came while the output would block is lost,
  though the client ends normally.\<close>

theorem nonb_loses_output:
  assumes "d \<noteq> []" "length d < NB_MAXLINE"
  shows "\<exists>s tr. str_cli_nonb a b [replies d, input_ends, peer_ends] = (s, NormalEnd, tr) \<and>
    from_sock tr = d \<and> to_stdout tr = []"
proof -
  have "snd (str_cli_nonb a b [replies d, input_ends, peer_ends]) = (NormalEnd, [FromSock d, EofStdin, Shutdown_wr, EofSock])"
    using assms by (simp add: str_cli_nonb_def nb_defs run_defs)
  then show ?thesis
    by (intro exI [of _ "fst (str_cli_nonb a b [replies d, input_ends, peer_ends])"]
        exI [of _ "[FromSock d, EofStdin, Shutdown_wr, EofSock]"]) (simp add: prod_eq_iff)
qed

lemma nonb_loses_output_witness:
  "\<exists>s tr. str_cli_nonb [] [] [replies ''echo'', input_ends, peer_ends] = (s, NormalEnd, tr) \<and>
    from_sock tr = ''echo'' \<and> to_stdout tr = []"
  by (rule nonb_loses_output) (simp_all add: NB_MAXLINE_def)

end
