(* ===== verification/Unp_Echo.thy ===== *)
theory Unp_Echo
  imports Prelude
begin

text \<open>
  Three servers that wait for several descriptors at once: the echo servers over \<^verbatim>\<open>select\<close> and
  over \<^verbatim>\<open>poll\<close>, \<^verbatim>\<open>tcpservselect01.c\<close> and
  \<^verbatim>\<open>tcpservpoll01.c\<close> of \<^verbatim>\<open>src/unpv13e-master/tcpcliserv\<close>, and the parent of
  the preforked server \<^verbatim>\<open>serv05.c\<close> of \<^verbatim>\<open>src/unpv13e-master/server\<close>.  One
  iteration of each loop is a function of the state and of what the system calls return in it; \<open>Inl\<close> is an
  exit with its message.
\<close>

section \<open>The walk over the slots\<close>

text \<open>All three walk over an array of slots, do something at each ready one, and stop early when as many as the
  call reported have been seen: \<open>n\<close> counts down.  \<open>one\<close> may change its slot and a state beside the array.\<close>

fun walk :: "('s \<Rightarrow> bool) \<Rightarrow> ('s \<Rightarrow> 'g \<Rightarrow> (string + 's \<times> 'g) \<times> 'o list) \<Rightarrow> int \<Rightarrow> 's list \<Rightarrow> 'g \<Rightarrow>
    (string + 's list \<times> 'g) \<times> 'o list" where
  "walk ready one n [] g = (Inr ([], g), [])"
| "walk ready one n (x # xs) g =
     (if \<not> ready x then
        (case walk ready one n xs g of
           (Inr (ys, g'), out) \<Rightarrow> (Inr (x # ys, g'), out)
         | (Inl m, out) \<Rightarrow> (Inl m, out))
      else
        (case one x g of
           (Inl m, out) \<Rightarrow> (Inl m, out)
         | (Inr (y, g'), out) \<Rightarrow>
             if n - 1 \<le> 0 then (Inr (y # xs, g'), out)
             else
               (case walk ready one (n - 1) xs g' of
                  (Inr (ys, g''), out') \<Rightarrow> (Inr (y # ys, g''), out @ out')
                | (Inl m, out') \<Rightarrow> (Inl m, out @ out'))))"

section \<open>The echo server over select\<close>

definition FD_SETSIZE :: nat where "FD_SETSIZE = 1024"

record sel_state =
  listenfd :: int
  client :: "int list"
  allset :: "int set"
  maxfd :: int
  maxi :: int

text \<open>After \<^verbatim>\<open>Listen\<close>.\<close>

definition sel_start :: "int \<Rightarrow> sel_state" where
  "sel_start lfd =
     \<lparr>listenfd = lfd, client = replicate FD_SETSIZE (- 1), allset = {lfd}, maxfd = lfd, maxi = - 1\<rparr>"

text \<open>What a read on a descriptor gives, no bytes at the end of the file.\<close>

datatype sread = SData string | SReset | SErr

record sel_env =
  rset :: "int set"
  connfd :: int
  got :: "int \<Rightarrow> sread"
  sendable :: "int \<Rightarrow> bool"

datatype echo_out = Echo int string | CloseFd int

text \<open>A new connection takes the first free slot.\<close>

definition sel_accept :: "int \<Rightarrow> sel_state \<Rightarrow> string + sel_state" where
  "sel_accept fd s =
     (case first_slot (\<lambda>c. c < 0) (client s) of
        None \<Rightarrow> Inl ''too many clients''
      | Some i \<Rightarrow>
          Inr (s\<lparr>client := (client s)[i := fd], allset := insert fd (allset s),
                 maxfd := max (maxfd s) fd, maxi := max (maxi s) (int i)\<rparr>))"

text \<open>A client's data goes back to it; \<^verbatim>\<open>Read\<close> and \<^verbatim>\<open>Writen\<close> exit on an error.\<close>

definition sel_one :: "sel_env \<Rightarrow> int \<Rightarrow> int set \<Rightarrow> (string + int \<times> int set) \<times> echo_out list" where
  "sel_one e fd fds =
     (case got e fd of
        SData d \<Rightarrow>
          if d = [] then (Inr (- 1, fds - {fd}), [CloseFd fd])
          else if sendable e fd then (Inr (fd, fds), [Echo fd d])
          else (Inl ''writen error'', [])
      | _ \<Rightarrow> (Inl ''read error'', []))"

definition sel_clients :: "sel_env \<Rightarrow> int \<Rightarrow> sel_state \<Rightarrow> (string + sel_state) \<times> echo_out list" where
  "sel_clients e n s =
     (let k = nat (maxi s + 1) in
      case walk (\<lambda>fd. 0 \<le> fd \<and> fd \<in> rset e) (sel_one e) n (take k (client s)) (allset s) of
        (Inl m, out) \<Rightarrow> (Inl m, out)
      | (Inr (cs, fds), out) \<Rightarrow> (Inr (s\<lparr>client := cs @ drop k (client s), allset := fds\<rparr>), out))"

definition sel_iter :: "sel_env \<Rightarrow> sel_state \<Rightarrow> (string + sel_state) \<times> echo_out list" where
  "sel_iter e s =
     (let nready = int (card (rset e)) in
      if listenfd s \<in> rset e then
        (case sel_accept (connfd e) s of
           Inl m \<Rightarrow> (Inl m, [])
         | Inr s' \<Rightarrow> if nready - 1 \<le> 0 then (Inr s', []) else sel_clients e (nready - 1) s')
      else sel_clients e nready s)"

fun sel_loop :: "sel_env list \<Rightarrow> sel_state \<Rightarrow> (string + sel_state) \<times> echo_out list" where
  "sel_loop [] s = (Inr s, [])"
| "sel_loop (e # es) s =
     (case sel_iter e s of
        (Inr s', out) \<Rightarrow> (case sel_loop es s' of (r, out') \<Rightarrow> (r, out @ out'))
      | x \<Rightarrow> x)"

section \<open>The echo server over poll\<close>

text \<open>A slot is the descriptor and what it waits for; \<^verbatim>\<open>OPEN_MAX\<close> comes from the system.\<close>

record pollfd =
  fd :: int
  rdnorm :: bool

record poll_state =
  slots :: "pollfd list"
  pmaxi :: nat

definition poll_start :: "nat \<Rightarrow> int \<Rightarrow> poll_state" where
  "poll_start open_max lfd =
     \<lparr>slots = \<lparr>fd = lfd, rdnorm = True\<rparr> # replicate (open_max - 1) \<lparr>fd = - 1, rdnorm = False\<rparr>, pmaxi = 0\<rparr>"

text \<open>\<open>pready\<close>: what \<^verbatim>\<open>poll\<close> returned; \<open>revent\<close>: \<^verbatim>\<open>POLLRDNORM\<close> or, for a client,
  \<^verbatim>\<open>POLLERR\<close> is among the returned events of the descriptor.\<close>

record poll_env =
  pready :: int
  revent :: "int \<Rightarrow> bool"
  pconnfd :: int
  pgot :: "int \<Rightarrow> sread"
  psendable :: "int \<Rightarrow> bool"

definition poll_accept :: "int \<Rightarrow> poll_state \<Rightarrow> string + poll_state" where
  "poll_accept c s =
     (case first_slot (\<lambda>p. fd p < 0) (tl (slots s)) of
        None \<Rightarrow> Inl ''too many clients''
      | Some i \<Rightarrow>
          Inr (s\<lparr>slots := (slots s)[i + 1 := \<lparr>fd = c, rdnorm = True\<rparr>], pmaxi := max (pmaxi s) (i + 1)\<rparr>))"

text \<open>Here a connection that was reset is closed like one that ended.\<close>

definition poll_one :: "poll_env \<Rightarrow> pollfd \<Rightarrow> unit \<Rightarrow> (string + pollfd \<times> unit) \<times> echo_out list" where
  "poll_one e p u =
     (case pgot e (fd p) of
        SReset \<Rightarrow> (Inr (p\<lparr>fd := - 1\<rparr>, ()), [CloseFd (fd p)])
      | SErr \<Rightarrow> (Inl ''read error'', [])
      | SData d \<Rightarrow>
          if d = [] then (Inr (p\<lparr>fd := - 1\<rparr>, ()), [CloseFd (fd p)])
          else if psendable e (fd p) then (Inr (p, ()), [Echo (fd p) d])
          else (Inl ''writen error'', []))"

definition poll_clients :: "poll_env \<Rightarrow> int \<Rightarrow> poll_state \<Rightarrow> (string + poll_state) \<times> echo_out list" where
  "poll_clients e n s =
     (let k = pmaxi s in
      case walk (\<lambda>p. 0 \<le> fd p \<and> revent e (fd p)) (poll_one e) n (take k (tl (slots s))) () of
        (Inl m, out) \<Rightarrow> (Inl m, out)
      | (Inr (ps, _), out) \<Rightarrow> (Inr (s\<lparr>slots := hd (slots s) # ps @ drop k (tl (slots s))\<rparr>), out))"

definition poll_iter :: "poll_env \<Rightarrow> poll_state \<Rightarrow> (string + poll_state) \<times> echo_out list" where
  "poll_iter e s =
     (if revent e (fd (hd (slots s))) then
        (case poll_accept (pconnfd e) s of
           Inl m \<Rightarrow> (Inl m, [])
         | Inr s' \<Rightarrow> if pready e - 1 \<le> 0 then (Inr s', []) else poll_clients e (pready e - 1) s')
      else poll_clients e (pready e) s)"

section \<open>The parent of the preforked server\<close>

text \<open>\<^verbatim>\<open>child_status\<close> is 0 for a child that is free.\<close>

record child =
  child_pid :: int
  child_pipefd :: int
  child_busy :: bool
  child_count :: nat

record parent =
  p_listenfd :: int
  cptr :: "child list"
  navail :: int

text \<open>The children as they were forked: their process numbers and pipes.\<close>

definition serv05_start :: "int \<Rightarrow> (int \<times> int) list \<Rightarrow> parent" where
  "serv05_start lfd pipes =
     \<lparr>p_listenfd = lfd, cptr = map (\<lambda>(pid, p). \<lparr>child_pid = pid, child_pipefd = p, child_busy = False, child_count = 0\<rparr>) pipes,
      navail = int (length pipes)\<rparr>"

text \<open>What a read of one byte from the pipe of a child gives.  Who wrote the byte, and why, the parent
  cannot see: \<^verbatim>\<open>child_make\<close> puts the child's end of the pipe on its standard error, so that the text
  of an \<^verbatim>\<open>err_quit\<close> of \<^verbatim>\<open>web_child.c\<close> comes through it like the byte of a child
  that is done.\<close>

datatype pipe_read = PByte | PEof | PErr

text \<open>The ready descriptors, what a read on a pipe gives, and whether a descriptor can be passed over one.\<close>

record serv05_env =
  ready_fds :: "int set"
  child_says :: "int \<Rightarrow> pipe_read"
  passable :: "int \<Rightarrow> bool"

datatype serv05_out = PassTo int

text \<open>The set given to \<^verbatim>\<open>select\<close>: without the listening socket while no child is free.\<close>

definition watched :: "parent \<Rightarrow> int set" where
  "watched p = (if navail p \<le> 0 then {} else {p_listenfd p}) \<union> child_pipefd ` set (cptr p)"

definition pass_conn :: "serv05_env \<Rightarrow> parent \<Rightarrow> (string + parent) \<times> serv05_out list" where
  "pass_conn e p =
     (case first_slot (\<lambda>c. \<not> child_busy c) (cptr p) of
        None \<Rightarrow> (Inl ''no available children'', [])
      | Some i \<Rightarrow>
          (let c = cptr p ! i in
           if \<not> passable e (child_pipefd c) then (Inl ''write_fd error'', [])
           else
             (Inr (p\<lparr>cptr := (cptr p)[i := c\<lparr>child_busy := True, child_count := child_count c + 1\<rparr>],
                     navail := navail p - 1\<rparr>),
              [PassTo (child_pipefd c)])))"

text \<open>The slots of this walk carry their number, for the message.\<close>

definition child_free :: "serv05_env \<Rightarrow> nat \<times> child \<Rightarrow> int \<Rightarrow> (string + (nat \<times> child) \<times> int) \<times> serv05_out list" where
  "child_free e x n =
     (case x of (i, c) \<Rightarrow>
        (case child_says e (child_pipefd c) of
           PByte \<Rightarrow> (Inr ((i, c\<lparr>child_busy := False\<rparr>), n + 1), [])
         | PEof \<Rightarrow> (Inl (''child '' @ dec i @ '' terminated unexpectedly''), [])
         | PErr \<Rightarrow> (Inl ''read error'', [])))"

text \<open>\<^verbatim>\<open>select\<close> without a time limit reports at least one descriptor, so that the count the
  walk starts with is positive and its early stop is that of the code.\<close>

definition find_free :: "serv05_env \<Rightarrow> int \<Rightarrow> parent \<Rightarrow> (string + parent) \<times> serv05_out list" where
  "find_free e nsel p =
     (case walk (\<lambda>(i, c). child_pipefd c \<in> ready_fds e) (child_free e) nsel
         (zip [0..<length (cptr p)] (cptr p)) (navail p) of
        (Inl m, out) \<Rightarrow> (Inl m, out)
      | (Inr (cs, n), out) \<Rightarrow> (Inr (p\<lparr>cptr := map snd cs, navail := n\<rparr>), out))"

definition serv05_iter :: "serv05_env \<Rightarrow> parent \<Rightarrow> (string + parent) \<times> serv05_out list" where
  "serv05_iter e p =
     (let nsel = int (card (ready_fds e)) in
      if p_listenfd p \<in> ready_fds e then
        (case pass_conn e p of
           (Inl m, out) \<Rightarrow> (Inl m, out)
         | (Inr p', out) \<Rightarrow>
             if nsel - 1 = 0 then (Inr p', out)
             else (case find_free e (nsel - 1) p' of (r, out') \<Rightarrow> (r, out @ out')))
      else find_free e nsel p)"

text \<open>On an interrupt the parent kills its children, waits for them and prints what each has done; the second
  component says whether the wait ended as it should, with no child left.\<close>

definition sig_int :: "parent \<Rightarrow> bool \<Rightarrow> int list \<times> (string + string list)" where
  "sig_int p waited =
     (map child_pid (cptr p),
      if \<not> waited then Inl ''wait error''
      else Inr (map (\<lambda>(i, c). ''child '' @ dec i @ '', '' @ dec (child_count c) @ '' connections'' @ [NL])
                 (zip [0..<length (cptr p)] (cptr p))))"

end
