(* ===== verification/Unp_Slots.thy ===== *)
theory Unp_Slots
  imports Unp_Echo
begin

text \<open>
  What the servers that wait for several descriptors share: the walk over an array of slots answers whoever is ready in
  spite of its early stop, and the invariant that ties the array to the set of watched descriptors and to the two
  maxima.  The locale \<open>slot_walk\<close> is the contract of what such a server does at a ready slot: it keeps the descriptor, or
  closes it and frees the slot.
\<close>

section \<open>The walk\<close>

text \<open>The walk without its count.\<close>

fun walk_all :: "('s \<Rightarrow> bool) \<Rightarrow> ('s \<Rightarrow> 'g \<Rightarrow> (string + 's \<times> 'g) \<times> 'o list) \<Rightarrow> 's list \<Rightarrow> 'g \<Rightarrow>
    (string + 's list \<times> 'g) \<times> 'o list" where
  "walk_all ready one [] g = (Inr ([], g), [])"
| "walk_all ready one (x # xs) g =
     (case (if ready x then one x g else (Inr (x, g), [])) of
        (Inl m, out) \<Rightarrow> (Inl m, out)
      | (Inr (y, g'), out) \<Rightarrow>
          (case walk_all ready one xs g' of
             (Inr (ys, g''), out') \<Rightarrow> (Inr (y # ys, g''), out @ out')
           | (Inl m, out') \<Rightarrow> (Inl m, out @ out')))"

lemma walk_all_quiet: "filter ready xs = [] \<Longrightarrow> walk_all ready one xs g = (Inr (xs, g), [])"
  by (induction xs) (auto split: if_splits)

lemma walk_count:
  "int (length (filter ready xs)) \<le> n \<Longrightarrow> walk ready one n xs g = walk_all ready one xs g"
proof (induction xs arbitrary: n g)
  case (Cons x xs)
  show ?case
  proof (cases "ready x")
    case True
    have "walk_all ready one xs g' = (Inr (xs, g'), [])" if "n - 1 \<le> 0" for g'
      by (rule walk_all_quiet) (use Cons.prems True that in \<open>simp flip: length_0_conv\<close>)
    then show ?thesis
      using Cons.IH [of "n - 1"] Cons.prems True by (auto split: sum.splits prod.splits)
  next
    case False
    then show ?thesis using Cons by (auto split: sum.splits prod.splits)
  qed
qed simp

lemma walk_all_append:
  "walk_all ready one (xs @ ys) g =
     (case walk_all ready one xs g of
        (Inl m, out) \<Rightarrow> (Inl m, out)
      | (Inr (xs', g'), out) \<Rightarrow>
          (case walk_all ready one ys g' of
             (Inr (ys', g''), out') \<Rightarrow> (Inr (xs' @ ys', g''), out @ out')
           | (Inl m, out') \<Rightarrow> (Inl m, out @ out')))"
  by (induction xs arbitrary: g) (auto split: sum.splits prod.splits)

lemma walk_all_untouched:
  "walk_all ready one xs g = (Inr (ys, g'), out) \<Longrightarrow> x \<in> set xs \<Longrightarrow> \<not> ready x \<Longrightarrow> x \<in> set ys"
  by (induction xs arbitrary: g ys out) (auto split: sum.splits prod.splits if_splits)

lemma walk_all_touched:
  "walk_all ready one xs g = (Inr (ys, g'), out) \<Longrightarrow> x \<in> set xs \<Longrightarrow> ready x \<Longrightarrow>
   \<exists>g1 y g2 o1. one x g1 = (Inr (y, g2), o1) \<and> y \<in> set ys \<and> set o1 \<subseteq> set out"
proof (induction xs arbitrary: g ys out)
  case (Cons z xs)
  obtain y g1 o1 ys' o2 where o: "(if ready z then one z g else (Inr (z, g), [])) = (Inr (y, g1), o1)"
    and w: "walk_all ready one xs g1 = (Inr (ys', g'), o2)" "ys = y # ys'" "out = o1 @ o2"
    using Cons.prems(1) by (auto split: sum.splits prod.splits)
  show ?case
  proof (cases "z = x")
    case True
    then show ?thesis using o w Cons.prems(3) by auto
  next
    case False
    then show ?thesis using Cons.IH [OF w(1) _ Cons.prems(3)] Cons.prems(2) w by fastforce
  qed
qed simp

lemma walk_all_single:
  assumes "filter ready xs = []" "ready x" "filter ready ys = []"
  shows "walk_all ready one (xs @ x # ys) g =
    (case one x g of (Inl m, out) \<Rightarrow> (Inl m, out) | (Inr (y, g'), out) \<Rightarrow> (Inr (xs @ y # ys, g'), out))"
  using assms by (simp add: walk_all_append walk_all_quiet split: prod.splits sum.splits)

section \<open>The slots and the sets\<close>

abbreviation open_fds :: "int list \<Rightarrow> int list" where
  "open_fds cs \<equiv> filter (\<lambda>c. 0 \<le> c) cs"

text \<open>\<open>base\<close> are the descriptors that are watched always, \<open>m\<close> and \<open>k\<close> the maxima of the watched descriptors and of the slots used.\<close>

definition slots_ok :: "int set \<Rightarrow> int list \<Rightarrow> int set \<Rightarrow> int \<Rightarrow> int \<Rightarrow> bool" where
  "slots_ok base cs fds m k \<longleftrightarrow>
     length cs = FD_SETSIZE \<and> - 1 \<le> k \<and> list_all (\<lambda>c. c = - 1) (drop (nat (k + 1)) cs) \<and>
     finite base \<and> (\<forall>b \<in> base. 0 \<le> b) \<and> base \<inter> set cs = {} \<and> fds = base \<union> set (open_fds cs) \<and>
     distinct (open_fds cs) \<and> (\<forall>c \<in> fds. c \<le> m)"

lemma slots_ok_start:
  "finite base \<Longrightarrow> (\<forall>b \<in> base. 0 \<le> b \<and> b \<le> m) \<Longrightarrow> slots_ok base (replicate FD_SETSIZE (- 1)) base m (- 1)"
  by (auto simp: slots_ok_def list_all_iff)

lemma filter_update_free:
  assumes "i < length xs" "xs ! i < (0 :: int)" "0 \<le> c" "c \<notin> set xs" "distinct (open_fds xs)"
  shows "distinct (open_fds (xs[i := c]))" "set (open_fds (xs[i := c])) = insert c (set (open_fds xs))"
proof -
  have xs: "xs = take i xs @ xs ! i # drop (Suc i) xs" using assms(1) by (rule id_take_nth_drop)
  have up: "xs[i := c] = take i xs @ c # drop (Suc i) xs" using assms(1) by (rule upd_conv_take_nth_drop)
  have f: "open_fds xs = open_fds (take i xs) @ open_fds (drop (Suc i) xs)"
    by (subst xs) (use assms(2) in simp)
  have nin: "c \<notin> set (take i xs)" "c \<notin> set (drop (Suc i) xs)" using assms(4) set_take_subset set_drop_subset by fast+
  show "distinct (open_fds (xs[i := c]))" using assms(3,5) nin unfolding f up by auto
  show "set (open_fds (xs[i := c])) = insert c (set (open_fds xs))" unfolding f up using assms(3) by auto
qed

text \<open>A new descriptor in a free slot.\<close>

lemma slots_ok_add:
  assumes "slots_ok base cs fds m k" "i < length cs" "cs ! i < 0" "0 \<le> c" "c \<notin> fds"
  shows "slots_ok base (cs[i := c]) (insert c fds) (max m c) (max k (int i))"
proof -
  have nin: "c \<notin> set cs" using assms(1,4,5) by (auto simp: slots_ok_def)
  note up = filter_update_free [OF assms(2-4) nin]
  have "list_all (\<lambda>c. c = - 1) (drop (nat (max k (int i) + 1)) (cs[i := c]))"
  proof -
    have "nat (max k (int i) + 1) = max (nat (k + 1)) (i + 1)" by simp
    moreover have "list_all (\<lambda>c. c = - 1) (drop (nat (k + 1)) cs)" using assms(1) by (simp add: slots_ok_def)
    then have "list_all (\<lambda>c. c = - 1) (drop (max (nat (k + 1)) (i + 1)) cs)"
      using set_drop_subset_set_drop [of "nat (k + 1)" "max (nat (k + 1)) (i + 1)" cs] by (auto simp: list_all_iff)
    ultimately show ?thesis by simp
  qed
  moreover have "base \<inter> set (cs[i := c]) = {}" using assms(1,5) set_update_subset_insert [of cs i c] by (auto simp: slots_ok_def)
  ultimately show ?thesis using assms(1) up by (auto simp: slots_ok_def intro: max.coboundedI1)
qed

text \<open>Slots that are freed.\<close>

abbreviation freed :: "int list \<Rightarrow> int list \<Rightarrow> bool" where
  "freed cs cs' \<equiv> list_all2 (\<lambda>c d. d = c \<or> d = - 1) cs cs'"

lemma freed_facts:
  assumes "freed cs cs'"
  shows "set (open_fds cs') \<subseteq> set (open_fds cs)" "distinct (open_fds cs) \<Longrightarrow> distinct (open_fds cs')"
proof -
  show sub: "set (open_fds cs') \<subseteq> set (open_fds cs)" using assms by (induction) auto
  show "distinct (open_fds cs')" if "distinct (open_fds cs)"
    using assms that
  proof (induction)
    case (Cons x xs y ys)
    have "set (open_fds ys) \<subseteq> set (open_fds xs)" using Cons.hyps(2) by (induction) auto
    with Cons show ?case by (auto split: if_splits)
  qed simp
qed

lemma slots_ok_freed:
  assumes "slots_ok base cs fds m k" "freed cs cs'"
  shows "slots_ok base cs' (fds - (set (open_fds cs) - set (open_fds cs'))) m k"
proof -
  note f = freed_facts [OF assms(2)]
  have "freed xs ys \<Longrightarrow> list_all (\<lambda>c. c = - 1) xs \<Longrightarrow> list_all (\<lambda>c. c = - 1) ys" for xs ys :: "int list"
    by (induction rule: list_all2_induct) auto
  then have "list_all (\<lambda>c. c = - 1) (drop (nat (k + 1)) cs')"
    using assms(1) list_all2_dropI [OF assms(2)] unfolding slots_ok_def by blast
  moreover have "set cs' \<subseteq> insert (- 1) (set cs)" using assms(2) by (induction) auto
  then have "base \<inter> set cs' = {}" using assms(1) by (force simp: slots_ok_def)
  ultimately show ?thesis using assms f list_all2_lengthD [OF assms(2)] by (auto simp: slots_ok_def)
qed

text \<open>No more slots are ready than descriptors beside those of \<open>base\<close>.\<close>

lemma slots_ready_count:
  assumes "slots_ok base cs fds m k" "ready \<subseteq> fds"
  shows "length (filter (\<lambda>c. 0 \<le> c \<and> c \<in> ready) cs) \<le> card (ready - base)" "finite ready"
proof -
  let ?f = "filter (\<lambda>c. 0 \<le> c \<and> c \<in> ready) cs"
  have "finite fds" using assms(1) by (simp add: slots_ok_def)
  then show fin: "finite ready" using assms(2) finite_subset by blast
  have "?f = filter (\<lambda>c. c \<in> ready) (open_fds cs)" by (auto intro: filter_cong)
  moreover have "distinct (open_fds cs)" using assms(1) by (simp add: slots_ok_def)
  ultimately have "distinct ?f" by (metis distinct_filter)
  then have "length ?f = card (set ?f)" by (rule distinct_card [symmetric])
  also have "\<dots> \<le> card (ready - base)"
    by (rule card_mono) (use fin assms(1) in \<open>auto simp: slots_ok_def\<close>)
  finally show "length ?f \<le> card (ready - base)" .
qed

section \<open>The contract of a step\<close>

locale slot_walk =
  fixes fd_of :: "'s \<Rightarrow> int"
    and one :: "'s \<Rightarrow> int set \<Rightarrow> (string + 's \<times> int set) \<times> 'o list"
  assumes one_keeps: "one x fds = (Inr (y, fds'), out) \<Longrightarrow> 0 \<le> fd_of x \<Longrightarrow>
    fd_of y = fd_of x \<and> fds' = fds \<or> fd_of y = - 1 \<and> fds' = fds - {fd_of x}"
begin

lemma walk_frees:
  "walk_all (\<lambda>x. 0 \<le> fd_of x \<and> fd_of x \<in> ready) one xs fds = (Inr (ys, fds'), out) \<Longrightarrow>
   distinct (open_fds (map fd_of xs)) \<Longrightarrow>
   freed (map fd_of xs) (map fd_of ys) \<and>
   fds' = fds - (set (open_fds (map fd_of xs)) - set (open_fds (map fd_of ys)))"
proof (induction xs arbitrary: fds ys out)
  case (Cons x xs)
  show ?case
  proof (cases "0 \<le> fd_of x \<and> fd_of x \<in> ready")
    case True
    obtain y fds1 out1 ys' out' where o: "one x fds = (Inr (y, fds1), out1)"
      and w: "walk_all (\<lambda>x. 0 \<le> fd_of x \<and> fd_of x \<in> ready) one xs fds1 = (Inr (ys', fds'), out')" "ys = y # ys'"
      using Cons.prems(1) True by (auto split: sum.splits prod.splits)
    have IH: "freed (map fd_of xs) (map fd_of ys')"
      "fds' = fds1 - (set (open_fds (map fd_of xs)) - set (open_fds (map fd_of ys')))"
      using Cons.IH [OF w(1)] Cons.prems(2) by (auto split: if_splits)
    have x: "fd_of x \<notin> set (open_fds (map fd_of xs))" using Cons.prems(2) True by auto
    then have y: "fd_of x \<notin> set (open_fds (map fd_of ys'))" using freed_facts(1) [OF IH(1)] by blast
    from one_keeps [OF o] True consider "fd_of y = fd_of x" "fds1 = fds" | "fd_of y = - 1" "fds1 = fds - {fd_of x}" by auto
    then show ?thesis
    proof cases
      case 1
      then show ?thesis using IH x True unfolding w(2) by (auto simp del: set_filter)
    next
      case 2
      then show ?thesis using IH x y True unfolding w(2) by (auto simp del: set_filter)
    qed
  next
    case False
    then obtain ys' where w: "walk_all (\<lambda>x. 0 \<le> fd_of x \<and> fd_of x \<in> ready) one xs fds = (Inr (ys', fds'), out)" "ys = x # ys'"
      using Cons.prems(1) by (auto split: sum.splits prod.splits)
    have IH: "freed (map fd_of xs) (map fd_of ys')"
      "fds' = fds - (set (open_fds (map fd_of xs)) - set (open_fds (map fd_of ys')))"
      using Cons.IH [OF w(1)] Cons.prems(2) by (auto split: if_splits)
    then show ?thesis using Cons.prems(2) by (cases "0 \<le> fd_of x") (auto simp: w(2))
  qed
qed simp

text \<open>A walk over the slots in use keeps the invariant.\<close>

lemma walk_slots_ok:
  assumes w: "walk_all (\<lambda>x. 0 \<le> fd_of x \<and> fd_of x \<in> ready) one (take j xs) fds = (Inr (ys, fds'), out)"
    and ok: "slots_ok base (map fd_of xs) fds m k"
  shows "slots_ok base (map fd_of (ys @ drop j xs)) fds' m k"
proof -
  let ?a = "map fd_of (take j xs)" and ?b = "map fd_of (drop j xs)"
  have xs: "map fd_of xs = ?a @ ?b" by (simp flip: map_append)
  then have d: "distinct (open_fds (?a @ ?b))" using ok by (simp add: slots_ok_def)
  then have "distinct (open_fds ?a)" by simp
  note f = walk_frees [OF w this]
  then have fr: "freed (map fd_of xs) (map fd_of (ys @ drop j xs))"
    unfolding xs by (simp add: list_all2_appendI list_all2_refl)
  have "set (open_fds ?a) - set (open_fds (map fd_of ys)) =
    set (open_fds (map fd_of xs)) - set (open_fds (map fd_of (ys @ drop j xs)))"
    using d unfolding xs by auto
  with f have "fds' = fds - (set (open_fds (map fd_of xs)) - set (open_fds (map fd_of (ys @ drop j xs))))" by simp
  with slots_ok_freed [OF ok fr] show ?thesis by simp
qed

end

end
