(* ===== verification/Unp_Echo_Props.thy ===== *)
theory Unp_Echo_Props
  imports Unp_Slots
begin

text \<open>The select and poll servers and the preforking parent: the early stop of the walk loses nobody, the
  descriptor sets follow the slots, every ready client is answered, and where one client stops the server; what the count
  of the preforking parent says of its children.\<close>

section \<open>The select server\<close>

definition sel_inv :: "sel_state \<Rightarrow> bool" where
  "sel_inv s \<longleftrightarrow> slots_ok {listenfd s} (client s) (allset s) (maxfd s) (maxi s)"

lemmas sel_facts = sel_inv_def slots_ok_def

text \<open>What the kernel promises: what is ready was asked for, and a new descriptor is not in use.\<close>

definition sel_env_ok :: "sel_env \<Rightarrow> sel_state \<Rightarrow> bool" where
  "sel_env_ok e s \<longleftrightarrow> rset e \<subseteq> allset s \<and> rset e \<noteq> {} \<and> 0 \<le> connfd e \<and> connfd e \<notin> allset s"

lemma sel_start_inv: "0 \<le> lfd \<Longrightarrow> sel_inv (sel_start lfd)"
  by (simp add: sel_inv_def sel_start_def slots_ok_start)

lemma sel_accept_inv:
  assumes "sel_inv s" "0 \<le> c" "c \<notin> allset s" "sel_accept c s = Inr s'"
  shows "sel_inv s'"
proof -
  obtain i where i: "first_slot (\<lambda>c. c < 0) (client s) = Some i"
    and s': "s' = s\<lparr>client := (client s)[i := c], allset := insert c (allset s), maxfd := max (maxfd s) c,
      maxi := max (maxi s) (int i)\<rparr>"
    using assms(4) by (auto simp: sel_accept_def split: option.splits)
  show ?thesis
    using slots_ok_add [OF assms(1) [unfolded sel_inv_def] _ _ assms(2,3), of i] first_slot_Some [OF i] by (simp add: sel_inv_def s')
qed

text \<open>What becomes of a slot, and what goes out for it.\<close>

definition sel_ready :: "sel_env \<Rightarrow> int \<Rightarrow> bool" where
  "sel_ready e c \<longleftrightarrow> 0 \<le> c \<and> c \<in> rset e"

definition after :: "sel_env \<Rightarrow> int \<Rightarrow> int" where
  "after e c = (if sel_ready e c \<and> got e c = SData [] then - 1 else c)"

definition answer :: "sel_env \<Rightarrow> int \<Rightarrow> echo_out list" where
  "answer e c =
     (if sel_ready e c then (case got e c of SData d \<Rightarrow> [if d = [] then CloseFd c else Echo c d] | _ \<Rightarrow> []) else [])"

lemma sel_one_cases:
  assumes "sel_one e c fds = (Inr (y, fds'), out)" "sel_ready e c"
  shows "y = after e c" "fds' = fds - {x. x = c \<and> got e x = SData []}" "out = answer e c" "\<exists>d. got e c = SData d"
  using assms by (auto simp: sel_one_def after_def answer_def split: sread.splits if_splits)

lemma sel_walk:
  "walk_all (sel_ready e) (sel_one e) xs fds = (Inr (ys, fds'), out) \<Longrightarrow>
   ys = map (after e) xs \<and> fds' = fds - {c \<in> set xs. sel_ready e c \<and> got e c = SData []} \<and>
   out = concat (map (answer e) xs) \<and> list_all (\<lambda>c. sel_ready e c \<longrightarrow> (\<exists>d. got e c = SData d)) xs"
proof (induction xs arbitrary: fds fds' ys out)
  case (Cons x xs)
  show ?case
  proof (cases "sel_ready e x")
    case True
    obtain y fds1 out1 ys' out' where o: "sel_one e x fds = (Inr (y, fds1), out1)"
      and w: "walk_all (sel_ready e) (sel_one e) xs fds1 = (Inr (ys', fds'), out')" "ys = y # ys'" "out = out1 @ out'"
      using Cons.prems True by (auto split: sum.splits prod.splits)
    from sel_one_cases [OF o True] Cons.IH [OF w(1)] w(2,3) True show ?thesis by auto
  next
    case False
    then obtain ys' out' where "walk_all (sel_ready e) (sel_one e) xs fds = (Inr (ys', fds'), out')" "ys = x # ys'" "out = out'"
      using Cons.prems by (auto split: sum.splits prod.splits)
    with Cons.IH False show ?thesis by (auto simp: after_def answer_def)
  qed
qed simp

text \<open>The walk of the server: its count is at least the number of ready clients.\<close>

lemma sel_clients_all:
  assumes "int (length (filter (sel_ready e) (client s))) \<le> n" "sel_clients e n s = (Inr s', out)" "sel_inv s"
  shows "s' = s\<lparr>client := map (after e) (client s),
      allset := allset s - {c \<in> set (client s). sel_ready e c \<and> got e c = SData []}\<rparr> \<and>
    out = concat (map (answer e) (client s)) \<and> list_all (\<lambda>c. sel_ready e c \<longrightarrow> (\<exists>d. got e c = SData d)) (client s)"
proof -
  let ?k = "nat (maxi s + 1)" and ?c = "client s"
  have free: "list_all (\<lambda>c. c = - 1) (drop ?k ?c)" using assms(3) by (simp add: sel_facts)
  have split: "?c = take ?k ?c @ drop ?k ?c" by simp
  have rest: "filter (sel_ready e) (drop ?k ?c) = []" "map (after e) (drop ?k ?c) = drop ?k ?c"
    "concat (map (answer e) (drop ?k ?c)) = []" "{c \<in> set (drop ?k ?c). sel_ready e c \<and> P c} = {}" for P
    using free by (auto simp: list_all_iff sel_ready_def after_def answer_def filter_empty_conv intro: map_idI)
  have len: "length (filter (sel_ready e) ?c) = length (filter (sel_ready e) (take ?k ?c))"
    by (subst split) (simp only: filter_append rest append_Nil2)
  have pred: "(\<lambda>fd. 0 \<le> fd \<and> fd \<in> rset e) = sel_ready e" by (auto simp: sel_ready_def)
  have "walk (sel_ready e) (sel_one e) n (take ?k ?c) (allset s) = walk_all (sel_ready e) (sel_one e) (take ?k ?c) (allset s)"
    by (rule walk_count) (use assms(1) len in simp)
  then obtain cs fds where w: "walk_all (sel_ready e) (sel_one e) (take ?k ?c) (allset s) = (Inr (cs, fds), out)"
    and s': "s' = s\<lparr>client := cs @ drop ?k ?c, allset := fds\<rparr>"
    using assms(2) by (auto simp: sel_clients_def Let_def pred split: sum.splits prod.splits)
  have "set ?c = set (take ?k ?c) \<union> set (drop ?k ?c)" by (metis split set_append)
  then have sets: "{c \<in> set ?c. sel_ready e c \<and> got e c = SData []} =
      {c \<in> set (take ?k ?c). sel_ready e c \<and> got e c = SData []}"
    using rest(4) by blast
  have "map (after e) ?c = map (after e) (take ?k ?c) @ drop ?k ?c"
    by (metis split map_append rest(2))
  moreover have "concat (map (answer e) ?c) = concat (map (answer e) (take ?k ?c))"
    by (metis split map_append concat_append rest(3) append_Nil2)
  moreover have "list_all P ?c \<longleftrightarrow> list_all P (take ?k ?c) \<and> list_all P (drop ?k ?c)" for P
    by (metis split list_all_append)
  moreover have "list_all (\<lambda>c. sel_ready e c \<longrightarrow> (\<exists>d. got e c = SData d)) (drop ?k ?c)"
    using free by (auto simp: list_all_iff sel_ready_def)
  ultimately show ?thesis using sel_walk [OF w] s' sets by simp
qed

abbreviation closed :: "sel_env \<Rightarrow> int \<Rightarrow> bool" where
  "closed e c \<equiv> sel_ready e c \<and> got e c = SData []"

lemma sel_after_inv:
  assumes "sel_inv s"
  shows "sel_inv (s\<lparr>client := map (after e) (client s), allset := allset s - {c \<in> set (client s). closed e c}\<rparr>)"
proof -
  let ?c = "client s"
  have "freed ?c (map (after e) ?c)" by (simp add: list_all2_conv_all_nth after_def)
  moreover have "set (open_fds ?c) - set (open_fds (map (after e) ?c)) = {c \<in> set ?c. closed e c}"
    by (auto simp: after_def sel_ready_def image_iff split: if_splits)
  ultimately show ?thesis
    using slots_ok_freed [OF assms [unfolded sel_inv_def], of "map (after e) ?c"] by (simp add: sel_inv_def del: set_filter)
qed

lemma ready_count:
  assumes "sel_inv s" "rset e \<subseteq> allset s"
  shows "length (filter (sel_ready e) (client s)) \<le> card (rset e - {listenfd s})" "finite (rset e)"
  using slots_ready_count [OF assms(1) [unfolded sel_inv_def] assms(2)]
  by (simp_all add: sel_ready_def [abs_def])

text \<open>The state the clients are walked over: with the new connection, when there is one.\<close>

definition accepted :: "sel_env \<Rightarrow> sel_state \<Rightarrow> sel_state \<Rightarrow> bool" where
  "accepted e s s1 \<longleftrightarrow> (if listenfd s \<in> rset e then sel_accept (connfd e) s = Inr s1 else s1 = s)"

lemma sel_round:
  assumes "sel_inv s" "sel_env_ok e s" "sel_iter e s = (Inr s', out)"
  shows "\<exists>s1. accepted e s s1 \<and> sel_inv s1 \<and> out = concat (map (answer e) (client s1)) \<and>
    s' = s1\<lparr>client := map (after e) (client s1), allset := allset s1 - {c \<in> set (client s1). closed e c}\<rparr>"
proof -
  have sub: "rset e \<subseteq> allset s" using assms(2) by (simp add: sel_env_ok_def)
  note rc = ready_count [OF assms(1) sub]
  show ?thesis
  proof (cases "listenfd s \<in> rset e")
    case False
    then have "sel_clients e (int (card (rset e))) s = (Inr s', out)" using assms(3) by (simp add: sel_iter_def Let_def)
    from sel_clients_all [OF _ this assms(1)] rc False assms(1) show ?thesis by (auto simp: accepted_def)
  next
    case True
    then obtain s1 where acc: "sel_accept (connfd e) s = Inr s1"
      using assms(3) by (auto simp: sel_iter_def Let_def split: sum.splits)
    have inv: "sel_inv s1"
      by (rule sel_accept_inv [OF assms(1) _ _ acc]) (use assms(2) in \<open>auto simp: sel_env_ok_def\<close>)
    have "allset s \<subseteq> allset s1" "listenfd s1 = listenfd s" using acc by (auto simp: sel_accept_def split: option.splits)
    then have "length (filter (sel_ready e) (client s1)) \<le> card (rset e - {listenfd s})"
      using ready_count(1) [OF inv, of e] sub by auto
    moreover have "0 < card (rset e)" using True rc(2) card_gt_0_iff by blast
    ultimately have n: "int (length (filter (sel_ready e) (client s1))) \<le> int (card (rset e)) - 1"
      using True \<open>0 < card (rset e)\<close> by (simp add: card_Diff_singleton)
    show ?thesis
    proof (cases "int (card (rset e)) - 1 \<le> 0")
      case zero: True
      then have "filter (sel_ready e) (client s1) = []" using n by (simp flip: length_0_conv)
      then have q: "\<not> sel_ready e c" if "c \<in> set (client s1)" for c using that by (auto simp: filter_empty_conv)
      then have "map (after e) (client s1) = client s1" "map (answer e) (client s1) = map (\<lambda>c. []) (client s1)"
        "{c \<in> set (client s1). closed e c} = {}"
        by (auto simp: after_def answer_def intro: map_idI)
      moreover from this(3) have "s1 = s1\<lparr>client := client s1, allset := allset s1 - {c \<in> set (client s1). closed e c}\<rparr>"
        by (simp only: Diff_empty) simp
      moreover have "s' = s1" "out = []" using assms(3) True acc zero by (auto simp: sel_iter_def Let_def)
      ultimately show ?thesis using acc True inv by (intro exI [of _ s1]) (simp add: accepted_def)
    next
      case False
      then have "sel_clients e (int (card (rset e)) - 1) s1 = (Inr s', out)"
        using assms(3) True acc by (simp add: sel_iter_def Let_def)
      from sel_clients_all [OF n this inv] show ?thesis using acc True inv by (auto simp: accepted_def)
    qed
  qed
qed

text \<open>A new connection does not change what goes out.\<close>

lemma accepted_answers:
  assumes "accepted e s s1" "sel_env_ok e s"
  shows "concat (map (answer e) (client s1)) = concat (map (answer e) (client s))"
proof (cases "listenfd s \<in> rset e")
  case True
  then obtain i where i: "first_slot (\<lambda>c. c < 0) (client s) = Some i" "client s1 = (client s)[i := connfd e]"
    using assms(1) by (auto simp: accepted_def sel_accept_def split: option.splits)
  have "answer e (connfd e) = []" using assms(2) by (auto simp: answer_def sel_ready_def sel_env_ok_def)
  moreover have "answer e (client s ! i) = []" "i < length (client s)"
    using first_slot_Some [OF i(1)] by (auto simp: answer_def sel_ready_def)
  ultimately have "map (answer e) (client s1) = map (answer e) (client s)"
    by (simp add: i(2) map_update) (metis list_update_id nth_map)
  then show ?thesis by simp
qed (use assms in \<open>simp add: accepted_def\<close>)

lemma sel_iter_keeps:
  assumes "sel_inv s" "sel_env_ok e s" "sel_iter e s = (Inr s', out)"
  shows "sel_inv s'"
  using sel_round [OF assms] sel_after_inv by blast

text \<open>The environments of a run, each fitting the state it meets.\<close>

fun sel_envs_ok :: "sel_env list \<Rightarrow> sel_state \<Rightarrow> bool" where
  "sel_envs_ok [] s = True"
| "sel_envs_ok (e # es) s = (sel_env_ok e s \<and> (case sel_iter e s of (Inr s', out) \<Rightarrow> sel_envs_ok es s' | _ \<Rightarrow> True))"

lemma sel_loop_keeps: "sel_inv s \<Longrightarrow> sel_envs_ok es s \<Longrightarrow> sel_loop es s = (Inr s', out) \<Longrightarrow> sel_inv s'"
proof (induction es arbitrary: s out)
  case (Cons e es)
  then obtain s1 out1 where i: "sel_iter e s = (Inr s1, out1)" by (auto split: sum.splits prod.splits)
  obtain r out2 where "sel_loop es s1 = (r, out2)" by (cases "sel_loop es s1")
  with Cons i sel_iter_keeps [OF Cons.prems(1) _ i] show ?case by auto
qed simp

text \<open>After any rounds of the select server the set it waits on is the listening socket and exactly the
  descriptors in its slots, each in one slot; the slots behind \<^verbatim>\<open>maxi\<close> are free, so that the walk
  misses no client, and no watched descriptor is above \<^verbatim>\<open>maxfd\<close>.\<close>

theorem select_sets_follow_slots:
  assumes "0 \<le> lfd" "sel_envs_ok es (sel_start lfd)" "sel_loop es (sel_start lfd) = (Inr s, out)"
  shows "allset s = insert (listenfd s) {c \<in> set (client s). 0 \<le> c} \<and> distinct (filter (\<lambda>c. 0 \<le> c) (client s)) \<and>
    list_all (\<lambda>c. c = - 1) (drop (nat (maxi s + 1)) (client s)) \<and> list_all (\<lambda>c. c \<le> maxfd s) (client s)"
proof -
  have "sel_inv s" by (rule sel_loop_keeps [OF sel_start_inv [OF assms(1)] assms(2,3)])
  moreover from this have "c \<le> maxfd s" if "c \<in> set (client s)" for c
    using that by (cases "0 \<le> c") (force simp: sel_facts)+
  ultimately show ?thesis by (auto simp: sel_facts list_all_iff)
qed

text \<open>Each round of the select server that does not exit answers every ready client once, in the order of the
  slots, its data with the same data and its end of file with a close, although the walk stops as soon as the
  reported number of descriptors has been seen.\<close>

theorem select_answers_all:
  assumes "sel_inv s" "sel_env_ok e s" "sel_iter e s = (Inr s', out)"
  shows "out = concat (map (\<lambda>c. if 0 \<le> c \<and> c \<in> rset e
    then (case got e c of SData d \<Rightarrow> [if d = [] then CloseFd c else Echo c d] | _ \<Rightarrow> []) else []) (client s))"
proof -
  obtain s1 where "accepted e s s1" "out = concat (map (answer e) (client s1))" using sel_round [OF assms] by blast
  moreover have "answer e = (\<lambda>c. if 0 \<le> c \<and> c \<in> rset e
      then (case got e c of SData d \<Rightarrow> [if d = [] then CloseFd c else Echo c d] | _ \<Rightarrow> []) else [])"
    by (rule ext) (simp add: answer_def sel_ready_def)
  ultimately show ?thesis using accepted_answers [OF _ assms(2)] by metis
qed

text \<open>A state with one client, in slot 0.\<close>

definition one_client :: sel_state where
  "one_client = \<lparr>listenfd = 3, client = 4 # replicate 1023 (- 1), allset = {3, 4}, maxfd = 4, maxi = 0\<rparr>"

definition sel_event :: "int \<Rightarrow> int \<Rightarrow> sread \<Rightarrow> sel_env" where
  "sel_event c new r = \<lparr>rset = {c}, connfd = new, got = (\<lambda>x. r), sendable = (\<lambda>x. True)\<rparr>"

lemma one_client_inv: "sel_inv one_client"
  by (auto simp: sel_facts one_client_def FD_SETSIZE_def list_all_iff)

lemma sel_accept_first:
  "sel_iter (sel_event 3 4 r) (sel_start 3) = (Inr one_client, [])"
  by (simp add: sel_iter_def sel_event_def sel_start_def sel_accept_def one_client_def FD_SETSIZE_def
      first_slot_replicate insert_commute) (simp add: numeral_eq_Suc)

lemma sel_one_client: "sel_iter (sel_event 4 5 (SData (x # d))) one_client = (Inr one_client, [Echo 4 (x # d)])"
  by (simp add: sel_iter_def sel_event_def one_client_def sel_clients_def sel_one_def)

lemma select_sets_follow_slots_witness:
  "sel_loop [sel_event 3 4 SErr, sel_event 4 5 (SData ''hi'')] (sel_start 3) = (Inr one_client, [Echo 4 ''hi'']) \<and>
   allset one_client = insert (listenfd one_client) {c \<in> set (client one_client). 0 \<le> c}"
proof -
  have loop: "sel_loop [sel_event 3 4 SErr, sel_event 4 5 (SData ''hi'')] (sel_start 3) = (Inr one_client, [Echo 4 ''hi''])"
    by (simp add: sel_accept_first sel_one_client)
  have "sel_envs_ok [sel_event 3 4 SErr, sel_event 4 5 (SData ''hi'')] (sel_start 3)"
    by (simp add: sel_accept_first sel_one_client) (simp add: sel_env_ok_def sel_event_def sel_start_def one_client_def)
  from select_sets_follow_slots [OF _ this loop] loop show ?thesis by simp
qed

lemma select_answers_all_witness:
  "sel_iter (sel_event 4 5 (SData ''hi'')) one_client = (Inr one_client, [Echo 4 ''hi'']) \<and>
   [Echo 4 ''hi''] = concat (map (\<lambda>c. if 0 \<le> c \<and> c \<in> rset (sel_event 4 5 (SData ''hi''))
      then (case got (sel_event 4 5 (SData ''hi'')) c of SData d \<Rightarrow> [if d = [] then CloseFd c else Echo c d] | _ \<Rightarrow> []) else []) (client one_client))"
proof -
  have "sel_env_ok (sel_event 4 5 (SData ''hi'')) one_client" by (simp add: sel_env_ok_def sel_event_def one_client_def)
  from select_answers_all [OF one_client_inv this sel_one_client] sel_one_client
  show ?thesis by blast
qed

section \<open>A reset connection\<close>

text \<open>An exit in the walk comes from a ready slot.\<close>

lemma walk_Inl:
  "walk ready one n xs g = (Inl m, out) \<Longrightarrow> \<exists>x \<in> set xs. ready x \<and> (\<exists>g' out'. one x g' = (Inl m, out'))"
proof (induction xs arbitrary: n g out)
  case (Cons x xs)
  then show ?case by (auto split: if_splits sum.splits prod.splits)
qed simp

text \<open>One client that resets its connection stops the select server for all, while the poll server, which
  closes that connection, exits only when the slots are used up, on another read error or on a failed write.\<close>

theorem reset_stops_select_not_poll:
  assumes "sel_inv s" "sel_env_ok e s" "listenfd s \<notin> rset e" "c \<in> set (client s)" "0 \<le> c" "c \<in> rset e" "got e c = SReset"
  shows "(\<exists>m out. sel_iter e s = (Inl m, out)) \<and>
    (\<forall>pe ps m out. poll_iter pe ps = (Inl m, out) \<longrightarrow>
       m = ''too many clients'' \<or> (\<exists>x. revent pe x \<and> (pgot pe x = SErr \<or> \<not> psendable pe x)))"
proof
  show "\<exists>m out. sel_iter e s = (Inl m, out)"
  proof (rule ccontr)
    assume "\<nexists>m out. sel_iter e s = (Inl m, out)"
    then obtain s' out where "sel_iter e s = (Inr s', out)" by (metis surj_pair sum.exhaust)
    then have "sel_clients e (int (card (rset e))) s = (Inr s', out)" using assms(3) by (simp add: sel_iter_def Let_def)
    moreover have "int (length (filter (sel_ready e) (client s))) \<le> int (card (rset e))"
      using ready_count(1) [OF assms(1), of e] assms(2,3) by (simp add: sel_env_ok_def)
    ultimately have "list_all (\<lambda>c. sel_ready e c \<longrightarrow> (\<exists>d. got e c = SData d)) (client s)"
      using sel_clients_all assms(1) by blast
    then show False using assms(4-7) by (auto simp: list_all_iff sel_ready_def)
  qed
  have one: "\<exists>x. revent pe x \<and> (pgot pe x = SErr \<or> \<not> psendable pe x)"
    if w: "poll_clients pe n q = (Inl m, out)" for pe n q m out
  proof -
    obtain k where "walk (\<lambda>p. 0 \<le> fd p \<and> revent pe (fd p)) (poll_one pe) n (take k (tl (slots q))) () = (Inl m, out)"
      using w by (auto simp: poll_clients_def Let_def split: sum.splits prod.splits)
    from walk_Inl [OF this] obtain p g' out' where "revent pe (fd p)" "poll_one pe p g' = (Inl m, out')" by blast
    then show ?thesis by (auto simp: poll_one_def split: sread.splits if_splits)
  qed
  show "\<forall>pe ps m out. poll_iter pe ps = (Inl m, out) \<longrightarrow>
       m = ''too many clients'' \<or> (\<exists>x. revent pe x \<and> (pgot pe x = SErr \<or> \<not> psendable pe x))"
    using one by (auto simp: poll_iter_def poll_accept_def split: if_splits option.splits sum.splits)
qed

lemma reset_stops_select_not_poll_witness:
  "\<exists>m out. sel_iter (sel_event 4 5 SReset) one_client = (Inl m, out)"
  using reset_stops_select_not_poll [OF one_client_inv, of "sel_event 4 5 SReset" 4]
  by (simp add: sel_env_ok_def sel_event_def one_client_def)

section \<open>The preforking parent\<close>

text \<open>What the kernel promises: only what was asked for is ready, and \<^verbatim>\<open>select\<close> waits for
  something.  Nothing is assumed of what the children write.\<close>

definition serv05_env_ok :: "serv05_env \<Rightarrow> parent \<Rightarrow> bool" where
  "serv05_env_ok e p \<longleftrightarrow> ready_fds e \<subseteq> watched p \<and> ready_fds e \<noteq> {}"

definition free_children :: "parent \<Rightarrow> nat" where
  "free_children p = length (filter (\<lambda>c. \<not> child_busy c) (cptr p))"

definition fds_ok :: "parent \<Rightarrow> bool" where
  "fds_ok p \<longleftrightarrow> distinct (p_listenfd p # map child_pipefd (cptr p))"

lemma serv05_start_ok:
  "distinct (lfd # map snd pipes) \<Longrightarrow> fds_ok (serv05_start lfd pipes)"
  "navail (serv05_start lfd pipes) = int (free_children (serv05_start lfd pipes))"
  by (simp_all add: fds_ok_def free_children_def serv05_start_def comp_def case_prod_unfold)

definition freed_by :: "serv05_env \<Rightarrow> child \<Rightarrow> child" where
  "freed_by e c = (if child_pipefd c \<in> ready_fds e then c\<lparr>child_busy := False\<rparr> else c)"

text \<open>The bytes an iteration reads from children the parent holds to be free.\<close>

definition stray_from :: "serv05_env \<Rightarrow> child list \<Rightarrow> nat" where
  "stray_from e cs = length (filter (\<lambda>c. child_pipefd c \<in> ready_fds e \<and> \<not> child_busy c) cs)"

abbreviation pipe_ready :: "serv05_env \<Rightarrow> nat \<times> child \<Rightarrow> bool" where
  "pipe_ready e \<equiv> \<lambda>(i, c). child_pipefd c \<in> ready_fds e"

lemma free_walk:
  "walk_all (pipe_ready e) (child_free e) xs a = (Inr (ys, b), out) \<Longrightarrow>
   map snd ys = map (freed_by e \<circ> snd) xs \<and> out = [] \<and>
   b = a + int (length (filter (\<lambda>c. child_pipefd c \<in> ready_fds e) (map snd xs)))"
proof (induction xs arbitrary: a ys out)
  case (Cons x xs)
  obtain i c where x: "x = (i, c)" by (cases x)
  have says: "child_free e (i, c) a = (Inr ((i, c\<lparr>child_busy := False\<rparr>), a + 1), []) \<or> (\<exists>m. child_free e (i, c) a = (Inl m, []))"
    by (simp add: child_free_def split: pipe_read.split)
  show ?case
  proof (cases "child_pipefd c \<in> ready_fds e")
    case True
    then obtain ys' out' where w: "walk_all (pipe_ready e) (child_free e) xs (a + 1) = (Inr (ys', b), out')"
      "ys = (i, c\<lparr>child_busy := False\<rparr>) # ys'" "out = out'"
      using Cons.prems says by (auto simp: x split: sum.splits prod.splits)
    from Cons.IH [OF w(1)] w(2,3) True show ?thesis by (simp add: x freed_by_def)
  next
    case False
    then obtain ys' where w: "walk_all (pipe_ready e) (child_free e) xs a = (Inr (ys', b), out)" "ys = x # ys'"
      using Cons.prems by (auto simp: x split: sum.splits prod.splits)
    from Cons.IH [OF w(1)] w(2) False show ?thesis by (simp add: x freed_by_def)
  qed
qed simp

text \<open>The bytes read are those that free a child and the stray ones.\<close>

lemma freed_count:
  "length (filter (\<lambda>c. \<not> child_busy c) (map (freed_by e) cs)) + stray_from e cs =
   length (filter (\<lambda>c. \<not> child_busy c) cs) + length (filter (\<lambda>c. child_pipefd c \<in> ready_fds e) cs)"
  by (induction cs) (auto simp: freed_by_def stray_from_def)

text \<open>The count of \<^verbatim>\<open>select\<close> is not used up before the last ready pipe.\<close>

lemma ready_pipes_count:
  assumes "fds_ok p" "finite (ready_fds e)"
  shows "int (length (filter (\<lambda>c. child_pipefd c \<in> ready_fds e) (cptr p))) \<le>
    int (card (ready_fds e)) - (if p_listenfd p \<in> ready_fds e then 1 else 0)"
proof -
  let ?l = "filter (\<lambda>c. child_pipefd c \<in> ready_fds e) (cptr p)"
  have d: "distinct (map child_pipefd ?l)" using assms(1) by (simp add: fds_ok_def distinct_map_filter)
  have sub: "child_pipefd ` set ?l \<subseteq> ready_fds e - {p_listenfd p}" using assms(1) by (auto simp: fds_ok_def image_iff)
  have "length ?l = card (child_pipefd ` set ?l)" using distinct_card [OF d] by simp
  also have "\<dots> \<le> card (ready_fds e - {p_listenfd p})" by (rule card_mono) (use assms(2) sub in auto)
  finally have le: "length ?l \<le> card (ready_fds e - {p_listenfd p})" .
  show ?thesis
  proof (cases "p_listenfd p \<in> ready_fds e")
    case True
    then have "0 < card (ready_fds e)" using assms(2) by (auto simp: card_gt_0_iff)
    with True le assms(2) show ?thesis by (simp add: card_Diff_singleton of_nat_diff)
  qed (use le in simp)
qed

lemma find_free_ok:
  assumes "find_free e n p = (Inr p', out)" "fds_ok p"
    "int (length (filter (\<lambda>c. child_pipefd c \<in> ready_fds e) (cptr p))) \<le> n"
  shows "fds_ok p'" "navail p' - int (free_children p') =
    navail p - int (free_children p) + int (stray_from e (cptr p))"
proof -
  let ?xs = "zip [0..<length (cptr p)] (cptr p)"
  have z: "map snd ?xs = cptr p" by simp
  have "length (filter (pipe_ready e) ?xs) = length (filter (\<lambda>c. child_pipefd c \<in> ready_fds e) (map snd ?xs))"
    by (simp add: filter_map comp_def case_prod_unfold del: map_snd_zip)
  then have "walk (pipe_ready e) (child_free e) n ?xs (navail p) = walk_all (pipe_ready e) (child_free e) ?xs (navail p)"
    using assms(3) by (intro walk_count) (simp add: z)
  then obtain cs b where w: "walk_all (pipe_ready e) (child_free e) ?xs (navail p) = (Inr (cs, b), out)"
    and p': "p' = p\<lparr>cptr := map snd cs, navail := b\<rparr>"
    using assms(1) by (auto simp: find_free_def split: sum.splits prod.splits)
  have cs: "map snd cs = map (freed_by e) (cptr p)"
    "b = navail p + int (length (filter (\<lambda>c. child_pipefd c \<in> ready_fds e) (cptr p)))"
    using free_walk [OF w] z by (simp_all flip: map_map)
  have "map child_pipefd (map (freed_by e) (cptr p)) = map child_pipefd (cptr p)" by (simp add: freed_by_def)
  then show "fds_ok p'" using assms(2) by (simp add: fds_ok_def p' cs(1) del: map_map)
  show "navail p' - int (free_children p') =
      navail p - int (free_children p) + int (stray_from e (cptr p))"
    using freed_count [of e "cptr p"] by (simp add: free_children_def p' cs)
qed

lemma find_free_Inl:
  assumes "find_free e n p = (Inl m, out)"
  shows "m = ''read error'' \<or> (\<exists>i < length (cptr p). m = ''child '' @ dec i @ '' terminated unexpectedly'')"
proof -
  obtain out' where "walk (pipe_ready e) (child_free e) n (zip [0..<length (cptr p)] (cptr p)) (navail p) = (Inl m, out')"
    using assms by (auto simp: find_free_def split: sum.splits prod.splits)
  from walk_Inl [OF this] obtain i c a out'' where "(i, c) \<in> set (zip [0..<length (cptr p)] (cptr p))"
    "child_free e (i, c) a = (Inl m, out'')" by auto
  moreover from this(1) have "i < length (cptr p)" using set_zip_leftD by fastforce
  ultimately show ?thesis by (auto simp: child_free_def split: pipe_read.splits)
qed

lemma pass_conn_ok:
  assumes "pass_conn e p = (Inr p', out)" "fds_ok p"
  shows "fds_ok p'" "navail p' - int (free_children p') = navail p - int (free_children p)"
    "p_listenfd p' = p_listenfd p"
proof -
  obtain i where i: "first_slot (\<lambda>c. \<not> child_busy c) (cptr p) = Some i"
    and p': "p' = p\<lparr>cptr := (cptr p)[i := (cptr p ! i)\<lparr>child_busy := True, child_count := child_count (cptr p ! i) + 1\<rparr>],
      navail := navail p - 1\<rparr>"
    using assms(1) by (auto simp: pass_conn_def Let_def split: option.splits if_splits)
  note f = first_slot_Some [OF i]
  let ?c = "(cptr p ! i)\<lparr>child_busy := True, child_count := child_count (cptr p ! i) + 1\<rparr>"
  have xs: "cptr p = take i (cptr p) @ cptr p ! i # drop (Suc i) (cptr p)" using f by (intro id_take_nth_drop) simp
  have up: "(cptr p)[i := ?c] = take i (cptr p) @ ?c # drop (Suc i) (cptr p)" using f by (intro upd_conv_take_nth_drop) simp
  have "int (length (filter (\<lambda>c. \<not> child_busy c) ((cptr p)[i := ?c]))) =
      int (length (filter (\<lambda>c. \<not> child_busy c) (cptr p))) - 1"
    unfolding up by (subst (3) xs) (use f in simp)
  then show "navail p' - int (free_children p') = navail p - int (free_children p)"
    by (simp add: free_children_def p')
  have "map child_pipefd ((cptr p)[i := ?c]) = map child_pipefd (cptr p)"
    by (simp add: map_update) (metis f list_update_id nth_map)
  then show "fds_ok p'" using assms(2) by (simp add: fds_ok_def p')
  show "p_listenfd p' = p_listenfd p" by (simp add: p')
qed

lemma pass_conn_Inl:
  assumes "pass_conn e p = (Inl m, out)"
  shows "m = ''write_fd error'' \<or> m = ''no available children'' \<and> free_children p = 0"
  using assms by (auto simp: pass_conn_def Let_def free_children_def first_slot_None split: option.splits if_splits)

text \<open>The stray bytes of an iteration, and of a run.\<close>

definition stray :: "serv05_env \<Rightarrow> parent \<Rightarrow> nat" where
  "stray e p = stray_from e (cptr (if p_listenfd p \<in> ready_fds e
     then (case pass_conn e p of (Inr p', out) \<Rightarrow> p' | _ \<Rightarrow> p) else p))"

lemma serv05_iter_count:
  assumes "fds_ok p" "serv05_env_ok e p" "serv05_iter e p = (Inr p', out)"
  shows "fds_ok p' \<and> navail p' - int (free_children p') = navail p - int (free_children p) + int (stray e p)"
proof -
  have fin: "finite (ready_fds e)" using assms(2) by (auto simp: serv05_env_ok_def watched_def intro: finite_subset)
  show ?thesis
  proof (cases "p_listenfd p \<in> ready_fds e")
    case False
    then have "find_free e (int (card (ready_fds e))) p = (Inr p', out)" using assms(3) by (simp add: serv05_iter_def Let_def)
    from find_free_ok [OF this assms(1)] ready_pipes_count [OF assms(1) fin] False show ?thesis by (simp add: stray_def)
  next
    case True
    obtain p1 out1 where pc: "pass_conn e p = (Inr p1, out1)"
      using assms(3) True by (auto simp: serv05_iter_def Let_def split: sum.splits prod.splits)
    note ok = pass_conn_ok [OF pc assms(1)]
    note cnt = ready_pipes_count [OF ok(1) fin, unfolded ok(3)]
    show ?thesis
    proof (cases "int (card (ready_fds e)) - 1 = 0")
      case one: True
      with cnt True have "filter (\<lambda>c. child_pipefd c \<in> ready_fds e) (cptr p1) = []" by simp
      then have "stray e p = 0" using True pc by (auto simp: stray_def stray_from_def filter_empty_conv)
      with one True pc ok assms(3) show ?thesis by (simp add: serv05_iter_def)
    next
      case False
      then obtain out2 where "find_free e (int (card (ready_fds e)) - 1) p1 = (Inr p', out2)"
        using True pc assms(3) by (auto simp: serv05_iter_def Let_def split: prod.splits)
      from find_free_ok [OF this ok(1)] cnt ok(2) True pc show ?thesis by (simp add: stray_def)
    qed
  qed
qed

text \<open>An iteration that ends the parent: where there was no free child, the count was above it.\<close>

lemma serv05_iter_exit:
  assumes "fds_ok p" "serv05_env_ok e p" "serv05_iter e p = (Inl m, out)"
  shows "m \<in> {''read error'', ''write_fd error''} \<or> (\<exists>i. m = ''child '' @ dec i @ '' terminated unexpectedly'') \<or>
    m = ''no available children'' \<and> free_children p = 0 \<and> 0 < navail p"
proof (cases "p_listenfd p \<in> ready_fds e")
  case False
  then show ?thesis using assms(3) find_free_Inl [of e _ p m] by (auto simp: serv05_iter_def Let_def)
next
  case True
  have "p_listenfd p \<notin> child_pipefd ` set (cptr p)" using assms(1) by (simp add: fds_ok_def)
  with True assms(2) have "0 < navail p" by (auto simp: serv05_env_ok_def watched_def split: if_splits)
  then show ?thesis
    using True assms(3) pass_conn_Inl [of e p m] find_free_Inl [of e _ _ m]
    by (auto simp: serv05_iter_def Let_def split: sum.splits prod.splits if_splits)
qed

text \<open>The runs of the parent.\<close>

fun serv05_loop :: "serv05_env list \<Rightarrow> parent \<Rightarrow> string + parent" where
  "serv05_loop [] p = Inr p"
| "serv05_loop (e # es) p = (case serv05_iter e p of (Inr p', out) \<Rightarrow> serv05_loop es p' | (Inl m, out) \<Rightarrow> Inl m)"

fun serv05_envs_ok :: "serv05_env list \<Rightarrow> parent \<Rightarrow> bool" where
  "serv05_envs_ok [] p = True"
| "serv05_envs_ok (e # es) p =
     (serv05_env_ok e p \<and> (case serv05_iter e p of (Inr p', out) \<Rightarrow> serv05_envs_ok es p' | _ \<Rightarrow> True))"

fun strays :: "serv05_env list \<Rightarrow> parent \<Rightarrow> nat" where
  "strays [] p = 0"
| "strays (e # es) p = (case serv05_iter e p of (Inr p', out) \<Rightarrow> stray e p + strays es p' | _ \<Rightarrow> 0)"

lemma serv05_run_count:
  assumes "fds_ok p" "serv05_envs_ok es p" "navail p = int (free_children p) + int k"
  shows "case serv05_loop es p of
      Inr p' \<Rightarrow> navail p' = int (free_children p') + int (k + strays es p)
    | Inl m \<Rightarrow> m \<in> {''read error'', ''write_fd error''} \<or> (\<exists>i. m = ''child '' @ dec i @ '' terminated unexpectedly'') \<or>
        m = ''no available children'' \<and> 0 < k + strays es p"
  using assms
proof (induction es arbitrary: p k)
  case (Cons e es)
  have ok: "serv05_env_ok e p" using Cons.prems(2) by simp
  show ?case
  proof (cases "serv05_iter e p")
    case (Pair r out)
    show ?thesis
    proof (cases r)
      case (Inl m)
      have k: "0 < k" if "free_children p = 0" "0 < navail p" using that Cons.prems(3) by simp
      have l: "serv05_loop (e # es) p = Inl m" using Pair Inl by simp
      show ?thesis unfolding l sum.case using serv05_iter_exit [OF Cons.prems(1) ok Pair [unfolded Inl]] k by blast
    next
      case (Inr p')
      note c = serv05_iter_count [OF Cons.prems(1) ok Pair [unfolded Inr]]
      have n: "navail p' = int (free_children p') + int (k + stray e p)" using c Cons.prems(3) by simp
      have o: "serv05_envs_ok es p'" using Cons.prems(2) Pair Inr by simp
      have s: "k + strays (e # es) p = k + stray e p + strays es p'" "serv05_loop (e # es) p = serv05_loop es p'"
        using Pair Inr by simp_all
      show ?thesis unfolding s by (rule Cons.IH [OF conjunct1 [OF c] o n])
    qed
  qed
qed simp

text \<open>C26. The parent of the preforked server takes every byte of a pipe for a child that is done.  In every
  run, whatever the children write, its count of free children is the number of those it has marked free plus the
  stray bytes: those it read from a child already marked free.  So it asks for connections whenever a child is
  marked free, and it ends itself for want of a child only after a stray byte; otherwise only when a pipe ends or a
  read or the passing of a descriptor fails.\<close>

theorem prefork_counts_bytes:
  assumes "distinct (lfd # map snd pipes)" "serv05_envs_ok es (serv05_start lfd pipes)"
  shows "case serv05_loop es (serv05_start lfd pipes) of
      Inr p \<Rightarrow> navail p = int (length (filter (\<lambda>c. \<not> child_busy c) (cptr p))) + int (strays es (serv05_start lfd pipes))
    | Inl m \<Rightarrow> m \<in> {''read error'', ''write_fd error''} \<or> (\<exists>i. m = ''child '' @ dec i @ '' terminated unexpectedly'') \<or>
        m = ''no available children'' \<and> 0 < strays es (serv05_start lfd pipes)"
  using serv05_run_count [OF serv05_start_ok(1) [OF assms(1)] assms(2), of 0] serv05_start_ok(2) [of lfd pipes]
  by (cases "serv05_loop es (serv05_start lfd pipes)") (simp_all add: free_children_def)

text \<open>One child: it takes a connection and writes two bytes of an error text.  The first makes it free, the
  second is stray: the parent takes two more connections and ends itself at the second.\<close>

definition prefork_script :: "serv05_env list" where
  "prefork_script = map (\<lambda>d. \<lparr>ready_fds = {d}, child_says = (\<lambda>x. PByte), passable = (\<lambda>x. True)\<rparr>) [3, 7, 7, 3, 3]"

lemmas serv05_eval = serv05_start_def serv05_iter_def pass_conn_def find_free_def child_free_def Let_def
  serv05_env_ok_def watched_def prefork_script_def stray_def stray_from_def

lemma prefork_counts_bytes_witness:
  "(case serv05_loop (take 3 prefork_script) (serv05_start 3 [(100, 7)]) of
      Inr p \<Rightarrow> navail p = int (length (filter (\<lambda>c. \<not> child_busy c) (cptr p))) + 1 | Inl m \<Rightarrow> False) \<and>
   serv05_loop prefork_script (serv05_start 3 [(100, 7)]) = Inl ''no available children''"
proof -
  let ?s = "serv05_start 3 [(100, 7)]"
  have ok: "serv05_envs_ok (take 3 prefork_script) ?s" by (simp add: serv05_eval numeral_eq_Suc)
  have n: "strays (take 3 prefork_script) ?s = 1" by (simp add: serv05_eval numeral_eq_Suc)
  have r: "\<exists>p. serv05_loop (take 3 prefork_script) ?s = Inr p" by (simp add: serv05_eval numeral_eq_Suc)
  have x: "serv05_loop prefork_script ?s = Inl ''no available children''" by (simp add: serv05_eval)
  from prefork_counts_bytes [OF _ ok] n r x show ?thesis by auto
qed

end
