(* ===== verification/Unp_Float.thy ===== *)
theory Unp_Float
  imports Prelude Complex_Main "HOL-Library.Log_Nat"
begin

text \<open>
  The arithmetic of C's \<^verbatim>\<open>float\<close> and \<^verbatim>\<open>double\<close> on the host: a value is a
  rational number, an operation is the exact result rounded to the nearest number of the format, and to the even one
  of two.  A format is the number of its digits and the exponent of its smallest unit, so that small numbers lose
  digits as they do on the host.  Results too large for the format do not occur in the programs: the numbers here
  stay below \<open>2 ^ 33\<close>.
\<close>

section \<open>Rounding\<close>

text \<open>The exponent of the leading binary digit of a positive number.\<close>

definition flog2 :: "rat \<Rightarrow> int" where
  "flog2 x = (case quotient_of x of (a, b) \<Rightarrow>
     (let k = bitlen a - bitlen b in if 2 powi k \<le> x then k else k - 1))"

definition round_even :: "rat \<Rightarrow> int" where
  "round_even x =
     (let n = \<lfloor>x\<rfloor>; r = x - of_int n in
      if r < 1 / 2 \<or> r = 1 / 2 \<and> even n then n else n + 1)"

definition unit_of :: "int \<Rightarrow> int \<Rightarrow> rat \<Rightarrow> rat" where
  "unit_of p m x = 2 powi (max (flog2 \<bar>x\<bar> - p + 1) m)"

definition rounded :: "int \<Rightarrow> int \<Rightarrow> rat \<Rightarrow> rat" where
  "rounded p m x = (if x = 0 then 0 else of_int (round_even (x / unit_of p m x)) * unit_of p m x)"

abbreviation f32 :: "rat \<Rightarrow> rat" where "f32 \<equiv> rounded 24 (- 149)"
abbreviation f64 :: "rat \<Rightarrow> rat" where "f64 \<equiv> rounded 53 (- 1074)"

section \<open>Rounding to integers\<close>

lemma round_even_of_int [simp]: "round_even (of_int n) = n"
  by (simp add: round_even_def)

lemma round_even_error: "\<bar>of_int (round_even x) - x\<bar> \<le> 1 / 2"
  by (simp add: round_even_def Let_def abs_if) linarith

lemma round_even_mono: "x \<le> y \<Longrightarrow> round_even x \<le> round_even y"
proof -
  assume xy: "x \<le> y"
  then have fl: "\<lfloor>x\<rfloor> \<le> \<lfloor>y\<rfloor>" by (rule floor_mono)
  have b: "\<lfloor>z\<rfloor> \<le> round_even z \<and> round_even z \<le> \<lfloor>z\<rfloor> + 1" for z by (simp add: round_even_def Let_def)
  show ?thesis
  proof (cases "\<lfloor>x\<rfloor> = \<lfloor>y\<rfloor>")
    case True
    with xy show ?thesis by (auto simp: round_even_def Let_def)
  next
    case False
    with fl b [of x] b [of y] show ?thesis by linarith
  qed
qed

lemma round_even_nonneg: "0 \<le> x \<Longrightarrow> 0 \<le> round_even x"
  using round_even_mono [of 0 x] round_even_of_int [of 0] by simp

section \<open>The leading digit\<close>

lemma powi_mono: "a \<le> b \<Longrightarrow> (2 :: rat) powi a \<le> 2 powi b"
  by (rule power_int_increasing) simp_all

lemma powi_less: "a < b \<Longrightarrow> (2 :: rat) powi a < 2 powi b"
  by (rule power_int_strict_increasing) simp_all

lemma powi_pos [simp]: "0 < (2 :: rat) powi a"
  by (rule zero_less_power_int) simp

lemma flog2_bounds:
  assumes "0 < x"
  shows "2 powi flog2 x \<le> x" "x < 2 powi (flog2 x + 1)"
proof -
  obtain a b where q: "quotient_of x = (a, b)" by (cases "quotient_of x") auto
  have x: "x = of_int a / of_int b" and b: "0 < b" using quotient_of_div [OF q] quotient_of_denom_pos [OF q] by auto
  then have a: "0 < a" using assms by (simp add: zero_less_divide_iff)
  have pw: "(of_int (2 ^ n) :: rat) = 2 powi int n" for n by simp
  have bit: "(2 :: rat) powi (bitlen c - 1) \<le> of_int c \<and> of_int c < (2 :: rat) powi bitlen c" if "0 < c" for c
  proof -
    have "1 \<le> bitlen c" using that by (simp add: bitlen_ge_iff_power)
    then have "int (nat (bitlen c - 1)) = bitlen c - 1" "int (nat (bitlen c)) = bitlen c" by simp_all
    moreover have "(of_int (2 ^ nat (bitlen c - 1)) :: rat) \<le> of_int c" "(of_int c :: rat) < of_int (2 ^ nat (bitlen c))"
      using bitlen_bounds [OF that] by (simp_all only: of_int_le_iff of_int_less_iff)
    ultimately show ?thesis by (simp only: pw)
  qed
  let ?k = "bitlen a - bitlen b"
  have "(2 :: rat) powi (?k - 1) * 2 powi bitlen b = 2 powi (bitlen a - 1)"
    by (simp flip: power_int_add)
  moreover have "(2 :: rat) powi (?k - 1) * of_int b \<le> 2 powi (?k - 1) * 2 powi bitlen b"
    using bit [OF b] by (simp add: less_imp_le)
  ultimately have lo: "2 powi (?k - 1) \<le> x" using bit [OF a] b by (simp add: x pos_le_divide_eq)
  have "(2 :: rat) powi (?k + 1) * 2 powi (bitlen b - 1) = 2 powi bitlen a"
    by (simp flip: power_int_add)
  moreover have "(2 :: rat) powi (?k + 1) * 2 powi (bitlen b - 1) \<le> 2 powi (?k + 1) * of_int b"
    using bit [OF b] by simp
  ultimately have hi: "x < 2 powi (?k + 1)" using bit [OF a] b by (simp add: x pos_divide_less_eq)
  have "flog2 x = (if 2 powi ?k \<le> x then ?k else ?k - 1)" by (simp add: flog2_def q)
  with lo hi show "2 powi flog2 x \<le> x" "x < 2 powi (flog2 x + 1)" by (auto split: if_splits)
qed

lemma flog2_le: "0 < x \<Longrightarrow> x < 2 powi (e + 1) \<Longrightarrow> flog2 x \<le> e"
  using flog2_bounds(1) [of x] powi_mono [of "e + 1" "flog2 x"] by (cases "flog2 x \<le> e") (auto simp: not_le)

lemma flog2_ge: "2 powi e \<le> x \<Longrightarrow> e \<le> flog2 x"
  using flog2_bounds(2) [of x] powi_mono [of "flog2 x + 1" e] less_le_trans [OF powi_pos, of e x] by force

lemma flog2_mono: "0 < x \<Longrightarrow> x \<le> y \<Longrightarrow> flog2 x \<le> flog2 y"
  using flog2_bounds(1) [of x] by (intro flog2_ge) auto

section \<open>Rounding to a format\<close>

named_theorems floats \<open>signs and bounds of rounded values\<close>

lemma unit_pos [simp]: "0 < unit_of p m x" "unit_of p m x \<noteq> 0"
  by (simp_all add: unit_of_def)

lemma rounded_0 [simp]: "rounded p m 0 = 0"
  by (simp add: rounded_def)

text \<open>The numbers of a format: at most \<open>p\<close> digits above the smallest unit.\<close>

definition representable :: "int \<Rightarrow> int \<Rightarrow> rat \<Rightarrow> bool" where
  "representable p m x \<longleftrightarrow> (\<exists>k j. x = of_int k * 2 powi j \<and> \<bar>k\<bar> < 2 ^ nat p \<and> m \<le> j)"

lemma rounded_error:
  "\<bar>rounded p m x - x\<bar> \<le> \<bar>x\<bar> * 2 powi (- p) + 2 powi (m - 1)"
proof (cases "x = 0")
  case False
  let ?u = "unit_of p m x"
  have "\<bar>rounded p m x - x\<bar> = \<bar>of_int (round_even (x / ?u)) - x / ?u\<bar> * ?u"
  proof -
    have "rounded p m x - x = (of_int (round_even (x / ?u)) - x / ?u) * ?u"
      using False by (simp add: rounded_def left_diff_distrib)
    then show ?thesis by (simp add: abs_mult less_imp_le)
  qed
  also have "\<dots> \<le> 1 / 2 * ?u" by (rule mult_right_mono [OF round_even_error]) (simp add: less_imp_le)
  also have "\<dots> \<le> 1 / 2 * (2 powi (flog2 \<bar>x\<bar> - p + 1) + 2 powi m)"
    by (simp add: unit_of_def max_def less_imp_le)
  also have "\<dots> = 2 powi flog2 \<bar>x\<bar> * 2 powi (- p) + 2 powi (m - 1)"
    by (simp add: power_int_add power_int_diff power_int_minus field_simps)
  also have "\<dots> \<le> \<bar>x\<bar> * 2 powi (- p) + 2 powi (m - 1)"
    using flog2_bounds(1) [of "\<bar>x\<bar>"] False by (intro add_mono mult_right_mono) (simp_all add: less_imp_le)
  finally show ?thesis .
qed simp

lemma round_even_minus: "round_even (- x) = - round_even x"
proof (cases "x = of_int \<lfloor>x\<rfloor>")
  case True
  then show ?thesis using round_even_of_int [of "- \<lfloor>x\<rfloor>"] round_even_of_int [of "\<lfloor>x\<rfloor>"] by simp
next
  case False
  then have f: "\<lfloor>- x\<rfloor> = - \<lfloor>x\<rfloor> - 1" by linarith
  show ?thesis unfolding round_even_def Let_def f by (auto simp: field_simps)
qed

lemma rounded_minus: "rounded p m (- x) = - rounded p m x"
  by (simp add: rounded_def unit_of_def round_even_minus)

lemma power_int_nat: "0 \<le> n \<Longrightarrow> (2 :: rat) powi n = of_int (2 ^ nat n)"
  by (simp add: power_int_def)

text \<open>A number below a power of two is rounded to at most that power, one above it to at least it.\<close>

lemma rounded_le_power:
  assumes "0 < x" "x < 2 powi e" "m \<le> e" "1 \<le> p"
  shows "rounded p m x \<le> 2 powi e"
proof -
  let ?u = "unit_of p m x"
  define k where "k = max (flog2 x - p + 1) m"
  have u: "?u = 2 powi k" using assms(1) by (simp add: unit_of_def k_def)
  have "flog2 x \<le> e - 1" using assms(1,2) by (intro flog2_le) simp_all
  then have "k \<le> e" using assms(3,4) by (simp add: k_def)
  then have q: "2 powi e / ?u = of_int (2 ^ nat (e - k))" unfolding u by (simp add: power_int_nat flip: power_int_diff)
  have "x / ?u \<le> of_int (2 ^ nat (e - k))" unfolding q [symmetric] by (rule divide_right_mono) (use assms(2) in \<open>simp_all add: less_imp_le\<close>)
  then have "round_even (x / ?u) \<le> 2 ^ nat (e - k)" using round_even_mono round_even_of_int by metis
  then have "of_int (round_even (x / ?u)) \<le> 2 powi e / ?u" unfolding q by (simp only: of_int_le_iff)
  then show ?thesis using assms(1) by (simp add: rounded_def pos_le_divide_eq)
qed

lemma rounded_ge_power:
  assumes "2 powi e \<le> x" "m \<le> e" "1 \<le> p"
  shows "2 powi e \<le> rounded p m x"
proof -
  let ?u = "unit_of p m x"
  have x: "0 < x" using less_le_trans [OF powi_pos assms(1)] .
  define k where "k = max (flog2 x - p + 1) m"
  have u: "?u = 2 powi k" using x by (simp add: unit_of_def k_def)
  have lo: "2 powi flog2 x \<le> rounded p m x" if "k \<le> flog2 x"
  proof -
    have q: "2 powi flog2 x / ?u = of_int (2 ^ nat (flog2 x - k))" unfolding u using that by (simp add: power_int_nat flip: power_int_diff)
    have "of_int (2 ^ nat (flog2 x - k)) \<le> x / ?u"
      unfolding q [symmetric] by (rule divide_right_mono) (use flog2_bounds(1) [OF x] in \<open>simp_all add: less_imp_le\<close>)
    then have "2 ^ nat (flog2 x - k) \<le> round_even (x / ?u)" using round_even_mono round_even_of_int by metis
    then have "2 powi flog2 x / ?u \<le> of_int (round_even (x / ?u))" unfolding q by (simp only: of_int_le_iff)
    then show ?thesis using x by (simp add: rounded_def pos_divide_le_eq)
  qed
  have e: "e \<le> flog2 x" by (rule flog2_ge [OF assms(1)])
  then have "k \<le> flog2 x" using assms(2,3) by (simp add: k_def)
  from lo [OF this] powi_mono [OF e] show ?thesis by simp
qed

lemma rounded_nonneg [floats]: "0 \<le> x \<Longrightarrow> 0 \<le> rounded p m x"
  by (simp add: rounded_def round_even_nonneg less_imp_le)

lemma rounded_mono_pos:
  assumes "0 < x" "x \<le> y" "1 \<le> p"
  shows "rounded p m x \<le> rounded p m y"
proof -
  let ?u = "unit_of p m x" and ?v = "unit_of p m y"
  have le: "flog2 x \<le> flog2 y" by (rule flog2_mono [OF assms(1,2)])
  show ?thesis
  proof (cases "?u = ?v")
    case True
    have "x / ?u \<le> y / ?u" by (rule divide_right_mono [OF assms(2)]) (simp add: less_imp_le)
    from round_even_mono [OF this] show ?thesis using assms(1,2) True by (simp add: rounded_def)
  next
    case False
    then have "max (flog2 x - p + 1) m \<noteq> max (flog2 y - p + 1) m" using assms(1,2) by (auto simp: unit_of_def)
    then have "flog2 x < flog2 y" "m \<le> flog2 y - p + 1" using le by linarith+
    then have "flog2 x + 1 \<le> flog2 y" "m \<le> flog2 y" using assms(3) by simp_all
    have "x < 2 powi flog2 y" using flog2_bounds(2) [OF assms(1)] powi_mono [OF \<open>flog2 x + 1 \<le> flog2 y\<close>] by simp
    then have "rounded p m x \<le> 2 powi flog2 y" by (rule rounded_le_power [OF assms(1) _ \<open>m \<le> flog2 y\<close> assms(3)])
    also have "\<dots> \<le> rounded p m y"
      by (rule rounded_ge_power [OF flog2_bounds(1) \<open>m \<le> flog2 y\<close> assms(3)]) (use assms(1,2) in simp)
    finally show ?thesis .
  qed
qed

lemma rounded_mono:
  assumes "x \<le> y" "1 \<le> p"
  shows "rounded p m x \<le> rounded p m y"
proof -
  consider "0 < x" | "y < 0" | "x \<le> 0" "0 \<le> y" by linarith
  then show ?thesis
  proof cases
    case 1
    then show ?thesis by (rule rounded_mono_pos [OF _ assms])
  next
    case 2
    then have "rounded p m (- y) \<le> rounded p m (- x)" using assms by (intro rounded_mono_pos) simp_all
    then show ?thesis by (simp add: rounded_minus)
  next
    case 3
    then have "0 \<le> rounded p m (- x)" "0 \<le> rounded p m y" by (simp_all add: rounded_nonneg)
    then show ?thesis by (simp add: rounded_minus)
  qed
qed

text \<open>A number of the format stays what it is.\<close>

lemma rounded_representable:
  assumes "representable p m x" "1 \<le> p"
  shows "rounded p m x = x"
proof (cases "x = 0")
  case False
  obtain k j where x: "x = of_int k * 2 powi j" and k: "\<bar>k\<bar> < 2 ^ nat p" and j: "m \<le> j"
    using assms(1) by (auto simp: representable_def)
  define e where "e = max (flog2 \<bar>x\<bar> - p + 1) m"
  have "of_int \<bar>k\<bar> < (2 :: rat) powi p" using k assms(2) by (simp add: power_int_nat flip: of_int_less_iff [where 'a = rat])
  then have "of_int \<bar>k\<bar> * 2 powi j < (2 :: rat) powi p * 2 powi j" by (rule mult_strict_right_mono) simp
  then have "\<bar>x\<bar> < 2 powi (p + j - 1 + 1)" by (simp add: x abs_mult power_int_add)
  then have "flog2 \<bar>x\<bar> \<le> p + j - 1" using False by (intro flog2_le) simp_all
  then have "e \<le> j" using j by (simp add: e_def)
  have u: "unit_of p m x = 2 powi e" by (simp add: unit_of_def e_def)
  have "x / 2 powi e = of_int k * 2 powi (j - e)" by (simp add: x power_int_diff)
  also have "\<dots> = of_int (k * 2 ^ nat (j - e))" using \<open>e \<le> j\<close> by (simp add: power_int_nat)
  finally have "round_even (x / 2 powi e) = k * 2 ^ nat (j - e)" "x / 2 powi e = of_int (k * 2 ^ nat (j - e))"
    by (simp_all only: round_even_of_int)
  then have "of_int (round_even (x / unit_of p m x)) = x / unit_of p m x" by (simp add: u)
  then show ?thesis using False by (simp add: rounded_def)
qed simp


lemma representable_rounded:
  assumes "1 \<le> p"
  shows "representable p m (rounded p m x)"
proof (cases "x = 0")
  case True
  then show ?thesis unfolding representable_def by (intro exI [of _ "0 :: int"] exI [of _ m]) simp
next
  case False
  define e where "e = max (flog2 \<bar>x\<bar> - p + 1) m"
  have u: "unit_of p m x = 2 powi e" by (simp add: unit_of_def e_def)
  define k where "k = round_even (x / 2 powi e)"
  have v: "rounded p m x = of_int k * 2 powi e" using False by (simp add: rounded_def u k_def)
  have pw: "(2 :: rat) powi (p + e) / 2 powi e = of_int (2 ^ nat p)" using assms by (simp add: power_int_nat flip: power_int_diff)
  have "\<bar>x\<bar> < 2 powi (flog2 \<bar>x\<bar> + 1)" using False by (intro flog2_bounds) simp
  also have "\<dots> \<le> 2 powi (p + e)" by (rule powi_mono) (simp add: e_def)
  finally have "\<bar>x\<bar> / 2 powi e \<le> of_int (2 ^ nat p)"
    unfolding pw [symmetric] by (intro divide_right_mono) (simp_all add: less_imp_le)
  then have "x / 2 powi e \<le> of_int (2 ^ nat p)" "of_int (- (2 ^ nat p)) \<le> x / 2 powi e"
    by (simp_all add: abs_if minus_le_iff split: if_splits) (simp_all add: field_simps)
  then have k: "k \<le> 2 ^ nat p" "- (2 ^ nat p) \<le> k"
    unfolding k_def using round_even_mono round_even_of_int by metis+
  show ?thesis
  proof (cases "\<bar>k\<bar> < 2 ^ nat p")
    case True
    then show ?thesis unfolding v representable_def by (intro exI [of _ k] exI [of _ e]) (simp add: e_def)
  next
    case False
    then have "k = 2 ^ nat p \<or> k = - (2 ^ nat p)" using k by linarith
    moreover have "(2 :: int) ^ nat p = 2 ^ nat (p - 1) * 2" using assms by (simp flip: power_Suc2 add: Suc_nat_eq_nat_zadd1)
    ultimately have disj: "k = 2 ^ nat (p - 1) * 2 \<or> k = - (2 ^ nat (p - 1)) * 2" by simp
    define s :: int where "s = (if 0 < k then 2 ^ nat (p - 1) else - (2 ^ nat (p - 1)))"
    have s: "k = s * 2" "\<bar>s\<bar> = 2 ^ nat (p - 1)" using disj by (auto simp: s_def)
    have "rounded p m x = of_int s * 2 powi (e + 1)" by (simp add: v s(1) power_int_add)
    moreover have "\<bar>s\<bar> < 2 ^ nat p" using assms s(2) by (simp add: power_strict_increasing_iff)
    ultimately show ?thesis unfolding representable_def by (intro exI [of _ s] exI [of _ "e + 1"]) (simp add: e_def)
  qed
qed

lemma representable_minus: "representable p m x \<Longrightarrow> representable p m (- x)"
  unfolding representable_def by (metis abs_minus_cancel mult_minus_left of_int_minus)

lemma representable_wider: "representable p m x \<Longrightarrow> p \<le> p' \<Longrightarrow> m' \<le> m \<Longrightarrow> representable p' m' x"
  unfolding representable_def
  by (elim exE conjE, intro exI conjI, assumption) (auto intro: less_le_trans power_increasing)

lemma representable_int: "\<bar>n\<bar> < 2 ^ nat p \<Longrightarrow> m \<le> 0 \<Longrightarrow> representable p m (of_int n)"
  unfolding representable_def by (intro exI [of _ n] exI [of _ "0 :: int"]) simp

lemma f32_f64: "representable 24 (- 149) x \<Longrightarrow> representable 53 (- 1074) x"
  by (rule representable_wider [of 24 "- 149"]) simp_all

text \<open>A sum with a number of the format is not rounded below zero when it is not negative before.\<close>

lemma rounded_ge_minus [floats]:
  assumes "representable p m v" "- v \<le> x" "1 \<le> p"
  shows "- v \<le> rounded p m x"
  using rounded_mono [OF assms(2,3), of m] rounded_representable [OF representable_minus [OF assms(1)] assms(3)] by simp

lemma rounded_int_bounds:
  assumes "of_int a \<le> x" "x \<le> of_int b" "\<bar>a\<bar> < 2 ^ nat p" "\<bar>b\<bar> < 2 ^ nat p" "m \<le> 0" "1 \<le> p"
  shows "of_int a \<le> rounded p m x \<and> rounded p m x \<le> of_int b"
  using rounded_mono [OF assms(1,6), of m] rounded_mono [OF assms(2,6), of m]
    rounded_representable [OF representable_int [OF assms(3,5)] assms(6)]
    rounded_representable [OF representable_int [OF assms(4,5)] assms(6)] by simp

lemma powi_minus_numeral: "(2 :: rat) powi (- numeral n) = 1 / 2 ^ numeral n"
  by (simp only: power_int_minus power_int_numeral divide_inverse mult_1_left)

lemma f32_error: "\<bar>f32 x - x\<bar> \<le> \<bar>x\<bar> / 2 ^ 24 + 1 / 2 ^ 150"
proof -
  have "\<bar>f32 x - x\<bar> \<le> \<bar>x\<bar> * 2 powi (- 24) + 2 powi (- 149 - 1)" by (rule rounded_error)
  also have "\<dots> \<le> \<bar>x\<bar> * 2 powi (- 24) + 2 powi (- 150)" by (intro add_left_mono powi_mono) simp
  also have "\<dots> = \<bar>x\<bar> / 2 ^ 24 + 1 / 2 ^ 150" by (simp only: powi_minus_numeral divide_inverse mult_1_left)
  finally show ?thesis .
qed

lemma f64_error: "\<bar>f64 x - x\<bar> \<le> \<bar>x\<bar> / 2 ^ 53 + 1 / 2 ^ 200"
proof -
  have "\<bar>f64 x - x\<bar> \<le> \<bar>x\<bar> * 2 powi (- 53) + 2 powi (- 1074 - 1)" by (rule rounded_error)
  also have "\<dots> \<le> \<bar>x\<bar> * 2 powi (- 53) + 2 powi (- 200)" by (intro add_left_mono powi_mono) simp
  also have "\<dots> = \<bar>x\<bar> / 2 ^ 53 + 1 / 2 ^ 200" by (simp only: powi_minus_numeral divide_inverse mult_1_left)
  finally show ?thesis .
qed

end
