(* ===== verification/Unp_Rtt.thy ===== *)
theory Unp_Rtt
  imports Unp_Float
begin

text \<open>
  The estimator of the round-trip time, \<^verbatim>\<open>rtt.c\<close> of \<^verbatim>\<open>src/unpv13e-master/lib\<close>:
  its fields are of type \<^verbatim>\<open>float\<close>, its expressions are computed in \<^verbatim>\<open>double\<close>
  where an operand is one, and each operation rounds as \<open>Unp_Float\<close> says.  The lines it prints for debugging are left
  out.  The properties: the estimator is Jacobson's up to a bound on its rounding errors, and its time-outs stay
  within their limits.
\<close>

section \<open>The model\<close>

definition RTT_RXTMIN :: rat where "RTT_RXTMIN = 2"
definition RTT_RXTMAX :: rat where "RTT_RXTMAX = 60"
definition RTT_MAXNREXMT :: nat where "RTT_MAXNREXMT = 3"

record rtt_info =
  rtt_rtt :: rat
  rtt_srtt :: rat
  rtt_rttvar :: rat
  rtt_rto :: rat
  rtt_nrexmt :: nat
  rtt_base :: u32

definition RTT_RTOCALC :: "rtt_info \<Rightarrow> rat" where
  "RTT_RTOCALC p = f64 (rtt_srtt p + f64 (4 * rtt_rttvar p))"

definition rtt_minmax :: "rat \<Rightarrow> rat" where
  "rtt_minmax arg =
     (let rto = f32 arg in if rto < RTT_RXTMIN then RTT_RXTMIN else if RTT_RXTMAX < rto then RTT_RXTMAX else rto)"

text \<open>\<^verbatim>\<open>gettimeofday\<close>: seconds and microseconds.\<close>

type_synonym timeval = "int \<times> int"

definition rtt_init :: "timeval \<Rightarrow> rtt_info \<Rightarrow> rtt_info" where
  "rtt_init tv p =
     (let p' = p\<lparr>rtt_base := of_int (fst tv), rtt_rtt := 0, rtt_srtt := 0, rtt_rttvar := 3 / 4\<rparr>
      in p'\<lparr>rtt_rto := rtt_minmax (RTT_RTOCALC p')\<rparr>)"

definition rtt_ts :: "u32 \<Rightarrow> timeval \<Rightarrow> u32" where
  "rtt_ts base tv = (case tv of (sec, usec) \<Rightarrow> of_int ((sec - uint base) * 1000 + usec div 1000))"

definition rtt_newpack :: "rtt_info \<Rightarrow> rtt_info" where
  "rtt_newpack p = p\<lparr>rtt_nrexmt := 0\<rparr>"

text \<open>A conversion to an integer drops the fraction.\<close>

definition to_int :: "rat \<Rightarrow> int" where
  "to_int x = (if x < 0 then \<lceil>x\<rceil> else \<lfloor>x\<rfloor>)"

definition rtt_start :: "rtt_info \<Rightarrow> int" where
  "rtt_start p = to_int (f64 (rtt_rto p + 1 / 2))"

definition rtt_stop :: "u32 \<Rightarrow> rtt_info \<Rightarrow> rtt_info" where
  "rtt_stop ms p =
     (let rtt = f32 (f64 (of_nat (unat ms) / 1000));
          delta = f32 (rtt - rtt_srtt p);
          srtt = f32 (f64 (rtt_srtt p + f64 (delta / 8)));
          delta' = (if delta < 0 then - delta else delta);
          rttvar = f32 (f64 (rtt_rttvar p + f64 (f64 (delta' - rtt_rttvar p) / 4)));
          p' = p\<lparr>rtt_rtt := rtt, rtt_srtt := srtt, rtt_rttvar := rttvar\<rparr>
      in p'\<lparr>rtt_rto := rtt_minmax (RTT_RTOCALC p')\<rparr>)"

text \<open>The second component: time to give up.\<close>

definition rtt_timeout :: "rtt_info \<Rightarrow> rtt_info \<times> bool" where
  "rtt_timeout p =
     (p\<lparr>rtt_rto := f32 (rtt_rto p * 2), rtt_nrexmt := rtt_nrexmt p + 1\<rparr>, RTT_MAXNREXMT < rtt_nrexmt p + 1)"

section \<open>The estimates\<close>

text \<open>What holds of the estimator between packets.\<close>

definition rtt_ok :: "rtt_info \<Rightarrow> bool" where
  "rtt_ok p \<longleftrightarrow>
     0 \<le> rtt_srtt p \<and> representable 24 (- 149) (rtt_srtt p) \<and>
     0 \<le> rtt_rttvar p \<and> representable 24 (- 149) (rtt_rttvar p) \<and>
     RTT_RXTMIN \<le> rtt_rto p \<and> rtt_rto p \<le> RTT_RXTMAX \<and> representable 24 (- 149) (rtt_rto p)"

lemma rtt_minmax_bounds: "RTT_RXTMIN \<le> rtt_minmax x" "rtt_minmax x \<le> RTT_RXTMAX"
  by (simp_all add: rtt_minmax_def Let_def RTT_RXTMIN_def RTT_RXTMAX_def)

lemma rtt_minmax_representable: "representable 24 (- 149) (rtt_minmax x)"
  using representable_int [of 2 24 "- 149"] representable_int [of 60 24 "- 149"]
  by (simp add: rtt_minmax_def Let_def RTT_RXTMIN_def RTT_RXTMAX_def representable_rounded)

lemma three_quarters: "representable 24 (- 149) (3 / 4)"
  unfolding representable_def by (intro exI [of _ 3] exI [of _ "- 2"]) (simp add: power_int_minus)

lemma rtt_init_ok: "rtt_ok (rtt_init tv p)"
  using representable_rounded [of 24 "- 149" 0] three_quarters
  by (simp add: rtt_ok_def rtt_init_def Let_def rtt_minmax_bounds rtt_minmax_representable)

lemma unsigned_rat_nonneg [simp]: "0 \<le> (unsigned (w :: u32) :: rat)"
  using of_nat_0_le_iff [of "unat w", where 'a = rat] by simp

lemma seconds_nonneg: "0 \<le> f32 (f64 (of_nat n / 1000))"
  by (simp add: rounded_nonneg)

lemma rtt_stop_ok:
  assumes "rtt_ok p"
  shows "rtt_ok (rtt_stop ms p)"
proof -
  let ?s = "rtt_srtt p" and ?v = "rtt_rttvar p"
  let ?rtt = "f32 (f64 (of_nat (unat ms) / 1000))"
  let ?delta = "f32 (?rtt - ?s)"
  have s: "0 \<le> ?s" "representable 24 (- 149) ?s" and v: "0 \<le> ?v" "representable 24 (- 149) ?v"
    using assms by (simp_all add: rtt_ok_def)
  have "0 \<le> ?rtt" by (rule seconds_nonneg)
  then have "- ?s \<le> ?delta" by (intro rounded_ge_minus [OF s(2)]) simp_all
  then have "- ?s \<le> ?delta / 8" using s(1) by simp
  then have "- ?s \<le> f64 (?delta / 8)" by (intro rounded_ge_minus [OF f32_f64 [OF s(2)]]) simp_all
  then have srtt: "0 \<le> f32 (f64 (?s + f64 (?delta / 8)))" by (intro rounded_nonneg) simp
  have var: "0 \<le> f32 (f64 (?v + f64 (f64 (d - ?v) / 4)))" if "0 \<le> d" for d
  proof -
    have "- ?v \<le> f64 (d - ?v)" by (rule rounded_ge_minus [OF f32_f64 [OF v(2)]]) (use that in simp_all)
    then have "- ?v \<le> f64 (d - ?v) / 4" using v(1) by simp
    then have "- ?v \<le> f64 (f64 (d - ?v) / 4)" by (intro rounded_ge_minus [OF f32_f64 [OF v(2)]]) simp_all
    then show ?thesis by (intro rounded_nonneg) simp
  qed
  show ?thesis
    unfolding rtt_ok_def rtt_stop_def Let_def
    using srtt by (simp add: var representable_rounded rtt_minmax_bounds rtt_minmax_representable)
qed

section \<open>Jacobson's estimator\<close>

text \<open>The error of a \<^verbatim>\<open>double\<close> stored in a \<^verbatim>\<open>float\<close>.\<close>

lemma store_error:
  assumes "\<bar>y\<bar> \<le> c" "\<bar>x - y\<bar> \<le> d"
  shows "\<bar>f32 (f64 x) - y\<bar> \<le> c * (1 / 2 ^ 24 + 1 / 2 ^ 52) + 2 * d + 1 / 2 ^ 149"
proof -
  have "\<bar>f32 (f64 x) - y\<bar> \<le> \<bar>f32 (f64 x) - f64 x\<bar> + \<bar>f64 x - x\<bar> + \<bar>x - y\<bar>" "\<bar>f64 x\<bar> \<le> \<bar>x\<bar> + \<bar>f64 x - x\<bar>"
    "\<bar>x\<bar> \<le> c + d" "0 \<le> c" "0 \<le> d"
    using assms by linarith+
  moreover have "E2 + E1 + D \<le> c * (1 / 2 ^ 24 + 1 / 2 ^ 52) + 2 * d + 1 / 2 ^ 149"
    if "E1 \<le> X / 2 ^ 53 + 1 / 2 ^ 200" "F \<le> X + E1" "E2 \<le> F / 2 ^ 24 + 1 / 2 ^ 150" "X \<le> c + d" "D \<le> d" "0 \<le> c" "0 \<le> d"
    for E1 E2 F X D :: rat
    using that by (simp add: field_simps)
  ultimately show ?thesis using f32_error [of "f64 x"] f64_error [of x] assms(2) by fastforce
qed

lemma scaled_error:
  assumes "\<bar>d - x\<bar> \<le> E" "\<bar>x\<bar> \<le> M" "M / 2 ^ 50 + 1 / 2 ^ 180 \<le> E" "2 \<le> k"
  shows "\<bar>f64 (d / k) - x / k\<bar> \<le> E"
proof -
  have d: "\<bar>d\<bar> \<le> M + E" using assms(1,2) by linarith
  have "\<bar>d / k\<bar> \<le> \<bar>d\<bar> / 1" unfolding abs_divide by (rule divide_left_mono) (use assms(4) in simp_all)
  then have 1: "\<bar>f64 (d / k) - d / k\<bar> \<le> \<bar>d\<bar> / 2 ^ 53 + 1 / 2 ^ 200"
    by (intro order_trans [OF f64_error] add_right_mono divide_right_mono) simp_all
  have E: "0 \<le> E" using assms(1) by linarith
  have "\<bar>d / k - x / k\<bar> = \<bar>d - x\<bar> / k" using assms(4) by (simp flip: diff_divide_distrib)
  also have "\<dots> \<le> E / k" by (rule divide_right_mono) (use assms(1,4) in simp_all)
  also have "\<dots> \<le> E / 2" by (rule divide_left_mono) (use assms(4) E in simp_all)
  finally have 2: "\<bar>d / k - x / k\<bar> \<le> E / 2" .
  have "\<bar>f64 (d / k) - x / k\<bar> \<le> \<bar>f64 (d / k) - d / k\<bar> + \<bar>d / k - x / k\<bar>" by linarith
  also have "\<dots> \<le> (M + E) / 2 ^ 53 + 1 / 2 ^ 200 + E / 2"
    using 2 d by (intro add_mono order_trans [OF 1] divide_right_mono) simp_all
  also have "\<dots> \<le> E" using assms(2,3) by (simp add: field_simps)
  finally show ?thesis .
qed

lemma rtt_stop_fields:
  "rtt_rtt (rtt_stop ms p) = f32 (f64 (of_nat (unat ms) / 1000))"
  "rtt_srtt (rtt_stop ms p) = f32 (f64 (rtt_srtt p + f64 (f32 (rtt_rtt (rtt_stop ms p) - rtt_srtt p) / 8)))"
  "rtt_rttvar (rtt_stop ms p) =
     f32 (f64 (rtt_rttvar p + f64 (f64 (\<bar>f32 (rtt_rtt (rtt_stop ms p) - rtt_srtt p)\<bar> - rtt_rttvar p) / 4)))"
  "rtt_rto (rtt_stop ms p) = rtt_minmax (RTT_RTOCALC (rtt_stop ms p))"
  by (simp_all add: rtt_stop_def Let_def abs_if RTT_RTOCALC_def)

lemma clamp_error: "\<bar>rtt_minmax y - max 2 (min 60 x)\<bar> \<le> \<bar>f32 y - x\<bar>"
  by (simp add: rtt_minmax_def Let_def RTT_RXTMIN_def RTT_RXTMAX_def max_def min_def)

lemma rto_error:
  assumes "0 \<le> s" "0 \<le> v"
  shows "\<bar>rtt_minmax (f64 (s + f64 (4 * v))) - max 2 (min 60 (s + 4 * v))\<bar> \<le> (s + 4 * v) / 2 ^ 23 + 1 / 2 ^ 148"
proof -
  have "\<bar>s + f64 (4 * v) - (s + 4 * v)\<bar> \<le> (s + 4 * v) / 2 ^ 53 + 1 / 2 ^ 200"
    using f64_error [of "4 * v"] assms by (simp add: field_simps)
  then have "\<bar>f32 (f64 (s + f64 (4 * v))) - (s + 4 * v)\<bar> \<le>
      (s + 4 * v) * (1 / 2 ^ 24 + 1 / 2 ^ 52) + 2 * ((s + 4 * v) / 2 ^ 53 + 1 / 2 ^ 200) + 1 / 2 ^ 149"
    by (rule store_error [rotated]) (use assms in simp)
  also have "\<dots> \<le> (s + 4 * v) / 2 ^ 23 + 1 / 2 ^ 148" using assms by (simp add: field_simps)
  finally show ?thesis using clamp_error order_trans by blast
qed

text \<open>C28. A measured round-trip time updates the estimates as Jacobson's algorithm does in exact arithmetic, up to a few
  units in the last place of a \<^verbatim>\<open>float\<close>: the time itself, the smoothed time with gain 1/8, its
  deviation with gain 1/4, and the time-out, their sum with the deviation four times, clamped to 2 and 60 seconds.\<close>

theorem rtt_stop_is_jacobson:
  fixes p :: rtt_info and ms :: u32
  assumes "rtt_ok p"
  defines "p' \<equiv> rtt_stop ms p" and "r \<equiv> of_nat (unat ms) / 1000"
  defines "tot \<equiv> rtt_rtt p' + rtt_srtt p + rtt_rttvar p"
  shows "\<bar>rtt_rtt p' - r\<bar> \<le> r / 2 ^ 23 + 1 / 2 ^ 148 \<and>
    \<bar>rtt_srtt p' - (rtt_srtt p + (rtt_rtt p' - rtt_srtt p) / 8)\<bar> \<le> tot / 2 ^ 21 + 1 / 2 ^ 140 \<and>
    \<bar>rtt_rttvar p' - (rtt_rttvar p + (\<bar>rtt_rtt p' - rtt_srtt p\<bar> - rtt_rttvar p) / 4)\<bar> \<le> tot / 2 ^ 21 + 1 / 2 ^ 140 \<and>
    \<bar>rtt_rto p' - max 2 (min 60 (rtt_srtt p' + 4 * rtt_rttvar p'))\<bar> \<le> (rtt_srtt p' + 4 * rtt_rttvar p') / 2 ^ 23 + 1 / 2 ^ 148"
proof (intro conjI)
  define t where "t = rtt_rtt p'"
  define s where "s = rtt_srtt p"
  define v where "v = rtt_rttvar p"
  define d where "d = f32 (t - s)"
  define E where "E = tot / 2 ^ 23 + 1 / 2 ^ 148"
  have ok: "0 \<le> s" "0 \<le> v" "0 \<le> r" using assms(1) by (simp_all add: rtt_ok_def s_def v_def r_def)
  have t: "t = f32 (f64 r)" "0 \<le> t" using ok(3) by (simp_all add: t_def p'_def r_def rtt_stop_fields(1) rounded_nonneg)
  have M: "tot = t + s + v" by (simp add: tot_def t_def s_def v_def)
  have srtt: "rtt_srtt p' = f32 (f64 (s + f64 (d / 8)))" and var: "rtt_rttvar p' = f32 (f64 (v + f64 (f64 (\<bar>d\<bar> - v) / 4)))"
    by (simp_all add: p'_def d_def t_def s_def v_def rtt_stop_fields(2,3))
  have "\<bar>f32 (f64 r) - r\<bar> \<le> r * (1 / 2 ^ 24 + 1 / 2 ^ 52) + 2 * 0 + 1 / 2 ^ 149" by (rule store_error) (use ok in simp_all)
  also have "\<dots> \<le> r / 2 ^ 23 + 1 / 2 ^ 148" using ok(3) by (simp add: field_simps)
  finally show "\<bar>rtt_rtt p' - r\<bar> \<le> r / 2 ^ 23 + 1 / 2 ^ 148" unfolding t(1) [symmetric] t_def .
  have dd: "\<bar>d - (t - s)\<bar> \<le> tot / 2 ^ 24 + 1 / 2 ^ 150"
    unfolding d_def M by (rule order_trans [OF f32_error], intro add_right_mono divide_right_mono) (use ok t(2) in simp_all)
  have E: "tot / 2 ^ 24 + 1 / 2 ^ 150 \<le> E" "2 * tot / 2 ^ 50 + 1 / 2 ^ 180 \<le> E" "0 \<le> E"
    using ok t(2) by (simp_all add: E_def M field_simps)
  have sum: "2 * tot * (1 / 2 ^ 24 + 1 / 2 ^ 52) + 2 * E + 1 / 2 ^ 149 \<le> tot / 2 ^ 21 + 1 / 2 ^ 140"
    using ok t(2) by (simp add: E_def M field_simps)
  have av: "s + (t - s) / 8 = 7 / 8 * s + 1 / 8 * t" "v + y / 4 = v + 1 / 4 * y" for y by (simp_all add: field_simps)
  have "\<bar>f64 (d / 8) - (t - s) / 8\<bar> \<le> E"
    by (rule scaled_error [where M = "2 * tot"]) (use dd E ok t(2) in \<open>simp_all add: M\<close>)
  then have "\<bar>s + f64 (d / 8) - (s + (t - s) / 8)\<bar> \<le> E" by simp
  then have "\<bar>f32 (f64 (s + f64 (d / 8))) - (s + (t - s) / 8)\<bar> \<le> 2 * tot * (1 / 2 ^ 24 + 1 / 2 ^ 52) + 2 * E + 1 / 2 ^ 149"
    by (rule store_error [rotated]) (use av(1) ok t(2) M in linarith)
  with sum show "\<bar>rtt_srtt p' - (rtt_srtt p + (rtt_rtt p' - rtt_srtt p) / 8)\<bar> \<le> tot / 2 ^ 21 + 1 / 2 ^ 140"
    by (simp only: srtt flip: t_def s_def)
  define w where "w = \<bar>t - s\<bar> - v"
  have "\<bar>f64 (\<bar>d\<bar> - v) - w\<bar> \<le> E"
  proof -
    have "\<bar>\<bar>d\<bar> - v\<bar> \<le> 2 * tot + E" using dd E(1) ok t(2) by (simp add: M)
    then have "\<bar>f64 (\<bar>d\<bar> - v) - (\<bar>d\<bar> - v)\<bar> \<le> (2 * tot + E) / 2 ^ 53 + 1 / 2 ^ 200"
      by (intro order_trans [OF f64_error] add_right_mono divide_right_mono) simp_all
    moreover have "\<bar>(\<bar>d\<bar> - v) - w\<bar> \<le> tot / 2 ^ 24 + 1 / 2 ^ 150" using dd by (simp add: w_def)
    moreover have "tot / 2 ^ 24 + 1 / 2 ^ 150 + ((2 * tot + E) / 2 ^ 53 + 1 / 2 ^ 200) \<le> E"
      using ok t(2) by (simp add: E_def M field_simps)
    ultimately show ?thesis by linarith
  qed
  then have "\<bar>f64 (f64 (\<bar>d\<bar> - v) / 4) - w / 4\<bar> \<le> E"
    by (rule scaled_error [where M = "2 * tot"]) (use E ok t(2) in \<open>simp_all add: M w_def\<close>)
  then have "\<bar>v + f64 (f64 (\<bar>d\<bar> - v) / 4) - (v + w / 4)\<bar> \<le> E" by simp
  then have "\<bar>f32 (f64 (v + f64 (f64 (\<bar>d\<bar> - v) / 4))) - (v + w / 4)\<bar> \<le>
      2 * tot * (1 / 2 ^ 24 + 1 / 2 ^ 52) + 2 * E + 1 / 2 ^ 149"
    by (rule store_error [rotated]) (use av(2) [of w] ok t(2) M w_def in linarith)
  with sum show "\<bar>rtt_rttvar p' - (rtt_rttvar p + (\<bar>rtt_rtt p' - rtt_srtt p\<bar> - rtt_rttvar p) / 4)\<bar> \<le> tot / 2 ^ 21 + 1 / 2 ^ 140"
    by (simp only: var w_def flip: t_def s_def v_def)
  have "0 \<le> rtt_srtt p'" "0 \<le> rtt_rttvar p'" using rtt_stop_ok [OF assms(1)] by (simp_all add: p'_def rtt_ok_def)
  from rto_error [OF this]
  show "\<bar>rtt_rto p' - max 2 (min 60 (rtt_srtt p' + 4 * rtt_rttvar p'))\<bar> \<le>
      (rtt_srtt p' + 4 * rtt_rttvar p') / 2 ^ 23 + 1 / 2 ^ 148"
    by (simp only: p'_def rtt_stop_fields(4) RTT_RTOCALC_def)
qed

text \<open>Eight tenths of a second measured by a new estimator.\<close>

definition new_rtt :: rtt_info where
  "new_rtt = rtt_init (0, 0) \<lparr>rtt_rtt = 0, rtt_srtt = 0, rtt_rttvar = 0, rtt_rto = 0, rtt_nrexmt = 0, rtt_base = 0\<rparr>"

lemma rtt_stop_is_jacobson_witness:
  "\<bar>rtt_srtt (rtt_stop 800 new_rtt) - 1 / 10\<bar> \<le> 1 / 2 ^ 20 \<and> rtt_start new_rtt = 3"
proof -
  have "rtt_ok new_rtt" by (simp add: new_rtt_def rtt_init_ok)
  note j = rtt_stop_is_jacobson [OF this, of 800]
  have "rtt_rtt (rtt_stop 800 new_rtt) = 13421773 / 16777216" unfolding rtt_stop_fields(1) by code_simp
  moreover have "rtt_srtt new_rtt = 0" "rtt_rttvar new_rtt = 3 / 4" by (simp_all add: new_rtt_def rtt_init_def Let_def)
  moreover have "rtt_start new_rtt = 3" by code_simp
  ultimately have v: "rtt_srtt new_rtt = 0" "rtt_rttvar new_rtt = 3 / 4"
    "rtt_rtt (rtt_stop 800 new_rtt) = 13421773 / 16777216" "rtt_start new_rtt = 3" by blast+
  from j have "\<bar>rtt_srtt (rtt_stop 800 new_rtt) - (0 + (13421773 / 16777216 - 0) / 8)\<bar> \<le>
      (13421773 / 16777216 + 0 + 3 / 4) / 2 ^ 21 + 1 / 2 ^ 140"
    by (simp only: v)
  also have "\<dots> \<le> 1 / 2 ^ 20 - 1 / 2 ^ 25" by simp
  finally have "\<bar>rtt_srtt (rtt_stop 800 new_rtt) - 13421773 / 134217728\<bar> \<le> 31 / 33554432" by simp
  moreover have "\<bar>x - 1 / 10\<bar> \<le> 1 / 2 ^ 20" if "\<bar>x - 13421773 / 134217728\<bar> \<le> 31 / 33554432" for x :: rat
    using that unfolding abs_le_iff by (simp add: field_simps)
  ultimately show ?thesis using v(4) by blast
qed


end
