(* ===== verification/Unp_Reliable.thy ===== *)
theory Unp_Reliable
  imports Unp_Rtt Scan
begin

text \<open>
  The datagram client that retransmits, \<^verbatim>\<open>dg_send_recv.c\<close> and \<^verbatim>\<open>dg_cli.c\<close>
  of \<^verbatim>\<open>src/unpv13e-master/rtt\<close>, over the estimator of \<open>Unp_Rtt\<close>, and the echo server it
  talks to.  The script of events says when a timer that was set expires.  The lines printed for debugging are left
  out.
\<close>

section \<open>The model\<close>

text \<open>The static variables: the estimator, whether it is initialised, the sequence number of the last request.\<close>

record dg_state =
  rttinfo :: rtt_info
  rttinit :: bool
  send_seq :: u32

definition HDR_SIZE :: nat where "HDR_SIZE = 8"

text \<open>A datagram: the header in host order, then the data.\<close>

definition dg_bytes :: "u32 \<Rightarrow> u32 \<Rightarrow> byte list \<Rightarrow> byte list" where
  "dg_bytes seq ts payload = le32 seq @ le32 ts @ payload"

text \<open>What happens while the client waits: the timer expires, or a datagram comes.\<close>

datatype dg_event = Alarm timeval | Dgram timeval "byte list"

datatype dg_out = Sendmsg "byte list" | SetAlarm int | ErrMsg string

datatype dg_result = Reply "byte list" | TimedOut | Waiting

text \<open>\<^verbatim>\<open>recvmsg\<close> into the header and \<open>inbytes\<close> bytes cuts what is longer.\<close>

fun dg_wait :: "byte list \<Rightarrow> nat \<Rightarrow> dg_event list \<Rightarrow> dg_state \<Rightarrow> dg_state \<times> dg_result \<times> dg_out list" where
  "dg_wait outbuff inbytes [] s = (s, Waiting, [])"
| "dg_wait outbuff inbytes (Alarm tv # es) s =
     (case rtt_timeout (rttinfo s) of
        (p, True) \<Rightarrow>
          (s\<lparr>rttinfo := p, rttinit := False\<rparr>, TimedOut,
           [ErrMsg ''dg_send_recv: no response from server, giving up''])
      | (p, False) \<Rightarrow>
          (case dg_wait outbuff inbytes es (s\<lparr>rttinfo := p\<rparr>) of
             (s', r, out) \<Rightarrow>
               (s', r, ErrMsg ''dg_send_recv: timeout, retransmitting'' #
                  Sendmsg (dg_bytes (send_seq s) (rtt_ts (rtt_base p) tv) outbuff) # SetAlarm (rtt_start p) # out)))"
| "dg_wait outbuff inbytes (Dgram tv d # es) s =
     (let m = take (HDR_SIZE + inbytes) d in
      if length m < HDR_SIZE \<or> rd32 m 0 \<noteq> send_seq s then dg_wait outbuff inbytes es s
      else (s\<lparr>rttinfo := rtt_stop (rtt_ts (rtt_base (rttinfo s)) tv - rd32 m 4) (rttinfo s)\<rparr>,
            Reply (drop HDR_SIZE m), [SetAlarm 0]))"

definition dg_send_recv :: "byte list \<Rightarrow> nat \<Rightarrow> timeval \<Rightarrow> dg_event list \<Rightarrow> dg_state \<Rightarrow>
    dg_state \<times> dg_result \<times> dg_out list" where
  "dg_send_recv outbuff inbytes tv es s =
     (let s1 = (if rttinit s then s else s\<lparr>rttinfo := rtt_init tv (rttinfo s), rttinit := True\<rparr>);
          p = rtt_newpack (rttinfo s1);
          s2 = s1\<lparr>send_seq := send_seq s1 + 1, rttinfo := p\<rparr>
      in case dg_wait outbuff inbytes es s2 of
        (s', r, out) \<Rightarrow>
          (s', r, Sendmsg (dg_bytes (send_seq s2) (rtt_ts (rtt_base p) tv) outbuff) # SetAlarm (rtt_start p) # out))"

text \<open>The wrapper exits when the call gave up.\<close>

definition Dg_send_recv :: "byte list \<Rightarrow> nat \<Rightarrow> timeval \<Rightarrow> dg_event list \<Rightarrow> dg_state \<Rightarrow>
    string + dg_state \<times> dg_result \<times> dg_out list" where
  "Dg_send_recv outbuff inbytes tv es s =
     (case dg_send_recv outbuff inbytes tv es s of
        (s', TimedOut, out) \<Rightarrow> Inl ''dg_send_recv error''
      | x \<Rightarrow> Inr x)"

section \<open>The echo client and server\<close>

definition DG_MAXLINE :: nat where "DG_MAXLINE = 4096"

text \<open>The server returns what it received, at most \<^verbatim>\<open>MAXLINE\<close> bytes of a datagram.\<close>

definition dg_echo :: "byte list \<Rightarrow> byte list" where
  "dg_echo d = take DG_MAXLINE d"

text \<open>The client's loop over the lines of its input; for each line the time it is sent and what happens then.  The
  reply is printed as far as its first zero byte.\<close>

fun dg_cli_loop :: "string list \<Rightarrow> (timeval \<times> dg_event list) list \<Rightarrow> dg_state \<Rightarrow>
    (string + dg_state) \<times> string list \<times> dg_out list" where
  "dg_cli_loop [] script s = (Inr s, [], [])"
| "dg_cli_loop (l # ls) [] s = (Inr s, [], [])"
| "dg_cli_loop (l # ls) ((tv, es) # script) s =
     (case Dg_send_recv (char_bytes l) DG_MAXLINE tv es s of
        Inl m \<Rightarrow> (Inl m, [], [])
      | Inr (s', Reply d, out) \<Rightarrow>
          (case dg_cli_loop ls script s' of
             (r, printed, out') \<Rightarrow> (r, cstr_of (map (\<lambda>b. char_of (unat b)) d) # printed, out @ out'))
      | Inr (s', x, out) \<Rightarrow> (Inr s', [], out))"

definition dg_cli :: "string \<Rightarrow> (timeval \<times> dg_event list) list \<Rightarrow> dg_state \<Rightarrow>
    (string + dg_state) \<times> string list \<times> dg_out list" where
  "dg_cli input script s = dg_cli_loop (fgets_lines DG_MAXLINE input) script s"

end
