(* ===== verification/Unp_Reliable_Props.thy ===== *)
theory Unp_Reliable_Props
  imports Unp_Reliable
begin

text \<open>The properties of the retransmitting client: what decides a call, the timers it sets, and the lines that come
  back over a network that loses, delays and repeats datagrams.\<close>

section \<open>The outcome of a call\<close>

definition alarms :: "dg_event list \<Rightarrow> nat" where
  "alarms es = length (filter (\<lambda>e. case e of Alarm tv \<Rightarrow> True | _ \<Rightarrow> False) es)"

definition sends :: "dg_out list \<Rightarrow> byte list list" where
  "sends out = concat (map (\<lambda>a. case a of Sendmsg d \<Rightarrow> [d] | _ \<Rightarrow> []) out)"

text \<open>A datagram answers the request: it holds a whole header with the request's number.\<close>

definition answers :: "u32 \<Rightarrow> dg_event \<Rightarrow> bool" where
  "answers seq e = (case e of Dgram tv d \<Rightarrow> HDR_SIZE \<le> length d \<and> rd32 d 0 = seq | _ \<Rightarrow> False)"

lemma rd32_take: "i + 4 \<le> k \<Longrightarrow> rd32 (take k d) i = rd32 d i"
  by (simp add: rd32_def)

lemma answers_take: "\<not> (length (take (HDR_SIZE + n) d) < HDR_SIZE \<or> rd32 (take (HDR_SIZE + n) d) 0 \<noteq> seq) \<longleftrightarrow>
    answers seq (Dgram tv d)"
  by (auto simp: answers_def HDR_SIZE_def rd32_take)

text \<open>The events before the first answer.\<close>

definition before_answer :: "u32 \<Rightarrow> dg_event list \<Rightarrow> dg_event list" where
  "before_answer seq es = takeWhile (\<lambda>e. \<not> answers seq e) es"

lemma dg_wait_outcome:
  assumes "dg_wait outbuff inbytes es s = (s', r, out)" "rtt_nrexmt (rttinfo s) \<le> RTT_MAXNREXMT"
  shows "r = (if RTT_MAXNREXMT < rtt_nrexmt (rttinfo s) + alarms (before_answer (send_seq s) es) then TimedOut
       else case find (answers (send_seq s)) es of
         Some (Dgram tv d) \<Rightarrow> Reply (take inbytes (drop HDR_SIZE d)) | _ \<Rightarrow> Waiting) \<and>
     length (sends out) = min (RTT_MAXNREXMT - rtt_nrexmt (rttinfo s)) (alarms (before_answer (send_seq s) es)) \<and>
     list_all (\<lambda>d. rd32 d 0 = send_seq s \<and> drop HDR_SIZE d = outbuff) (sends out)"
  using assms
proof (induction es arbitrary: s s' r out)
  case Nil
  then show ?case by (auto simp: before_answer_def alarms_def sends_def)
next
  case (Cons e es)
  show ?case
  proof (cases e)
    case (Alarm tv)
    have dg: "rd32 (dg_bytes q ts b) 0 = q" "drop HDR_SIZE (dg_bytes q ts b) = b" for q ts b
      by (simp_all add: dg_bytes_def rd32_def le32_def HDR_SIZE_def)
    have na: "before_answer q (e # es) = e # before_answer q es" "find (answers q) (e # es) = find (answers q) es"
      "alarms (e # xs) = Suc (alarms xs)" "\<not> answers q e" for q xs
      by (simp_all add: before_answer_def Alarm answers_def alarms_def)
    show ?thesis
    proof (cases "RTT_MAXNREXMT < rtt_nrexmt (rttinfo s) + 1")
      case True
      with Cons.prems show ?thesis by (auto simp: na) (auto simp: Alarm rtt_timeout_def sends_def)
    next
      case False
      let ?p = "fst (rtt_timeout (rttinfo s))"
      obtain s1 r1 out1 where w: "dg_wait outbuff inbytes es (s\<lparr>rttinfo := ?p\<rparr>) = (s1, r1, out1)"
        by (cases "dg_wait outbuff inbytes es (s\<lparr>rttinfo := ?p\<rparr>)") auto
      have n: "rtt_nrexmt ?p = rtt_nrexmt (rttinfo s) + 1" by (simp add: rtt_timeout_def)
      have "r = r1" "sends out = dg_bytes (send_seq s) (rtt_ts (rtt_base ?p) tv) outbuff # sends out1"
        using Cons.prems(1) False w by (auto simp: Alarm rtt_timeout_def sends_def)
      with Cons.IH [OF w] False n show ?thesis by (auto simp: na dg)
    qed
  next
    case (Dgram tv d)
    show ?thesis
    proof (cases "answers (send_seq s) e")
      case True
      have "dg_wait outbuff inbytes (e # es) s =
          (s\<lparr>rttinfo := rtt_stop (rtt_ts (rtt_base (rttinfo s)) tv - rd32 (take (HDR_SIZE + inbytes) d) 4) (rttinfo s)\<rparr>,
           Reply (take inbytes (drop HDR_SIZE d)), [SetAlarm 0])"
        using True answers_take [of inbytes d "send_seq s" tv] by (simp add: Dgram Let_def drop_take)
      with Cons.prems True show ?thesis by (auto simp: before_answer_def alarms_def sends_def Dgram)
    next
      case False
      have "dg_wait outbuff inbytes (e # es) s = dg_wait outbuff inbytes es s"
        using False answers_take [of inbytes d "send_seq s" tv] by (simp add: Dgram Let_def)
      moreover have "alarms (e # xs) = alarms xs" for xs by (simp add: alarms_def Dgram)
      ultimately show ?thesis using Cons.IH [of s s' r out] Cons.prems False by (simp add: before_answer_def)
    qed
  qed
qed

text \<open>The retransmitting client is decided by the first datagram with its number and by the alarms before it:
  four alarms end the call without a reply, otherwise it returns that datagram's data, cut to the buffer; the
  request goes out once and once more after each of the first three alarms, always with the same number and data,
  and short datagrams and replies to other requests change nothing.\<close>

theorem dg_send_recv_outcome:
  assumes "dg_send_recv outbuff inbytes tv es s = (s', r, out)"
  defines "seq \<equiv> send_seq s + 1"
  shows "r = (if 3 < alarms (before_answer seq es) then TimedOut
       else case find (answers seq) es of
         Some (Dgram tv d) \<Rightarrow> Reply (take inbytes (drop HDR_SIZE d)) | _ \<Rightarrow> Waiting) \<and>
     length (sends out) = 1 + min 3 (alarms (before_answer seq es)) \<and>
     list_all (\<lambda>d. rd32 d 0 = seq \<and> drop HDR_SIZE d = outbuff) (sends out)"
proof -
  define p where "p = rtt_newpack (if rttinit s then rttinfo s else rtt_init tv (rttinfo s))"
  define s2 where "s2 = s\<lparr>rttinit := True, send_seq := seq, rttinfo := p\<rparr>"
  have call: "dg_send_recv outbuff inbytes tv es s =
      (case dg_wait outbuff inbytes es s2 of (s', r, out) \<Rightarrow>
         (s', r, Sendmsg (dg_bytes seq (rtt_ts (rtt_base p) tv) outbuff) # SetAlarm (rtt_start p) # out))"
    by (cases s; cases "rttinit s") (simp_all add: dg_send_recv_def s2_def p_def seq_def Let_def)
  then obtain out1 where w: "dg_wait outbuff inbytes es s2 = (s', r, out1)"
    and out: "out = Sendmsg (dg_bytes seq (rtt_ts (rtt_base p) tv) outbuff) # SetAlarm (rtt_start p) # out1"
    using assms(1) by (auto split: prod.splits)
  have "send_seq s2 = seq" "rtt_nrexmt (rttinfo s2) = 0"
    by (simp_all add: s2_def p_def rtt_newpack_def)
  moreover have "sends out = dg_bytes seq (rtt_ts (rtt_base p) tv) outbuff # sends out1"
    by (simp add: out sends_def)
  moreover have "rd32 (dg_bytes q ts b) 0 = q" "drop HDR_SIZE (dg_bytes q ts b) = b" for q ts b
    by (simp_all add: dg_bytes_def rd32_def le32_def HDR_SIZE_def)
  ultimately show ?thesis using dg_wait_outcome [OF w] by (simp add: RTT_MAXNREXMT_def)
qed


text \<open>A reply to an older request, an alarm, and the reply: the request goes out twice.\<close>

definition late_reply :: "dg_event list" where
  "late_reply = [Dgram (10, 0) (dg_bytes 7 0 [1, 2]), Alarm (13, 0), Dgram (14, 0) (dg_bytes 8 3000 [65, 66, 67])]"

lemma dg_send_recv_outcome_witness:
  "\<exists>s' out. dg_send_recv [1] 2 (9, 0) late_reply \<lparr>rttinfo = new_rtt, rttinit = True, send_seq = 7\<rparr> =
       (s', Reply [65, 66], out) \<and> length (sends out) = 2"
proof -
  let ?s = "\<lparr>rttinfo = new_rtt, rttinit = True, send_seq = 7\<rparr>"
  obtain s' r out where run: "dg_send_recv [1] 2 (9, 0) late_reply ?s = (s', r, out)"
    by (cases "dg_send_recv [1] 2 (9, 0) late_reply ?s") auto
  have head: "rd32 (dg_bytes q ts b) 0 = q" "HDR_SIZE \<le> length (dg_bytes q ts b)" "drop HDR_SIZE (dg_bytes q ts b) = b" for q ts b
    by (simp_all add: dg_bytes_def rd32_def le32_def HDR_SIZE_def)
  have "before_answer 8 late_reply = take 2 late_reply" "find (answers 8) late_reply = Some (late_reply ! 2)"
    by (simp_all add: late_reply_def before_answer_def answers_def head)
  with dg_send_recv_outcome [OF run] run show ?thesis
    by (simp add: late_reply_def alarms_def head)
qed

section \<open>The timers\<close>

text \<open>Between calls: an estimator in use is within its limits.\<close>

definition dg_ok :: "dg_state \<Rightarrow> bool" where
  "dg_ok s \<longleftrightarrow> (rttinit s \<longrightarrow> rtt_ok (rttinfo s))"

text \<open>The timers a call sets; setting 0 stops the timer.\<close>

definition timers :: "dg_out list \<Rightarrow> int list" where
  "timers out = concat (map (\<lambda>a. case a of SetAlarm n \<Rightarrow> if n = 0 then [] else [n] | _ \<Rightarrow> []) out)"

lemma timers_simps [simp]:
  "timers [] = []" "timers (Sendmsg d # out) = timers out" "timers (ErrMsg m # out) = timers out"
  "timers (SetAlarm n # out) = (if n = 0 then timers out else n # timers out)"
  by (simp_all add: timers_def)

text \<open>The time-out doubles exactly, and starting a timer rounds it to whole seconds.\<close>

lemma representable_double: "representable p m x \<Longrightarrow> representable p m (x * 2)"
  unfolding representable_def
proof (elim exE conjE)
  fix k j assume "x = of_int k * 2 powi j" "\<bar>k\<bar> < 2 ^ nat p" "m \<le> j"
  then show "\<exists>k j. x * 2 = of_int k * 2 powi j \<and> \<bar>k\<bar> < 2 ^ nat p \<and> m \<le> j"
    by (intro exI [of _ k] exI [of _ "j + 1"]) (simp add: power_int_add)
qed

lemma rtt_start_bounds:
  assumes "of_int a \<le> rtt_rto p" "rtt_rto p \<le> of_int b" "0 \<le> a" "b < 1000"
  shows "a \<le> rtt_start p \<and> rtt_start p \<le> b"
proof -
  let ?x = "f64 (rtt_rto p + 1 / 2)"
  have "0 \<le> b" using assms(1-3) by (metis of_int_0_le_iff of_int_le_iff order_trans)
  have "representable 53 (- 1074) (of_int (2 * b + 1) * 2 powi (- 1))"
    unfolding representable_def using assms(4) \<open>0 \<le> b\<close> by (intro exI [of _ "2 * b + 1"] exI [of _ "- 1"]) simp
  moreover have "of_int (2 * b + 1) * 2 powi (- 1) = (of_int b + 1 / 2 :: rat)" by (simp add: power_int_minus field_simps)
  ultimately have "representable 53 (- 1074) (of_int b + 1 / 2)" by (simp only:)
  then have "f64 (of_int b + 1 / 2) = of_int b + 1 / 2" by (rule rounded_representable) simp
  then have hi: "?x \<le> of_int b + 1 / 2" using rounded_mono [of "rtt_rto p + 1 / 2" "of_int b + 1 / 2" 53 "- 1074"] assms(2) by simp
  have "a \<le> b" using assms(1,2) by (metis of_int_le_iff order_trans)
  then have "\<bar>a\<bar> < 2 ^ nat 53" using assms(3,4) by simp
  then have "f64 (of_int a) = of_int a" by (intro rounded_representable representable_int) simp_all
  then have "of_int a \<le> ?x" using rounded_mono [of "of_int a" "rtt_rto p + 1 / 2" 53 "- 1074"] assms(1) by simp
  with hi assms(3) show ?thesis by (auto simp: rtt_start_def to_int_def le_floor_iff floor_le_iff)
qed

definition dg_within :: "rtt_info \<Rightarrow> bool" where
  "dg_within p \<longleftrightarrow>
     0 \<le> rtt_srtt p \<and> representable 24 (- 149) (rtt_srtt p) \<and> 0 \<le> rtt_rttvar p \<and> representable 24 (- 149) (rtt_rttvar p) \<and>
     2 * 2 ^ rtt_nrexmt p \<le> rtt_rto p \<and> rtt_rto p \<le> 60 * 2 ^ rtt_nrexmt p \<and> representable 24 (- 149) (rtt_rto p)"

lemma dg_within_timeout: "dg_within p \<Longrightarrow> rtt_timeout p = (p', b) \<Longrightarrow> dg_within p' \<and> rtt_nrexmt p' = Suc (rtt_nrexmt p)"
  by (auto simp: dg_within_def rtt_timeout_def rounded_representable representable_double)

lemma dg_within_start:
  assumes "dg_within p" "rtt_nrexmt p \<le> 3"
  shows "2 * 2 ^ rtt_nrexmt p \<le> rtt_start p \<and> rtt_start p \<le> 60 * 2 ^ rtt_nrexmt p"
proof -
  have "(2 :: int) ^ rtt_nrexmt p \<le> 2 ^ 3" using assms(2) by (intro power_increasing) simp_all
  then show ?thesis
    using assms(1) by (intro rtt_start_bounds) (simp_all add: dg_within_def)
qed

lemma dg_within_ok: "rtt_ok p \<Longrightarrow> dg_within (rtt_newpack p)"
  by (simp add: rtt_ok_def dg_within_def rtt_newpack_def RTT_RXTMIN_def RTT_RXTMAX_def)

text \<open>Stopping a timer only reads the parts of the estimator a time-out leaves alone.\<close>

lemma dg_within_stop:
  assumes "dg_within p"
  shows "rtt_ok (rtt_stop ms p)"
proof -
  have "rtt_ok (p\<lparr>rtt_rto := 2\<rparr>)"
    using assms representable_int [of 2 24 "- 149"] by (simp add: rtt_ok_def dg_within_def RTT_RXTMIN_def RTT_RXTMAX_def)
  from rtt_stop_ok [OF this, of ms] show ?thesis by (simp add: rtt_ok_def rtt_stop_def Let_def RTT_RTOCALC_def)
qed


text \<open>The \<open>i\<close>-th of these timers, counted from \<open>k\<close>, is between 2 and 60 seconds doubled \<open>k + i\<close> times.\<close>

fun doubling :: "nat \<Rightarrow> int list \<Rightarrow> bool" where
  "doubling k [] = True"
| "doubling k (n # ns) \<longleftrightarrow> 2 * 2 ^ k \<le> n \<and> n \<le> 60 * 2 ^ k \<and> doubling (k + 1) ns"

lemma doubling_sum:
  "doubling k ns \<Longrightarrow> 2 * 2 ^ k * (2 ^ length ns - 1) \<le> sum_list ns \<and> sum_list ns \<le> 60 * 2 ^ k * (2 ^ length ns - 1)"
  by (induction ns arbitrary: k) (force simp: algebra_simps)+

lemma dg_wait_timers:
  assumes "dg_wait outbuff inbytes es s = (s', r, out)" "dg_within (rttinfo s)" "rtt_nrexmt (rttinfo s) \<le> 3"
  shows "doubling (rtt_nrexmt (rttinfo s) + 1) (timers out) \<and>
    length (timers out) = length (sends out) \<and> (r \<noteq> Waiting \<longrightarrow> dg_ok s')"
  using assms
proof (induction es arbitrary: s s' r out)
  case Nil
  then show ?case by (auto simp: sends_def)
next
  case (Cons e es)
  show ?case
  proof (cases e)
    case (Alarm tv)
    obtain p b where p: "rtt_timeout (rttinfo s) = (p, b)" by (cases "rtt_timeout (rttinfo s)") auto
    note w = dg_within_timeout [OF Cons.prems(2) p]
    have b: "b \<longleftrightarrow> 3 < rtt_nrexmt (rttinfo s) + 1" using p by (auto simp: rtt_timeout_def RTT_MAXNREXMT_def)
    show ?thesis
    proof (cases b)
      case True
      with Cons.prems(1) p show ?thesis by (auto simp: Alarm sends_def dg_ok_def)
    next
      case False
      then have n: "rtt_nrexmt p \<le> 3" using w b by simp
      obtain out1 where o: "dg_wait outbuff inbytes es (s\<lparr>rttinfo := p\<rparr>) = (s', r, out1)"
        "timers out = (if rtt_start p = 0 then timers out1 else rtt_start p # timers out1)" "length (sends out) = Suc (length (sends out1))"
        using Cons.prems(1) p False by (auto simp: Alarm sends_def split: prod.splits)
      have st: "2 * 2 ^ rtt_nrexmt p \<le> rtt_start p \<and> rtt_start p \<le> 60 * 2 ^ rtt_nrexmt p"
        using dg_within_start [OF _ n] w by simp
      then have "rtt_start p \<noteq> 0" by (smt (verit) zero_less_power)
      with Cons.IH [OF o(1)] o st w n show ?thesis by simp
    qed
  next
    case (Dgram tv d)
    with Cons.prems show ?thesis
      by (auto simp: Let_def dg_ok_def sends_def dg_within_stop split: if_splits dest: Cons.IH)
  qed
qed

text \<open>The timers of a call start between 2 and 60 seconds and double with each retransmission, one for each
  transmission, so that a call that gets no answer gives up after 30 seconds at the earliest and 15 minutes at the
  latest; and a call that ends leaves the estimator within its limits for the next one.\<close>

theorem dg_send_recv_timers:
  assumes "dg_send_recv outbuff inbytes tv es s = (s', r, out)" and "dg_ok s"
  shows "doubling 0 (timers out) \<and> length (timers out) = length (sends out) \<and> sum_list (timers out) \<le> 900 \<and>
    (r = TimedOut \<longrightarrow> 30 \<le> sum_list (timers out)) \<and> (r \<noteq> Waiting \<longrightarrow> dg_ok s')"
proof -
  define p where "p = rtt_newpack (if rttinit s then rttinfo s else rtt_init tv (rttinfo s))"
  define s2 where "s2 = s\<lparr>rttinit := True, send_seq := send_seq s + 1, rttinfo := p\<rparr>"
  have p: "dg_within p" "rtt_nrexmt p = 0"
    using assms(2) by (auto simp: p_def dg_ok_def rtt_init_ok intro!: dg_within_ok) (simp_all add: rtt_newpack_def)
  obtain out1 where w: "dg_wait outbuff inbytes es s2 = (s', r, out1)"
    and out: "out = Sendmsg (dg_bytes (send_seq s + 1) (rtt_ts (rtt_base p) tv) outbuff) # SetAlarm (rtt_start p) # out1"
    using assms(1) by (cases s; cases "rttinit s") (auto simp: dg_send_recv_def s2_def p_def Let_def split: prod.splits)
  have st: "2 \<le> rtt_start p" "rtt_start p \<le> 60" using dg_within_start [OF p(1)] p(2) by simp_all
  have t: "timers out = rtt_start p # timers out1" "length (sends out) = Suc (length (sends out1))"
    using st by (simp_all add: out sends_def)
  have wt: "doubling 1 (timers out1) \<and> length (timers out1) = length (sends out1) \<and> (r \<noteq> Waiting \<longrightarrow> dg_ok s')"
    using dg_wait_timers [OF w] p by (simp add: s2_def)
  note oc = dg_send_recv_outcome [OF assms(1)]
  have d: "doubling 0 (timers out)" "length (timers out) = length (sends out)" using wt st t by simp_all
  have "length (timers out) \<le> 4" using d(2) oc by simp
  then have "(2 :: int) ^ length (timers out) \<le> 2 ^ 4" by (intro power_increasing) simp_all
  moreover have "length (timers out) = 4" if "r = TimedOut" using that d(2) oc by (auto split: if_splits option.splits dg_event.splits)
  ultimately show ?thesis using doubling_sum [OF d(1)] d wt by auto
qed


text \<open>A new client and a server that is down: timers of 3, 6, 12 and 24 seconds.\<close>

definition new_client :: dg_state where
  "new_client = \<lparr>rttinfo = new_rtt, rttinit = False, send_seq = 0\<rparr>"

definition silence :: "dg_event list" where
  "silence = [Alarm (3, 0), Alarm (9, 0), Alarm (21, 0), Alarm (45, 0)]"

lemma dg_send_recv_timers_witness:
  "(case dg_send_recv [65] 10 (0, 0) silence new_client of (s, r, out) \<Rightarrow>
      r = TimedOut \<and> timers out = [3, 6, 12, 24] \<and> 30 \<le> sum_list (timers out) \<and> sum_list (timers out) \<le> 900)"
proof -
  obtain s r out where run: "dg_send_recv [65] 10 (0, 0) silence new_client = (s, r, out)"
    by (cases "dg_send_recv [65] 10 (0, 0) silence new_client") auto
  have "dg_ok new_client" by (simp add: dg_ok_def new_client_def)
  note t = dg_send_recv_timers [OF run this]
  have v: "(case dg_send_recv [65] 10 (0, 0) silence new_client of (s, r, out) \<Rightarrow> r = TimedOut \<and> timers out = [3, 6, 12, 24])"
    by code_simp
  with t show ?thesis by (simp add: run)
qed

section \<open>Lines over a network\<close>

text \<open>What a network may do to a request and its answers: what arrives while the client waits for line \<open>k\<close> are echoes
  of this line and of earlier ones, in any order and number, and one of this line comes before the fourth alarm.
  \<open>q\<close> is the number of the request before the first.\<close>

definition echo_of :: "u32 \<Rightarrow> string list \<Rightarrow> nat \<Rightarrow> dg_event \<Rightarrow> bool" where
  "echo_of q lines j e = (case e of
      Dgram tv d \<Rightarrow> HDR_SIZE \<le> length d \<and>
        d = dg_echo (dg_bytes (q + 1 + of_nat j) (rd32 d 4) (char_bytes (lines ! j)))
    | _ \<Rightarrow> False)"

definition is_alarm :: "dg_event \<Rightarrow> bool" where
  "is_alarm e = (case e of Alarm tv \<Rightarrow> True | _ \<Rightarrow> False)"

definition delivers :: "u32 \<Rightarrow> string list \<Rightarrow> nat \<Rightarrow> dg_event list \<Rightarrow> bool" where
  "delivers q lines k es \<longleftrightarrow>
     list_all (\<lambda>e. is_alarm e \<or> list_ex (\<lambda>j. echo_of q lines j e) [0..<Suc k]) es \<and>
     list_ex (echo_of q lines k) es \<and>
     alarms (takeWhile (\<lambda>e. \<not> echo_of q lines k e) es) \<le> 3"

lemma echo_payload:
  assumes "length l + 8 \<le> DG_MAXLINE"
  shows "dg_echo (dg_bytes n ts (char_bytes l)) = dg_bytes n ts (char_bytes l)"
  using assms by (simp add: dg_echo_def dg_bytes_def)

lemma dg_bytes_parts [simp]:
  "rd32 (dg_bytes q ts b) 0 = q" "rd32 (dg_bytes q ts b) 4 = ts" "drop HDR_SIZE (dg_bytes q ts b) = b"
  "HDR_SIZE \<le> length (dg_bytes q ts b)"
  by (simp_all add: dg_bytes_def rd32_def le32_def HDR_SIZE_def)

lemma dg_bytes_inj: "dg_bytes q ts b = dg_bytes q' ts' b' \<longleftrightarrow> q = q' \<and> ts = ts' \<and> b = b'"
  by (metis dg_bytes_parts(1-3))

lemma number_inj: "j < 2 ^ 32 \<Longrightarrow> k < 2 ^ 32 \<Longrightarrow> (of_nat j :: u32) = of_nat k \<longleftrightarrow> j = k"
  by (auto simp: unat_of_nat dest!: arg_cong [where f = unat])


lemma answers_echo:
  assumes "echo_of q lines j e" "j < 2 ^ 32" "k < 2 ^ 32" "length (lines ! j) + 8 \<le> DG_MAXLINE"
  shows "answers (q + 1 + of_nat k) e \<longleftrightarrow> j = k"
proof -
  obtain tv d where e: "e = Dgram tv d" by (cases e) (use assms(1) in \<open>simp_all add: echo_of_def\<close>)
  then have d: "d = dg_bytes (q + 1 + of_nat j) (rd32 d 4) (char_bytes (lines ! j))"
    using assms(1) echo_payload [OF assms(4)] by (simp add: echo_of_def)
  have "rd32 d 0 = q + 1 + of_nat j" "HDR_SIZE \<le> length d" by (subst d, simp)+
  then show ?thesis using number_inj [OF assms(2,3)] by (simp add: answers_def e)
qed

text \<open>One call: the line comes back.\<close>

lemma dg_call_delivers:
  assumes "delivers q lines k es" "k < length lines" "length lines < 2 ^ 32" "send_seq s = q + of_nat k"
    and "list_all (\<lambda>l. length l + 8 \<le> DG_MAXLINE) lines"
    and "dg_send_recv (char_bytes (lines ! k)) DG_MAXLINE tv es s = (s', r, out)"
  shows "r = Reply (char_bytes (lines ! k))"
proof -
  let ?seq = "q + 1 + of_nat k :: u32"
  have len: "length (lines ! j) + 8 \<le> DG_MAXLINE" if "j \<le> k" for j using assms(2,5) that by (simp add: list_all_length)
  have iff: "answers ?seq e \<longleftrightarrow> echo_of q lines k e" if "e \<in> set es" for e
  proof
    assume a: "answers ?seq e"
    then have "\<not> is_alarm e" by (auto simp: answers_def is_alarm_def split: dg_event.splits)
    then have "\<exists>j \<le> k. echo_of q lines j e"
      using assms(1) that by (fastforce simp: delivers_def list_all_iff list_ex_iff less_Suc_eq_le simp del: upt_Suc)
    then obtain j where "j \<le> k" "echo_of q lines j e" by blast
    with a answers_echo [of q lines j e k] len assms(2,3) show "echo_of q lines k e" by simp
  next
    assume "echo_of q lines k e"
    with answers_echo [of q lines k e k] len assms(2,3) show "answers ?seq e" by simp
  qed
  have "before_answer ?seq es = takeWhile (\<lambda>e. \<not> echo_of q lines k e) es"
    unfolding before_answer_def by (rule takeWhile_cong) (simp_all add: iff)
  then have al: "alarms (before_answer ?seq es) \<le> 3" using assms(1) by (simp add: delivers_def)
  have "list_ex (answers ?seq) es" using assms(1) iff by (auto simp: delivers_def list_ex_iff)
  then obtain e where e: "find (answers ?seq) es = Some e" by (cases "find (answers ?seq) es") (auto simp: find_None_iff list_ex_iff)
  then have "e \<in> set es" "answers ?seq e" by (auto simp: find_Some_iff)
  with iff have echo: "echo_of q lines k e" by simp
  then obtain t d where d: "e = Dgram t d" "d = dg_bytes ?seq (rd32 d 4) (char_bytes (lines ! k))"
    using echo_payload [OF len [of k]] by (cases e) (auto simp: echo_of_def)
  have "take DG_MAXLINE (drop HDR_SIZE d) = char_bytes (lines ! k)"
    by (subst d(2)) (use len [of k] in simp)
  with dg_send_recv_outcome [OF assms(6)] al e d(1) assms(4) show ?thesis by (simp add: ac_simps)
qed

lemma dg_wait_seq: "dg_wait outbuff inbytes es s = (s', r, out) \<Longrightarrow> send_seq s' = send_seq s"
  by (induction outbuff inbytes es s arbitrary: s' r out rule: dg_wait.induct)
    (auto simp: Let_def split: prod.splits bool.splits if_splits)

lemma dg_send_recv_seq: "dg_send_recv outbuff inbytes tv es s = (s', r, out) \<Longrightarrow> send_seq s' = send_seq s + 1"
  by (auto simp: dg_send_recv_def Let_def dest!: dg_wait_seq split: prod.splits)

lemma dg_cli_loop_delivers:
  assumes "length lines < 2 ^ 32" "list_all (\<lambda>l. length l + 8 \<le> DG_MAXLINE \<and> NUL \<notin> set l) lines"
  shows "length script = length ls \<Longrightarrow> ls = drop k lines \<Longrightarrow> send_seq s = q + of_nat k \<Longrightarrow>
    (\<And>i. i < length ls \<Longrightarrow> delivers q lines (k + i) (snd (script ! i))) \<Longrightarrow>
    \<exists>s' out. dg_cli_loop ls script s = (Inr s', ls, out)"
proof (induction ls arbitrary: script k s)
  case (Cons l ls)
  obtain tv es script' where sc: "script = (tv, es) # script'" using Cons.prems(1) by (cases script) auto
  have lt: "k < length lines" using Cons.prems(2) by (cases "k < length lines") simp_all
  have k: "lines ! k = l" "ls = drop (Suc k) lines" using Cons_nth_drop_Suc [OF lt] Cons.prems(2) by (metis list.inject)+
  obtain s' r out where call: "dg_send_recv (char_bytes l) DG_MAXLINE tv es s = (s', r, out)"
    by (cases "dg_send_recv (char_bytes l) DG_MAXLINE tv es s") auto
  have "delivers q lines k es" using Cons.prems(4) [of 0] by (simp add: sc)
  then have r: "r = Reply (char_bytes l)"
    using dg_call_delivers [OF _ lt assms(1) Cons.prems(3)] call assms(2) k(1) by (auto simp: list_all_iff)
  have "send_seq s' = q + of_nat (Suc k)" using dg_send_recv_seq [OF call] Cons.prems(3) by (simp add: ac_simps)
  moreover have "delivers q lines (Suc k + i) (snd (script' ! i))" if "i < length ls" for i
    using Cons.prems(4) [of "Suc i"] that by (simp add: sc)
  ultimately obtain s2 out2 where "dg_cli_loop ls script' s' = (Inr s2, ls, out2)"
    using Cons.IH [of script' "Suc k" s'] Cons.prems(1) k(2) by (auto simp: sc)
  moreover have "NUL \<notin> set l" using assms(2) lt k(1) by (auto simp: list_all_length)
  ultimately show ?case by (simp add: sc Dg_send_recv_def call r)
qed simp


text \<open>C27. Over a network that loses, delays, reorders and repeats requests and answers, the client prints its input: every
  line once and in order, as long as some answer to each line comes before the fourth alarm and no line is longer than
  the server's buffer takes with the header.\<close>

theorem dg_cli_over_lossy_network:
  assumes "NUL \<notin> set input" and "list_all (\<lambda>l. length l + 8 \<le> DG_MAXLINE) (fgets_lines DG_MAXLINE input)"
    and "length (fgets_lines DG_MAXLINE input) < 2 ^ 32"
    and "length script = length (fgets_lines DG_MAXLINE input)"
    and "\<And>k. k < length script \<Longrightarrow> delivers (send_seq s) (fgets_lines DG_MAXLINE input) k (snd (script ! k))"
  shows "\<exists>s' printed out. dg_cli input script s = (Inr s', printed, out) \<and> concat printed = input"
proof -
  let ?lines = "fgets_lines DG_MAXLINE input"
  have "list_all (\<lambda>l. length l + 8 \<le> DG_MAXLINE \<and> NUL \<notin> set l) ?lines"
    using assms(2) fgets_lines_no_NUL by (auto simp: list_all_iff)
  from dg_cli_loop_delivers [OF assms(3) this, of script ?lines 0 s "send_seq s"] assms(4,5)
  obtain s' out where "dg_cli_loop ?lines script s = (Inr s', ?lines, out)" by auto
  moreover have "concat ?lines = input" by (rule concat_fgets_lines) (simp_all add: assms(1) DG_MAXLINE_def)
  ultimately show ?thesis by (simp add: dg_cli_def)
qed

text \<open>Two lines; the first answer comes after an alarm and then again, before the second.\<close>

definition two_lines :: string where
  "two_lines = ''a'' @ [NL] @ ''b''"

definition lossy :: "(timeval \<times> dg_event list) list" where
  "lossy =
     [((0, 0), [Alarm (3, 0), Dgram (4, 0) (dg_echo (dg_bytes 1 3000 (char_bytes (''a'' @ [NL]))))]),
      ((5, 0), [Dgram (6, 0) (dg_echo (dg_bytes 1 0 (char_bytes (''a'' @ [NL])))),
                Dgram (7, 0) (dg_echo (dg_bytes 2 5000 (char_bytes ''b'')))])]"

lemma two_lines_split: "fgets_lines DG_MAXLINE two_lines = [''a'' @ [NL], ''b'']"
  by code_simp

lemma dg_cli_over_lossy_network_witness:
  "\<exists>s' printed out. dg_cli two_lines lossy new_client = (Inr s', printed, out) \<and> concat printed = two_lines"
proof (rule dg_cli_over_lossy_network)
  show "NUL \<notin> set two_lines" by (simp add: two_lines_def)
  show "list_all (\<lambda>l. length l + 8 \<le> DG_MAXLINE) (fgets_lines DG_MAXLINE two_lines)"
    unfolding two_lines_split by (simp add: DG_MAXLINE_def)
  show "length (fgets_lines DG_MAXLINE two_lines) < 2 ^ 32" "length lossy = length (fgets_lines DG_MAXLINE two_lines)"
    unfolding two_lines_split by (simp_all add: lossy_def)
  fix k assume "k < length lossy"
  then have k: "k = 0 \<or> k = 1" by (auto simp: lossy_def)
  have "delivers 0 [''a'' @ [NL], ''b''] 0 (snd (lossy ! 0)) \<and> delivers 0 [''a'' @ [NL], ''b''] 1 (snd (lossy ! 1))"
    by (simp add: delivers_def lossy_def echo_of_def is_alarm_def alarms_def echo_payload DG_MAXLINE_def dg_bytes_inj)
  with k show "delivers (send_seq new_client) (fgets_lines DG_MAXLINE two_lines) k (snd (lossy ! k))"
    unfolding two_lines_split by (auto simp: new_client_def)
qed


end
