(* ===== verification/Unp_Icmp.thy ===== *)
theory Unp_Icmp
  imports Unp_Addr Unp_Float
begin

text \<open>
  What the programs that read raw ICMP packets share (\<^verbatim>\<open>ping\<close>, \<^verbatim>\<open>traceroute\<close>
  and \<^verbatim>\<open>icmpd\<close> of \<^verbatim>\<open>src/unpv13e-master\<close>): the fields of the headers
  at an offset of a receive buffer, the constants of the system's headers, and the time a packet took.  A port is the
  16 bits of its field as the host reads them, in network order.
\<close>

section \<open>Headers\<close>

text \<open>The length of an IPv4 header is counted in words in the low half of its first byte.\<close>

definition ip_hlen :: "byte list \<Rightarrow> nat \<Rightarrow> nat" where
  "ip_hlen buf off = 4 * (unat (buf ! off) mod 16)"

definition ip_ttl :: "byte list \<Rightarrow> nat \<Rightarrow> nat" where "ip_ttl buf off = unat (buf ! (off + 8))"
definition ip_p :: "byte list \<Rightarrow> nat \<Rightarrow> nat" where "ip_p buf off = unat (buf ! (off + 9))"
definition ip_dst :: "byte list \<Rightarrow> nat \<Rightarrow> byte list" where "ip_dst buf off = map (\<lambda>i. buf ! (off + 16 + i)) [0..<4]"

definition ip6_nxt :: "byte list \<Rightarrow> nat \<Rightarrow> nat" where "ip6_nxt buf off = unat (buf ! (off + 6))"
definition ip6_dst :: "byte list \<Rightarrow> nat \<Rightarrow> byte list" where "ip6_dst buf off = map (\<lambda>i. buf ! (off + 24 + i)) [0..<16]"

definition icmp_type :: "byte list \<Rightarrow> nat \<Rightarrow> nat" where "icmp_type buf off = unat (buf ! off)"
definition icmp_code :: "byte list \<Rightarrow> nat \<Rightarrow> nat" where "icmp_code buf off = unat (buf ! (off + 1))"
definition icmp_id :: "byte list \<Rightarrow> nat \<Rightarrow> u16" where "icmp_id buf off = rd16 buf (off + 4)"
definition icmp_seq :: "byte list \<Rightarrow> nat \<Rightarrow> u16" where "icmp_seq buf off = rd16 buf (off + 6)"

definition uh_sport :: "byte list \<Rightarrow> nat \<Rightarrow> u16" where "uh_sport buf off = rd16 buf off"
definition uh_dport :: "byte list \<Rightarrow> nat \<Rightarrow> u16" where "uh_dport buf off = rd16 buf (off + 2)"

definition IPPROTO_ICMP :: nat where "IPPROTO_ICMP = 1"
definition IPPROTO_UDP :: nat where "IPPROTO_UDP = 17"
definition ICMP_ECHOREPLY :: nat where "ICMP_ECHOREPLY = 0"
definition ICMP_UNREACH :: nat where "ICMP_UNREACH = 3"
definition ICMP_SOURCEQUENCH :: nat where "ICMP_SOURCEQUENCH = 4"
definition ICMP_ECHO :: nat where "ICMP_ECHO = 8"
definition ICMP_TIMXCEED :: nat where "ICMP_TIMXCEED = 11"
definition ICMP_TIMXCEED_INTRANS :: nat where "ICMP_TIMXCEED_INTRANS = 0"
definition ICMP_UNREACH_PORT :: nat where "ICMP_UNREACH_PORT = 3"
definition ICMP_UNREACH_NEEDFRAG :: nat where "ICMP_UNREACH_NEEDFRAG = 4"
definition ICMP6_DST_UNREACH :: nat where "ICMP6_DST_UNREACH = 1"
definition ICMP6_PACKET_TOO_BIG :: nat where "ICMP6_PACKET_TOO_BIG = 2"
definition ICMP6_TIME_EXCEEDED :: nat where "ICMP6_TIME_EXCEEDED = 3"
definition ICMP6_TIME_EXCEED_TRANSIT :: nat where "ICMP6_TIME_EXCEED_TRANSIT = 0"
definition ICMP6_DST_UNREACH_NOPORT :: nat where "ICMP6_DST_UNREACH_NOPORT = 4"
definition ICMP6_ECHO_REQUEST :: nat where "ICMP6_ECHO_REQUEST = 128"
definition ICMP6_ECHO_REPLY :: nat where "ICMP6_ECHO_REPLY = 129"

lemmas icmp_consts = IPPROTO_ICMP_def IPPROTO_UDP_def ICMP_ECHOREPLY_def ICMP_UNREACH_def ICMP_SOURCEQUENCH_def
  ICMP_ECHO_def ICMP_TIMXCEED_def ICMP_TIMXCEED_INTRANS_def ICMP_UNREACH_PORT_def ICMP_UNREACH_NEEDFRAG_def
  ICMP6_DST_UNREACH_def ICMP6_PACKET_TOO_BIG_def ICMP6_TIME_EXCEEDED_def ICMP6_TIME_EXCEED_TRANSIT_def
  ICMP6_DST_UNREACH_NOPORT_def ICMP6_ECHO_REQUEST_def ICMP6_ECHO_REPLY_def

lemmas header_fields = ip_hlen_def ip_ttl_def ip_p_def ip_dst_def ip6_nxt_def ip6_dst_def icmp_type_def icmp_code_def
  icmp_id_def icmp_seq_def uh_sport_def uh_dport_def rd16_def

text \<open>The fields read only bytes inside their header: a buffer that agrees there agrees on them.\<close>

definition agree :: "nat \<Rightarrow> byte list \<Rightarrow> byte list \<Rightarrow> bool" where
  "agree n a b \<longleftrightarrow> (\<forall>i < n. a ! i = b ! i)"

lemma agree_recv_into:
  "length d \<le> length a \<Longrightarrow> length a = length b \<Longrightarrow> agree (length d) (recv_into a d) (recv_into b d)"
  by (simp add: agree_def recv_into_nth)

lemma agree_fields:
  assumes "agree n a b"
  shows "off < n \<Longrightarrow> ip_hlen a off = ip_hlen b off" "off + 8 < n \<Longrightarrow> ip_ttl a off = ip_ttl b off"
    "off + 9 < n \<Longrightarrow> ip_p a off = ip_p b off" "off + 6 < n \<Longrightarrow> ip6_nxt a off = ip6_nxt b off"
    "off < n \<Longrightarrow> icmp_type a off = icmp_type b off" "off + 1 < n \<Longrightarrow> icmp_code a off = icmp_code b off"
    "off + 1 < n \<Longrightarrow> uh_sport a off = uh_sport b off" "off + 3 < n \<Longrightarrow> uh_dport a off = uh_dport b off"
    "off + 5 < n \<Longrightarrow> icmp_id a off = icmp_id b off" "off + 7 < n \<Longrightarrow> icmp_seq a off = icmp_seq b off"
  using assms by (simp_all add: header_fields agree_def add.commute)

section \<open>An error message\<close>

text \<open>An IPv4 header as far as the programs look at it: a length that is its own, and at least 20 bytes.\<close>

definition ipv4_header :: "byte list \<Rightarrow> bool" where
  "ipv4_header h \<longleftrightarrow> 20 \<le> length h \<and> ip_hlen h 0 = length h"

text \<open>An ICMP error of a router: its own IP header, type and code, six more bytes, and of the packet it answers the IP
  header, the ports and what else it returns.\<close>

definition icmp_error :: "byte list \<Rightarrow> byte \<Rightarrow> byte \<Rightarrow> byte list \<Rightarrow> byte list \<Rightarrow> u16 \<Rightarrow> u16 \<Rightarrow> byte list \<Rightarrow> byte list" where
  "icmp_error ip1 t k six ip2 sp dp tail = ip1 @ [t, k] @ six @ ip2 @ le16 sp @ le16 dp @ tail"

lemma header_at:
  "0 < length h \<Longrightarrow> ip_hlen (a @ h @ b) (length a) = ip_hlen h 0"
  "9 < length h \<Longrightarrow> ip_p (a @ h @ b) (length a) = ip_p h 0"
  "19 < length h \<Longrightarrow> ip_dst (a @ h @ b) (length a) = ip_dst h 0"
  by (simp_all add: header_fields nth_append)

lemma header_start:
  assumes "ipv4_header ip"
  shows "ip_hlen (ip @ b) 0 = length ip" "ip_p (ip @ b) 0 = ip_p ip 0" "ip_ttl (ip @ b) 0 = ip_ttl ip 0"
  using assms by (cases ip; simp add: ipv4_header_def header_fields nth_append)+

lemma ports_at: "uh_sport (a @ le16 x @ le16 y @ b) (length a) = x" "uh_dport (a @ le16 x @ le16 y @ b) (length a) = y"
proof -
  show "uh_sport (a @ le16 x @ le16 y @ b) (length a) = x" by (simp add: uh_sport_def rd16_at)
  have "rd16 ((a @ le16 x) @ le16 y @ b) (length a + 2) = y" by (rule rd16_at) simp
  then show "uh_dport (a @ le16 x @ le16 y @ b) (length a) = y" by (simp add: uh_dport_def)
qed

text \<open>What the programs read of one, wherever the buffer's other bytes come from.\<close>

lemma icmp_error_fields:
  fixes ip1 ip2 six tail buf :: "byte list" and t k :: byte and sp dp :: u16
  assumes "ipv4_header ip1" "ipv4_header ip2" "length six = 6"
  defines "d \<equiv> icmp_error ip1 t k six ip2 sp dp tail"
  assumes "length d \<le> length buf"
  defines "b \<equiv> recv_into buf d" and "h1 \<equiv> length ip1" and "h2 \<equiv> length ip2"
  shows "ip_hlen b 0 = h1" "icmp_type b h1 = unat t" "icmp_code b h1 = unat k" "ip_hlen b (h1 + 8) = h2"
    "ip_p b (h1 + 8) = ip_p ip2 0" "ip_dst b (h1 + 8) = ip_dst ip2 0"
    "uh_sport b (h1 + 8 + h2) = sp" "uh_dport b (h1 + 8 + h2) = dp"
proof -
  define rest where "rest = drop (length d) buf"
  have b: "b = d @ rest" using assms(5) by (simp add: b_def recv_into_fits rest_def)
  have h: "20 \<le> h1" "20 \<le> h2" "ip_hlen ip1 0 = h1" "ip_hlen ip2 0 = h2"
    using assms(1,2) by (simp_all add: ipv4_header_def h1_def h2_def)
  have one: "b = [] @ ip1 @ ([t, k] @ six @ ip2 @ le16 sp @ le16 dp @ tail @ rest)"
    and two: "b = (ip1 @ [t, k] @ six) @ ip2 @ (le16 sp @ le16 dp @ tail @ rest)"
    and three: "b = (ip1 @ [t, k] @ six @ ip2) @ le16 sp @ le16 dp @ (tail @ rest)"
    by (simp_all add: b d_def icmp_error_def)
  show "ip_hlen b 0 = h1" unfolding one using header_at(1) [of ip1 "[]"] h(1,3) by (cases ip1) (simp_all add: h1_def)
  show "icmp_type b h1 = unat t" "icmp_code b h1 = unat k"
    by (simp_all add: one icmp_type_def icmp_code_def nth_append h1_def)
  have l: "length (ip1 @ [t, k] @ six) = h1 + 8" "length (ip1 @ [t, k] @ six @ ip2) = h1 + 8 + h2" "9 < length ip2" "19 < length ip2" "ip2 \<noteq> []"
    using assms(3) h(2) by (auto simp: h1_def h2_def)
  show "ip_hlen b (h1 + 8) = h2" "ip_p b (h1 + 8) = ip_p ip2 0" "ip_dst b (h1 + 8) = ip_dst ip2 0"
    unfolding two l(1) [symmetric] using header_at [of ip2 "ip1 @ [t, k] @ six"] h l(3-5) by (auto simp: h2_def)
  show "uh_sport b (h1 + 8 + h2) = sp" "uh_dport b (h1 + 8 + h2) = dp"
    unfolding three l(2) [symmetric] by (rule ports_at)+
qed

text \<open>A header without options, for examples.\<close>

definition plain_ip :: "byte \<Rightarrow> byte list" where
  "plain_ip proto = 69 # replicate 8 0 @ proto # replicate 10 0"

lemma plain_ip_header: "ipv4_header (plain_ip k)" "ip_p (plain_ip k) 0 = unat k" "length (plain_ip k) = 20"
  "ip_ttl (plain_ip k) 0 = 0"
  by (simp_all add: ipv4_header_def plain_ip_def ip_hlen_def ip_p_def ip_ttl_def nth_append)

section \<open>The time a packet took\<close>

text \<open>\<^verbatim>\<open>tv_sub\<close> borrows at most one second.\<close>

type_synonym timeval = "int \<times> int"

definition tv_sub :: "timeval \<Rightarrow> timeval \<Rightarrow> timeval" where
  "tv_sub tvout tvin =
     (let usec = snd tvout - snd tvin in
      if usec < 0 then (fst tvout - 1 - fst tvin, usec + 1000000) else (fst tvout - fst tvin, usec))"

text \<open>In milliseconds, as a \<^verbatim>\<open>double\<close>.\<close>

definition rtt_ms :: "timeval \<Rightarrow> rat" where
  "rtt_ms tv = f64 (f64 (of_int (fst tv) * 1000) + f64 (of_int (snd tv) / 1000))"

definition tv_ok :: "timeval \<Rightarrow> bool" where
  "tv_ok tv \<longleftrightarrow> 0 \<le> snd tv \<and> snd tv < 1000000"

definition tv_usecs :: "timeval \<Rightarrow> int" where
  "tv_usecs tv = fst tv * 1000000 + snd tv"

lemma tv_sub_exact:
  "tv_ok a \<Longrightarrow> tv_ok b \<Longrightarrow> tv_ok (tv_sub a b) \<and> tv_usecs (tv_sub a b) = tv_usecs a - tv_usecs b"
  by (simp add: tv_ok_def tv_usecs_def tv_sub_def Let_def)

end
