(* ===== verification/Unp_Trace.thy ===== *)
theory Unp_Trace
  imports Unp_Icmp Scan
begin

text \<open>
  \<^verbatim>\<open>src/unpv13e-master/traceroute\<close>: the options, the loop over hops and probes, and the two
  functions that wait for the answer to a probe.  What arrives on the raw socket while a probe waits is a script of
  events; the resolver is a parameter; the kernel's part in opening sockets is left out.
\<close>

section \<open>Settings\<close>

record trace_cfg =
  sport :: u16
  dport :: u16
  verbose :: bool
  max_ttl :: int

definition nprobes :: nat where "nprobes = 3"
definition BUFSIZE :: nat where "BUFSIZE = 1500"

text \<open>What \<^verbatim>\<open>getopt\<close> returns, in order; then the host and nothing else must be left.\<close>

datatype trace_opt = Opt_m string | Opt_v | Opt_bad

fun trace_options :: "trace_opt list \<Rightarrow> trace_cfg \<Rightarrow> string + trace_cfg" where
  "trace_options [] c = Inr c"
| "trace_options (Opt_m arg # os) c =
     (let c' = c\<lparr>max_ttl := atoi arg\<rparr> in
      if max_ttl c' \<le> 1 then Inl ''invalid -m value'' else trace_options os c')"
| "trace_options (Opt_v # os) c = trace_options os (c\<lparr>verbose := True\<rparr>)"
| "trace_options (Opt_bad # os) c = Inl ''unrecognized option: ?''"

definition trace_main :: "trace_opt list \<Rightarrow> nat \<Rightarrow> int \<Rightarrow> string + trace_cfg" where
  "trace_main os args_left pid =
     (case trace_options os
         \<lparr>sport = of_int pid OR 0x8000, dport = 32768 + 666, verbose = False, max_ttl = 30\<rparr> of
        Inl m \<Rightarrow> Inl m
      | Inr c \<Rightarrow> if args_left \<noteq> 1 then Inl ''usage: traceroute [ -m <maxttl> -v ] <hostname>'' else Inr c)"

section \<open>The answer to a probe\<close>

text \<open>
  What a packet means: too short, of another kind, of no interest without a word, or the answer, with the value the
  function returns, \<open>None\<close> where it returns a variable nothing was assigned to.
\<close>

datatype verdict = Short | Other nat nat | Silent | Answer "int option"

text \<open>The UDP header behind an inner header is that of our probe.\<close>

definition our_probe :: "trace_cfg \<Rightarrow> int \<Rightarrow> byte list \<Rightarrow> nat \<Rightarrow> bool" where
  "our_probe c seq buf udp \<longleftrightarrow>
     uh_sport buf udp = htons (sport c) \<and> uh_dport buf udp = htons (of_int (uint (dport c) + seq))"

text \<open>The buffer holds \<open>n\<close> bytes of a packet, and behind them what was there before.\<close>

definition judge_v4 :: "trace_cfg \<Rightarrow> int \<Rightarrow> byte list \<Rightarrow> nat \<Rightarrow> verdict" where
  "judge_v4 c seq buf n =
     (let hlen1 = ip_hlen buf 0; icmplen = int n - int hlen1 in
      if icmplen < 8 then Short
      else
        let t = icmp_type buf hlen1; k = icmp_code buf hlen1; hip = hlen1 + 8;
            inner = (\<lambda>ret.
              if icmplen < 8 + 20 then Short
              else
                let hlen2 = ip_hlen buf hip; udp = hip + hlen2 in
                if icmplen < 8 + int hlen2 + 4 then Short
                else if ip_p buf hip = IPPROTO_UDP \<and> our_probe c seq buf udp then Answer (Some ret)
                else Other t k)
        in if t = ICMP_TIMXCEED \<and> k = ICMP_TIMXCEED_INTRANS then inner (- 2)
           else if t = ICMP_UNREACH then inner (if k = ICMP_UNREACH_PORT then - 1 else int k)
           else Other t k)"

text \<open>Here the \<^verbatim>\<open>break\<close> behind the assignment is not part of the conditional.\<close>

definition judge_v6 :: "trace_cfg \<Rightarrow> int \<Rightarrow> byte list \<Rightarrow> nat \<Rightarrow> verdict" where
  "judge_v6 c seq buf n =
     (if n < 8 then Short
      else
        let t = icmp_type buf 0; k = icmp_code buf 0; hip6 = 8; udp = hip6 + 40;
            ours = (ip6_nxt buf hip6 = IPPROTO_UDP \<and> our_probe c seq buf udp)
        in if t = ICMP6_TIME_EXCEEDED \<and> k = ICMP6_TIME_EXCEED_TRANSIT then
             (if n < 8 + 40 + 4 then Short else Answer (if ours then Some (- 2) else None))
           else if t = ICMP6_DST_UNREACH then
             (if n < 8 + 40 + 4 then Short
              else if ours then Answer (Some (if k = ICMP6_DST_UNREACH_NOPORT then - 1 else int k))
              else Silent)
           else Other t k)"

text \<open>
  While \<^verbatim>\<open>recvfrom\<close> waits: a packet comes, with the time the program reads when it answers; the
  timer expires and interrupts the call; the timer expires after the flag was tested and before the call, which then
  goes on waiting; another signal interrupts the call; or the call fails.
\<close>

datatype trace_event = Packet sockaddr "byte list" timeval | AlarmIntr | AlarmEarly | OtherIntr | RecvError

datatype recv_result = Reply "int option" sockaddr timeval | NoReply | RecvExit | StillWaiting

datatype trace_out = TtlLine int | Probe int u16 u16 u16 timeval | Star | Host "string option" sockaddr | Rtt rat
  | Note string | Odd sockaddr nat nat

fun trace_recv :: "(byte list \<Rightarrow> nat \<Rightarrow> verdict) \<Rightarrow> bool \<Rightarrow> bool \<Rightarrow> byte list \<Rightarrow> trace_event list \<Rightarrow>
    recv_result \<times> byte list \<times> trace_out list" where
  "trace_recv judge verb gotalarm buf [] = (StillWaiting, buf, [])"
| "trace_recv judge verb gotalarm buf (AlarmIntr # es) = (NoReply, buf, [])"
| "trace_recv judge verb gotalarm buf (AlarmEarly # es) = trace_recv judge verb True buf es"
| "trace_recv judge verb gotalarm buf (OtherIntr # es) =
     (if gotalarm then (NoReply, buf, []) else trace_recv judge verb gotalarm buf es)"
| "trace_recv judge verb gotalarm buf (RecvError # es) = (RecvExit, buf, [])"
| "trace_recv judge verb gotalarm buf (Packet from d tv # es) =
     (let buf' = recv_into buf d; v = judge buf' (min (length d) (length buf));
          odd = (case v of Other t k \<Rightarrow> if verb then [Odd from t k] else [] | _ \<Rightarrow> [])
      in case v of
           Answer ret \<Rightarrow> (Reply ret from tv, buf', [])
         | _ \<Rightarrow>
             if gotalarm then (NoReply, buf', odd)
             else (case trace_recv judge verb gotalarm buf' es of (r, b, out) \<Rightarrow> (r, b, odd @ out)))"

section \<open>Names for codes\<close>

definition code_name :: "string list \<Rightarrow> int \<Rightarrow> string" where
  "code_name names k =
     (if 0 \<le> k \<and> nat k < length names then names ! nat k else ''[unknown code '' @ dec_int k @ '']'')"

definition icmpcode_v4 :: "int \<Rightarrow> string" where
  "icmpcode_v4 = code_name
     [''network unreachable'', ''host unreachable'', ''protocol unreachable'', ''port unreachable'',
      ''fragmentation required but DF bit set'', ''source route failed'', ''destination network unknown'',
      ''destination host unknown'', ''source host isolated (obsolete)'',
      ''destination network administratively prohibited'', ''destination host administratively prohibited'',
      ''network unreachable for TOS'', ''host unreachable for TOS'',
      ''communication administratively prohibited by filtering'', ''host recedence violation'',
      ''precedence cutoff in effect'']"

definition icmpcode_v6 :: "int \<Rightarrow> string" where
  "icmpcode_v6 = code_name
     [''no route to host'', ''administratively prohibited'', ''not a neighbor'', ''address unreachable'',
      ''port unreachable'']"

section \<open>The loop\<close>

text \<open>The functions of an address family.\<close>

record trace_proto =
  icmpcode :: "int \<Rightarrow> string"
  judge :: "trace_cfg \<Rightarrow> int \<Rightarrow> byte list \<Rightarrow> nat \<Rightarrow> verdict"

definition proto_v4 :: trace_proto where "proto_v4 = \<lparr>icmpcode = icmpcode_v4, judge = judge_v4\<rparr>"
definition proto_v6 :: trace_proto where "proto_v6 = \<lparr>icmpcode = icmpcode_v6, judge = judge_v6\<rparr>"

text \<open>\<open>salast\<close> is \<open>None\<close> while it is zeroed; \<open>reached\<close> is the variable \<^verbatim>\<open>done\<close>.\<close>

record trace_state =
  seq :: int
  reached :: nat
  salast :: "sockaddr option"
  recvbuf :: "byte list"

datatype trace_stop = ExitMsg string | Indeterminate | Waiting

text \<open>A probe: the time it is sent and what happens until its answer.\<close>

type_synonym probe = "timeval \<times> trace_event list"

definition one_probe :: "trace_proto \<Rightarrow> (sockaddr \<Rightarrow> string option) \<Rightarrow> trace_cfg \<Rightarrow> int \<Rightarrow> probe \<Rightarrow> trace_state \<Rightarrow>
    (trace_stop + trace_state) \<times> trace_out list" where
  "one_probe pr resolve c ttl p s =
     (let sq = seq s + 1;
          sent = Probe ttl (htons (of_int (uint (dport c) + sq))) (of_int sq) (of_int ttl) (fst p)
      in case trace_recv (judge pr c sq) (verbose c) False (recvbuf s) (snd p) of
           (StillWaiting, buf, out) \<Rightarrow> (Inl Waiting, sent # out)
         | (RecvExit, buf, out) \<Rightarrow> (Inl (ExitMsg ''recvfrom error''), sent # out)
         | (NoReply, buf, out) \<Rightarrow> (Inr (s\<lparr>seq := sq, recvbuf := buf\<rparr>), sent # out @ [Star])
         | (Reply ret from tvrecv, buf, out) \<Rightarrow>
             let new = (case salast s of None \<Rightarrow> True | Some l \<Rightarrow> sock_cmp_addr from l \<noteq> 0);
                 s' = s\<lparr>seq := sq, recvbuf := buf, salast := (if new then Some from else salast s)\<rparr>;
                 out' = sent # out @ (if new then [Host (resolve from) from] else []) @ [Rtt (rtt_ms (tv_sub tvrecv (fst p)))]
             in case ret of
                  None \<Rightarrow> (Inl Indeterminate, out')
                | Some k \<Rightarrow>
                    if k = - 1 then (Inr (s'\<lparr>reached := reached s + 1\<rparr>), out')
                    else if 0 \<le> k then (Inr s', out' @ [Note (icmpcode pr k)])
                    else (Inr s', out'))"

fun run_probes :: "trace_proto \<Rightarrow> (sockaddr \<Rightarrow> string option) \<Rightarrow> trace_cfg \<Rightarrow> int \<Rightarrow> probe list \<Rightarrow> trace_state \<Rightarrow>
    (trace_stop + trace_state) \<times> trace_out list" where
  "run_probes pr resolve c ttl [] s = (Inr s, [])"
| "run_probes pr resolve c ttl (p # ps) s =
     (case one_probe pr resolve c ttl p s of
        (Inl x, out) \<Rightarrow> (Inl x, out)
      | (Inr s', out) \<Rightarrow> (case run_probes pr resolve c ttl ps s' of (r, out') \<Rightarrow> (r, out @ out')))"

text \<open>The probes of each hop in turn; a hop with fewer than three has not been answered yet.\<close>

fun trace_hops :: "trace_proto \<Rightarrow> (sockaddr \<Rightarrow> string option) \<Rightarrow> trace_cfg \<Rightarrow> int \<Rightarrow> probe list list \<Rightarrow> trace_state \<Rightarrow>
    (trace_stop + trace_state) \<times> trace_out list" where
  "trace_hops pr resolve c ttl hops s =
     (if \<not> (ttl \<le> max_ttl c \<and> reached s = 0) then (Inr s, [])
      else
        (case hops of
           [] \<Rightarrow> (Inl Waiting, [TtlLine ttl])
         | ps # hops' \<Rightarrow>
             (case run_probes pr resolve c ttl (take nprobes ps) (s\<lparr>salast := None\<rparr>) of
                (Inl x, out) \<Rightarrow> (Inl x, TtlLine ttl # out)
              | (Inr s', out) \<Rightarrow>
                  if length ps < nprobes then (Inl Waiting, TtlLine ttl # out)
                  else (case trace_hops pr resolve c (ttl + 1) hops' s' of
                          (r, out') \<Rightarrow> (r, TtlLine ttl # out @ out')))))"

declare trace_hops.simps [simp del]

definition traceloop :: "trace_proto \<Rightarrow> (sockaddr \<Rightarrow> string option) \<Rightarrow> trace_cfg \<Rightarrow> probe list list \<Rightarrow>
    (trace_stop + trace_state) \<times> trace_out list" where
  "traceloop pr resolve c hops =
     trace_hops pr resolve c 1 hops \<lparr>seq = 0, reached = 0, salast = None, recvbuf = replicate BUFSIZE 0\<rparr>"

end
