(* ===== verification/Unp_Trace_Props.thy ===== *)
theory Unp_Trace_Props
  imports Unp_Trace
begin

text \<open>The properties of \<^verbatim>\<open>traceroute\<close>: what a packet means does not depend on what the
  buffer held before, the hops of a path are printed in order, and where the IPv6 version returns a variable nothing
  was assigned to.\<close>

section \<open>Stale bytes\<close>

lemma agree_packet:
  "length a = length b \<Longrightarrow> agree (min (length d) (length a)) (recv_into a d) (recv_into b d)"
  by (simp add: agree_def recv_into_nth)

lemma agree_our_probe: "agree n a b \<Longrightarrow> udp + 3 < n \<Longrightarrow> our_probe c sq a udp = our_probe c sq b udp"
  by (simp add: our_probe_def agree_fields)

lemma judge_v4_agree:
  assumes "agree n a b"
  shows "judge_v4 c sq a n = judge_v4 c sq b n"
proof (cases "0 < n")
  case True
  note f = agree_fields [OF assms] and p = agree_our_probe [OF assms]
  have h: "ip_hlen a 0 = ip_hlen b 0" using True by (simp add: f)
  define h1 where "h1 = ip_hlen b 0"
  show ?thesis
  proof (cases "h1 + 8 \<le> n")
    case True
    then have "icmp_type a h1 = icmp_type b h1" "icmp_code a h1 = icmp_code b h1" by (simp_all add: f)
    moreover have "ip_hlen a (h1 + 8) = ip_hlen b (h1 + 8)" "ip_p a (h1 + 8) = ip_p b (h1 + 8)" if "h1 + 28 \<le> n"
      using that by (simp_all add: f)
    moreover have "our_probe c sq a (h1 + 8 + k) = our_probe c sq b (h1 + 8 + k)" if "h1 + 8 + k + 4 \<le> n" for k
      using that by (simp add: p)
    ultimately show ?thesis
      unfolding judge_v4_def Let_def h h1_def [symmetric] by (auto simp: le_diff_eq not_less)
  next
    case False
    then show ?thesis unfolding judge_v4_def Let_def h h1_def [symmetric] by simp
  qed
next
  case False
  then show ?thesis by (simp add: judge_v4_def)
qed

lemma judge_v6_agree:
  assumes "agree n a b"
  shows "judge_v6 c sq a n = judge_v6 c sq b n"
proof (cases "n < 8")
  case False
  note f = agree_fields [OF assms] and p = agree_our_probe [OF assms]
  have "icmp_type a 0 = icmp_type b 0" "icmp_code a 0 = icmp_code b 0" using False by (simp_all add: f)
  moreover have "ip6_nxt a 8 = ip6_nxt b 8" "our_probe c sq a 48 = our_probe c sq b 48" if "52 \<le> n"
    using that by (simp_all add: f p)
  ultimately show ?thesis by (auto simp: judge_v6_def Let_def)
qed (simp add: judge_v6_def)

lemma trace_recv_agree:
  assumes "\<And>n a b. agree n a b \<Longrightarrow> J a n = J b n"
  shows "length a = length b \<Longrightarrow>
    fst (trace_recv J verb g a es) = fst (trace_recv J verb g b es) \<and>
    snd (snd (trace_recv J verb g a es)) = snd (snd (trace_recv J verb g b es))"
proof (induction es arbitrary: g a b)
  case (Cons e es)
  show ?case
  proof (cases e)
    case (Packet src d tv)
    have "J (recv_into a d) (min (length d) (length a)) = J (recv_into b d) (min (length d) (length b))"
      using assms [OF agree_packet [OF Cons.prems]] Cons.prems by simp
    with Cons.IH [of "recv_into a d" "recv_into b d" g] Cons.prems show ?thesis
      by (auto simp: Packet Let_def split: verdict.splits prod.splits)
  next
    case AlarmEarly
    then show ?thesis using Cons.IH [OF Cons.prems, of True] by simp
  next
    case OtherIntr
    then show ?thesis using Cons.IH [OF Cons.prems, of False] by simp
  qed simp_all
qed simp

text \<open>What \<^verbatim>\<open>traceroute\<close> makes of the packets that come while a probe waits, with either address
  family, depends on the received bytes only: the headers inside a packet are read where it reaches, and the bytes an
  earlier packet left in the buffer change nothing.\<close>

theorem trace_recv_ignores_stale_bytes:
  assumes "length a = BUFSIZE" "length b = BUFSIZE" "pr = proto_v4 \<or> pr = proto_v6"
  shows "fst (trace_recv (judge pr c sq) verb g a es) = fst (trace_recv (judge pr c sq) verb g b es) \<and>
    snd (snd (trace_recv (judge pr c sq) verb g a es)) = snd (snd (trace_recv (judge pr c sq) verb g b es))"
  by (rule trace_recv_agree)
    (use assms in \<open>auto simp: proto_v4_def proto_v6_def intro: judge_v4_agree judge_v6_agree\<close>)

section \<open>The path\<close>

definition answers_probe :: "trace_cfg \<Rightarrow> int \<Rightarrow> byte \<Rightarrow> byte \<Rightarrow> byte list \<Rightarrow> bool" where
  "answers_probe c sq t k d \<longleftrightarrow>
     (\<exists>ip1 six ip2 tail. d = icmp_error ip1 t k six ip2 (htons (sport c)) (htons (of_int (uint (dport c) + sq))) tail \<and>
       length six = 6 \<and> ipv4_header ip1 \<and> ipv4_header ip2 \<and> ip_p ip2 0 = IPPROTO_UDP \<and> length d \<le> BUFSIZE)"

lemma judge_icmp_error:
  assumes "answers_probe c sq t k d" "length buf = BUFSIZE"
  shows "judge_v4 c sq (recv_into buf d) (min (length d) (length buf)) =
    (if unat t = ICMP_TIMXCEED \<and> unat k = ICMP_TIMXCEED_INTRANS then Answer (Some (- 2))
     else if unat t = ICMP_UNREACH then Answer (Some (if unat k = ICMP_UNREACH_PORT then - 1 else int (unat k)))
     else Other (unat t) (unat k))"
proof -
  obtain ip1 six ip2 tail where d: "d = icmp_error ip1 t k six ip2 (htons (sport c)) (htons (of_int (uint (dport c) + sq))) tail"
    and l: "length six = 6" "ipv4_header ip1" "ipv4_header ip2" "ip_p ip2 0 = IPPROTO_UDP" "length d \<le> BUFSIZE"
    using assms(1) by (auto simp: answers_probe_def)
  have n: "length d = length ip1 + 8 + length ip2 + 4 + length tail" "20 \<le> length ip2" "min (length d) (length buf) = length d"
    using l assms(2) by (simp_all add: d icmp_error_def ipv4_header_def)
  note f = icmp_error_fields [OF l(2,3,1), of t k _ _ tail buf, folded d]
  have "our_probe c sq (recv_into buf d) (length ip1 + 8 + length ip2)"
    using f [unfolded d] l(5) assms(2) by (simp add: our_probe_def d)
  then show ?thesis
    using f [unfolded d] n l(4,5) assms(2) by (simp add: judge_v4_def Let_def d add.assoc)
qed

text \<open>The hosts and the time to live of each line that is printed.\<close>

definition hosts :: "trace_out list \<Rightarrow> sockaddr list" where
  "hosts out = concat (map (\<lambda>x. case x of Host r a \<Rightarrow> [a] | _ \<Rightarrow> []) out)"

definition hop_lines :: "trace_out list \<Rightarrow> int list" where
  "hop_lines out = concat (map (\<lambda>x. case x of TtlLine t \<Rightarrow> [t] | _ \<Rightarrow> []) out)"

lemma printed_simps [simp]:
  "hosts [] = []" "hosts (x # out) = (case x of Host r a \<Rightarrow> [a] | _ \<Rightarrow> []) @ hosts out"
  "hosts (out @ out') = hosts out @ hosts out'"
  "hop_lines [] = []" "hop_lines (x # out) = (case x of TtlLine t \<Rightarrow> [t] | _ \<Rightarrow> []) @ hop_lines out"
  "hop_lines (out @ out') = hop_lines out @ hop_lines out'"
  by (simp_all add: hosts_def hop_lines_def)

text \<open>A probe is answered by one packet from an address, of a type and code.\<close>

definition answered :: "trace_cfg \<Rightarrow> int \<Rightarrow> byte \<Rightarrow> byte \<Rightarrow> byte list \<Rightarrow> probe \<Rightarrow> bool" where
  "answered c sq t k addr p \<longleftrightarrow> (\<exists>tvs d tv. p = (tvs, [Packet (Sin addr 0) d tv]) \<and> answers_probe c sq t k d)"

lemma cmp_sign_refl [simp]: "cmp_sign xs xs = 0"
  by (induction xs) simp_all

text \<open>The answer of a router (\<open>m = 0\<close>), and of the destination (\<open>m = 1\<close>).\<close>

lemma one_probe_answered:
  assumes "answered c (seq s + 1) t k addr p" "length (recvbuf s) = BUFSIZE"
    and "(t, k) = (11, 0) \<and> m = 0 \<or> (t, k) = (3, 3) \<and> m = (1 :: nat)"
    and "salast s = None \<or> salast s = Some (Sin addr 0)"
  shows "\<exists>buf out. one_probe proto_v4 resolve c ttl p s =
      (Inr (s\<lparr>seq := seq s + 1, recvbuf := buf, salast := Some (Sin addr 0), reached := reached s + m\<rparr>), out) \<and>
    length buf = BUFSIZE \<and> hosts out = (if salast s = None then [Sin addr 0] else []) \<and> hop_lines out = []"
proof -
  obtain tvs d tv where p: "p = (tvs, [Packet (Sin addr 0) d tv])" and d: "answers_probe c (seq s + 1) t k d"
    using assms(1) by (auto simp: answered_def)
  define ret :: int where "ret = (if m = 0 then - 2 else - 1)"
  have v: "judge_v4 c (seq s + 1) (recv_into (recvbuf s) d) (min (length d) (length (recvbuf s))) = Answer (Some ret)"
    unfolding judge_icmp_error [OF d assms(2)] using assms(3) by (auto simp: icmp_consts ret_def)
  then have r: "trace_recv (judge proto_v4 c (seq s + 1)) (verbose c) False (recvbuf s) (snd p) =
      (Reply (Some ret) (Sin addr 0) tv, recv_into (recvbuf s) d, [])"
    by (simp add: p proto_v4_def)
  have "m = 0 \<or> m = 1" using assms(3) by auto
  with r assms(2,4) show ?thesis
    by (cases s) (auto simp: one_probe_def Let_def ret_def sock_cmp_addr_def)
qed

text \<open>The three probes of a hop.\<close>

lemma hop_answered:
  assumes "length ps = nprobes" "\<And>i. i < nprobes \<Longrightarrow> answered c (seq s + int i + 1) t k addr (ps ! i)"
    and "length (recvbuf s) = BUFSIZE" "(t, k) = (11, 0) \<and> m = 0 \<or> (t, k) = (3, 3) \<and> m = (1 :: nat)"
    and "salast s = None"
  shows "\<exists>s' out. run_probes proto_v4 resolve c ttl ps s = (Inr s', out) \<and> length (recvbuf s') = BUFSIZE \<and>
    seq s' = seq s + 3 \<and> reached s' = reached s + 3 * m \<and> hosts out = [Sin addr 0] \<and> hop_lines out = []"
proof -
  obtain p1 p2 p3 where ps: "ps = [p1, p2, p3]"
    using assms(1) by (auto simp: nprobes_def numeral_3_eq_3 length_Suc_conv)
  have a: "answered c (seq s + 1) t k addr p1" "answered c (seq s + 1 + 1) t k addr p2" "answered c (seq s + 1 + 1 + 1) t k addr p3"
    using assms(2) [of 0] assms(2) [of 1] assms(2) [of 2] by (simp_all add: ps nprobes_def ac_simps)
  obtain b1 o1 where 1: "one_probe proto_v4 resolve c ttl p1 s =
      (Inr (s\<lparr>seq := seq s + 1, recvbuf := b1, salast := Some (Sin addr 0), reached := reached s + m\<rparr>), o1)"
    "length b1 = BUFSIZE" "hosts o1 = [Sin addr 0]" "hop_lines o1 = []"
    using one_probe_answered [OF a(1) assms(3,4), of resolve ttl] assms(5) by auto
  define s1 where "s1 = s\<lparr>seq := seq s + 1, recvbuf := b1, salast := Some (Sin addr 0), reached := reached s + m\<rparr>"
  have s1: "seq s1 = seq s + 1" "length (recvbuf s1) = BUFSIZE" "salast s1 = Some (Sin addr 0)" "reached s1 = reached s + m"
    using 1(2) by (simp_all add: s1_def)
  obtain b2 o2 where 2: "one_probe proto_v4 resolve c ttl p2 s1 =
      (Inr (s1\<lparr>seq := seq s1 + 1, recvbuf := b2, salast := Some (Sin addr 0), reached := reached s1 + m\<rparr>), o2)"
    "length b2 = BUFSIZE" "hosts o2 = []" "hop_lines o2 = []"
    using one_probe_answered [of c s1 t k addr p2 m resolve ttl] a(2) s1 assms(4) by auto
  define s2 where "s2 = s1\<lparr>seq := seq s1 + 1, recvbuf := b2, salast := Some (Sin addr 0), reached := reached s1 + m\<rparr>"
  have s2: "seq s2 = seq s + 1 + 1" "length (recvbuf s2) = BUFSIZE" "salast s2 = Some (Sin addr 0)" "reached s2 = reached s + m + m"
    using 2(2) s1 by (simp_all add: s2_def)
  obtain b3 o3 where 3: "one_probe proto_v4 resolve c ttl p3 s2 =
      (Inr (s2\<lparr>seq := seq s2 + 1, recvbuf := b3, salast := Some (Sin addr 0), reached := reached s2 + m\<rparr>), o3)"
    "length b3 = BUFSIZE" "hosts o3 = []" "hop_lines o3 = []"
    using one_probe_answered [of c s2 t k addr p3 m resolve ttl] a(3) s2 assms(4) by auto
  show ?thesis using 1 2 3 s2 by (simp add: ps flip: s1_def s2_def)
qed

text \<open>The scripts of a path: three answers from each router, and from the destination behind them.  \<open>sq\<close> numbers the
  probes before these hops.\<close>

fun path_script :: "trace_cfg \<Rightarrow> int \<Rightarrow> byte list list \<Rightarrow> byte list \<Rightarrow> probe list list \<Rightarrow> bool" where
  "path_script c sq [] dest hops \<longleftrightarrow>
     (\<exists>ps rest. hops = ps # rest \<and> length ps = nprobes \<and> (\<forall>i < nprobes. answered c (sq + int i + 1) 3 3 dest (ps ! i)))"
| "path_script c sq (r # routers) dest hops \<longleftrightarrow>
     (\<exists>ps rest. hops = ps # rest \<and> length ps = nprobes \<and> (\<forall>i < nprobes. answered c (sq + int i + 1) 11 0 r (ps ! i)) \<and>
        path_script c (sq + 3) routers dest rest)"

lemma trace_hops_path:
  "path_script c (seq s) routers dest hops \<Longrightarrow> length (recvbuf s) = BUFSIZE \<Longrightarrow> reached s = 0 \<Longrightarrow>
   ttl + int (length routers) \<le> max_ttl c \<Longrightarrow>
   \<exists>s' out. trace_hops proto_v4 resolve c ttl hops s = (Inr s', out) \<and>
     hosts out = map (\<lambda>a. Sin a 0) (routers @ [dest]) \<and> hop_lines out = map (\<lambda>i. ttl + int i) [0..<Suc (length routers)]"
proof (induction routers arbitrary: ttl hops s)
  case Nil
  obtain ps rest where h: "hops = ps # rest" "length ps = nprobes"
    "\<And>i. i < nprobes \<Longrightarrow> answered c (seq s + int i + 1) 3 3 dest (ps ! i)"
    using Nil.prems(1) by auto
  obtain s1 out where r: "run_probes proto_v4 resolve c ttl ps (s\<lparr>salast := None\<rparr>) = (Inr s1, out)"
    "reached s1 = reached s + 3" "hosts out = [Sin dest 0]" "hop_lines out = []"
    using hop_answered [of ps c "s\<lparr>salast := None\<rparr>" 3 3 dest 1 resolve ttl] h Nil.prems(2) by auto
  then show ?case
    using h Nil.prems(3,4) by (simp add: trace_hops.simps [of _ _ _ ttl] trace_hops.simps [of _ _ _ "ttl + 1"])
next
  case (Cons a routers)
  obtain ps rest where h: "hops = ps # rest" "length ps = nprobes"
    "\<And>i. i < nprobes \<Longrightarrow> answered c (seq s + int i + 1) 11 0 a (ps ! i)" "path_script c (seq s + 3) routers dest rest"
    using Cons.prems(1) by auto
  obtain s1 out where r: "run_probes proto_v4 resolve c ttl ps (s\<lparr>salast := None\<rparr>) = (Inr s1, out)"
    "length (recvbuf s1) = BUFSIZE" "seq s1 = seq s + 3" "reached s1 = 0" "hosts out = [Sin a 0]" "hop_lines out = []"
    using hop_answered [of ps c "s\<lparr>salast := None\<rparr>" 11 0 a 0 resolve ttl] h Cons.prems(2,3) by auto
  obtain s2 out2 where "trace_hops proto_v4 resolve c (ttl + 1) rest s1 = (Inr s2, out2)"
    "hosts out2 = map (\<lambda>a. Sin a 0) (routers @ [dest])" "hop_lines out2 = map (\<lambda>i. ttl + 1 + int i) [0..<Suc (length routers)]"
    using Cons.IH [of s1 rest "ttl + 1"] h(4) r Cons.prems(4) by (auto simp: algebra_simps)
  moreover have "map (\<lambda>i. ttl + int i) [0..<Suc (Suc (length routers))] =
      ttl # map (\<lambda>i. ttl + 1 + int i) [0..<Suc (length routers)]"
    by (subst upt_conv_Cons) (simp_all add: map_Suc_upt [symmetric] comp_def del: upt_Suc)
  ultimately show ?case
    using h(1,2) r Cons.prems(3,4) by (simp add: trace_hops.simps [of _ _ _ ttl] del: upt_Suc)
qed

text \<open>C32. Over a path whose routers and whose destination answer, \<^verbatim>\<open>traceroute\<close> prints one line for each
  hop, numbered from 1, with the routers in the order of the path and the destination last, and stops there; the
  answers may carry any IP options outside and inside and quote any amount of the probe behind its ports.\<close>

theorem traceroute_prints_path:
  assumes "path_script c 0 routers dest hops" "1 + int (length routers) \<le> max_ttl c"
  shows "\<exists>s out. traceloop proto_v4 resolve c hops = (Inr s, out) \<and>
    hosts out = map (\<lambda>a. Sin a 0) (routers @ [dest]) \<and> hop_lines out = map (\<lambda>i. 1 + int i) [0..<Suc (length routers)]"
  unfolding traceloop_def by (rule trace_hops_path) (use assms in simp_all)

section \<open>The IPv6 version\<close>

text \<open>With IPv6, a time-exceeded message that answers somebody else's packet ends the wait for a probe, and what the
  loop then branches on is a variable nothing was assigned to; the function for IPv4 never returns without a value.\<close>

theorem traceroute6_indeterminate:
  assumes "52 \<le> length d" "length d \<le> BUFSIZE" "length (recvbuf s) = BUFSIZE"
    and "d ! 0 = 3" "d ! 1 = 0" and "d ! 14 \<noteq> 17 \<or> rd16 d 48 \<noteq> htons (sport c)"
  shows "fst (one_probe proto_v6 resolve c ttl (tvs, Packet src d tv # es) s) = Inl Indeterminate \<and>
    judge proto_v4 c sq b n \<noteq> Answer None"
proof -
  let ?b = "recv_into (recvbuf s) d"
  have b: "?b ! i = d ! i" if "i < 52" for i using that assms(1,3) by (simp add: recv_into_nth BUFSIZE_def)
  have "icmp_type ?b 0 = 3" "icmp_code ?b 0 = 0" using assms(4,5) by (simp_all add: icmp_type_def icmp_code_def b)
  moreover have "ip6_nxt ?b 8 = unat (d ! 14)" "uh_sport ?b 48 = rd16 d 48" by (simp_all add: ip6_nxt_def uh_sport_def rd16_def b)
  moreover have "d ! 14 \<noteq> 17 \<longleftrightarrow> unat (d ! 14) \<noteq> 17" by (simp add: word_unat_eq_iff)
  ultimately have "judge_v6 c (seq s + 1) ?b (length d) = Answer None"
    using assms(1,6) by (auto simp: judge_v6_def Let_def icmp_consts our_probe_def)
  then show ?thesis using assms(2,3) by (simp add: one_probe_def Let_def proto_v6_def proto_v4_def min_absorb1 judge_v4_def)
qed


section \<open>A run\<close>

definition some_cfg :: trace_cfg where
  "some_cfg = \<lparr>sport = 0x8123, dport = 33434, verbose = False, max_ttl = 30\<rparr>"

definition error_for :: "int \<Rightarrow> byte \<Rightarrow> byte \<Rightarrow> byte list" where
  "error_for sq t k = icmp_error (plain_ip 1) t k (replicate 6 0) (plain_ip 17) (htons (sport some_cfg))
     (htons (of_int (uint (dport some_cfg) + sq))) [0, 8, 0, 0]"

definition answer_at :: "int \<Rightarrow> byte \<Rightarrow> byte \<Rightarrow> byte list \<Rightarrow> probe" where
  "answer_at sq t k addr = ((sq, 0), [Packet (Sin addr 0) (error_for sq t k) (sq, 500)])"

lemma answered_at: "answered some_cfg sq t k addr (answer_at sq t k addr)"
proof -
  have "ipv4_header (plain_ip 1)" "ipv4_header (plain_ip 17)" "ip_p (plain_ip 17) 0 = IPPROTO_UDP"
    by (simp_all add: plain_ip_header IPPROTO_UDP_def)
  then have "answers_probe some_cfg sq t k (error_for sq t k)"
    unfolding answers_probe_def error_for_def
    by (intro exI [of _ "plain_ip 1"] exI [of _ "replicate 6 0"] exI [of _ "plain_ip 17"] exI [of _ "[0, 8, 0, 0]"] conjI refl)
      (simp_all add: icmp_error_def plain_ip_def BUFSIZE_def)
  then show ?thesis by (auto simp: answered_def answer_at_def)
qed

definition two_hops :: "probe list list" where
  "two_hops =
     [[answer_at 1 11 0 [10, 0, 0, 1], answer_at 2 11 0 [10, 0, 0, 1], answer_at 3 11 0 [10, 0, 0, 1]],
      [answer_at 4 3 3 [10, 0, 0, 9], answer_at 5 3 3 [10, 0, 0, 9], answer_at 6 3 3 [10, 0, 0, 9]]]"

lemma traceroute_prints_path_witness:
  "\<exists>s out. traceloop proto_v4 (\<lambda>a. None) some_cfg two_hops = (Inr s, out) \<and>
    hosts out = [Sin [10, 0, 0, 1] 0, Sin [10, 0, 0, 9] 0] \<and> hop_lines out = [1, 2]"
proof -
  have "path_script some_cfg 0 [[10, 0, 0, 1]] [10, 0, 0, 9] two_hops"
    using answered_at [of 1] answered_at [of 2] answered_at [of 3] answered_at [of 4] answered_at [of 5] answered_at [of 6]
    by (auto simp: two_hops_def nprobes_def less_Suc_eq numeral_3_eq_3)
  from traceroute_prints_path [OF this, of "\<lambda>a. None"] show ?thesis by (simp add: some_cfg_def upt_rec)
qed

lemma trace_recv_ignores_stale_bytes_witness:
  "fst (trace_recv (judge proto_v4 some_cfg 1) True False (replicate BUFSIZE 0) [Packet (Sin [10, 0, 0, 1] 0) [69] (1, 0), AlarmIntr]) =
   fst (trace_recv (judge proto_v4 some_cfg 1) True False (replicate BUFSIZE 255) [Packet (Sin [10, 0, 0, 1] 0) [69] (1, 0), AlarmIntr])"
  by (rule conjunct1 [OF trace_recv_ignores_stale_bytes]) simp_all

definition foreign6 :: "byte list" where
  "foreign6 = [3, 0] @ replicate 12 0 @ [58] @ replicate 40 0"

lemma traceroute6_indeterminate_witness:
  "fst (one_probe proto_v6 (\<lambda>a. None) some_cfg 1 ((0, 0), [Packet (Sin6 (replicate 16 0) 0) foreign6 (1, 0)])
     \<lparr>seq = 0, reached = 0, salast = None, recvbuf = replicate BUFSIZE 0\<rparr>) = Inl Indeterminate"
  by (rule conjunct1 [OF traceroute6_indeterminate]) (simp_all add: foreign6_def BUFSIZE_def nth_append)


end
