(* ===== verification/Unp_Icmpd.thy ===== *)
theory Unp_Icmpd
  imports Unp_Icmp Unp_Slots
begin

text \<open>
  The daemon of \<^verbatim>\<open>src/unpv13e-master/icmpd\<close>: programs pass it the UDP sockets they use, and it
  reads every ICMP error the host gets and reports it to the programs whose socket sent the packet it quotes.  One
  iteration of the loop over \<^verbatim>\<open>select\<close> is a function of the state and of what the system calls
  return in it.  The lines it prints are left out.
\<close>

section \<open>State\<close>

record icmp_client =
  c_fd :: int
  c_family :: family
  c_lport :: int

text \<open>The array starts zeroed.\<close>

definition free_client :: icmp_client where
  "free_client = \<lparr>c_fd = - 1, c_family = AF_other 0, c_lport = 0\<rparr>"

record icmpd =
  fd4 :: int
  fd6 :: int
  listen_fd :: int
  clients :: "icmp_client list"
  watch :: "int set"
  top_fd :: int
  top_client :: int

definition icmpd_start :: "int \<Rightarrow> int \<Rightarrow> int \<Rightarrow> icmpd" where
  "icmpd_start a b l =
     \<lparr>fd4 = a, fd6 = b, listen_fd = l, clients = replicate FD_SETSIZE free_client,
      watch = {a, b, l}, top_fd = max (max a b) l, top_client = - 1\<rparr>"

text \<open>What is sent to a program.\<close>

datatype err_no = EHOSTUNREACH | EMSGSIZE | ECONNREFUSED

record icmpd_err =
  icmpd_errno :: err_no
  icmpd_type :: nat
  icmpd_code :: nat
  icmpd_len :: nat
  icmpd_dest :: sockaddr

datatype icmpd_out = Report int icmpd_err | Status int char | CloseSock int

section \<open>Registration\<close>

definition sa_family :: "sockaddr \<Rightarrow> family" where
  "sa_family sa = (case sa of Sin _ _ \<Rightarrow> AF_INET | Sin6 _ _ \<Rightarrow> AF_INET6 | Sun _ \<Rightarrow> AF_other 1 | Sother k \<Rightarrow> AF_other k)"

definition sock_get_port :: "sockaddr \<Rightarrow> int" where
  "sock_get_port sa = (case sa of Sin _ p \<Rightarrow> uint p | Sin6 _ p \<Rightarrow> uint p | _ \<Rightarrow> - 1)"

text \<open>\<open>bound\<close> is the port the kernel gave, or \<open>None\<close> when \<^verbatim>\<open>bind\<close> or
  \<^verbatim>\<open>getsockname\<close> failed.\<close>

definition sock_bind_wild :: "family \<Rightarrow> u16 option \<Rightarrow> int" where
  "sock_bind_wild f bound =
     (if f = AF_INET \<or> f = AF_INET6 then (case bound of None \<Rightarrow> - 1 | Some p \<Rightarrow> uint p) else - 1)"

text \<open>What a read of a program's socket gives: the end of the connection, data without a descriptor, or with one, of
  which is known what \<^verbatim>\<open>getsockname\<close> says and what binding it would give.\<close>

datatype incoming = Gone | JustData | Passed int "sockaddr option" "u16 option" | ReadError

definition drop_conn :: "bool \<Rightarrow> int \<Rightarrow> icmp_client \<Rightarrow> int set \<Rightarrow> (string + icmp_client \<times> int set) \<times> icmpd_out list" where
  "drop_conn err recvfd c fds =
     (Inr (c\<lparr>c_fd := - 1\<rparr>, fds - {c_fd c}),
      (if err then [Status (c_fd c) CHR ''0''] else []) @ CloseSock (c_fd c) #
      (if 0 \<le> recvfd then [CloseSock recvfd] else []))"

definition readable_conn :: "(int \<Rightarrow> incoming) \<Rightarrow> int set \<Rightarrow> icmp_client \<Rightarrow> int set \<Rightarrow>
    (string + icmp_client \<times> int set) \<times> icmpd_out list" where
  "readable_conn inc gone c fds =
     (let fail = (\<lambda>recvfd c. if c_fd c \<in> gone then (Inl ''SIGPIPE'', []) else drop_conn True recvfd c fds)
      in case inc (c_fd c) of
        ReadError \<Rightarrow> (Inl ''read_fd error'', [])
      | Gone \<Rightarrow> drop_conn False (- 1) c fds
      | JustData \<Rightarrow> fail (- 1) c
      | Passed recvfd name bound \<Rightarrow>
          if recvfd < 0 then fail recvfd c
          else
            (case name of
               None \<Rightarrow> fail recvfd c
             | Some ss \<Rightarrow>
                 let port = sock_get_port ss;
                     port' = (if port = 0 then sock_bind_wild (sa_family ss) bound else port);
                     c' = c\<lparr>c_family := sa_family ss, c_lport := port'\<rparr>
                 in if port = 0 \<and> port' \<le> 0 then fail recvfd c'
                    else if c_fd c \<in> gone then (Inl ''SIGPIPE'', [])
                    else (Inr (c', fds), [Status (c_fd c) CHR ''1'', CloseSock recvfd])))"

text \<open>A new connection takes the descriptor of the first free slot, and nothing else of it.\<close>

definition readable_listen :: "int \<Rightarrow> icmpd \<Rightarrow> icmpd \<times> icmpd_out list" where
  "readable_listen new s =
     (case first_slot (\<lambda>c. c_fd c < 0) (clients s) of
        None \<Rightarrow> (s, [CloseSock new])
      | Some i \<Rightarrow>
          (s\<lparr>clients := (clients s)[i := (clients s ! i)\<lparr>c_fd := new\<rparr>], watch := insert new (watch s),
             top_fd := (if top_fd s < new then new else top_fd s),
             top_client := (if top_client s < int i then int i else top_client s)\<rparr>, []))"

section \<open>Errors\<close>

definition IC_MAXLINE :: nat where "IC_MAXLINE = 4096"

definition errno_v4 :: "nat \<Rightarrow> nat \<Rightarrow> err_no" where
  "errno_v4 t k =
     (if t = ICMP_UNREACH then
        (if k = ICMP_UNREACH_PORT then ECONNREFUSED else if k = ICMP_UNREACH_NEEDFRAG then EMSGSIZE else EHOSTUNREACH)
      else EHOSTUNREACH)"

definition errno_v6 :: "nat \<Rightarrow> nat \<Rightarrow> err_no" where
  "errno_v6 t k =
     (let e = (if t = ICMP6_DST_UNREACH \<and> k = ICMP6_DST_UNREACH_NOPORT then ECONNREFUSED else EHOSTUNREACH)
      in if t = ICMP6_PACKET_TOO_BIG then EMSGSIZE else e)"

text \<open>The programs of a family and port, as the loop tests them.\<close>

definition wants :: "family \<Rightarrow> u16 \<Rightarrow> icmp_client \<Rightarrow> bool" where
  "wants f sport c \<longleftrightarrow> 0 \<le> c_fd c \<and> c_family c = f \<and> c_lport c = uint sport"

text \<open>A write to a program that has closed its end is the end of the daemon.\<close>

fun report_to :: "int set \<Rightarrow> family \<Rightarrow> u16 \<Rightarrow> icmpd_err \<Rightarrow> icmp_client list \<Rightarrow> (string + unit) \<times> icmpd_out list" where
  "report_to gone f sport err [] = (Inr (), [])"
| "report_to gone f sport err (c # cs) =
     (if wants f sport c then
        (if c_fd c \<in> gone then (Inl ''SIGPIPE'', [])
         else (case report_to gone f sport err cs of (r, out) \<Rightarrow> (r, Report (c_fd c) err # out)))
      else report_to gone f sport err cs)"

definition used_clients :: "icmpd \<Rightarrow> icmp_client list" where
  "used_clients s = take (nat (top_client s + 1)) (clients s)"

text \<open>\<open>stack\<close> is what the buffer holds before the packet \<open>d\<close> is received.\<close>

definition readable_v4 :: "byte list \<Rightarrow> byte list \<Rightarrow> int set \<Rightarrow> icmpd \<Rightarrow> (string + unit) \<times> icmpd_out list" where
  "readable_v4 stack d gone s =
     (let buf = recv_into stack d; n = min (length d) IC_MAXLINE; hlen1 = ip_hlen buf 0; icmplen = int n - int hlen1 in
      if icmplen < 8 then (Inl ''icmplen < 8'', [])
      else
        let t = icmp_type buf hlen1; k = icmp_code buf hlen1 in
        if t = ICMP_UNREACH \<or> t = ICMP_TIMXCEED \<or> t = ICMP_SOURCEQUENCH then
          (if icmplen < 8 + 20 + 8 then (Inl ''icmplen < 8 + 20 + 8'', [])
           else
             let hip = hlen1 + 8; hlen2 = ip_hlen buf hip in
             if ip_p buf hip = IPPROTO_UDP then
               (let udp = hip + hlen2 in
                report_to gone AF_INET (uh_sport buf udp)
                  \<lparr>icmpd_errno = errno_v4 t k, icmpd_type = t, icmpd_code = k, icmpd_len = 16,
                   icmpd_dest = Sin (ip_dst buf hip) (uh_dport buf udp)\<rparr>
                  (used_clients s))
             else (Inr (), []))
        else (Inr (), []))"

definition readable_v6 :: "byte list \<Rightarrow> byte list \<Rightarrow> int set \<Rightarrow> icmpd \<Rightarrow> (string + unit) \<times> icmpd_out list" where
  "readable_v6 stack d gone s =
     (let buf = recv_into stack d; n = min (length d) IC_MAXLINE in
      if n < 8 then (Inl ''icmp6len < 8'', [])
      else
        let t = icmp_type buf 0; k = icmp_code buf 0 in
        if t = ICMP6_DST_UNREACH \<or> t = ICMP6_PACKET_TOO_BIG \<or> t = ICMP6_TIME_EXCEEDED then
          (if n < 8 + 8 then (Inl ''icmp6len < 8 + 8'', [])
           else
             let hip6 = 8; udp = hip6 + 40 in
             if ip6_nxt buf hip6 = IPPROTO_UDP then
               report_to gone AF_INET6 (uh_sport buf udp)
                 \<lparr>icmpd_errno = errno_v6 t k, icmpd_type = t, icmpd_code = k, icmpd_len = 28,
                  icmpd_dest = Sin6 (ip6_dst buf hip6) (uh_dport buf udp)\<rparr>
                 (used_clients s)
             else (Inr (), []))
        else (Inr (), []))"

section \<open>The loop\<close>

text \<open>What the system calls of an iteration return; \<open>gone\<close> are the connections whose other end is closed.\<close>

record icmpd_env =
  ready :: "int set"
  new_conn :: int
  stack4 :: "byte list"
  packet4 :: "byte list"
  stack6 :: "byte list"
  packet6 :: "byte list"
  incoming_on :: "int \<Rightarrow> incoming"
  gone :: "int set"

text \<open>One of the tests of the loop: when its descriptor is ready the count goes down, and at zero the iteration ends.\<close>

definition when_ready :: "bool \<Rightarrow> (icmpd \<Rightarrow> (string + icmpd) \<times> icmpd_out list) \<Rightarrow>
    (int \<Rightarrow> icmpd \<Rightarrow> (string + icmpd) \<times> icmpd_out list) \<Rightarrow> int \<Rightarrow> icmpd \<Rightarrow> (string + icmpd) \<times> icmpd_out list" where
  "when_ready isset handler rest nready s =
     (if isset then
        (case handler s of
           (Inl m, out) \<Rightarrow> (Inl m, out)
         | (Inr s', out) \<Rightarrow>
             if nready - 1 \<le> 0 then (Inr s', out)
             else (case rest (nready - 1) s' of (r, out') \<Rightarrow> (r, out @ out')))
      else rest nready s)"

definition icmpd_clients :: "icmpd_env \<Rightarrow> int \<Rightarrow> icmpd \<Rightarrow> (string + icmpd) \<times> icmpd_out list" where
  "icmpd_clients e nready s =
     (case walk (\<lambda>c. 0 \<le> c_fd c \<and> c_fd c \<in> ready e) (readable_conn (incoming_on e) (gone e)) nready
        (used_clients s) (watch s) of
        (Inl m, out) \<Rightarrow> (Inl m, out)
      | (Inr (cs, fds), out) \<Rightarrow>
          (Inr (s\<lparr>clients := cs @ drop (nat (top_client s + 1)) (clients s), watch := fds\<rparr>), out))"

definition icmpd_iter :: "icmpd_env \<Rightarrow> icmpd \<Rightarrow> (string + icmpd) \<times> icmpd_out list" where
  "icmpd_iter e s =
     when_ready (listen_fd s \<in> ready e) (\<lambda>s. case readable_listen (new_conn e) s of (s', out) \<Rightarrow> (Inr s', out))
       (when_ready (fd4 s \<in> ready e) (\<lambda>s. case readable_v4 (stack4 e) (packet4 e) (gone e) s of (r, out) \<Rightarrow> (map_sum id (\<lambda>_. s) r, out))
         (when_ready (fd6 s \<in> ready e) (\<lambda>s. case readable_v6 (stack6 e) (packet6 e) (gone e) s of (r, out) \<Rightarrow> (map_sum id (\<lambda>_. s) r, out))
           (icmpd_clients e)))
       (int (card (ready e))) s"

fun icmpd_loop :: "icmpd_env list \<Rightarrow> icmpd \<Rightarrow> (string + icmpd) \<times> icmpd_out list" where
  "icmpd_loop [] s = (Inr s, [])"
| "icmpd_loop (e # es) s =
     (case icmpd_iter e s of
        (Inr s', out) \<Rightarrow> (case icmpd_loop es s' of (r, out') \<Rightarrow> (r, out @ out'))
      | (Inl m, out) \<Rightarrow> (Inl m, out))"

end
