(* ===== verification/Unp_Icmpd_Props.thy ===== *)
theory Unp_Icmpd_Props
  imports Unp_Icmpd
begin

text \<open>
  The ICMP daemon: its sets follow its slots whatever happens, an error reaches exactly the programs that registered
  the socket it is about, at any later time, and where the code falls short of that.
\<close>

section \<open>An iteration without its count\<close>

definition out_bind :: "(string + 'a) \<times> 'o list \<Rightarrow> ('a \<Rightarrow> (string + 'b) \<times> 'o list) \<Rightarrow> (string + 'b) \<times> 'o list" where
  "out_bind m k =
     (case m of
        (Inl x, out) \<Rightarrow> (Inl x, out)
      | (Inr s, out) \<Rightarrow> (case k s of (r, out') \<Rightarrow> (r, out @ out')))"

lemma out_bind_Inr: "out_bind m k = (Inr s', out) \<longleftrightarrow>
    (\<exists>s1 out1 out2. m = (Inr s1, out1) \<and> k s1 = (Inr s', out2) \<and> out = out1 @ out2)"
  by (auto simp: out_bind_def split: prod.splits sum.splits)

definition stage :: "bool \<Rightarrow> (icmpd \<Rightarrow> (string + icmpd) \<times> icmpd_out list) \<Rightarrow> icmpd \<Rightarrow> (string + icmpd) \<times> icmpd_out list" where
  "stage isset handler s = (if isset then handler s else (Inr s, []))"

lemma when_ready_count:
  assumes "int k + (if isset then 1 else 0) \<le> n"
    and "\<And>n s1 out. stage isset handler s = (Inr s1, out) \<Longrightarrow> int k \<le> n \<Longrightarrow> rest n s1 = full s1"
    and "\<And>s1 out. stage isset handler s = (Inr s1, out) \<Longrightarrow> k = 0 \<Longrightarrow> full s1 = (Inr s1, [])"
  shows "when_ready isset handler rest n s = out_bind (stage isset handler s) full"
proof (cases isset)
  case True
  obtain r out where h: "handler s = (r, out)" by (cases "handler s")
  show ?thesis
  proof (cases r)
    case Inl
    then show ?thesis using h True by (simp add: when_ready_def out_bind_def stage_def)
  next
    case (Inr s1)
    note f = assms(2,3) [unfolded stage_def, of s1 out]
    have "full s1 = (Inr s1, [])" if "n - 1 \<le> 0" using f(2) assms(1) True h Inr that by simp
    moreover have "rest (n - 1) s1 = full s1" using f(1) assms(1) True h Inr by simp
    ultimately show ?thesis using h True Inr by (simp add: when_ready_def out_bind_def stage_def)
  qed
next
  case False
  then show ?thesis using assms(1) assms(2) [unfolded stage_def, of s "[]"]
    by (simp add: when_ready_def out_bind_def stage_def split: prod.splits)
qed

definition all_clients :: "icmpd_env \<Rightarrow> icmpd \<Rightarrow> (string + icmpd) \<times> icmpd_out list" where
  "all_clients e s =
     (case walk_all (\<lambda>c. 0 \<le> c_fd c \<and> c_fd c \<in> ready e) (readable_conn (incoming_on e) (gone e)) (used_clients s) (watch s) of
        (Inl m, out) \<Rightarrow> (Inl m, out)
      | (Inr (cs, fds), out) \<Rightarrow>
          (Inr (s\<lparr>clients := cs @ drop (nat (top_client s + 1)) (clients s), watch := fds\<rparr>), out))"

abbreviation on_listen :: "icmpd_env \<Rightarrow> icmpd \<Rightarrow> (string + icmpd) \<times> icmpd_out list" where
  "on_listen e s \<equiv> (case readable_listen (new_conn e) s of (s', out) \<Rightarrow> (Inr s', out))"

abbreviation on_v4 :: "icmpd_env \<Rightarrow> icmpd \<Rightarrow> (string + icmpd) \<times> icmpd_out list" where
  "on_v4 e s \<equiv> (case readable_v4 (stack4 e) (packet4 e) (gone e) s of (r, out) \<Rightarrow> (map_sum id (\<lambda>_. s) r, out))"

abbreviation on_v6 :: "icmpd_env \<Rightarrow> icmpd \<Rightarrow> (string + icmpd) \<times> icmpd_out list" where
  "on_v6 e s \<equiv> (case readable_v6 (stack6 e) (packet6 e) (gone e) s of (r, out) \<Rightarrow> (map_sum id (\<lambda>_. s) r, out))"

definition icmpd_round :: "icmpd_env \<Rightarrow> icmpd \<Rightarrow> (string + icmpd) \<times> icmpd_out list" where
  "icmpd_round e s =
     out_bind (stage (listen_fd s \<in> ready e) (on_listen e) s) (\<lambda>s1.
       out_bind (stage (fd4 s \<in> ready e) (on_v4 e) s1) (\<lambda>s2.
         out_bind (stage (fd6 s \<in> ready e) (on_v6 e) s2) (all_clients e)))"

text \<open>The handlers of the two raw sockets leave the state alone.\<close>

lemma stage_raw:
  "stage b (on_v4 e) s = (Inr s1, out) \<Longrightarrow> s1 = s" "stage b (on_v6 e) s = (Inr s1, out) \<Longrightarrow> s1 = s"
  by (auto simp: stage_def map_sum_def split: if_splits prod.splits sum.splits)

lemma stage_listen:
  "stage b (on_listen e) s = (Inr s1, out) \<Longrightarrow> b \<Longrightarrow> readable_listen (new_conn e) s = (s1, out)"
  by (cases "readable_listen (new_conn e) s") (simp add: stage_def)

abbreviation ready_client :: "icmpd_env \<Rightarrow> icmp_client \<Rightarrow> bool" where
  "ready_client e \<equiv> (\<lambda>c. 0 \<le> c_fd c \<and> c_fd c \<in> ready e)"

lemma icmpd_clients_count:
  "int (length (filter (ready_client e) (used_clients s))) \<le> n \<Longrightarrow> icmpd_clients e n s = all_clients e s"
  by (simp add: icmpd_clients_def all_clients_def walk_count)

lemma all_clients_quiet:
  assumes "filter (ready_client e) (used_clients s) = []" shows "all_clients e s = (Inr s, [])"
  unfolding all_clients_def walk_all_quiet [OF assms] by (simp add: used_clients_def)

section \<open>The invariant\<close>

definition icmpd_inv :: "icmpd \<Rightarrow> bool" where
  "icmpd_inv s \<longleftrightarrow>
     distinct [fd4 s, fd6 s, listen_fd s] \<and>
     slots_ok {fd4 s, fd6 s, listen_fd s} (map c_fd (clients s)) (watch s) (top_fd s) (top_client s)"

text \<open>What the kernel promises: what is ready was asked for, and a new descriptor is not in use.\<close>

definition icmpd_env_ok :: "icmpd_env \<Rightarrow> icmpd \<Rightarrow> bool" where
  "icmpd_env_ok e s \<longleftrightarrow>
     ready e \<subseteq> watch s \<and> 0 \<le> new_conn e \<and> new_conn e \<notin> watch s \<and>
     length (stack4 e) = IC_MAXLINE \<and> length (stack6 e) = IC_MAXLINE"

interpretation icl: slot_walk c_fd "readable_conn inc gone" for inc gone
  by unfold_locales (auto simp: readable_conn_def drop_conn_def Let_def split: incoming.splits option.splits if_splits)

lemma icmpd_start_inv: "distinct [a, b, l] \<Longrightarrow> 0 \<le> a \<Longrightarrow> 0 \<le> b \<Longrightarrow> 0 \<le> l \<Longrightarrow> icmpd_inv (icmpd_start a b l)"
  using slots_ok_start [of "{a, b, l}" "max (max a b) l"]
  by (simp add: icmpd_inv_def icmpd_start_def free_client_def le_max_iff_disj)

lemma readable_listen_inv:
  assumes "icmpd_inv s" "0 \<le> c" "c \<notin> watch s" "readable_listen c s = (s', out)"
  shows "icmpd_inv s' \<and> watch s \<subseteq> watch s' \<and> fd4 s' = fd4 s \<and> fd6 s' = fd6 s \<and> listen_fd s' = listen_fd s"
proof (cases "first_slot (\<lambda>c. c_fd c < 0) (clients s)")
  case None
  then show ?thesis using assms by (simp add: readable_listen_def)
next
  case (Some i)
  have m: "(if (a :: int) < b then b else a) = max a b" for a b by simp
  note f = first_slot_Some [OF Some]
  have ok: "slots_ok {fd4 s, fd6 s, listen_fd s} (map c_fd (clients s)) (watch s) (top_fd s) (top_client s)"
    using assms(1) by (simp add: icmpd_inv_def)
  have "slots_ok {fd4 s, fd6 s, listen_fd s} ((map c_fd (clients s))[i := c]) (insert c (watch s)) (max (top_fd s) c)
      (max (top_client s) (int i))"
    by (rule slots_ok_add [OF ok _ _ assms(2,3)]) (use f in simp_all)
  moreover have "s' = s\<lparr>clients := (clients s)[i := (clients s ! i)\<lparr>c_fd := c\<rparr>], watch := insert c (watch s),
      top_fd := max (top_fd s) c, top_client := max (top_client s) (int i)\<rparr>"
    using assms(4) Some by (simp add: readable_listen_def m)
  ultimately show ?thesis using assms(1) by (simp add: icmpd_inv_def map_update subset_insertI)
qed

lemma filter_take_le: "length (filter P (take n xs)) \<le> length (filter P xs)"
  by (induction xs arbitrary: n) (auto simp: take_Cons le_SucI split: nat.split)

lemma used_count:
  assumes "icmpd_inv s" "ready e \<subseteq> watch s"
  shows "length (filter (ready_client e) (used_clients s)) \<le> card (ready e - {fd4 s, fd6 s, listen_fd s})"
proof -
  have "length (filter (ready_client e) (used_clients s)) \<le> length (filter (ready_client e) (clients s))"
    unfolding used_clients_def by (rule filter_take_le)
  also have "\<dots> = length (filter (\<lambda>c. 0 \<le> c \<and> c \<in> ready e) (map c_fd (clients s)))" by (simp add: filter_map comp_def)
  also have "\<dots> \<le> card (ready e - {fd4 s, fd6 s, listen_fd s})"
    using slots_ready_count(1) assms unfolding icmpd_inv_def by blast
  finally show ?thesis .
qed

lemma ready_split:
  assumes "icmpd_inv s" "ready e \<subseteq> watch s"
  shows "card (ready e) = card (ready e - {fd4 s, fd6 s, listen_fd s}) + (if fd6 s \<in> ready e then 1 else 0) +
    (if fd4 s \<in> ready e then 1 else 0) + (if listen_fd s \<in> ready e then 1 else 0)"
proof -
  have fin: "finite (ready e)" using slots_ready_count(2) assms unfolding icmpd_inv_def by blast
  have one: "card A = card (A - {x}) + (if x \<in> A then 1 else 0)" if "finite A" for A :: "int set" and x
    using card_Suc_Diff1 [OF that, of x] by auto
  have "ready e - {fd4 s, fd6 s, listen_fd s} = ready e - {listen_fd s} - {fd4 s} - {fd6 s}" by auto
  then show ?thesis
    using one [OF fin, of "listen_fd s"] one [of "ready e - {listen_fd s}" "fd4 s"]
      one [of "ready e - {listen_fd s} - {fd4 s}" "fd6 s"] fin assms(1)
    by (auto simp: icmpd_inv_def)
qed

lemma icmpd_iter_round:
  assumes inv: "icmpd_inv s" and env: "icmpd_env_ok e s"
  shows "icmpd_iter e s = icmpd_round e s"
proof -
  let ?k = "card (ready e - {fd4 s, fd6 s, listen_fd s})"
  let ?b6 = "if fd6 s \<in> ready e then 1 else 0 :: nat" and ?b4 = "if fd4 s \<in> ready e then 1 else 0 :: nat"
  let ?c = "\<lambda>s1. length (filter (ready_client e) (used_clients s1)) \<le> ?k"
  have six: "when_ready (fd6 s \<in> ready e) (on_v6 e) (icmpd_clients e) n s1 =
      out_bind (stage (fd6 s \<in> ready e) (on_v6 e) s1) (all_clients e)"
    if "int (?k + ?b6) \<le> n" "?c s1" for n s1
    by (rule when_ready_count [where k = ?k]) (use that in \<open>auto simp: icmpd_clients_count all_clients_quiet dest!: stage_raw\<close>)
  have quiet6: "out_bind (stage (fd6 s \<in> ready e) (on_v6 e) s1) (all_clients e) = (Inr s1, [])"
    if "?k + ?b6 = 0" "?c s1" for s1
    using that all_clients_quiet [of e s1] by (auto simp: stage_def out_bind_def split: if_splits)
  have four: "when_ready (fd4 s \<in> ready e) (on_v4 e) (when_ready (fd6 s \<in> ready e) (on_v6 e) (icmpd_clients e)) n s1 =
      out_bind (stage (fd4 s \<in> ready e) (on_v4 e) s1) (\<lambda>s2. out_bind (stage (fd6 s \<in> ready e) (on_v6 e) s2) (all_clients e))"
    if "int (?k + ?b6 + ?b4) \<le> n" "?c s1" for n s1
    by (rule when_ready_count [where k = "?k + ?b6"]) (use that six quiet6 in \<open>auto dest!: stage_raw split: if_splits\<close>)
  have quiet4: "out_bind (stage (fd4 s \<in> ready e) (on_v4 e) s1) (\<lambda>s2. out_bind (stage (fd6 s \<in> ready e) (on_v6 e) s2) (all_clients e)) = (Inr s1, [])"
    if "?k + ?b6 + ?b4 = 0" "?c s1" for s1
  proof -
    have "stage (fd4 s \<in> ready e) (on_v4 e) s1 = (Inr s1, [])" using that by (simp add: stage_def split: if_splits)
    then show ?thesis using quiet6 that by (simp add: out_bind_def)
  qed
  have c: "?c s1" if "stage (listen_fd s \<in> ready e) (on_listen e) s = (Inr s1, out)" for s1 out
  proof -
    have i: "icmpd_inv s1 \<and> watch s \<subseteq> watch s1 \<and> fd4 s1 = fd4 s \<and> fd6 s1 = fd6 s \<and> listen_fd s1 = listen_fd s"
    proof (cases "listen_fd s \<in> ready e")
      case True
      have "readable_listen (new_conn e) s = (s1, out)" by (rule stage_listen [OF that True])
      then show ?thesis by (rule readable_listen_inv [OF inv, rotated 2]) (use env in \<open>simp_all add: icmpd_env_ok_def\<close>)
    qed (use that inv in \<open>simp add: stage_def\<close>)
    then have "ready e \<subseteq> watch s1" using env by (auto simp: icmpd_env_ok_def)
    from used_count [OF conjunct1 [OF i] this] i show ?thesis by metis
  qed
  have sub: "ready e \<subseteq> watch s" using env by (simp add: icmpd_env_ok_def)
  show ?thesis
    unfolding icmpd_iter_def icmpd_round_def
  proof (rule when_ready_count [where k = "?k + ?b6 + ?b4"])
    show "int (?k + ?b6 + ?b4) + (if listen_fd s \<in> ready e then 1 else 0) \<le> int (card (ready e))"
      using ready_split [OF inv sub] by simp
    fix s1 out assume st: "stage (listen_fd s \<in> ready e) (on_listen e) s = (Inr s1, out)"
    show "when_ready (fd4 s \<in> ready e) (on_v4 e) (when_ready (fd6 s \<in> ready e) (on_v6 e) (icmpd_clients e)) n s1 =
        out_bind (stage (fd4 s \<in> ready e) (on_v4 e) s1) (\<lambda>s2. out_bind (stage (fd6 s \<in> ready e) (on_v6 e) s2) (all_clients e))"
      if "int (?k + ?b6 + ?b4) \<le> n" for n using that c [OF st] by (rule four)
    show "out_bind (stage (fd4 s \<in> ready e) (on_v4 e) s1) (\<lambda>s2. out_bind (stage (fd6 s \<in> ready e) (on_v6 e) s2) (all_clients e)) = (Inr s1, [])"
      if "?k + ?b6 + ?b4 = 0" using that c [OF st] by (rule quiet4)
  qed
qed


lemma used_clients_inv:
  assumes "icmpd_inv s" "c \<in> set (clients s)" "0 \<le> c_fd c" shows "c \<in> set (used_clients s)"
proof -
  have "c \<notin> set (drop (nat (top_client s + 1)) (clients s))"
    using assms by (auto simp: icmpd_inv_def slots_ok_def list_all_iff drop_map)
  moreover have "set (clients s) = set (used_clients s) \<union> set (drop (nat (top_client s + 1)) (clients s))"
    unfolding used_clients_def by (metis append_take_drop_id set_append)
  ultimately show ?thesis using assms(2) by blast
qed

text \<open>The parts of an iteration.\<close>

lemma icmpd_iter_parts:
  assumes "icmpd_inv s" "icmpd_env_ok e s" "icmpd_iter e s = (Inr s', out)"
  obtains s1 o1 o4 o6 oc where
    "stage (listen_fd s \<in> ready e) (on_listen e) s = (Inr s1, o1)"
    "stage (fd4 s \<in> ready e) (on_v4 e) s1 = (Inr s1, o4)" "stage (fd6 s \<in> ready e) (on_v6 e) s1 = (Inr s1, o6)"
    "all_clients e s1 = (Inr s', oc)" "out = o1 @ o4 @ o6 @ oc" "icmpd_inv s1"
proof -
  obtain s1 o1 s2 o4 s3 o6 oc where
    p: "stage (listen_fd s \<in> ready e) (on_listen e) s = (Inr s1, o1)"
      "stage (fd4 s \<in> ready e) (on_v4 e) s1 = (Inr s2, o4)" "stage (fd6 s \<in> ready e) (on_v6 e) s2 = (Inr s3, o6)"
      "all_clients e s3 = (Inr s', oc)" "out = o1 @ o4 @ o6 @ oc"
    using assms(3) unfolding icmpd_iter_round [OF assms(1,2)] icmpd_round_def out_bind_Inr by blast
  have "icmpd_inv s1"
  proof (cases "listen_fd s \<in> ready e")
    case True
    show ?thesis
      by (rule conjunct1 [OF readable_listen_inv [OF assms(1) _ _ stage_listen [OF p(1) True]]])
        (use assms(2) in \<open>simp_all add: icmpd_env_ok_def\<close>)
  qed (use p(1) assms(1) in \<open>simp add: stage_def\<close>)
  moreover have "s2 = s1" by (rule stage_raw(1) [OF p(2)])
  moreover from this have "s3 = s1" using stage_raw(2) [OF p(3)] by simp
  ultimately show thesis using that p by blast
qed

lemma all_clients_Inr:
  assumes "all_clients e s = (Inr s', out)"
  obtains cs fds where
    "walk_all (ready_client e) (readable_conn (incoming_on e) (gone e)) (used_clients s) (watch s) = (Inr (cs, fds), out)"
    "s' = s\<lparr>clients := cs @ drop (nat (top_client s + 1)) (clients s), watch := fds\<rparr>"
  using assms by (auto simp: all_clients_def split: sum.splits prod.splits)

lemma all_clients_inv:
  assumes "icmpd_inv s" "all_clients e s = (Inr s', out)" shows "icmpd_inv s'"
proof -
  obtain cs fds where
    w: "walk_all (ready_client e) (readable_conn (incoming_on e) (gone e)) (used_clients s) (watch s) = (Inr (cs, fds), out)"
    and s': "s' = s\<lparr>clients := cs @ drop (nat (top_client s + 1)) (clients s), watch := fds\<rparr>"
    using all_clients_Inr [OF assms(2)] .
  have "slots_ok {fd4 s, fd6 s, listen_fd s} (map c_fd (clients s)) (watch s) (top_fd s) (top_client s)"
    using assms(1) by (simp add: icmpd_inv_def)
  from icl.walk_slots_ok [OF w [unfolded used_clients_def] this] assms(1) show ?thesis by (simp add: icmpd_inv_def s')
qed

lemma icmpd_iter_inv:
  "icmpd_inv s \<Longrightarrow> icmpd_env_ok e s \<Longrightarrow> icmpd_iter e s = (Inr s', out) \<Longrightarrow> icmpd_inv s'"
  by (erule (2) icmpd_iter_parts) (auto dest: all_clients_inv)

lemma icmpd_fixed:
  assumes "icmpd_inv s" "icmpd_env_ok e s" "icmpd_iter e s = (Inr s', out)"
  shows "fd4 s' = fd4 s \<and> fd6 s' = fd6 s \<and> listen_fd s' = listen_fd s"
proof -
  obtain s1 o1 oc where p: "stage (listen_fd s \<in> ready e) (on_listen e) s = (Inr s1, o1)" "all_clients e s1 = (Inr s', oc)"
    using assms by (rule icmpd_iter_parts)
  have "fd4 s1 = fd4 s \<and> fd6 s1 = fd6 s \<and> listen_fd s1 = listen_fd s"
    using p(1) by (auto simp: stage_def readable_listen_def split: if_splits option.splits)
  then show ?thesis by (rule_tac all_clients_Inr [OF p(2)]) simp
qed

text \<open>The environments of a run, each fitting the state it meets.\<close>

fun icmpd_envs_ok :: "icmpd_env list \<Rightarrow> icmpd \<Rightarrow> bool" where
  "icmpd_envs_ok [] s = True"
| "icmpd_envs_ok (e # es) s =
     (icmpd_env_ok e s \<and> (case icmpd_iter e s of (Inr s', out) \<Rightarrow> icmpd_envs_ok es s' | _ \<Rightarrow> True))"

lemma icmpd_loop_Cons:
  assumes "icmpd_loop (e # es) s = (Inr s', out)" "icmpd_envs_ok (e # es) s"
  obtains s1 out1 out2 where "icmpd_iter e s = (Inr s1, out1)" "icmpd_env_ok e s" "icmpd_loop es s1 = (Inr s', out2)"
    "icmpd_envs_ok es s1" "out = out1 @ out2"
  using assms by (auto split: sum.splits prod.splits)


section \<open>Registration\<close>

definition registered :: "icmpd \<Rightarrow> int \<Rightarrow> family \<Rightarrow> u16 \<Rightarrow> bool" where
  "registered s a f p \<longleftrightarrow> 0 \<le> a \<and> (\<exists>c \<in> set (clients s). c_fd c = a \<and> c_family c = f \<and> c_lport c = uint p)"

lemma readable_listen_keeps:
  assumes "readable_listen new s = (s', out)" "c \<in> set (clients s)" "0 \<le> c_fd c"
  shows "c \<in> set (clients s')"
proof (cases "first_slot (\<lambda>c. c_fd c < 0) (clients s)")
  case (Some i)
  obtain j where j: "j < length (clients s)" "clients s ! j = c" using assms(2) by (auto simp: in_set_conv_nth)
  have "i \<noteq> j" using first_slot_Some [OF Some] j(2) assms(3) by auto
  then have "(clients s)[i := x] ! j = c" for x using j by simp
  then show ?thesis using assms(1) Some j(1) by (auto simp: readable_listen_def in_set_conv_nth intro!: exI [of _ j])
qed (use assms in \<open>simp add: readable_listen_def\<close>)

lemma stage_listen_keeps:
  assumes "stage b (on_listen e) s = (Inr s1, o1)" "c \<in> set (clients s)" "0 \<le> c_fd c"
  shows "c \<in> set (clients s1)"
proof (cases b)
  case True
  show ?thesis by (rule readable_listen_keeps [OF stage_listen [OF assms(1) True] assms(2,3)])
qed (use assms in \<open>simp add: stage_def\<close>)

lemma silent_client_stays:
  assumes "icmpd_inv s" "icmpd_env_ok e s" "icmpd_iter e s = (Inr s', out)"
    and c: "c \<in> set (clients s)" "0 \<le> c_fd c" "c_fd c \<notin> ready e"
  shows "c \<in> set (clients s')"
proof -
  obtain s1 o1 oc where p: "stage (listen_fd s \<in> ready e) (on_listen e) s = (Inr s1, o1)" "all_clients e s1 = (Inr s', oc)" "icmpd_inv s1"
    using assms(1-3) by (rule icmpd_iter_parts)
  have "c \<in> set (used_clients s1)" by (rule used_clients_inv [OF p(3) stage_listen_keeps [OF p(1) c(1,2)] c(2)])
  then show ?thesis using c(3) by (rule_tac all_clients_Inr [OF p(2)]) (auto dest!: walk_all_untouched)
qed

lemma registered_stays:
  "icmpd_inv s \<Longrightarrow> icmpd_env_ok e s \<Longrightarrow> icmpd_iter e s = (Inr s', out) \<Longrightarrow> a \<notin> ready e \<Longrightarrow> registered s a f p \<Longrightarrow>
   registered s' a f p"
  unfolding registered_def by (blast intro: silent_client_stays)

lemma registered_stays_loop:
  "icmpd_inv s \<Longrightarrow> icmpd_envs_ok es s \<Longrightarrow> icmpd_loop es s = (Inr s', out) \<Longrightarrow> list_all (\<lambda>e. a \<notin> ready e) es \<Longrightarrow>
   registered s a f p \<Longrightarrow> registered s' a f p \<and> icmpd_inv s' \<and> fd4 s' = fd4 s"
proof (induction es arbitrary: s out)
  case (Cons e es)
  obtain s1 out1 out2 where i: "icmpd_iter e s = (Inr s1, out1)" "icmpd_env_ok e s" "icmpd_loop es s1 = (Inr s', out2)"
    "icmpd_envs_ok es s1"
    using Cons.prems(3,2) by (rule icmpd_loop_Cons)
  have "registered s1 a f p" by (rule registered_stays [OF Cons.prems(1) i(2,1)]) (use Cons.prems in simp_all)
  then show ?case
    using Cons.IH [OF icmpd_iter_inv [OF Cons.prems(1) i(2,1)] i(4,3)] icmpd_fixed [OF Cons.prems(1) i(2,1)] Cons.prems(4) by simp
qed simp

text \<open>The port of a socket that is passed: its own, or the one it is bound to.\<close>

definition has_port :: "sockaddr \<Rightarrow> u16 option \<Rightarrow> u16 \<Rightarrow> bool" where
  "has_port ss bound p \<longleftrightarrow> p \<noteq> 0 \<and> (case ss of
     Sin a q \<Rightarrow> q = p \<or> q = 0 \<and> bound = Some p | Sin6 a q \<Rightarrow> q = p \<or> q = 0 \<and> bound = Some p | _ \<Rightarrow> False)"

lemma readable_conn_registers:
  assumes "inc (c_fd c) = Passed r (Some ss) bound" "0 \<le> r" "has_port ss bound p"
    and "readable_conn inc gn c fds = (Inr (y, fds'), out)"
  shows "c_fd y = c_fd c \<and> c_family y = sa_family ss \<and> c_lport y = uint p \<and> Status (c_fd c) CHR ''1'' \<in> set out"
proof -
  have p: "0 < uint p" using assms(3) unfolding has_port_def by (simp add: word_greater_zero_iff [symmetric] word_less_def del: word_greater_zero_iff)
  have "(if sock_get_port ss = 0 then sock_bind_wild (sa_family ss) bound else sock_get_port ss) = uint p"
    using assms(3) p by (auto simp: has_port_def sock_get_port_def sock_bind_wild_def sa_family_def split: sockaddr.splits)
  then show ?thesis using assms p by (auto simp: readable_conn_def Let_def split: if_splits)
qed

lemma iter_registers:
  assumes "icmpd_inv s" "icmpd_env_ok e s" "icmpd_iter e s = (Inr s', out)"
    and c: "c \<in> set (clients s)" "0 \<le> c_fd c" "c_fd c \<in> ready e"
    and r: "incoming_on e (c_fd c) = Passed r (Some ss) bound" "0 \<le> r" "has_port ss bound p"
  shows "registered s' (c_fd c) (sa_family ss) p \<and> Status (c_fd c) CHR ''1'' \<in> set out"
proof -
  obtain s1 o1 o4 o6 oc where p: "stage (listen_fd s \<in> ready e) (on_listen e) s = (Inr s1, o1)"
      "all_clients e s1 = (Inr s', oc)" "out = o1 @ o4 @ o6 @ oc" "icmpd_inv s1"
    using assms(1-3) by (rule icmpd_iter_parts)
  have u: "c \<in> set (used_clients s1)" by (rule used_clients_inv [OF p(4) stage_listen_keeps [OF p(1) c(1,2)] c(2)])
  obtain cs fds where
    w: "walk_all (ready_client e) (readable_conn (incoming_on e) (gone e)) (used_clients s1) (watch s1) = (Inr (cs, fds), oc)"
    and s': "s' = s1\<lparr>clients := cs @ drop (nat (top_client s1 + 1)) (clients s1), watch := fds\<rparr>"
    using all_clients_Inr [OF p(2)] .
  from walk_all_touched [OF w u] c obtain g1 y g2 o2 where
    o: "readable_conn (incoming_on e) (gone e) c g1 = (Inr (y, g2), o2)" "y \<in> set cs" "set o2 \<subseteq> set oc" by auto
  from readable_conn_registers [OF r o(1)] o(2,3) c(2) show ?thesis by (auto simp: registered_def s' p(3))
qed


section \<open>Reports\<close>

lemma report_to_Inr:
  "report_to gn f sp err cs = (Inr u, out) \<Longrightarrow> out = map (\<lambda>c. Report (c_fd c) err) (filter (wants f sp) cs)"
  by (induction cs arbitrary: out) (auto split: if_splits prod.splits)

fun is_report :: "icmpd_out \<Rightarrow> bool" where
  "is_report (Report a err) = True"
| "is_report _ = False"

lemma readable_conn_no_report:
  "readable_conn inc gn c fds = (r, out) \<Longrightarrow> filter is_report out = []"
  by (auto simp: readable_conn_def drop_conn_def Let_def split: incoming.splits option.splits if_splits)

lemma walk_no_report:
  "walk_all rd (readable_conn inc gn) cs fds = (r, out) \<Longrightarrow> filter is_report out = []"
  by (induction cs arbitrary: fds r out)
    (auto split: if_splits sum.splits prod.splits dest: readable_conn_no_report)

lemma other_parts_no_report:
  "stage b (on_listen e) s = (Inr s1, o1) \<Longrightarrow> filter is_report o1 = []"
  "all_clients e s = (Inr s', oc) \<Longrightarrow> filter is_report oc = []"
  by (auto simp: stage_def readable_listen_def split: if_splits option.splits)
    (auto elim!: all_clients_Inr dest!: walk_no_report)

text \<open>What is sent about a packet that quotes a datagram of ours.\<close>

definition err_v4 :: "byte \<Rightarrow> byte \<Rightarrow> byte list \<Rightarrow> u16 \<Rightarrow> icmpd_err" where
  "err_v4 t k ip2 dp =
     \<lparr>icmpd_errno = errno_v4 (unat t) (unat k), icmpd_type = unat t, icmpd_code = unat k, icmpd_len = 16,
      icmpd_dest = Sin (ip_dst ip2 0) dp\<rparr>"

definition quotes_v4 :: "byte list \<Rightarrow> byte \<Rightarrow> byte \<Rightarrow> byte list \<Rightarrow> u16 \<Rightarrow> u16 \<Rightarrow> bool" where
  "quotes_v4 d t k ip2 sp dp \<longleftrightarrow>
     unat t \<in> {ICMP_UNREACH, ICMP_TIMXCEED, ICMP_SOURCEQUENCH} \<and> ipv4_header ip2 \<and> ip_p ip2 0 = IPPROTO_UDP \<and>
     length d \<le> IC_MAXLINE \<and>
     (\<exists>ip1 six tail. d = icmp_error ip1 t k six ip2 sp dp tail \<and> ipv4_header ip1 \<and> length six = 6 \<and> 4 \<le> length tail)"

lemma readable_v4_reports:
  assumes "quotes_v4 d t k ip2 sp dp" "length stack = IC_MAXLINE"
  shows "readable_v4 stack d gn s = report_to gn AF_INET sp (err_v4 t k ip2 dp) (used_clients s)"
proof -
  obtain ip1 six tail where d: "d = icmp_error ip1 t k six ip2 sp dp tail" "ipv4_header ip1" "length six = 6" "4 \<le> length tail"
    and q: "unat t \<in> {ICMP_UNREACH, ICMP_TIMXCEED, ICMP_SOURCEQUENCH}" "ipv4_header ip2" "ip_p ip2 0 = IPPROTO_UDP"
      "length d \<le> IC_MAXLINE"
    using assms(1) by (auto simp: quotes_v4_def)
  have n: "length d = length ip1 + 8 + length ip2 + 4 + length tail" "20 \<le> length ip2" "min (length d) IC_MAXLINE = length d"
    using d(1,3) q(2,4) by (simp_all add: icmp_error_def ipv4_header_def)
  have l: "length (icmp_error ip1 t k six ip2 sp dp tail) \<le> length stack" using q(4) assms(2) d(1) by simp
  note f = icmp_error_fields [OF d(2) q(2) d(3) l, folded d(1)]
  show ?thesis using n d(4) q(1,3) by (auto simp: readable_v4_def Let_def f err_v4_def)
qed

text \<open>When an ICMP error comes that quotes a UDP datagram the host sent, and nobody connects in the same iteration, the
  daemon reports it to exactly the connected programs that registered an IPv4 socket of its source port, in the order of
  their slots, with the type and code, the address and port the datagram went to, and the matching
  \<^verbatim>\<open>errno\<close>; whatever options the two IP headers carry, and whatever the buffer held before.\<close>

theorem icmpd_reports_exactly:
  assumes "icmpd_inv s" "icmpd_env_ok e s" "icmpd_iter e s = (Inr s', out)"
    and "fd4 s \<in> ready e" "fd6 s \<notin> ready e" "listen_fd s \<notin> ready e" and "quotes_v4 (packet4 e) t k ip2 sp dp"
  shows "filter is_report out =
    map (\<lambda>c. Report (c_fd c) (err_v4 t k ip2 dp)) (filter (\<lambda>c. 0 \<le> c_fd c \<and> c_family c = AF_INET \<and> c_lport c = uint sp) (clients s))"
proof -
  obtain s1 o1 o4 o6 oc where p: "stage (listen_fd s \<in> ready e) (on_listen e) s = (Inr s1, o1)"
      "stage (fd4 s \<in> ready e) (on_v4 e) s1 = (Inr s1, o4)" "stage (fd6 s \<in> ready e) (on_v6 e) s1 = (Inr s1, o6)"
      "all_clients e s1 = (Inr s', oc)" "out = o1 @ o4 @ o6 @ oc"
    using assms(1-3) by (rule icmpd_iter_parts)
  have s1: "s1 = s" "o1 = []" "o6 = []" using p(1,3) assms(5,6) by (simp_all add: stage_def)
  have "length (stack4 e) = IC_MAXLINE" using assms(2) by (simp add: icmpd_env_ok_def)
  note r = readable_v4_reports [OF assms(7) this]
  obtain u where "report_to (gone e) AF_INET sp (err_v4 t k ip2 dp) (used_clients s) = (Inr u, o4)"
    using p(2) assms(4) by (auto simp: stage_def r s1 map_sum_def split: prod.splits sum.splits)
  then have o4: "o4 = map (\<lambda>c. Report (c_fd c) (err_v4 t k ip2 dp)) (filter (wants AF_INET sp) (used_clients s))"
    by (rule report_to_Inr)
  have "filter (wants AF_INET sp) (drop (nat (top_client s + 1)) (clients s)) = []"
    using assms(1) by (auto simp: filter_empty_conv wants_def icmpd_inv_def slots_ok_def list_all_iff drop_map)
  then have "filter (wants AF_INET sp) (used_clients s) = filter (wants AF_INET sp) (clients s)"
    unfolding used_clients_def by (metis append_Nil2 append_take_drop_id filter_append)
  moreover have "filter is_report (map (\<lambda>c. Report (c_fd c) x) cs) = map (\<lambda>c. Report (c_fd c) x) cs" for x cs
    by (induction cs) auto
  ultimately show ?thesis using other_parts_no_report(2) [OF p(4)] by (simp add: p(5) s1 o4 wants_def [abs_def])
qed


section \<open>From registration to report\<close>

lemma only_one_of_fd:
  "distinct (open_fds (map c_fd cs)) \<Longrightarrow> c \<in> set cs \<Longrightarrow> 0 \<le> c_fd c \<Longrightarrow> filter (\<lambda>x. c_fd x = c_fd c) cs = [c]"
proof (induction cs)
  case (Cons x cs)
  show ?case
  proof (cases "c_fd x = c_fd c")
    case True
    then have "c_fd c \<notin> c_fd ` set cs" using Cons.prems(1,3) by auto
    moreover from this have "x = c" using Cons.prems(2) by auto
    ultimately show ?thesis by (auto simp: filter_empty_conv image_iff)
  next
    case False
    then show ?thesis using Cons by (auto split: if_splits)
  qed
qed simp

lemma used_only_one:
  assumes "icmpd_inv s" "c \<in> set (clients s)" "0 \<le> c_fd c"
  shows "filter (\<lambda>x. c_fd x = c_fd c) (filter Q (used_clients s)) = (if Q c then [c] else [])"
proof -
  have "distinct (open_fds (map c_fd (used_clients s @ drop (nat (top_client s + 1)) (clients s))))"
    using assms(1) by (simp add: icmpd_inv_def slots_ok_def used_clients_def)
  then have "distinct (open_fds (map c_fd (used_clients s)))" by simp
  from only_one_of_fd [OF this used_clients_inv [OF assms] assms(3)]
  have "filter Q (filter (\<lambda>x. c_fd x = c_fd c) (used_clients s)) = (if Q c then [c] else [])" by simp
  then show ?thesis by (simp add: conj_commute)
qed

text \<open>The reports that go to one program.\<close>

fun report_for :: "int \<Rightarrow> icmpd_out \<Rightarrow> bool" where
  "report_for a (Report b err) = (b = a)"
| "report_for a _ = False"

lemma filter_reports:
  "filter (report_for a) (map (\<lambda>c. Report (c_fd c) err) cs) = map (\<lambda>c. Report (c_fd c) err) (filter (\<lambda>c. c_fd c = a) cs)"
  by (induction cs) auto

lemma report_for_is_report: "filter is_report out = [] \<Longrightarrow> filter (report_for a) out = []"
  by (auto simp: filter_empty_conv elim!: report_for.elims)

lemma readable_v6_Inr:
  assumes "readable_v6 stack d gn s = (Inr u, out)"
  shows "\<exists>sp err. out = map (\<lambda>c. Report (c_fd c) err) (filter (wants AF_INET6 sp) (used_clients s)) \<or> out = []"
  using assms by (fastforce simp: readable_v6_def Let_def split: if_splits dest: report_to_Inr)

lemma registered_gets_report:
  assumes "icmpd_inv s" "icmpd_env_ok e s" "icmpd_iter e s = (Inr s', out)" "fd4 s \<in> ready e"
    and "registered s a AF_INET p" "quotes_v4 (packet4 e) t k ip2 p dp"
  shows "filter (report_for a) out = [Report a (err_v4 t k ip2 dp)]"
proof -
  obtain s1 o1 o4 o6 oc where p: "stage (listen_fd s \<in> ready e) (on_listen e) s = (Inr s1, o1)"
      "stage (fd4 s \<in> ready e) (on_v4 e) s1 = (Inr s1, o4)" "stage (fd6 s \<in> ready e) (on_v6 e) s1 = (Inr s1, o6)"
      "all_clients e s1 = (Inr s', oc)" "out = o1 @ o4 @ o6 @ oc" "icmpd_inv s1"
    using assms(1-3) by (rule icmpd_iter_parts)
  obtain c where c: "c \<in> set (clients s)" "0 \<le> c_fd c" "c_fd c = a" "c_family c = AF_INET" "c_lport c = uint p"
    using assms(5) by (auto simp: registered_def)
  have c1: "c \<in> set (clients s1)" by (rule stage_listen_keeps [OF p(1) c(1,2)])
  note one = used_only_one [OF p(6) c1 c(2), unfolded c(3)]
  have "length (stack4 e) = IC_MAXLINE" using assms(2) by (simp add: icmpd_env_ok_def)
  note r = readable_v4_reports [OF assms(6) this]
  obtain u where "report_to (gone e) AF_INET p (err_v4 t k ip2 dp) (used_clients s1) = (Inr u, o4)"
    using p(2) assms(4) by (auto simp: stage_def r map_sum_def split: prod.splits sum.splits)
  then have "o4 = map (\<lambda>c. Report (c_fd c) (err_v4 t k ip2 dp)) (filter (wants AF_INET p) (used_clients s1))"
    by (rule report_to_Inr)
  then have f4: "filter (report_for a) o4 = [Report a (err_v4 t k ip2 dp)]"
    using one [of "wants AF_INET p"] c by (simp add: filter_reports wants_def del: filter_filter)
  have "filter (report_for a) o6 = []"
  proof (cases "fd6 s \<in> ready e")
    case True
    then obtain u where "readable_v6 (stack6 e) (packet6 e) (gone e) s1 = (Inr u, o6)"
      using p(3) by (auto simp: stage_def map_sum_def split: prod.splits sum.splits)
    from readable_v6_Inr [OF this] show ?thesis
      using one [of "wants AF_INET6 sp" for sp] c(4) by (auto simp: filter_reports wants_def simp del: filter_filter)
  qed (use p(3) in \<open>simp add: stage_def\<close>)
  with f4 show ?thesis
    using other_parts_no_report(1) [OF p(1)] other_parts_no_report(2) [OF p(4)] by (simp add: p(5) report_for_is_report)
qed

lemma icmpd_loop_append:
  "icmpd_loop (es @ [e]) s = (Inr s', out) \<Longrightarrow> icmpd_envs_ok (es @ [e]) s \<Longrightarrow>
   \<exists>s1 out1 out2. icmpd_loop es s = (Inr s1, out1) \<and> icmpd_envs_ok es s \<and> icmpd_iter e s1 = (Inr s', out2) \<and> icmpd_env_ok e s1 \<and>
     out = out1 @ out2"
proof (induction es arbitrary: s out)
  case Nil
  then show ?case by (auto split: sum.splits prod.splits)
next
  case (Cons x es)
  obtain s1 oa ob where i: "icmpd_iter x s = (Inr s1, oa)" "icmpd_env_ok x s" "icmpd_loop (es @ [e]) s1 = (Inr s', ob)"
    "icmpd_envs_ok (es @ [e]) s1" "out = oa @ ob"
    using Cons.prems [unfolded append_Cons] by (rule icmpd_loop_Cons)
  from Cons.IH [OF i(3,4)] obtain s2 o1 o2 where
    "icmpd_loop es s1 = (Inr s2, o1)" "icmpd_envs_ok es s1" "icmpd_iter e s2 = (Inr s', o2)" "icmpd_env_ok e s2" "ob = o1 @ o2" by auto
  then show ?case using i by simp
qed

text \<open>C33. A program that passes the daemon a UDP socket is told that it is registered, and from then on, after any number of
  iterations in which it is silent while other programs come, register and go, an ICMP error about a datagram it sent
  from that socket is reported to it, once and with the right contents.  A socket without a port is registered under
  the port it is then bound to.\<close>

theorem icmpd_registered_gets_error:
  assumes "icmpd_inv s" "icmpd_envs_ok (e1 # es @ [e]) s" "icmpd_loop (e1 # es @ [e]) s = (Inr s', out)"
    and "c \<in> set (clients s)" "c_fd c = a" "0 \<le> a" "a \<in> ready e1"
    and "incoming_on e1 a = Passed r (Some (Sin addr q)) bound" "0 \<le> r" "has_port (Sin addr q) bound p"
    and "list_all (\<lambda>e. a \<notin> ready e) es" "fd4 s \<in> ready e" "quotes_v4 (packet4 e) t k ip2 p dp"
  shows "\<exists>s1 out1 out2. icmpd_loop (e1 # es) s = (Inr s1, out1) \<and> icmpd_iter e s1 = (Inr s', out2) \<and> out = out1 @ out2 \<and>
    Status a CHR ''1'' \<in> set out1 \<and> filter (report_for a) out2 = [Report a (err_v4 t k ip2 dp)]"
proof -
  from icmpd_loop_append [OF assms(3) [folded append_Cons] assms(2) [folded append_Cons]] obtain s2 out1 out2 where
    l: "icmpd_loop (e1 # es) s = (Inr s2, out1)" "icmpd_envs_ok (e1 # es) s" "icmpd_iter e s2 = (Inr s', out2)"
      "icmpd_env_ok e s2" "out = out1 @ out2" by blast
  obtain s1 oa ob where i: "icmpd_iter e1 s = (Inr s1, oa)" "icmpd_env_ok e1 s" "icmpd_loop es s1 = (Inr s2, ob)"
    "icmpd_envs_ok es s1" "out1 = oa @ ob"
    using l(1,2) by (rule icmpd_loop_Cons)
  have "registered s1 a AF_INET p \<and> Status a CHR ''1'' \<in> set oa"
    using iter_registers [OF assms(1) i(2,1) assms(4)] assms(5-10) by (simp add: sa_family_def)
  moreover have "icmpd_inv s1" "fd4 s1 = fd4 s" using icmpd_iter_inv [OF assms(1) i(2,1)] icmpd_fixed [OF assms(1) i(2,1)] by simp_all
  ultimately have "registered s2 a AF_INET p \<and> icmpd_inv s2 \<and> fd4 s2 = fd4 s" "Status a CHR ''1'' \<in> set out1"
    using registered_stays_loop [OF _ i(4,3) assms(11), of AF_INET p] by (simp_all add: i(5))
  with registered_gets_report [OF _ l(4,3) _ _ assms(13)] assms(12) l show ?thesis by auto
qed


section \<open>What is left of a program that has gone\<close>

lemma client_not_base:
  assumes "icmpd_inv s" "c \<in> set (clients s)" shows "c_fd c \<notin> {fd4 s, fd6 s, listen_fd s}"
proof -
  have "{fd4 s, fd6 s, listen_fd s} \<inter> set (map c_fd (clients s)) = {}" using assms(1) by (simp only: icmpd_inv_def slots_ok_def)
  moreover have "c_fd c \<in> set (map c_fd (clients s))" using assms(2) by simp
  ultimately show ?thesis by blast
qed

lemma round_client_gone:
  assumes "icmpd_inv s" "i < length (clients s)" "c_fd (clients s ! i) = a" "0 \<le> a"
    and "icmpd_env_ok e s" "ready e = {a}" "incoming_on e a = Gone"
  shows "icmpd_iter e s =
    (Inr (s\<lparr>clients := (clients s)[i := (clients s ! i)\<lparr>c_fd := - 1\<rparr>], watch := watch s - {a}\<rparr>), [CloseSock a])"
proof -
  let ?c = "clients s ! i" and ?j = "nat (top_client s + 1)"
  have rc: "ready_client e = (\<lambda>x. c_fd x = a)" using assms(4,6) by auto
  have "\<not> ?j \<le> i"
  proof
    assume "?j \<le> i"
    then have "drop ?j (clients s) ! (i - ?j) = ?c" "i - ?j < length (drop ?j (clients s))" using assms(2) by simp_all
    then have "?c \<in> set (drop ?j (clients s))" by (metis nth_mem)
    then show False using assms(1,3,4) by (auto simp: icmpd_inv_def slots_ok_def list_all_iff drop_map)
  qed
  then have ij: "i < ?j" by simp
  have u: "used_clients s = take i (clients s) @ ?c # take (?j - Suc i) (drop (Suc i) (clients s))"
    using id_take_nth_drop [of i "used_clients s"] ij assms(2)
    by (simp add: used_clients_def min_def drop_take)
  have "filter (\<lambda>x. c_fd x = a) (used_clients s) = [?c]"
    using used_only_one [OF assms(1), of ?c "\<lambda>x. True"] assms(2-4) by simp
  then have f: "filter (\<lambda>x. c_fd x = a) (take i (clients s)) = []" "filter (\<lambda>x. c_fd x = a) (take (?j - Suc i) (drop (Suc i) (clients s))) = []"
    using assms(3) unfolding u by (auto simp: append_eq_Cons_conv)
  have "readable_conn (incoming_on e) (gone e) ?c (watch s) = (Inr (?c\<lparr>c_fd := - 1\<rparr>, watch s - {a}), [CloseSock a])"
    using assms(3,7) by (simp add: readable_conn_def drop_conn_def Let_def)
  then have w: "walk_all (ready_client e) (readable_conn (incoming_on e) (gone e)) (used_clients s) (watch s) =
      (Inr (take i (clients s) @ ?c\<lparr>c_fd := - 1\<rparr> # take (?j - Suc i) (drop (Suc i) (clients s)), watch s - {a}), [CloseSock a])"
    unfolding rc u by (subst walk_all_single [OF f(1) _ f(2)]) (simp_all add: assms(3))
  have "drop ?j (clients s) = drop (?j - Suc i) (drop (Suc i) (clients s))" using ij by simp
  then have "take (?j - Suc i) (drop (Suc i) (clients s)) @ drop ?j (clients s) = drop (Suc i) (clients s)"
    by (metis append_take_drop_id)
  then have "all_clients e s = (Inr (s\<lparr>clients := (clients s)[i := ?c\<lparr>c_fd := - 1\<rparr>], watch := watch s - {a}\<rparr>), [CloseSock a])"
    using assms(2) by (simp add: all_clients_def w upd_conv_take_nth_drop)
  moreover have "a \<notin> {fd4 s, fd6 s, listen_fd s}" using client_not_base [OF assms(1) nth_mem [OF assms(2)]] assms(3) by simp
  ultimately show ?thesis
    unfolding icmpd_iter_round [OF assms(1,5)] icmpd_round_def using assms(6) by (simp add: stage_def out_bind_def)
qed

lemma quiet_client_phase:
  assumes "icmpd_inv s" "ready e \<subseteq> {fd4 s, fd6 s, listen_fd s}" shows "all_clients e s = (Inr s, [])"
proof (rule all_clients_quiet)
  have "c_fd c \<notin> ready e" if "c \<in> set (clients s)" for c
    using client_not_base [OF assms(1) that] assms(2) by blast
  then show "filter (ready_client e) (used_clients s) = []"
    using set_take_subset by (fastforce simp: filter_empty_conv used_clients_def)
qed

lemma report_to_all:
  "report_to {} f sp err cs = (Inr (), map (\<lambda>c. Report (c_fd c) err) (filter (wants f sp) cs))"
  by (induction cs) auto

text \<open>A program that leaves keeps its registration in its slot: the next program that connects takes the slot with it and
  is sent the errors of its predecessor's socket although it has registered nothing.\<close>

theorem icmpd_stale_registration:
  assumes inv: "icmpd_inv s" and reg: "i < length (clients s)" "clients s ! i = \<lparr>c_fd = a, c_family = AF_INET, c_lport = uint p\<rparr>" "0 \<le> a"
    and below: "\<forall>j < i. 0 \<le> c_fd (clients s ! j)"
    and ok: "icmpd_envs_ok [e1, e2, e3] s"
    and leaves: "ready e1 = {a}" "incoming_on e1 a = Gone"
    and comes: "ready e2 = {listen_fd s}" "new_conn e2 = b"
    and error: "ready e3 = {fd4 s}" "gone e3 = {}" "quotes_v4 (packet4 e3) t k ip2 p dp"
  shows "\<exists>s' out. icmpd_loop [e1, e2, e3] s = (Inr s', out) \<and> Report b (err_v4 t k ip2 dp) \<in> set out"
proof -
  let ?c = "\<lparr>c_fd = - 1, c_family = AF_INET, c_lport = uint p\<rparr>"
  define s1 where "s1 = s\<lparr>clients := (clients s)[i := ?c], watch := watch s - {a}\<rparr>"
  have ok1: "icmpd_env_ok e1 s" using ok by simp
  have i1: "icmpd_iter e1 s = (Inr s1, [CloseSock a])"
    using round_client_gone [OF inv reg(1) _ reg(3) ok1 leaves] reg(2) by (simp add: s1_def)
  then have inv1: "icmpd_inv s1" and ok2: "icmpd_env_ok e2 s1" using icmpd_iter_inv [OF inv ok1 i1] ok by simp_all
  define s2 where "s2 = s1\<lparr>clients := (clients s)[i := ?c\<lparr>c_fd := b\<rparr>], watch := insert b (watch s1),
    top_fd := (if top_fd s1 < b then b else top_fd s1), top_client := (if top_client s1 < int i then int i else top_client s1)\<rparr>"
  have "first_slot (\<lambda>c. c_fd c < 0) ((clients s)[i := ?c]) = Some i"
  proof -
    obtain j where j: "first_slot (\<lambda>c. c_fd c < 0) ((clients s)[i := ?c]) = Some j"
      using reg(1) by (cases "first_slot (\<lambda>c. c_fd c < 0) ((clients s)[i := ?c])")
        (auto simp: first_slot_None filter_empty_conv dest!: bspec [of _ _ ?c] intro: set_update_memI)
    note f = first_slot_Some [OF j]
    have "\<not> j < i" using f below by auto
    moreover have "\<not> i < j" using f reg(1) by auto
    ultimately show ?thesis using j by simp
  qed
  then have l: "readable_listen b s1 = (s2, [])"
    using reg(1) by (simp add: readable_listen_def s1_def s2_def)
  have d: "listen_fd s \<noteq> fd4 s" "listen_fd s \<noteq> fd6 s" "fd4 s \<noteq> fd6 s" using inv by (auto simp: icmpd_inv_def)
  have b: "0 \<le> b" "b \<notin> watch s1" using ok2 comes by (simp_all add: icmpd_env_ok_def)
  have inv2: "icmpd_inv s2" using readable_listen_inv [OF inv1 b l] by simp
  have "all_clients e2 s2 = (Inr s2, [])" by (rule quiet_client_phase [OF inv2]) (simp add: comes s2_def s1_def)
  then have i2: "icmpd_iter e2 s1 = (Inr s2, [])"
    unfolding icmpd_iter_round [OF inv1 ok2] icmpd_round_def using comes d l by (simp add: stage_def out_bind_def s1_def)
  have ok3: "icmpd_env_ok e3 s2" using ok i1 i2 by simp
  have f: "fd4 s2 = fd4 s" "fd6 s2 = fd6 s" "listen_fd s2 = listen_fd s" by (simp_all add: s2_def s1_def)
  let ?r = "map (\<lambda>c. Report (c_fd c) (err_v4 t k ip2 dp)) (filter (wants AF_INET p) (used_clients s2))"
  have "length (stack4 e3) = IC_MAXLINE" using ok3 by (simp add: icmpd_env_ok_def)
  from readable_v4_reports [OF error(3) this, of "{}" s2] have r: "readable_v4 (stack4 e3) (packet4 e3) {} s2 = (Inr (), ?r)"
    by (simp add: report_to_all)
  have "all_clients e3 s2 = (Inr s2, [])" by (rule quiet_client_phase [OF inv2]) (simp add: error f)
  then have i3: "icmpd_iter e3 s2 = (Inr s2, ?r)"
    unfolding icmpd_iter_round [OF inv2 ok3] icmpd_round_def using error d by (simp add: stage_def out_bind_def f r)
  have "?c\<lparr>c_fd := b\<rparr> \<in> set (clients s2)" using reg(1) by (simp add: s2_def set_update_memI)
  then have "?c\<lparr>c_fd := b\<rparr> \<in> set (used_clients s2)" using used_clients_inv [OF inv2] b by simp
  moreover have "wants AF_INET p (?c\<lparr>c_fd := b\<rparr>)" using b by (simp add: wants_def)
  ultimately have "Report b (err_v4 t k ip2 dp) \<in> set ?r" by force
  then show ?thesis using i1 i2 i3 by simp
qed


section \<open>A daemon with one program\<close>

definition with_program :: "icmp_client \<Rightarrow> icmpd" where
  "with_program c = (icmpd_start 3 4 5)\<lparr>clients := c # replicate (FD_SETSIZE - 1) free_client,
     watch := {3, 4, 5, 6}, top_fd := 6, top_client := 0\<rparr>"

definition silent :: icmpd_env where
  "silent = \<lparr>ready = {}, new_conn = 8, stack4 = replicate IC_MAXLINE 0, packet4 = [], stack6 = replicate IC_MAXLINE 0,
     packet6 = [], incoming_on = (\<lambda>a. Gone), gone = {}\<rparr>"

definition refused :: "byte list" where
  "refused = icmp_error (plain_ip 1) 3 3 (replicate 6 0) (plain_ip 17) 0x1234 0x5678 [0, 8, 0, 0]"

definition error_comes :: icmpd_env where "error_comes = silent\<lparr>ready := {3}, new_conn := 9, packet4 := refused\<rparr>"

abbreviation told :: icmpd_err where "told \<equiv> err_v4 3 3 (plain_ip 17) 0x5678"

lemma refused_quotes: "quotes_v4 (packet4 error_comes) 3 3 (plain_ip 17) 0x1234 0x5678"
proof -
  have "length refused \<le> IC_MAXLINE" by (simp add: refused_def icmp_error_def plain_ip_header IC_MAXLINE_def)
  moreover have "\<exists>ip1 six tail. refused = icmp_error ip1 3 3 six (plain_ip 17) 0x1234 0x5678 tail \<and> ipv4_header ip1 \<and>
      length six = 6 \<and> 4 \<le> length tail"
    by (intro exI [of _ "plain_ip 1"] exI [of _ "replicate 6 0"] exI [of _ "[0, 8, 0, 0]"]) (simp add: refused_def plain_ip_header)
  ultimately show ?thesis by (simp add: quotes_v4_def error_comes_def icmp_consts plain_ip_header)
qed

lemma with_program_inv: "c_fd c = 6 \<Longrightarrow> icmpd_inv (with_program c)"
  by (auto simp: icmpd_inv_def slots_ok_def with_program_def icmpd_start_def free_client_def FD_SETSIZE_def list_all_iff)

abbreviation bound_program :: icmp_client where "bound_program \<equiv> \<lparr>c_fd = 6, c_family = AF_INET, c_lport = 0x1234\<rparr>"

lemma error_round:
  "icmpd_env_ok error_comes (with_program bound_program)"
  "icmpd_iter error_comes (with_program bound_program) = (Inr (with_program bound_program), [Report 6 told])"
proof -
  let ?s = "with_program bound_program"
  note inv = with_program_inv [of bound_program, simplified]
  have f: "ready error_comes = {3}" "gone error_comes = {}" "length (stack4 error_comes) = IC_MAXLINE"
    "fd4 ?s = 3" "fd6 ?s = 4" "listen_fd ?s = 5" "watch ?s = {3, 4, 5, 6}" "used_clients ?s = [bound_program]"
    by (simp_all add: error_comes_def silent_def with_program_def icmpd_start_def used_clients_def)
  show ok: "icmpd_env_ok error_comes ?s" by (simp add: icmpd_env_ok_def f) (simp add: error_comes_def silent_def)
  have "all_clients error_comes ?s = (Inr ?s, [])" by (rule quiet_client_phase [OF inv]) (simp add: f)
  moreover have "readable_v4 (stack4 error_comes) (packet4 error_comes) (gone error_comes) ?s = (Inr (), [Report 6 told])"
    unfolding readable_v4_reports [OF refused_quotes f(3)] by (simp add: f wants_def)
  ultimately show "icmpd_iter error_comes ?s = (Inr ?s, [Report 6 told])"
    unfolding icmpd_iter_round [OF inv ok] icmpd_round_def by (simp add: f stage_def out_bind_def)
qed

lemma icmpd_reports_exactly_witness:
  "filter is_report (snd (icmpd_iter error_comes (with_program bound_program))) = [Report 6 told]"
proof -
  let ?s = "with_program bound_program"
  have f: "ready error_comes = {3}" "fd4 ?s = 3" "fd6 ?s = 4" "listen_fd ?s = 5"
    by (simp_all add: error_comes_def silent_def with_program_def icmpd_start_def)
  have "filter is_report [Report 6 told] = map (\<lambda>c. Report (c_fd c) told)
      (filter (\<lambda>c. 0 \<le> c_fd c \<and> c_family c = AF_INET \<and> c_lport c = uint (0x1234 :: u16)) (clients ?s))"
    by (rule icmpd_reports_exactly [OF with_program_inv error_round _ _ _ refused_quotes]) (simp_all add: f)
  moreover have "\<dots> = [Report 6 told]" by (simp add: with_program_def free_client_def)
  ultimately show ?thesis by (simp add: error_round)
qed

definition registers :: icmpd_env where
  "registers = silent\<lparr>ready := {6}, incoming_on := (\<lambda>a. Passed 7 (Some (Sin [0, 0, 0, 0] 0)) (Some 0x1234))\<rparr>"

lemma register_round:
  "icmpd_env_ok registers (with_program \<lparr>c_fd = 6, c_family = AF_other 0, c_lport = 0\<rparr>)"
  "icmpd_iter registers (with_program \<lparr>c_fd = 6, c_family = AF_other 0, c_lport = 0\<rparr>) =
     (Inr (with_program bound_program), [Status 6 CHR ''1'', CloseSock 7])"
  by (simp_all add: icmpd_env_ok_def registers_def silent_def with_program_def icmpd_start_def icmpd_iter_def when_ready_def
      icmpd_clients_def used_clients_def readable_conn_def Let_def sock_get_port_def sock_bind_wild_def sa_family_def)

lemma example_fields:
  "ready registers = {6}" "incoming_on registers = (\<lambda>a. Passed 7 (Some (Sin [0, 0, 0, 0] 0)) (Some 0x1234))"
  "ready error_comes = {3}" "gone error_comes = {}"
  "clients (with_program c) = c # replicate (FD_SETSIZE - 1) free_client" "fd4 (with_program c) = 3" "listen_fd (with_program c) = 5"
  by (simp_all add: registers_def error_comes_def silent_def with_program_def icmpd_start_def)

lemma icmpd_registered_gets_error_witness:
  "\<exists>s1 out1 out2. icmpd_loop [registers] (with_program \<lparr>c_fd = 6, c_family = AF_other 0, c_lport = 0\<rparr>) = (Inr s1, out1) \<and>
     icmpd_iter error_comes s1 = (Inr (with_program bound_program), out2) \<and>
     [Status 6 CHR ''1'', CloseSock 7, Report 6 told] = out1 @ out2 \<and>
     Status 6 CHR ''1'' \<in> set out1 \<and> filter (report_for 6) out2 = [Report 6 told]"
  by (rule icmpd_registered_gets_error [where es = "[]" and r = 7 and addr = "[0, 0, 0, 0]" and q = 0 and bound = "Some 0x1234" and p = "0x1234"
        and c = "\<lparr>c_fd = 6, c_family = AF_other 0, c_lport = 0\<rparr>"])
    (simp_all add: with_program_inv register_round error_round refused_quotes has_port_def example_fields)

definition leaves :: icmpd_env where "leaves = silent\<lparr>ready := {6}\<rparr>"
definition connects :: icmpd_env where "connects = silent\<lparr>ready := {5}\<rparr>"

lemma icmpd_stale_registration_witness:
  "\<exists>s' out. icmpd_loop [leaves, connects, error_comes] (with_program bound_program) = (Inr s', out) \<and> Report 8 told \<in> set out"
proof (rule icmpd_stale_registration [where i = 0 and a = 6 and p = "0x1234", OF with_program_inv _ _ _ _ _ _ _ _ _ _ _ refused_quotes])
  show "icmpd_envs_ok [leaves, connects, error_comes] (with_program bound_program)"
    by (simp add: icmpd_env_ok_def leaves_def connects_def error_comes_def silent_def with_program_def icmpd_start_def icmpd_iter_def
        when_ready_def icmpd_clients_def used_clients_def readable_conn_def drop_conn_def readable_listen_def Let_def
        split: sum.split prod.split)
qed (simp_all add: leaves_def connects_def silent_def example_fields)

end
