(* ===== verification/Unp_Ping.thy ===== *)
theory Unp_Ping
  imports Unp_Icmp
begin

text \<open>
  \<^verbatim>\<open>src/unpv13e-master/ping\<close>: the echo request of each address family, the loop that reads what
  comes on the raw socket while an alarm sends a request every second, and the functions that print an answer.  The
  buffers hold what earlier packets left behind; the address of the host is resolved before; what the program prints
  when it starts is left out.
\<close>

section \<open>Requests\<close>

definition PING_BUFSIZE :: nat where "PING_BUFSIZE = 1500"
definition datalen :: nat where "datalen = 56"

text \<open>A \<^verbatim>\<open>struct timeval\<close> is two signed integers of 64 bits.\<close>

definition le64 :: "int \<Rightarrow> byte list" where
  "le64 n = le32 (of_int n) @ le32 (of_int (n div 2 ^ 32))"

definition rd64 :: "byte list \<Rightarrow> nat \<Rightarrow> int" where
  "rd64 bs i = uint (rd32 bs i) + 2 ^ 32 * sint (rd32 bs (i + 4))"

definition icmp_echo :: "byte \<Rightarrow> u16 \<Rightarrow> u16 \<Rightarrow> u16 \<Rightarrow> byte list \<Rightarrow> byte list" where
  "icmp_echo t cksum ident sq payload = [t, 0] @ le16 cksum @ le16 ident @ le16 sq @ payload"

definition echo_data :: "timeval \<Rightarrow> byte list" where
  "echo_data tv = le64 (fst tv) @ le64 (snd tv) @ replicate (datalen - 16) 0xa5"

definition send_v4 :: "u16 \<Rightarrow> nat \<Rightarrow> timeval \<Rightarrow> byte list" where
  "send_v4 pid nsent tv =
     (let m = icmp_echo (of_nat ICMP_ECHO) 0 pid (of_nat nsent) (echo_data tv)
      in icmp_echo (of_nat ICMP_ECHO) (in_cksum m) pid (of_nat nsent) (echo_data tv))"

text \<open>With IPv6 the kernel fills in the checksum; the field keeps the zero it starts with.\<close>

definition send_v6 :: "u16 \<Rightarrow> nat \<Rightarrow> timeval \<Rightarrow> byte list" where
  "send_v6 pid nsent tv = icmp_echo (of_nat ICMP6_ECHO_REQUEST) 0 pid (of_nat nsent) (echo_data tv)"

section \<open>Answers\<close>

text \<open>What is printed: an answer with its length, host, sequence number, time to live or hop limit and round-trip time in
  milliseconds, or the type and code of another packet.\<close>

datatype ping_out =
    SendTo "byte list"
  | Line int sockaddr nat "int option" rat
  | Other int sockaddr nat nat

definition rd_timeval :: "byte list \<Rightarrow> nat \<Rightarrow> timeval" where
  "rd_timeval bs i = (rd64 bs i, rd64 bs (i + 8))"

definition proc_v4 :: "u16 \<Rightarrow> bool \<Rightarrow> byte list \<Rightarrow> nat \<Rightarrow> sockaddr \<Rightarrow> timeval \<Rightarrow> ping_out list" where
  "proc_v4 pid verb ptr len from tvrecv =
     (let hlen1 = ip_hlen ptr 0; icmplen = int len - int hlen1 in
      if ip_p ptr 0 \<noteq> IPPROTO_ICMP then []
      else if icmplen < 8 then []
      else if icmp_type ptr hlen1 = ICMP_ECHOREPLY then
        (if icmp_id ptr hlen1 \<noteq> pid then []
         else if icmplen < 16 then []
         else [Line icmplen from (unat (icmp_seq ptr hlen1)) (Some (int (ip_ttl ptr 0)))
                 (rtt_ms (tv_sub tvrecv (rd_timeval ptr (hlen1 + 8))))])
      else if verb then [Other icmplen from (icmp_type ptr hlen1) (icmp_code ptr hlen1)]
      else [])"

text \<open>An item of control data: level, type and value.\<close>

type_synonym cmsg = "int \<times> int \<times> u32"

definition IPPROTO_IPV6 :: int where "IPPROTO_IPV6 = 41"
definition IPV6_HOPLIMIT :: int where "IPV6_HOPLIMIT = 52"

fun find_hlim :: "cmsg list \<Rightarrow> int" where
  "find_hlim [] = - 1"
| "find_hlim ((level, ty, v) # cs) = (if level = IPPROTO_IPV6 \<and> ty = IPV6_HOPLIMIT then sint v else find_hlim cs)"

definition proc_v6 :: "u16 \<Rightarrow> bool \<Rightarrow> byte list \<Rightarrow> nat \<Rightarrow> cmsg list \<Rightarrow> sockaddr \<Rightarrow> timeval \<Rightarrow> ping_out list" where
  "proc_v6 pid verb ptr len cmsgs from tvrecv =
     (if len < 8 then []
      else if icmp_type ptr 0 = ICMP6_ECHO_REPLY then
        (if icmp_id ptr 0 \<noteq> pid then []
         else if len < 16 then []
         else
           let rtt = rtt_ms (tv_sub tvrecv (rd_timeval ptr 8)); hlim = find_hlim cmsgs
           in [Line (int len) from (unat (icmp_seq ptr 0)) (if hlim = - 1 then None else Some hlim) rtt])
      else if verb then [Other (int len) from (icmp_type ptr 0) (icmp_code ptr 0)]
      else [])"

section \<open>The loop\<close>

text \<open>The functions of an address family.\<close>

record ping_proto =
  fproc :: "u16 \<Rightarrow> bool \<Rightarrow> byte list \<Rightarrow> nat \<Rightarrow> cmsg list \<Rightarrow> sockaddr \<Rightarrow> timeval \<Rightarrow> ping_out list"
  fsend :: "u16 \<Rightarrow> nat \<Rightarrow> timeval \<Rightarrow> byte list"

definition ping_v4 :: ping_proto where "ping_v4 = \<lparr>fproc = (\<lambda>pid v ptr len cs. proc_v4 pid v ptr len), fsend = send_v4\<rparr>"
definition ping_v6 :: ping_proto where "ping_v6 = \<lparr>fproc = proc_v6, fsend = send_v6\<rparr>"

record ping_state =
  nsent :: nat
  pingbuf :: "byte list"

text \<open>While \<^verbatim>\<open>recvmsg\<close> waits: the alarm goes off, and its handler sends a request and sets the next
  alarm; a packet comes; another signal interrupts; or the call fails.\<close>

datatype ping_event = Tick timeval | Arrives "byte list" "cmsg list" sockaddr timeval | Interrupted | Fails

definition sig_alrm :: "ping_proto \<Rightarrow> u16 \<Rightarrow> timeval \<Rightarrow> ping_state \<Rightarrow> ping_state \<times> ping_out list" where
  "sig_alrm pr pid tv s = (s\<lparr>nsent := nsent s + 1\<rparr>, [SendTo (fsend pr pid (nsent s) tv)])"

fun readloop :: "ping_proto \<Rightarrow> u16 \<Rightarrow> bool \<Rightarrow> ping_event list \<Rightarrow> ping_state \<Rightarrow> (string + ping_state) \<times> ping_out list" where
  "readloop pr pid verb [] s = (Inr s, [])"
| "readloop pr pid verb (Tick tv # es) s =
     (case sig_alrm pr pid tv s of
        (s', out) \<Rightarrow> (case readloop pr pid verb es s' of (r, out') \<Rightarrow> (r, out @ out')))"
| "readloop pr pid verb (Interrupted # es) s = readloop pr pid verb es s"
| "readloop pr pid verb (Fails # es) s = (Inl ''recvmsg error'', [])"
| "readloop pr pid verb (Arrives d cs from tv # es) s =
     (let buf = recv_into (pingbuf s) d;
          out = fproc pr pid verb buf (min (length d) (length (pingbuf s))) cs from tv
      in case readloop pr pid verb es (s\<lparr>pingbuf := buf\<rparr>) of (r, out') \<Rightarrow> (r, out @ out'))"

text \<open>Of the options only \<^verbatim>\<open>-v\<close> is known, and one argument is the host; the first request is sent
  before the loop.\<close>

datatype ping_opt = PingV | PingBad

fun ping_options :: "ping_opt list \<Rightarrow> bool \<Rightarrow> string + bool" where
  "ping_options [] v = Inr v"
| "ping_options (PingV # os) v = ping_options os True"
| "ping_options (PingBad # os) v = Inl ''unrecognized option: ?''"

definition ping_main :: "ping_opt list \<Rightarrow> nat \<Rightarrow> ping_proto \<Rightarrow> int \<Rightarrow> byte list \<Rightarrow> timeval \<Rightarrow> ping_event list \<Rightarrow>
    (string + ping_state) \<times> ping_out list" where
  "ping_main os args_left pr ident stack tv es =
     (case ping_options os False of
        Inl m \<Rightarrow> (Inl m, [])
      | Inr v \<Rightarrow>
          if args_left \<noteq> 1 then (Inl ''usage: ping [ -v ] <hostname>'', [])
          else
            (case sig_alrm pr (of_int ident) tv \<lparr>nsent = 0, pingbuf = stack\<rparr> of
               (s, out) \<Rightarrow> (case readloop pr (of_int ident) v es s of (r, out') \<Rightarrow> (r, out @ out'))))"

end
