(* ===== verification/Unp_Setup.thy ===== *)
theory Unp_Setup
  imports Prelude
begin

text \<open>
  Setting up sockets, \<^verbatim>\<open>src/unpv13e-master/lib\<close>: \<^verbatim>\<open>tcp_connect.c\<close>,
  \<^verbatim>\<open>tcp_listen.c\<close>, \<^verbatim>\<open>udp_client.c\<close>,
  \<^verbatim>\<open>udp_connect.c\<close> and \<^verbatim>\<open>udp_server.c\<close>, which try the addresses of a
  host in turn, and \<^verbatim>\<open>connect_nonb.c\<close> and \<^verbatim>\<open>connect_timeo.c\<close>, which
  bound the time of a connect.  \<^verbatim>\<open>getaddrinfo\<close> and the kernel are parameters.  The wrappers
  \<^verbatim>\<open>Setsockopt\<close>, \<^verbatim>\<open>Listen\<close>, \<^verbatim>\<open>Fcntl\<close> and \<^verbatim>\<open>Close\<close>, which exit on an
  error, are taken to succeed; the text \<^verbatim>\<open>err_sys\<close> adds for \<^verbatim>\<open>errno\<close> is left out.
\<close>

section \<open>Trying the addresses in turn\<close>

datatype socktype = SOCK_STREAM | SOCK_DGRAM

record hints =
  ai_passive :: bool
  ai_socktype :: socktype

text \<open>An address of the list with what the kernel answers for it: the descriptor \<^verbatim>\<open>socket\<close>
  returns, and whether \<^verbatim>\<open>connect\<close> or \<^verbatim>\<open>bind\<close> succeeds on it.\<close>

record attempt =
  ai_addr :: "byte list"
  sock_fd :: int
  attached :: bool

datatype net_call = OpenSock int | ReuseAddr int | CloseSock int | ListenOn int

text \<open>The loop over the list, which \<^verbatim>\<open>getaddrinfo\<close> never returns empty.\<close>

fun try_each :: "(int \<Rightarrow> net_call list) \<Rightarrow> attempt list \<Rightarrow> attempt option \<times> net_call list" where
  "try_each opts [] = (None, [])"
| "try_each opts (a # as) =
     (if sock_fd a < 0 then try_each opts as
      else if attached a then (Some a, OpenSock (sock_fd a) # opts (sock_fd a))
      else
        (case try_each opts as of
           (r, cs) \<Rightarrow> (r, OpenSock (sock_fd a) # opts (sock_fd a) @ CloseSock (sock_fd a) # cs)))"

text \<open>\<open>Inl\<close> is an exit with its message; \<open>gai\<close> gives the text of its error or the list.\<close>

type_synonym gai = "hints \<Rightarrow> string + attempt list"

definition gai_error :: "string \<Rightarrow> string \<Rightarrow> string \<Rightarrow> string" where
  "gai_error who host serv = who @ '' error for '' @ host @ '', '' @ serv"

definition tcp_connect :: "gai \<Rightarrow> string \<Rightarrow> string \<Rightarrow> (string + int) \<times> net_call list" where
  "tcp_connect gai host serv =
     (case gai \<lparr>ai_passive = False, ai_socktype = SOCK_STREAM\<rparr> of
        Inl e \<Rightarrow> (Inl (gai_error ''tcp_connect'' host serv @ '': '' @ e), [])
      | Inr as \<Rightarrow>
          (case try_each (\<lambda>fd. []) as of
             (None, cs) \<Rightarrow> (Inl (gai_error ''tcp_connect'' host serv), cs)
           | (Some a, cs) \<Rightarrow> (Inr (sock_fd a), cs)))"

text \<open>With the length of the address, for the caller.\<close>

definition tcp_listen :: "gai \<Rightarrow> string \<Rightarrow> string \<Rightarrow> (string + int \<times> nat) \<times> net_call list" where
  "tcp_listen gai host serv =
     (case gai \<lparr>ai_passive = True, ai_socktype = SOCK_STREAM\<rparr> of
        Inl e \<Rightarrow> (Inl (gai_error ''tcp_listen'' host serv @ '': '' @ e), [])
      | Inr as \<Rightarrow>
          (case try_each (\<lambda>fd. [ReuseAddr fd]) as of
             (None, cs) \<Rightarrow> (Inl (gai_error ''tcp_listen'' host serv), cs)
           | (Some a, cs) \<Rightarrow> (Inr (sock_fd a, length (ai_addr a)), cs @ [ListenOn (sock_fd a)])))"

definition udp_connect :: "gai \<Rightarrow> string \<Rightarrow> string \<Rightarrow> (string + int) \<times> net_call list" where
  "udp_connect gai host serv =
     (case gai \<lparr>ai_passive = False, ai_socktype = SOCK_DGRAM\<rparr> of
        Inl e \<Rightarrow> (Inl (gai_error ''udp_connect'' host serv @ '': '' @ e), [])
      | Inr as \<Rightarrow>
          (case try_each (\<lambda>fd. []) as of
             (None, cs) \<Rightarrow> (Inl (gai_error ''udp_connect'' host serv), cs)
           | (Some a, cs) \<Rightarrow> (Inr (sock_fd a), cs)))"

definition udp_server :: "gai \<Rightarrow> string \<Rightarrow> string \<Rightarrow> (string + int \<times> nat) \<times> net_call list" where
  "udp_server gai host serv =
     (case gai \<lparr>ai_passive = True, ai_socktype = SOCK_DGRAM\<rparr> of
        Inl e \<Rightarrow> (Inl (gai_error ''udp_server'' host serv @ '': '' @ e), [])
      | Inr as \<Rightarrow>
          (case try_each (\<lambda>fd. []) as of
             (None, cs) \<Rightarrow> (Inl (gai_error ''udp_server'' host serv), cs)
           | (Some a, cs) \<Rightarrow> (Inr (sock_fd a, length (ai_addr a)), cs)))"

text \<open>The client needs a socket only, and the address it will send to.\<close>

definition udp_client :: "gai \<Rightarrow> string \<Rightarrow> string \<Rightarrow> (string + int \<times> byte list) \<times> net_call list" where
  "udp_client gai host serv =
     (case gai \<lparr>ai_passive = False, ai_socktype = SOCK_DGRAM\<rparr> of
        Inl e \<Rightarrow> (Inl (gai_error ''udp_client'' host serv @ '': '' @ e), [])
      | Inr as \<Rightarrow>
          (case find (\<lambda>a. 0 \<le> sock_fd a) as of
             None \<Rightarrow> (Inl (gai_error ''udp_client'' host serv), [])
           | Some a \<Rightarrow> (Inr (sock_fd a, ai_addr a), [OpenSock (sock_fd a)])))"

section \<open>Bounding the time of a connect\<close>

datatype conn_result = Connected | InProgress | ConnErr int

text \<open>\<^verbatim>\<open>getsockopt\<close> of the pending error: it may itself fail (Solaris), with an error.\<close>

datatype pending = PendErr int | OptFails int

record nonb_env =
  on_connect :: conn_result
  sel_count :: int
  sock_set :: bool
  sock_error :: pending

definition ETIMEDOUT :: int where "ETIMEDOUT = 110"

text \<open>The value returned, \<^verbatim>\<open>errno\<close> on an error, and what becomes of the socket: closed, and
  with its old flags or the old signal handler back.\<close>

record conn_end =
  returned :: int
  err :: int
  sock_closed :: bool
  flags_restored :: bool

definition conn_fail :: "int \<Rightarrow> bool \<Rightarrow> bool \<Rightarrow> conn_end" where
  "conn_fail e c f = \<lparr>returned = - 1, err = e, sock_closed = c, flags_restored = f\<rparr>"

definition conn_done :: "int \<Rightarrow> conn_end" where
  "conn_done e =
     (if e \<noteq> 0 then conn_fail e True True
      else \<lparr>returned = 0, err = 0, sock_closed = False, flags_restored = True\<rparr>)"

definition connect_nonb :: "nonb_env \<Rightarrow> string + conn_end" where
  "connect_nonb e =
     (case on_connect e of
        ConnErr x \<Rightarrow> Inr (conn_fail x False False)
      | Connected \<Rightarrow> Inr (conn_done 0)
      | InProgress \<Rightarrow>
          if sel_count e = 0 then Inr (conn_fail ETIMEDOUT True False)
          else if sock_set e then
            (case sock_error e of
               OptFails x \<Rightarrow> Inr (conn_fail x False False)
             | PendErr x \<Rightarrow> Inr (conn_done x))
          else Inl ''select error: sockfd not set'')"

datatype timeo_result = TConnected | TErr int

definition EINTR :: int where "EINTR = 4"

text \<open>\<open>late\<close>: an alarm was pending; \<open>close_errno\<close>: what \<^verbatim>\<open>close\<close> leaves in
  \<^verbatim>\<open>errno\<close>, unchanged when it succeeds.\<close>

definition connect_timeo :: "bool \<Rightarrow> timeo_result \<Rightarrow> (int \<Rightarrow> int) \<Rightarrow> string list \<times> conn_end" where
  "connect_timeo late r close_errno =
     (if late then [''connect_timeo: alarm was already set''] else [],
      case r of
        TConnected \<Rightarrow> \<lparr>returned = 0, err = 0, sock_closed = False, flags_restored = True\<rparr>
      | TErr x \<Rightarrow> conn_fail (if close_errno x = EINTR then ETIMEDOUT else close_errno x) True True)"

section \<open>Properties\<close>

text \<open>The descriptors still open after some calls.\<close>

definition still_open :: "net_call list \<Rightarrow> int list" where
  "still_open cs = foldl (\<lambda>fds c. case c of OpenSock f \<Rightarrow> f # fds | CloseSock f \<Rightarrow> remove1 f fds | _ \<Rightarrow> fds) [] cs"

definition works :: "attempt \<Rightarrow> bool" where
  "works a \<longleftrightarrow> 0 \<le> sock_fd a \<and> attached a"

lemma try_each_first:
  assumes "\<And>fd c fds. c \<in> set (opts fd) \<Longrightarrow> (case c of OpenSock f \<Rightarrow> f # fds | CloseSock f \<Rightarrow> remove1 f fds | _ \<Rightarrow> fds) = fds"
  shows "try_each opts as = (r, cs) \<Longrightarrow> r = find works as \<and> still_open cs = map sock_fd (case r of None \<Rightarrow> [] | Some a \<Rightarrow> [a])"
proof (induction as arbitrary: r cs)
  case Nil
  then show ?case by (simp add: still_open_def)
next
  case (Cons a as)
  have opts: "foldl (\<lambda>fds c. case c of OpenSock f \<Rightarrow> f # fds | CloseSock f \<Rightarrow> remove1 f fds | _ \<Rightarrow> fds) fds (opts fd) = fds" for fd fds
  proof -
    have "foldl (\<lambda>fds c. case c of OpenSock f \<Rightarrow> f # fds | CloseSock f \<Rightarrow> remove1 f fds | _ \<Rightarrow> fds) fds cs = fds"
      if "set cs \<subseteq> set (opts fd)" for cs
      using that by (induction cs) (use assms in auto)
    then show ?thesis by simp
  qed
  show ?case
    using Cons by (auto simp: works_def still_open_def opts split: if_splits prod.splits)
qed

text \<open>The four functions that connect or bind take the first address for which both calls work, return its
  socket and leave no other socket open; when no address works they leave none open.\<close>

theorem setup_takes_first:
  fixes gai :: gai
  assumes "\<And>h. gai h = Inr as"
  shows "(case tcp_connect gai host serv of
       (Inr fd, cs) \<Rightarrow> (\<exists>a. find works as = Some a \<and> fd = sock_fd a) \<and> still_open cs = [fd]
     | (Inl m, cs) \<Rightarrow> find works as = None \<and> still_open cs = []) \<and>
    (case udp_connect gai host serv of
       (Inr fd, cs) \<Rightarrow> (\<exists>a. find works as = Some a \<and> fd = sock_fd a) \<and> still_open cs = [fd]
     | (Inl m, cs) \<Rightarrow> find works as = None \<and> still_open cs = []) \<and>
    (case tcp_listen gai host serv of
       (Inr (fd, n), cs) \<Rightarrow> (\<exists>a. find works as = Some a \<and> fd = sock_fd a \<and> n = length (ai_addr a)) \<and>
          still_open cs = [fd] \<and> last cs = ListenOn fd
     | (Inl m, cs) \<Rightarrow> find works as = None \<and> still_open cs = []) \<and>
    (case udp_server gai host serv of
       (Inr (fd, n), cs) \<Rightarrow> (\<exists>a. find works as = Some a \<and> fd = sock_fd a \<and> n = length (ai_addr a)) \<and> still_open cs = [fd]
     | (Inl m, cs) \<Rightarrow> find works as = None \<and> still_open cs = [])"
proof -
  have more: "still_open (cs @ [ListenOn fd]) = still_open cs" for cs fd by (simp add: still_open_def)
  obtain r cs where plain: "try_each (\<lambda>fd. []) as = (r, cs)" by (cases "try_each (\<lambda>fd. []) as")
  obtain r' cs' where reuse: "try_each (\<lambda>fd. [ReuseAddr fd]) as = (r', cs')" by (cases "try_each (\<lambda>fd. [ReuseAddr fd]) as")
  have p: "r = find works as" "still_open cs = map sock_fd (case r of None \<Rightarrow> [] | Some a \<Rightarrow> [a])"
    using try_each_first [OF _ plain] by auto
  have q: "r' = find works as" "still_open cs' = map sock_fd (case r' of None \<Rightarrow> [] | Some a \<Rightarrow> [a])"
    using try_each_first [OF _ reuse] by auto
  show ?thesis
    unfolding tcp_connect_def udp_connect_def tcp_listen_def udp_server_def
    using p q by (auto simp: assms plain reuse more split: option.splits)
qed

definition two_addrs :: "attempt list" where
  "two_addrs = [\<lparr>ai_addr = [1, 2, 3, 4], sock_fd = 5, attached = False\<rparr>, \<lparr>ai_addr = [5, 6, 7, 8], sock_fd = 5, attached = True\<rparr>]"

lemma setup_takes_first_witness:
  "tcp_connect (\<lambda>h. Inr two_addrs) ''host'' ''7'' = (Inr 5, [OpenSock 5, CloseSock 5, OpenSock 5]) \<and>
   still_open [OpenSock 5, CloseSock 5, OpenSock 5] = [5]"
proof -
  have "tcp_connect (\<lambda>h. Inr two_addrs) ''host'' ''7'' = (Inr 5, [OpenSock 5, CloseSock 5, OpenSock 5])"
    by (simp add: tcp_connect_def two_addrs_def)
  with setup_takes_first [of "\<lambda>h. Inr two_addrs" two_addrs "''host''" "''7''"] show ?thesis by simp
qed

text \<open>A connect that succeeded has its socket open and its flags restored; after a failure the caller cannot tell
  from the return value whether the socket is closed.\<close>

lemma connect_nonb_ok:
  "connect_nonb e = Inr r \<Longrightarrow> returned r = 0 \<Longrightarrow> \<not> sock_closed r \<and> flags_restored r"
  by (auto simp: connect_nonb_def conn_fail_def conn_done_def split: conn_result.splits pending.splits if_splits)

lemma connect_nonb_leaves_open:
  "connect_nonb \<lparr>on_connect = ConnErr 111, sel_count = 0, sock_set = False, sock_error = PendErr 0\<rparr> =
     Inr \<lparr>returned = - 1, err = 111, sock_closed = False, flags_restored = False\<rparr>"
  "connect_nonb \<lparr>on_connect = InProgress, sel_count = 1, sock_set = True, sock_error = PendErr 111\<rparr> =
     Inr \<lparr>returned = - 1, err = 111, sock_closed = True, flags_restored = True\<rparr>"
  by (simp_all add: connect_nonb_def conn_fail_def conn_done_def)

end
