(* ===== verification/Unp_Gai.thy ===== *)
theory Unp_Gai
  imports Unp_Addr
begin

text \<open>
  The name and service resolver of the UNP libraries, \<^verbatim>\<open>src/unpv13e-master/libfree/getaddrinfo.c\<close>.
  \<^verbatim>\<open>gethostbyname\<close> and \<^verbatim>\<open>getservbyname\<close> of the C library are parameters; numeric
  hosts are read by the library's own \<^verbatim>\<open>inet_pton\<close>.  Whether the file is compiled for IPv6
  depends on the system's headers and is a parameter, too.  Allocation is taken to succeed.
\<close>

section \<open>Data\<close>

abbreviation AF_UNSPEC :: family where "AF_UNSPEC \<equiv> AF_other 0"

abbreviation AF_LOCAL :: family where "AF_LOCAL \<equiv> AF_other 1"

definition STREAM :: int where "STREAM = 1"
definition DGRAM :: int where "DGRAM = 2"
definition RAW :: int where "RAW = 3"

definition AI_PASSIVE :: u32 where "AI_PASSIVE = 1"
definition AI_CANONNAME :: u32 where "AI_CANONNAME = 2"
definition AI_CLONE :: u32 where "AI_CLONE = 4"

datatype eai = EAI_ADDRFAMILY | EAI_AGAIN | EAI_BADFLAGS | EAI_FAIL | EAI_FAMILY | EAI_NODATA | EAI_NONAME
  | EAI_SERVICE | EAI_SOCKTYPE

text \<open>The caller's hints, and an entry of the list that is built.\<close>

record gai_hints =
  h_flags :: u32
  h_family :: family
  h_socktype :: int
  h_protocol :: int

record ainfo =
  f_flags :: u32
  f_family :: family
  f_socktype :: int
  f_protocol :: int
  f_addr :: "sockaddr option"
  f_canonname :: "string option"

record hostent =
  h_name :: "string option"
  h_addrtype :: family
  h_addr_list :: "byte list list"

datatype herr = HOST_NOT_FOUND | TRY_AGAIN | NO_RECOVERY | NO_DATA | HErr int

text \<open>\<open>by_name\<close> is told whether 16-byte addresses are wanted; that option of the resolver is set by a call for
  IPv6 and never cleared: \<open>res_inet6\<close> says whether an earlier call has set it.  A service has its port in network
  order.  \<open>null_head\<close>: the indeterminate pointer \<^verbatim>\<open>aihead\<close> happens to be null.\<close>

record gai_env =
  ipv6 :: bool
  by_name :: "bool \<Rightarrow> string \<Rightarrow> herr + hostent"
  res_inet6 :: bool
  by_serv :: "string \<Rightarrow> string \<Rightarrow> u16 option"
  null_head :: bool

definition hints_default :: gai_hints where
  "hints_default = \<lparr>h_flags = 0, h_family = AF_UNSPEC, h_socktype = 0, h_protocol = 0\<rparr>"

text \<open>A null pointer and an empty string mean the same to the function.\<close>

definition no_text :: "string option \<Rightarrow> bool" where
  "no_text s \<longleftrightarrow> s = None \<or> s = Some []"

definition is_path :: "string option \<Rightarrow> bool" where
  "is_path s \<longleftrightarrow> (case s of Some (c # cs) \<Rightarrow> c = CHR ''/'' | _ \<Rightarrow> False)"

section \<open>The arguments\<close>

definition check_hints :: "gai_env \<Rightarrow> gai_hints \<Rightarrow> eai option" where
  "check_hints e h =
     (let inet = (if h_socktype h \<noteq> 0 \<and> h_socktype h \<notin> {STREAM, DGRAM, RAW} then Some EAI_SOCKTYPE else None);
          local = (if h_socktype h \<noteq> 0 \<and> h_socktype h \<notin> {STREAM, DGRAM} then Some EAI_SOCKTYPE else None)
      in if h_flags h AND NOT (AI_PASSIVE OR AI_CANONNAME) \<noteq> 0 then Some EAI_BADFLAGS
         else if h_family h = AF_UNSPEC then None
         else if h_family h = AF_INET then inet
         else if h_family h = AF_INET6 \<and> ipv6 e then inet
         else if h_family h = AF_LOCAL then local
         else Some EAI_FAMILY)"

text \<open>The host when none is given: the wildcard address for a passive open, else the local host.\<close>

definition default_host :: "gai_env \<Rightarrow> string option \<Rightarrow> gai_hints \<Rightarrow> eai + string option" where
  "default_host e serv h =
     (if no_text serv then Inl EAI_NONAME
      else if h_flags h AND AI_PASSIVE \<noteq> 0 then
        (if h_family h = AF_INET then Inr (Some ''0.0.0.0'')
         else if h_family h = AF_INET6 \<and> ipv6 e then Inr (Some ''0::0'')
         else if h_family h = AF_LOCAL then (if is_path serv then Inr None else Inl EAI_ADDRFAMILY)
         else if h_family h = AF_UNSPEC then Inl EAI_ADDRFAMILY
         else Inr None)
      else Inr (Some ''localhost''))"

text \<open>A literal address fixes a family that was left open.\<close>

definition literal_family :: "gai_env \<Rightarrow> string \<Rightarrow> gai_hints \<Rightarrow> gai_hints" where
  "literal_family e host h =
     (if h_family h \<noteq> AF_UNSPEC then h
      else
        let h' = (if inet_pton4 host \<noteq> None then h\<lparr>h_family := AF_INET\<rparr> else h)
        in if ipv6 e \<and> inet_pton6 host \<noteq> None then h'\<lparr>h_family := AF_INET6\<rparr> else h')"

text \<open>A pathname stands for a socket of the Unix domain; the second component says whether an old one is
  unlinked.  \<^verbatim>\<open>strncpy\<close> leaves a path of 108 characters or more without its zero.\<close>

definition addrinfo_local :: "string \<Rightarrow> gai_hints \<Rightarrow> eai + ainfo list \<times> bool" where
  "addrinfo_local path h =
     (if h_socktype h = 0 then Inl EAI_SOCKTYPE
      else
        Inr ([\<lparr>f_flags = 0, f_family = AF_LOCAL, f_socktype = h_socktype h, f_protocol = 0,
               f_addr = Some (Sun (take 108 path)), f_canonname = None\<rparr>],
             h_flags h AND AI_PASSIVE \<noteq> 0))"

section \<open>The host\<close>

definition host_error :: "herr \<Rightarrow> eai" where
  "host_error x =
     (case x of HOST_NOT_FOUND \<Rightarrow> EAI_NONAME | TRY_AGAIN \<Rightarrow> EAI_AGAIN | NO_RECOVERY \<Rightarrow> EAI_FAIL
      | NO_DATA \<Rightarrow> EAI_NODATA | HErr _ \<Rightarrow> EAI_NONAME)"

definition HENTBUFSIZ :: nat where "HENTBUFSIZ = 8192"

definition literal_host :: "string \<Rightarrow> family \<Rightarrow> byte list \<Rightarrow> hostent" where
  "literal_host host af a = \<lparr>h_name = Some (take (HENTBUFSIZ - 1) host), h_addrtype = af, h_addr_list = [a]\<rparr>"

definition getaddrinfo_host :: "gai_env \<Rightarrow> string \<Rightarrow> family \<Rightarrow> eai + hostent" where
  "getaddrinfo_host e host af =
     (case (if host \<noteq> [] \<and> isdigit (hd host) then inet_pton4 host else None) of
        Some a \<Rightarrow> Inr (literal_host host AF_INET a)
      | None \<Rightarrow>
          (case (if ipv6 e \<and> host \<noteq> [] \<and> (hex_digit (hd host) \<noteq> None \<or> hd host = CHR '':'')
                 then inet_pton6 host else None) of
             Some a \<Rightarrow> Inr (literal_host host AF_INET6 a)
           | None \<Rightarrow>
               (case by_name e (res_inet6 e \<or> ipv6 e \<and> af = AF_INET6) host of
                  Inl x \<Rightarrow> Inl (host_error x)
                | Inr hent \<Rightarrow> Inr hent)))"

text \<open>An entry for each address, its port still 0.\<close>

definition host_entry :: "gai_env \<Rightarrow> gai_hints \<Rightarrow> family \<Rightarrow> byte list \<Rightarrow> ainfo" where
  "host_entry e h af a =
     \<lparr>f_flags = (if h_socktype h = 0 then AI_CLONE else 0), f_family = af, f_socktype = h_socktype h,
      f_protocol = h_protocol h,
      f_addr =
        (if af = AF_INET then Some (Sin (take 4 a) 0)
         else if af = AF_INET6 \<and> ipv6 e then Some (Sin6 (take 16 a) 0) else None),
      f_canonname = None\<rparr>"

definition set_canonname :: "string \<Rightarrow> hostent \<Rightarrow> gai_hints \<Rightarrow> ainfo list \<Rightarrow> ainfo list" where
  "set_canonname host hent h ais =
     (if h_flags h AND AI_CANONNAME \<noteq> 0 then
        (case ais of
           ai # rest \<Rightarrow> ai\<lparr>f_canonname := Some (case h_name hent of Some n \<Rightarrow> n | None \<Rightarrow> host)\<rparr> # rest
         | [] \<Rightarrow> [])
      else ais)"

section \<open>The service\<close>

definition clone_entry :: "ainfo \<Rightarrow> ainfo" where
  "clone_entry ai = ai\<lparr>f_flags := 0, f_canonname := None\<rparr>"

text \<open>The socket type and the port of one entry, and whether it counts as found.\<close>

definition set_port :: "gai_env \<Rightarrow> u16 \<Rightarrow> int \<Rightarrow> ainfo \<Rightarrow> ainfo \<times> nat" where
  "set_port e port st ai =
     (let ai' = ai\<lparr>f_socktype := st\<rparr> in
      case (f_family ai, f_addr ai) of
        (AF_INET, Some (Sin a _)) \<Rightarrow> (ai'\<lparr>f_addr := Some (Sin a port)\<rparr>, 1)
      | (AF_INET6, Some (Sin6 a _)) \<Rightarrow> (ai'\<lparr>f_addr := Some (Sin6 a port)\<rparr>, 1)
      | _ \<Rightarrow> (ai', 0))"

text \<open>The walk over the list: an entry for any socket type that already has one is cloned behind itself, and
  the clone is the one that gets this type.\<close>

fun getaddrinfo_port :: "gai_env \<Rightarrow> u16 \<Rightarrow> int \<Rightarrow> ainfo list \<Rightarrow> ainfo list \<times> nat" where
  "getaddrinfo_port e port st [] = ([], 0)"
| "getaddrinfo_port e port st (ai # ais) =
     (case getaddrinfo_port e port st ais of
        (rest, n) \<Rightarrow>
          if f_flags ai AND AI_CLONE \<noteq> 0 then
            (if f_socktype ai \<noteq> 0 then
               (case set_port e port st (clone_entry ai) of (new, k) \<Rightarrow> (ai # new # rest, k + n))
             else (case set_port e port st ai of (ai', k) \<Rightarrow> (ai' # rest, k + n)))
          else if f_socktype ai \<noteq> st then (ai # rest, n)
          else (case set_port e port st ai of (ai', k) \<Rightarrow> (ai' # rest, k + n)))"

definition try_serv :: "gai_env \<Rightarrow> gai_hints \<Rightarrow> string \<Rightarrow> string \<Rightarrow> int \<Rightarrow> ainfo list \<times> nat \<Rightarrow> ainfo list \<times> nat" where
  "try_serv e h serv proto st x =
     (if h_socktype h = 0 \<or> h_socktype h = st then
        (case by_serv e serv proto of
           None \<Rightarrow> x
         | Some port \<Rightarrow> (case getaddrinfo_port e port st (fst x) of (ais, n) \<Rightarrow> (ais, snd x + n)))
      else x)"

definition getaddrinfo_serv :: "gai_env \<Rightarrow> gai_hints \<Rightarrow> string \<Rightarrow> ainfo list \<Rightarrow> eai + ainfo list" where
  "getaddrinfo_serv e h serv ais =
     (if serv \<noteq> [] \<and> isdigit (hd serv) \<and> h_socktype h \<noteq> 0 then
        (case getaddrinfo_port e (htons (word_of_int (atoi serv))) (h_socktype h) ais of
           (ais', n) \<Rightarrow> if n = 0 then Inl EAI_NONAME else Inr ais')
      else
        (case try_serv e h serv ''udp'' DGRAM (try_serv e h serv ''tcp'' STREAM (ais, 0)) of
           (ais', n) \<Rightarrow>
             if n = 0 then Inl (if h_socktype h = 0 then EAI_NONAME else EAI_SERVICE) else Inr ais'))"

section \<open>The whole function\<close>

text \<open>An error before the list is begun frees an indeterminate pointer.\<close>

datatype gai_result = GaiErr eai | GaiOk "ainfo list" bool | GaiUndef

definition bad :: "gai_env \<Rightarrow> eai \<Rightarrow> gai_result" where
  "bad e x = (if null_head e then GaiErr x else GaiUndef)"

definition local_result :: "string \<Rightarrow> gai_hints \<Rightarrow> gai_result" where
  "local_result path h =
     (case addrinfo_local path h of Inl x \<Rightarrow> GaiErr x | Inr (ais, unlinks) \<Rightarrow> GaiOk ais unlinks)"

text \<open>From the look-up of the host on; the canonical name is written through a null pointer when no address
  came.\<close>

definition gai_lookup :: "gai_env \<Rightarrow> string \<Rightarrow> string option \<Rightarrow> gai_hints \<Rightarrow> gai_result" where
  "gai_lookup e host serv h =
     (case getaddrinfo_host e host (h_family h) of
        Inl x \<Rightarrow> bad e x
      | Inr hent \<Rightarrow>
          if h_family h \<noteq> AF_UNSPEC \<and> h_family h \<noteq> h_addrtype hent then bad e EAI_ADDRFAMILY
          else
            (let ais = map (host_entry e h (h_addrtype hent)) (h_addr_list hent) in
             if ais = [] \<and> h_flags h AND AI_CANONNAME \<noteq> 0 then GaiUndef
             else
               (let ais' = set_canonname host hent h ais in
                case serv of
                  Some (c # cs) \<Rightarrow>
                    (case getaddrinfo_serv e h (c # cs) ais' of
                       Inl x \<Rightarrow> GaiErr x | Inr ais'' \<Rightarrow> GaiOk ais'' False)
                | _ \<Rightarrow> GaiOk ais' False)))"

definition getaddrinfo :: "gai_env \<Rightarrow> string option \<Rightarrow> string option \<Rightarrow> gai_hints option \<Rightarrow> gai_result" where
  "getaddrinfo e host serv hp =
     (let h = (case hp of None \<Rightarrow> hints_default | Some h \<Rightarrow> h) in
      case check_hints e h of
        Some x \<Rightarrow> bad e x
      | None \<Rightarrow>
          (case (if no_text host then default_host e serv h else Inr host) of
             Inl x \<Rightarrow> bad e x
           | Inr host' \<Rightarrow>
               (let h' = (if no_text host then h else literal_family e (the host) h) in
                if is_path host' then local_result (the host') h'
                else if is_path serv then local_result (the serv) h'
                else case host' of
                  Some name \<Rightarrow> gai_lookup e name serv h'
                | None \<Rightarrow> GaiUndef)))"

section \<open>The reverse\<close>

text \<open>\<^verbatim>\<open>getnameinfo.c\<close>.  \<^verbatim>\<open>strncpy\<close> pads with zeros, and leaves no
  zero when the name fills the array.\<close>

definition strncpy_to :: "nat \<Rightarrow> string \<Rightarrow> string" where
  "strncpy_to n s = take n (s @ replicate n NUL)"

text \<open>The value returned, and what was written to the caller's arrays.  \<open>by_addr\<close> and \<open>by_port\<close> are
  \<^verbatim>\<open>gethostbyaddr\<close> and \<^verbatim>\<open>getservbyport\<close>, \<open>None\<close> when they find no name.\<close>

record nameinfo =
  status :: int
  host_out :: "string option"
  serv_out :: "string option"

definition do_ipv46 :: "(byte list \<Rightarrow> family \<Rightarrow> string option) \<Rightarrow> (u16 \<Rightarrow> string option) \<Rightarrow> nat \<Rightarrow> nat \<Rightarrow>
    byte list \<Rightarrow> family \<Rightarrow> u16 \<Rightarrow> nameinfo" where
  "do_ipv46 by_addr by_port hostlen servlen a af port =
     (let host = (if 0 < hostlen then map_option (strncpy_to hostlen) (by_addr a af) else None) in
      if 0 < hostlen \<and> host = None then \<lparr>status = 1, host_out = None, serv_out = None\<rparr>
      else
        (let serv = (if 0 < servlen then map_option (strncpy_to servlen) (by_port port) else None) in
         \<lparr>status = (if 0 < servlen \<and> serv = None then 1 else 0), host_out = host, serv_out = serv\<rparr>))"

definition getnameinfo :: "(byte list \<Rightarrow> family \<Rightarrow> string option) \<Rightarrow> (u16 \<Rightarrow> string option) \<Rightarrow> bool \<Rightarrow>
    sockaddr \<Rightarrow> nat \<Rightarrow> nat \<Rightarrow> nameinfo" where
  "getnameinfo by_addr by_port v6 sa hostlen servlen =
     (case sa of
        Sin a port \<Rightarrow> do_ipv46 by_addr by_port hostlen servlen a AF_INET port
      | Sin6 a port \<Rightarrow>
          if v6 then do_ipv46 by_addr by_port hostlen servlen a AF_INET6 port
          else \<lparr>status = 1, host_out = None, serv_out = None\<rparr>
      | _ \<Rightarrow> \<lparr>status = 1, host_out = None, serv_out = None\<rparr>)"

text \<open>A name as long as the array is written without its terminating zero, and the call succeeds.\<close>

lemma getnameinfo_unterminated:
  assumes "by_addr a AF_INET = Some name" "NUL \<notin> set name" "0 < hostlen" "hostlen \<le> length name"
  shows "getnameinfo by_addr by_port v6 (Sin a port) hostlen 0 = \<lparr>status = 0, host_out = Some (take hostlen name), serv_out = None\<rparr>"
    "NUL \<notin> set (take hostlen name)"
  using assms set_take_subset [of hostlen name] by (auto simp: getnameinfo_def do_ipv46_def strncpy_to_def)

end
