(* ===== verification/Unp_Gai_Props.thy ===== *)
theory Unp_Gai_Props
  imports Unp_Gai Unp_Ip6_Props
begin

text \<open>The properties of the resolver: an entry for each address and each kind of socket in the documented order,
  literal addresses without a look-up, and the errors that cannot be reported.\<close>

section \<open>Socket types\<close>

text \<open>An entry of an IPv4 host.\<close>

definition v4_entry :: "int \<Rightarrow> u32 \<Rightarrow> int \<Rightarrow> u16 \<Rightarrow> string option \<Rightarrow> byte list \<Rightarrow> ainfo" where
  "v4_entry proto fl st port cn a =
     \<lparr>f_flags = fl, f_family = AF_INET, f_socktype = st, f_protocol = proto, f_addr = Some (Sin a port),
      f_canonname = cn\<rparr>"

lemma clone_bit: "AI_CLONE \<noteq> 0" "(0 :: u32) AND AI_CLONE = 0"
  by (simp_all add: AI_CLONE_def)

text \<open>The first service found sets the types of the fresh entries, the second one clones them.\<close>

lemma port_fresh:
  "getaddrinfo_port e port st (map (v4_entry p AI_CLONE 0 0 None) as) =
   (map (v4_entry p AI_CLONE st port None) as, length as)"
  by (induction as) (simp_all add: v4_entry_def set_port_def clone_bit)

lemma port_clone:
  "st1 \<noteq> 0 \<Longrightarrow> getaddrinfo_port e port st (map (v4_entry p AI_CLONE st1 port1 None) as) =
   (concat (map (\<lambda>a. [v4_entry p AI_CLONE st1 port1 None a, v4_entry p 0 st port None a]) as), length as)"
  by (induction as) (simp_all add: v4_entry_def set_port_def clone_bit clone_entry_def)

definition expected :: "u16 option \<Rightarrow> u16 option \<Rightarrow> int \<Rightarrow> byte list \<Rightarrow> ainfo list" where
  "expected tcp udp p a =
     (case (tcp, udp) of
        (Some t, Some u) \<Rightarrow> [v4_entry p AI_CLONE STREAM t None a, v4_entry p 0 DGRAM u None a]
      | (Some t, None) \<Rightarrow> [v4_entry p AI_CLONE STREAM t None a]
      | (None, Some u) \<Rightarrow> [v4_entry p AI_CLONE DGRAM u None a]
      | (None, None) \<Rightarrow> [])"

lemma serv_any:
  assumes "h_socktype h = 0" "as \<noteq> []" "by_serv e sv ''tcp'' = tcp" "by_serv e sv ''udp'' = udp"
  shows "getaddrinfo_serv e h sv (map (v4_entry p AI_CLONE 0 0 None) as) =
    (if tcp = None \<and> udp = None then Inl EAI_NONAME else Inr (concat (map (expected tcp udp p) as)))"
proof -
  have single: "concat (map (\<lambda>a. [f a]) as) = map f as" for f :: "byte list \<Rightarrow> ainfo" by (induction as) auto
  have ne: "STREAM \<noteq> 0" by (simp add: STREAM_def)
  show ?thesis
    using assms by (cases tcp; cases udp)
      (simp_all add: getaddrinfo_serv_def try_serv_def port_fresh port_clone [OF ne] expected_def [abs_def] single)
qed

definition host_name :: "string \<Rightarrow> bool" where
  "host_name s \<longleftrightarrow> s \<noteq> [] \<and> hd s \<noteq> CHR ''/'' \<and> inet_pton4 s = None"

lemma not_path: "s \<noteq> [] \<Longrightarrow> hd s \<noteq> CHR ''/'' \<Longrightarrow> \<not> is_path (Some s) \<and> \<not> no_text (Some s)"
  by (cases s) (auto simp: is_path_def no_text_def)

text \<open>Without hints, a host with several addresses and a service over TCP, UDP or both give the entries the
  comment documents: for each address in turn a stream entry with the TCP port and a datagram entry with the UDP
  port; a service over neither is an error.\<close>

theorem gai_entry_per_address_and_type:
  assumes "host_name name" "\<not> ipv6 e"
    "by_name e (res_inet6 e) name = Inr \<lparr>h_name = hn, h_addrtype = AF_INET, h_addr_list = as\<rparr>"
    "as \<noteq> []" "list_all (\<lambda>a. length a = 4) as"
    "sv \<noteq> []" "hd sv \<noteq> CHR ''/''"
  shows "getaddrinfo e (Some name) (Some sv) None =
    (if by_serv e sv ''tcp'' = None \<and> by_serv e sv ''udp'' = None then GaiErr EAI_NONAME
     else GaiOk (concat (map (expected (by_serv e sv ''tcp'') (by_serv e sv ''udp'') 0) as)) False)"
proof -
  have entries: "map (host_entry e hints_default AF_INET) as = map (v4_entry 0 AI_CLONE 0 0 None) as"
    using assms(5) by (auto simp: host_entry_def v4_entry_def hints_default_def list_all_iff)
  have host: "getaddrinfo_host e name AF_UNSPEC = Inr \<lparr>h_name = hn, h_addrtype = AF_INET, h_addr_list = as\<rparr>"
    using assms(1-3) by (auto simp: getaddrinfo_host_def host_name_def)
  have lit: "literal_family e name hints_default = hints_default"
    using assms(1,2) by (simp add: literal_family_def host_name_def hints_default_def)
  have check: "check_hints e hints_default = None" by (simp add: check_hints_def hints_default_def)
  have serv: "getaddrinfo_serv e hints_default sv (map (v4_entry 0 AI_CLONE 0 0 None) as) =
      (if by_serv e sv ''tcp'' = None \<and> by_serv e sv ''udp'' = None then Inl EAI_NONAME
       else Inr (concat (map (expected (by_serv e sv ''tcp'') (by_serv e sv ''udp'') 0) as)))"
    by (rule serv_any [OF _ assms(4) refl refl]) (simp add: hints_default_def)
  obtain c cs where sv: "sv = c # cs" using assms(6) by (cases sv) auto
  have fam: "h_family hints_default = AF_UNSPEC" "h_flags hints_default = 0" by (simp_all add: hints_default_def)
  have "gai_lookup e name (Some sv) hints_default =
      (case getaddrinfo_serv e hints_default sv (map (v4_entry 0 AI_CLONE 0 0 None) as) of
         Inl x \<Rightarrow> GaiErr x | Inr ais \<Rightarrow> GaiOk ais False)"
    unfolding gai_lookup_def fam host using assms(4) by (simp add: Let_def entries set_canonname_def fam sv)
  then show ?thesis
    using not_path [of name] not_path [of sv] assms(1,6,7)
    by (simp add: getaddrinfo_def check lit host_name_def serv Let_def)
qed

text \<open>A host with two addresses and a service over both protocols.\<close>

definition two_homes :: gai_env where
  "two_homes = \<lparr>ipv6 = False,
     by_name = (\<lambda>b s. Inr \<lparr>h_name = Some ''rpi'', h_addrtype = AF_INET, h_addr_list = [[128, 113, 0, 2], [10, 0, 0, 1]]\<rparr>),
     res_inet6 = False, by_serv = (\<lambda>s proto. Some (htons 13)), null_head = False\<rparr>"

lemma gai_entry_per_address_and_type_witness:
  "getaddrinfo two_homes (Some ''rpi'') (Some ''daytime'') None =
   GaiOk [v4_entry 0 AI_CLONE STREAM (htons 13) None [128, 113, 0, 2], v4_entry 0 0 DGRAM (htons 13) None [128, 113, 0, 2],
     v4_entry 0 AI_CLONE STREAM (htons 13) None [10, 0, 0, 1], v4_entry 0 0 DGRAM (htons 13) None [10, 0, 0, 1]] False"
proof -
  have "inet_pton4 ''rpi'' = None" by code_simp
  then have "host_name ''rpi''" by (simp add: host_name_def)
  from gai_entry_per_address_and_type [OF this, of two_homes "Some ''rpi''" "[[128, 113, 0, 2], [10, 0, 0, 1]]" "''daytime''"]
  show ?thesis by (simp add: two_homes_def expected_def)
qed

section \<open>Literal addresses\<close>

lemma dec_first_digit: "\<exists>d cs. dec n = d # cs \<and> isdigit d"
proof -
  obtain d cs where "dec n = d # cs" by (cases "dec n") auto
  with dec_digits [of d n] show ?thesis by auto
qed

lemma quad_head: "\<exists>d cs. quad a = d # cs \<and> isdigit d"
  using dec_first_digit [of "unat (a ! 0)"] by (auto simp: quad_def)

text \<open>The text \<^verbatim>\<open>inet_ntop\<close> gives for an IPv4 address is resolved to exactly that
  address, for any socket type the family has and without asking the name service; a numeric service puts its
  number, cut to sixteen bits, in the port.\<close>

theorem gai_literal:
  assumes "length a = 4" "\<not> ipv6 e" "st \<in> {STREAM, DGRAM, RAW}" "isdigit d"
    "h = \<lparr>h_flags = 0, h_family = AF_UNSPEC, h_socktype = st, h_protocol = p\<rparr>"
  shows "getaddrinfo e (Some (quad a)) (Some (d # ds)) (Some h) =
    GaiOk [v4_entry p 0 st (htons (word_of_int (atoi (d # ds)))) None a] False"
proof -
  obtain q qs where q: "quad a = q # qs" "isdigit q" using quad_head by blast
  have slash: "\<not> isdigit CHR ''/''" by (simp add: isdigit_def code_def)
  have st: "st \<noteq> 0" using assms(3) by (auto simp: STREAM_def DGRAM_def RAW_def)
  have pton: "inet_pton4 (quad a) = Some a" by (rule pton4_quad [OF assms(1)])
  let ?h = "h\<lparr>h_family := AF_INET\<rparr>"
  have check: "check_hints e h = None" using assms(5) by (simp add: check_hints_def)
  have lit: "literal_family e (quad a) h = ?h" using assms(2,5) pton by (simp add: literal_family_def)
  have host: "getaddrinfo_host e (quad a) AF_INET = Inr (literal_host (quad a) AF_INET a)"
    using q pton by (simp add: getaddrinfo_host_def)
  have entry: "host_entry e ?h AF_INET a = v4_entry p 0 st 0 None a"
    using assms(1,5) st by (simp add: host_entry_def v4_entry_def)
  have serv: "getaddrinfo_serv e ?h (d # ds) [v4_entry p 0 st 0 None a] =
      Inr [v4_entry p 0 st (htons (word_of_int (atoi (d # ds)))) None a]"
    using assms(4,5) st by (simp add: getaddrinfo_serv_def clone_bit v4_entry_def set_port_def)
  have "gai_lookup e (quad a) (Some (d # ds)) ?h = GaiOk [v4_entry p 0 st (htons (word_of_int (atoi (d # ds)))) None a] False"
    using host entry serv by (simp add: gai_lookup_def literal_host_def set_canonname_def assms(5))
  moreover have "\<not> is_path (Some (quad a))" "\<not> no_text (Some (quad a))" "\<not> is_path (Some (d # ds))"
    using q slash assms(4) by (auto simp: is_path_def no_text_def)
  ultimately show ?thesis by (simp add: getaddrinfo_def check lit Let_def)
qed

lemma gai_literal_witness:
  "getaddrinfo two_homes (Some (quad [10, 0, 2, 15])) (Some ''69'')
     (Some \<lparr>h_flags = 0, h_family = AF_UNSPEC, h_socktype = DGRAM, h_protocol = 0\<rparr>) =
   GaiOk [v4_entry 0 0 DGRAM (htons (word_of_int (atoi ''69''))) None [10, 0, 2, 15]] False"
  by (rule gai_literal) (simp_all add: two_homes_def isdigit_def code_def)

section \<open>Errors\<close>

lemma serv_errors: "getaddrinfo_serv e h sv ais = Inl x \<Longrightarrow> x \<in> {EAI_NONAME, EAI_SERVICE}"
  by (auto simp: getaddrinfo_serv_def split: if_splits prod.splits)

text \<open>An error before the list of addresses is begun frees the pointer \<^verbatim>\<open>aihead\<close> before
  anything was assigned to it.  Unless it happens to be null, the only errors the caller can see are those of the
  service and of the socket type of a pathname: never a bad flag, an unknown family or a failing name
  service.\<close>

theorem gai_early_errors_undefined:
  assumes "\<not> null_head e" "getaddrinfo e host serv hp = GaiErr x"
  shows "x \<in> {EAI_NONAME, EAI_SERVICE, EAI_SOCKTYPE} \<and> (x \<noteq> EAI_SOCKTYPE \<longrightarrow> \<not> no_text serv)"
proof -
  have bad: "bad e y \<noteq> GaiErr x" for y using assms(1) by (simp add: bad_def)
  have lookup: "x \<in> {EAI_NONAME, EAI_SERVICE} \<and> \<not> no_text serv" if "gai_lookup e name serv h = GaiErr x" for name h
    using that bad serv_errors
    by (auto simp: gai_lookup_def Let_def no_text_def split: sum.splits if_splits option.splits list.splits)
  have local: "x = EAI_SOCKTYPE" if "local_result path h = GaiErr x" for path h
    using that by (auto simp: local_result_def addrinfo_local_def split: if_splits)
  show ?thesis
    using assms(2) bad lookup local
    by (auto simp: getaddrinfo_def Let_def split: option.splits sum.splits if_splits)
qed

lemma gai_early_errors_undefined_witness:
  "getaddrinfo two_homes None (Some ''/tmp/s'') None = GaiErr EAI_SOCKTYPE \<and>
   EAI_SOCKTYPE \<in> {EAI_NONAME, EAI_SERVICE, EAI_SOCKTYPE}"
proof -
  have "getaddrinfo two_homes None (Some ''/tmp/s'') None = GaiErr EAI_SOCKTYPE"
    by (simp add: getaddrinfo_def check_hints_def hints_default_def default_host_def no_text_def is_path_def
        local_result_def addrinfo_local_def)
  with gai_early_errors_undefined [of two_homes None "Some ''/tmp/s''" None EAI_SOCKTYPE] show ?thesis
    by (simp add: two_homes_def)
qed

text \<open>A passive open without a host and with the family left open is such an error: what
  \<^verbatim>\<open>tcp_listen\<close> asks for when a server is started with a port only.\<close>

lemma gai_passive_wildcard:
  assumes "\<not> no_text serv"
  shows "getaddrinfo e None serv (Some \<lparr>h_flags = AI_PASSIVE, h_family = AF_UNSPEC, h_socktype = STREAM, h_protocol = 0\<rparr>) =
    bad e EAI_ADDRFAMILY"
proof -
  let ?h = "\<lparr>h_flags = AI_PASSIVE, h_family = AF_UNSPEC, h_socktype = STREAM, h_protocol = 0\<rparr>"
  have "check_hints e ?h = None" by (simp add: check_hints_def AI_PASSIVE_def AI_CANONNAME_def)
  moreover have "default_host e serv ?h = Inl EAI_ADDRFAMILY"
    using assms by (simp add: default_host_def AI_PASSIVE_def)
  ultimately show ?thesis by (simp add: getaddrinfo_def Let_def no_text_def)
qed

end
