(* ===== verification/Unp_Gai2.thy ===== *)
theory Unp_Gai2
  imports Unp_Gai
begin

text \<open>
  The later version of the resolver, in several files of \<^verbatim>\<open>src/unpv13e-master/libgai\<close>.  It searches
  for a host that has no family under both, IPv6 first, and knows the Unix domain by the host names
  \<^verbatim>\<open>/local\<close> and \<^verbatim>\<open>/unix\<close>.  The data, the clone of an entry and the walk over the
  ports are those of \<open>Unp_Gai\<close>; the resolver's functions of the C library are parameters; allocation is taken to succeed.
\<close>

section \<open>The environment\<close>

text \<open>\<open>name2\<close> is \<^verbatim>\<open>gethostbyname2\<close>, \<open>name1\<close> \<^verbatim>\<open>gethostbyname\<close> under the option
  that asks for 16-byte addresses, \<open>serv\<close> \<^verbatim>\<open>getservbyname\<close>, \<open>node\<close> the name of
  \<^verbatim>\<open>uname\<close>.  \<open>res_opt\<close>: the option as other code of the program left it.\<close>

record ga_env =
  v6 :: bool
  name1 :: "bool \<Rightarrow> string \<Rightarrow> herr + hostent"
  name2 :: "family \<Rightarrow> string \<Rightarrow> hostent option"
  serv :: "string \<Rightarrow> string \<Rightarrow> u16 option"
  node :: "string option"
  res_opt :: bool

datatype ga_error = Gai eai | EAI_SYSTEM

text \<open>\<open>GaExit\<close>: the library ends the program.  The flag tells whether a file of the name is unlinked.\<close>

datatype ga_result = GaErr ga_error | GaOk "ainfo list" bool | GaExit string

section \<open>Checks\<close>

definition ga_echeck :: "ga_env \<Rightarrow> string option \<Rightarrow> string option \<Rightarrow> gai_hints \<Rightarrow> eai option" where
  "ga_echeck e hostname servname h =
     (let inet = (if h_socktype h \<noteq> 0 \<and> h_socktype h \<notin> {STREAM, DGRAM, RAW} then Some EAI_SOCKTYPE else None);
          local = (if h_socktype h \<noteq> 0 \<and> h_socktype h \<notin> {STREAM, DGRAM} then Some EAI_SOCKTYPE else None)
      in if h_flags h AND NOT (AI_PASSIVE OR AI_CANONNAME) \<noteq> 0 then Some EAI_BADFLAGS
         else if no_text hostname \<and> no_text servname then Some EAI_NONAME
         else if h_family h = AF_UNSPEC then None
         else if h_family h = AF_INET then inet
         else if h_family h = AF_INET6 \<and> v6 e then inet
         else if h_family h = AF_LOCAL then local
         else Some EAI_FAMILY)"

section \<open>What is searched for\<close>

type_synonym search = "string \<times> family"

text \<open>One search or, for a family that is left open, two.\<close>

definition by_family :: "ga_env \<Rightarrow> gai_hints \<Rightarrow> string \<Rightarrow> string \<Rightarrow> search list" where
  "by_family e h host4 host6 =
     (if h_family h = AF_INET then [(host4, AF_INET)]
      else if h_family h = AF_INET6 \<and> v6 e then [(host6, AF_INET6)]
      else if h_family h = AF_UNSPEC then (if v6 e then [(host6, AF_INET6)] else []) @ [(host4, AF_INET)]
      else [])"

definition ga_nsearch :: "ga_env \<Rightarrow> string option \<Rightarrow> gai_hints \<Rightarrow> string + search list" where
  "ga_nsearch e hostname h =
     (let search =
        (if no_text hostname then
           (if h_flags h AND AI_PASSIVE \<noteq> 0 then by_family e h ''0.0.0.0'' ''0::0'' else by_family e h ''localhost'' ''0::1'')
         else by_family e h (the hostname) (the hostname))
      in if length search < 1 \<or> 2 < length search then Inl (''nsearch = '' @ dec (length search)) else Inr search)"

section \<open>Entries\<close>

text \<open>The address of an entry, or the text that is its path; a path that does not fit is an error.\<close>

definition ga_aistruct :: "ga_env \<Rightarrow> gai_hints \<Rightarrow> byte list \<Rightarrow> string \<Rightarrow> family \<Rightarrow> eai + ainfo" where
  "ga_aistruct e h addr path family =
     (let ai = \<lparr>f_flags = (if h_socktype h = 0 then AI_CLONE else 0), f_family = family, f_socktype = h_socktype h,
                f_protocol = h_protocol h, f_addr = None, f_canonname = None\<rparr>
      in if family = AF_INET then Inr (ai\<lparr>f_addr := Some (Sin (take 4 addr) 0)\<rparr>)
         else if family = AF_INET6 \<and> v6 e then Inr (ai\<lparr>f_addr := Some (Sin6 (take 16 addr) 0)\<rparr>)
         else if family = AF_LOCAL then
           (if 108 \<le> length path then Inl EAI_SERVICE else Inr (ai\<lparr>f_addr := Some (Sun path)\<rparr>))
         else Inr ai)"

fun ga_aistructs :: "ga_env \<Rightarrow> gai_hints \<Rightarrow> family \<Rightarrow> byte list list \<Rightarrow> eai + ainfo list" where
  "ga_aistructs e h family [] = Inr []"
| "ga_aistructs e h family (a # as) =
     (case ga_aistruct e h a [] family of
        Inl x \<Rightarrow> Inl x
      | Inr ai \<Rightarrow> (case ga_aistructs e h family as of Inl x \<Rightarrow> Inl x | Inr ais \<Rightarrow> Inr (ai # ais)))"

definition ga_unix :: "ga_env \<Rightarrow> string \<Rightarrow> gai_hints \<Rightarrow> ga_result" where
  "ga_unix e path h =
     (if h_family h \<noteq> AF_UNSPEC \<and> h_family h \<noteq> AF_LOCAL then GaErr (Gai EAI_ADDRFAMILY)
      else
        let unlinks = (h_flags h AND AI_PASSIVE \<noteq> 0);
            types = (if h_socktype h = 0 then [STREAM, DGRAM] else [h_socktype h]);
            named = (\<lambda>ais. if h_flags h AND AI_CANONNAME \<noteq> 0 then
                (case node e of
                   None \<Rightarrow> GaErr EAI_SYSTEM
                 | Some n \<Rightarrow> GaOk ((hd ais)\<lparr>f_canonname := Some n\<rparr> # tl ais) unlinks)
              else GaOk ais unlinks)
        in if 108 \<le> length path then GaErr (Gai EAI_SERVICE)
           else named (map (\<lambda>t. \<lparr>f_flags = 0, f_family = AF_LOCAL, f_socktype = t, f_protocol = h_protocol h,
                                f_addr = Some (Sun path), f_canonname = None\<rparr>) types))"

section \<open>The service\<close>

definition gai_of :: "ga_env \<Rightarrow> gai_env" where
  "gai_of e = \<lparr>ipv6 = v6 e, by_name = name1 e, res_inet6 = False, by_serv = serv e, null_head = True\<rparr>"

definition ga_port :: "ga_env \<Rightarrow> u16 \<Rightarrow> int \<Rightarrow> ainfo list \<times> nat \<Rightarrow> ainfo list \<times> nat" where
  "ga_port e port socktype x =
     (case getaddrinfo_port (gai_of e) port socktype (fst x) of (ais, n) \<Rightarrow> (ais, snd x + n))"

definition ga_serv :: "ga_env \<Rightarrow> gai_hints \<Rightarrow> string \<Rightarrow> ainfo list \<Rightarrow> eai + ainfo list" where
  "ga_serv e h servname ais =
     (let try = (\<lambda>proto st x.
            if h_socktype h = 0 \<or> h_socktype h = st then
              (case serv e servname proto of None \<Rightarrow> x | Some port \<Rightarrow> ga_port e port st x)
            else x);
          x = (if isdigit (hd servname) then
                 let port = htons (word_of_int (atoi servname)) in
                 if h_socktype h \<noteq> 0 then ga_port e port (h_socktype h) (ais, 0)
                 else ga_port e port DGRAM (ga_port e port STREAM (ais, 0))
               else try ''udp'' DGRAM (try ''tcp'' STREAM (ais, 0)))
      in if snd x = 0 then Inl (if h_socktype h = 0 then EAI_NONAME else EAI_SERVICE) else Inr (fst x))"

section \<open>The whole function\<close>

definition ga_herr :: "herr \<Rightarrow> eai" where
  "ga_herr x =
     (case x of HOST_NOT_FOUND \<Rightarrow> EAI_NONAME | TRY_AGAIN \<Rightarrow> EAI_AGAIN | NO_RECOVERY \<Rightarrow> EAI_FAIL
      | NO_DATA \<Rightarrow> EAI_NODATA | HErr _ \<Rightarrow> EAI_NONAME)"

text \<open>One search: a literal address, which counts only under its own family, or a name; the result are the new entries and
  the canonical name when the resolver gave one.  \<open>n\<close> is the number of searches.\<close>

definition literal :: "ga_env \<Rightarrow> gai_hints \<Rightarrow> family \<Rightarrow> family \<Rightarrow> byte list \<Rightarrow> eai + ainfo list \<times> string option" where
  "literal e h af family a =
     (if h_family h \<noteq> AF_UNSPEC \<and> h_family h \<noteq> af then Inl EAI_ADDRFAMILY
      else if family \<noteq> af then Inr ([], None)
      else map_sum id (\<lambda>ai. ([ai], None)) (ga_aistruct e h a [] af))"

definition ga_search :: "ga_env \<Rightarrow> gai_hints \<Rightarrow> nat \<Rightarrow> search \<Rightarrow> eai + ainfo list \<times> string option" where
  "ga_search e h n sp =
     (case sp of (host, family) \<Rightarrow>
       (case (if host \<noteq> [] \<and> isdigit (hd host) then inet_pton4 host else None) of
          Some a \<Rightarrow> literal e h AF_INET family a
        | None \<Rightarrow>
            (case (if v6 e \<and> host \<noteq> [] \<and> (hex_digit (hd host) \<noteq> None \<or> hd host = CHR '':'') \<and> CHR '':'' \<in> set host
                   then inet_pton6 host else None) of
               Some a \<Rightarrow> literal e h AF_INET6 family a
             | None \<Rightarrow>
                 (case (if n = 2 then (case name2 e family host of None \<Rightarrow> Inl None | Some hent \<Rightarrow> Inr hent)
                        else (case name1 e (if v6 e then family = AF_INET6 else res_opt e) host of
                                Inl x \<Rightarrow> Inl (Some x) | Inr hent \<Rightarrow> Inr hent)) of
                    Inl None \<Rightarrow> Inr ([], None)
                  | Inl (Some x) \<Rightarrow> Inl (ga_herr x)
                  | Inr hent \<Rightarrow>
                      if h_family h \<noteq> AF_UNSPEC \<and> h_family h \<noteq> h_addrtype hent then Inl EAI_ADDRFAMILY
                      else map_sum id (\<lambda>ais. (ais, h_name hent)) (ga_aistructs e h (h_addrtype hent) (h_addr_list hent))))))"

fun ga_searches :: "ga_env \<Rightarrow> gai_hints \<Rightarrow> nat \<Rightarrow> search list \<Rightarrow> eai + ainfo list \<times> string option" where
  "ga_searches e h n [] = Inr ([], None)"
| "ga_searches e h n (sp # sps) =
     (case ga_search e h n sp of
        Inl x \<Rightarrow> Inl x
      | Inr (ais, canon) \<Rightarrow>
          (case ga_searches e h n sps of
             Inl x \<Rightarrow> Inl x
           | Inr (ais', canon') \<Rightarrow> Inr (ais @ ais', case canon of None \<Rightarrow> canon' | Some c \<Rightarrow> Some c)))"

definition ga_getaddrinfo :: "ga_env \<Rightarrow> string option \<Rightarrow> string option \<Rightarrow> gai_hints option \<Rightarrow> ga_result" where
  "ga_getaddrinfo e hostname servname hp =
     (let h = (case hp of None \<Rightarrow> hints_default | Some h \<Rightarrow> h) in
      case ga_echeck e hostname servname h of
        Some x \<Rightarrow> GaErr (Gai x)
      | None \<Rightarrow>
          if (hostname = Some ''/local'' \<or> hostname = Some ''/unix'') \<and> is_path servname then ga_unix e (the servname) h
          else
            (case ga_nsearch e hostname h of
               Inl m \<Rightarrow> GaExit m
             | Inr search \<Rightarrow>
                 (case ga_searches e h (length search) search of
                    Inl x \<Rightarrow> GaErr (Gai x)
                  | Inr ([], canon) \<Rightarrow> GaErr (Gai EAI_NONAME)
                  | Inr (ai # ais, canon) \<Rightarrow>
                      (let named = (if \<not> no_text hostname \<and> h_flags h AND AI_CANONNAME \<noteq> 0
                                    then ai\<lparr>f_canonname := Some (case canon of Some c \<Rightarrow> c | None \<Rightarrow> fst (hd search))\<rparr> else ai)
                       in if no_text servname then GaOk (named # ais) False
                          else (case ga_serv e h (the servname) (named # ais) of
                                  Inl x \<Rightarrow> GaErr (Gai x)
                                | Inr ais' \<Rightarrow> GaOk ais' False)))))"

end
