(* ===== verification/Unp_Gni.thy ===== *)
theory Unp_Gni
  imports Unp_Gai2
begin

text \<open>
  The reverse of the later resolver: \<^verbatim>\<open>getnameinfo.c\<close> and \<^verbatim>\<open>gn_ipv46.c\<close> of
  \<^verbatim>\<open>src/unpv13e-master/libgai\<close>, over the same \<^verbatim>\<open>inet_ntop\<close>.
\<close>

definition NI_NOFQDN :: u32 where "NI_NOFQDN = 1"
definition NI_NUMERICHOST :: u32 where "NI_NUMERICHOST = 2"
definition NI_NAMEREQD :: u32 where "NI_NAMEREQD = 4"
definition NI_NUMERICSERV :: u32 where "NI_NUMERICSERV = 8"
definition NI_DGRAM :: u32 where "NI_DGRAM = 16"

text \<open>\<^verbatim>\<open>gethostbyaddr\<close> and \<^verbatim>\<open>getservbyport\<close>, which is told to look for a
  service over UDP or over any protocol.\<close>

record ni_env =
  host_by :: "byte list \<Rightarrow> family \<Rightarrow> string option"
  serv_by :: "u16 \<Rightarrow> bool \<Rightarrow> string option"

text \<open>\<^verbatim>\<open>snprintf\<close> into an array of \<open>len\<close> bytes, at least one: the text that is then in it.\<close>

definition snprintf_to :: "nat \<Rightarrow> string \<Rightarrow> string" where
  "snprintf_to len s = take (len - 1) s"

text \<open>The texts in the caller's arrays, \<open>None\<close> for an array that is not asked for; \<open>Inl ()\<close> is the return value 1.\<close>

definition gn_host :: "ni_env \<Rightarrow> nat \<Rightarrow> byte list \<Rightarrow> family \<Rightarrow> u32 \<Rightarrow> unit + string option" where
  "gn_host en hostlen a af flags =
     (let numeric = (case inet_ntop af a hostlen of None \<Rightarrow> Inl () | Some s \<Rightarrow> Inr (Some s))
      in if hostlen = 0 then Inr None
         else if flags AND NI_NUMERICHOST \<noteq> 0 then numeric
         else
           (case host_by en a af of
              Some name \<Rightarrow>
                let name' = (if flags AND NI_NOFQDN \<noteq> 0 then takeWhile (\<lambda>c. c \<noteq> CHR ''.'') name else name)
                in Inr (Some (snprintf_to hostlen name'))
            | None \<Rightarrow> if flags AND NI_NAMEREQD \<noteq> 0 then Inl () else numeric))"

definition gn_serv :: "ni_env \<Rightarrow> nat \<Rightarrow> u16 \<Rightarrow> u32 \<Rightarrow> string option" where
  "gn_serv en servlen port flags =
     (let numeric = Some (snprintf_to servlen (dec (unat (ntohs port))))
      in if servlen = 0 then None
         else if flags AND NI_NUMERICSERV \<noteq> 0 then numeric
         else (case serv_by en port (flags AND NI_DGRAM \<noteq> 0) of
                 Some name \<Rightarrow> Some (snprintf_to servlen name)
               | None \<Rightarrow> numeric))"

definition gn_ipv46 :: "ni_env \<Rightarrow> nat \<Rightarrow> nat \<Rightarrow> byte list \<Rightarrow> family \<Rightarrow> u16 \<Rightarrow> u32 \<Rightarrow> unit + string option \<times> string option" where
  "gn_ipv46 en hostlen servlen a af port flags =
     (case gn_host en hostlen a af flags of
        Inl u \<Rightarrow> Inl u
      | Inr host \<Rightarrow> Inr (host, gn_serv en servlen port flags))"

definition ga_nameinfo :: "ni_env \<Rightarrow> bool \<Rightarrow> sockaddr \<Rightarrow> nat \<Rightarrow> nat \<Rightarrow> u32 \<Rightarrow> unit + string option \<times> string option" where
  "ga_nameinfo en ip6 sa hostlen servlen flags =
     (case sa of
        Sin a port \<Rightarrow> gn_ipv46 en hostlen servlen a AF_INET port flags
      | Sin6 a port \<Rightarrow> if ip6 then gn_ipv46 en hostlen servlen a AF_INET6 port flags else Inl ()
      | Sun path \<Rightarrow>
          Inr (if 0 < hostlen then Some (snprintf_to hostlen ''/local'') else None,
               if 0 < servlen then Some (snprintf_to servlen path) else None)
      | Sother f \<Rightarrow> Inl ())"

end
