(* ===== verification/Unp_Gai2_Props.thy ===== *)
theory Unp_Gai2_Props
  imports Unp_Gai2 Unp_Gai_Props
begin

text \<open>
  The two versions of the resolver agree where a family and a socket type are given; and the arguments for which the later
  one ends the program.
\<close>

section \<open>Entries\<close>

lemma gai_of_simps [simp]:
  "ipv6 (gai_of e) = v6 e" "by_name (gai_of e) = name1 e" "res_inet6 (gai_of e) = False" "by_serv (gai_of e) = serv e"
  "null_head (gai_of e) = True"
  by (simp_all add: gai_of_def)

lemma ga_aistruct_host_entry:
  "af = AF_INET \<or> af = AF_INET6 \<and> v6 e \<Longrightarrow> ga_aistruct e h a p af = Inr (host_entry (gai_of e) h af a)"
  by (auto simp: ga_aistruct_def host_entry_def Let_def)

lemma ga_aistructs_map:
  "af = AF_INET \<or> af = AF_INET6 \<and> v6 e \<Longrightarrow> ga_aistructs e h af as = Inr (map (host_entry (gai_of e) h af) as)"
  by (induction as) (simp_all add: ga_aistruct_host_entry)

text \<open>Every entry of a host takes the port of its own socket type.\<close>

lemma port_of_entries:
  assumes "af = AF_INET \<or> af = AF_INET6 \<and> v6 e" "h_socktype h \<noteq> 0"
    and "list_all (\<lambda>ai. \<exists>a cn. ai = (host_entry (gai_of e) h af a)\<lparr>f_canonname := cn\<rparr>) ais"
  shows "snd (getaddrinfo_port (gai_of e) port (h_socktype h) ais) = length ais"
  using assms(3)
proof (induction ais)
  case (Cons ai ais)
  obtain a cn where ai: "ai = (host_entry (gai_of e) h af a)\<lparr>f_canonname := cn\<rparr>" using Cons.prems by auto
  have "f_flags ai = 0" "f_socktype ai = h_socktype h" "snd (set_port (gai_of e) port (h_socktype h) ai) = 1"
    using assms(1,2) by (auto simp: ai host_entry_def set_port_def)
  then show ?case
    using Cons by (cases "set_port (gai_of e) port (h_socktype h) ai"; cases "getaddrinfo_port (gai_of e) port (h_socktype h) ais")
      (simp add: clone_bit)
qed simp

section \<open>The services\<close>

lemma ga_serv_agrees:
  assumes "af = AF_INET \<or> af = AF_INET6 \<and> v6 e" "h_socktype h \<noteq> 0" "sv \<noteq> []" "ais \<noteq> []"
    and "list_all (\<lambda>ai. \<exists>a cn. ai = (host_entry (gai_of e) h af a)\<lparr>f_canonname := cn\<rparr>) ais"
  shows "ga_serv e h sv ais = getaddrinfo_serv (gai_of e) h sv ais"
proof (cases "isdigit (hd sv)")
  case True
  let ?x = "getaddrinfo_port (gai_of e) (htons (word_of_int (atoi sv))) (h_socktype h) ais"
  have "snd ?x \<noteq> 0" using port_of_entries [OF assms(1,2,5)] assms(4) by simp
  then show ?thesis using True assms(2,3) by (cases ?x) (simp add: ga_serv_def getaddrinfo_serv_def ga_port_def Let_def)
next
  case False
  then show ?thesis
    by (auto simp: ga_serv_def getaddrinfo_serv_def try_serv_def ga_port_def Let_def split: option.splits prod.splits)
qed

section \<open>Literal addresses need a colon\<close>

lemma pton4_length: "inet_pton4 s = Some q \<Longrightarrow> length q = 4"
  using aton_of_pton4 [of s False 0 "[]" 0] by (auto simp: inet_pton4_def)

lemma pton6_loop_no_colon: "CHR '':'' \<notin> set src \<Longrightarrow> pton6_loop src cur saw val [] None = None"
proof (induction src arbitrary: saw val)
  case Nil
  then show ?case by (simp add: pton6_finish_def word_bytes_def IN6ADDRSZ_def Let_def)
next
  case (Cons c src)
  then show ?case
    using pton4_length [of cur]
    by (auto simp: pton6_finish_def Let_def IN6ADDRSZ_def split: option.splits)
qed

lemma pton6_has_colon: "inet_pton6 s = Some a \<Longrightarrow> CHR '':'' \<in> set s"
  using pton6_loop_no_colon [of s s False 0] by (cases s) (auto simp: inet_pton6_def split: if_splits)

section \<open>The two versions\<close>

text \<open>What the name service promises: a host has its name and an address.\<close>

definition names_ok :: "ga_env \<Rightarrow> bool" where
  "names_ok e \<longleftrightarrow> (\<forall>b n hent. name1 e b n = Inr hent \<longrightarrow> h_name hent \<noteq> None \<and> h_addr_list hent \<noteq> [])"

lemma names_okD: "name1 e b n = Inr hent \<Longrightarrow> names_ok e \<Longrightarrow> (\<exists>c. h_name hent = Some c) \<and> h_addr_list hent \<noteq> []"
  by (auto simp: names_ok_def)

text \<open>The search for a name under one family, in the words of the earlier version.\<close>

lemma ga_search_host:
  assumes "f = AF_INET \<or> f = AF_INET6 \<and> v6 e" "h_family h = f" "\<not> res_opt e" "names_ok e" "length name < HENTBUFSIZ"
  shows "case getaddrinfo_host (gai_of e) name f of
      Inl x \<Rightarrow> ga_search e h 1 (name, f) = Inl x
    | Inr hent \<Rightarrow> if h_addrtype hent \<noteq> f then ga_search e h 1 (name, f) = Inl EAI_ADDRFAMILY
        else h_addr_list hent \<noteq> [] \<and> (\<exists>canon. ga_search e h 1 (name, f) = Inr (map (host_entry (gai_of e) h f) (h_addr_list hent), canon) \<and>
          h_name hent = Some (case canon of Some c \<Rightarrow> c | None \<Rightarrow> name))"
proof -
  have f: "f \<noteq> AF_UNSPEC" "(if v6 e then f = AF_INET6 else res_opt e) = (v6 e \<and> f = AF_INET6)" using assms(1,3) by auto
  have cut: "take (HENTBUFSIZ - 1) name = name" "length name \<le> HENTBUFSIZ - Suc 0" using assms(5) by simp_all
  show ?thesis
  proof (cases "if name \<noteq> [] \<and> isdigit (hd name) then inet_pton4 name else None")
    case (Some a)
    have l: "ga_search e h 1 (name, f) = literal e h AF_INET f a" by (simp add: ga_search_def Some)
    show ?thesis unfolding l getaddrinfo_host_def Some
      using assms(1,2) f by (auto simp: literal_host_def literal_def ga_aistruct_host_entry cut)
  next
    case none4: None
    show ?thesis
    proof (cases "if v6 e \<and> name \<noteq> [] \<and> (hex_digit (hd name) \<noteq> None \<or> hd name = CHR '':'') then inet_pton6 name else None")
      case (Some a)
      then have v6: "v6 e" and "CHR '':'' \<in> set name" using pton6_has_colon by (auto split: if_splits)
      then have l: "ga_search e h 1 (name, f) = literal e h AF_INET6 f a" using Some unfolding ga_search_def prod.case none4 by simp
      show ?thesis unfolding l getaddrinfo_host_def none4
        using Some assms(1,2) f v6 by (auto simp: literal_host_def literal_def ga_aistruct_host_entry cut)
    next
      case none6: None
      have "(if v6 e \<and> name \<noteq> [] \<and> (hex_digit (hd name) \<noteq> None \<or> hd name = CHR '':'') \<and> CHR '':'' \<in> set name then inet_pton6 name else None) = None"
        using none6 by (auto split: if_splits)
      then have l: "ga_search e h 1 (name, f) =
          (case name1 e (v6 e \<and> f = AF_INET6) name of
             Inl x \<Rightarrow> Inl (ga_herr x)
           | Inr hent \<Rightarrow> if f \<noteq> h_addrtype hent then Inl EAI_ADDRFAMILY
               else map_sum id (\<lambda>ais. (ais, h_name hent)) (ga_aistructs e h (h_addrtype hent) (h_addr_list hent)))"
        unfolding ga_search_def prod.case none4 using f assms(2) by (simp split: sum.split)
      have g: "getaddrinfo_host (gai_of e) name f =
          (case name1 e (v6 e \<and> f = AF_INET6) name of Inl x \<Rightarrow> Inl (host_error x) | Inr hent \<Rightarrow> Inr hent)"
        unfolding getaddrinfo_host_def none4 using none6 by simp
      show ?thesis
        unfolding l g using assms(1,4)
        by (auto simp: ga_herr_def host_error_def ga_aistructs_map dest: names_okD split: sum.split option.split)
    qed
  qed
qed

text \<open>Where the caller gives a family the library is compiled for and a socket type, a host that is no path and no service
  that is one, the two versions of \<^verbatim>\<open>getaddrinfo\<close> return the same list or the same error, as far
  as the earlier one returns its errors: literal addresses, names with any number of addresses, canonical names,
  numeric and named services alike.\<close>

theorem gai_versions_agree:
  assumes "h_family h = AF_INET \<or> h_family h = AF_INET6 \<and> v6 e" "h_socktype h \<noteq> 0" "\<not> res_opt e" "names_ok e"
    and "name \<noteq> []" "hd name \<noteq> CHR ''/''" "length name < HENTBUFSIZ" "\<not> is_path sv"
  shows "ga_getaddrinfo e (Some name) sv (Some h) =
    (case getaddrinfo (gai_of e) (Some name) sv (Some h) of
       GaiErr x \<Rightarrow> GaErr (Gai x) | GaiOk ais u \<Rightarrow> GaOk ais u | GaiUndef \<Rightarrow> GaExit [])"
proof -
  define f where "f = h_family h"
  have fam: "f = AF_INET \<or> f = AF_INET6 \<and> v6 e" using assms(1) by (simp add: f_def)
  then have fu: "f \<noteq> AF_UNSPEC" by auto
  have nt: "\<not> no_text (Some name)" "\<not> is_path (Some name)" using assms(5,6) not_path by blast+
  have ck: "ga_echeck e (Some name) sv h = check_hints (gai_of e) h" using nt by (simp add: ga_echeck_def check_hints_def Let_def)
  have ns: "ga_nsearch e (Some name) h = Inr [(name, f)]"
    using fam nt by (auto simp: ga_nsearch_def by_family_def f_def)
  have lit: "literal_family (gai_of e) name h = h" using fu by (simp add: literal_family_def f_def)
  have old: "getaddrinfo (gai_of e) (Some name) sv (Some h) =
      (case check_hints (gai_of e) h of Some x \<Rightarrow> GaiErr x | None \<Rightarrow> gai_lookup (gai_of e) name sv h)"
    using nt assms(8) by (simp add: getaddrinfo_def lit bad_def split: option.split)
  note s = ga_search_host [OF fam f_def [symmetric] assms(3,4,7)]
  have new: "ga_getaddrinfo e (Some name) sv (Some h) = (case gai_lookup (gai_of e) name sv h of
       GaiErr x \<Rightarrow> GaErr (Gai x) | GaiOk ais u \<Rightarrow> GaOk ais u | GaiUndef \<Rightarrow> GaExit [])" if ok: "check_hints (gai_of e) h = None"
  proof (cases "getaddrinfo_host (gai_of e) name f")
    case (Inl x)
    then show ?thesis using s ok ck ns nt assms(8) fu by (simp add: ga_getaddrinfo_def gai_lookup_def f_def [symmetric] bad_def)
  next
    case (Inr hent)
    show ?thesis
    proof (cases "h_addrtype hent = f")
      case False
      then show ?thesis
        using Inr s ok ck ns nt assms(8) fu by (simp add: ga_getaddrinfo_def gai_lookup_def f_def [symmetric] bad_def)
    next
      case True
      define ais where "ais = map (host_entry (gai_of e) h f) (h_addr_list hent)"
      obtain canon where c: "ga_search e h 1 (name, f) = Inr (ais, canon)" "h_name hent = Some (case canon of Some c \<Rightarrow> c | None \<Rightarrow> name)"
        and ne: "h_addr_list hent \<noteq> []" using s Inr True by (auto simp: ais_def)
      obtain ai rest where ais: "ais = ai # rest" using ne by (cases "h_addr_list hent") (simp_all add: ais_def)
      have ai: "map (host_entry (gai_of e) h f) (h_addr_list hent) = ai # rest" using ais by (simp add: ais_def)
      define named where "named = set_canonname name hent h ais"
      have nm: "named = (if h_flags h AND AI_CANONNAME \<noteq> 0 then ai\<lparr>f_canonname := Some (case canon of Some c \<Rightarrow> c | None \<Rightarrow> name)\<rparr> else ai) # rest"
        using c(2) by (simp add: named_def set_canonname_def ais)
      have g: "gai_lookup (gai_of e) name sv h =
          (case sv of Some (c # cs) \<Rightarrow>
              (case getaddrinfo_serv (gai_of e) h (c # cs) named of Inl x \<Rightarrow> GaiErr x | Inr ais'' \<Rightarrow> GaiOk ais'' False)
            | _ \<Rightarrow> GaiOk named False)"
        using Inr True fu ne unfolding named_def ais by (simp add: gai_lookup_def f_def [symmetric] ai Let_def)
      have each: "list_all (\<lambda>ai. \<exists>a cn. ai = (host_entry (gai_of e) h f a)\<lparr>f_canonname := cn\<rparr>) named"
      proof -
        have e: "\<exists>a cn. ai = (host_entry (gai_of e) h f a)\<lparr>f_canonname := cn\<rparr>" if "ai \<in> set ais" for ai
          using that by (auto simp: ais_def host_entry_def)
        have "\<exists>a cn. ai\<lparr>f_canonname := k\<rparr> = (host_entry (gai_of e) h f a)\<lparr>f_canonname := cn\<rparr>" for k
        proof -
          obtain a cn where "ai = (host_entry (gai_of e) h f a)\<lparr>f_canonname := cn\<rparr>" using e [of ai] by (auto simp: ais)
          then have "ai\<lparr>f_canonname := k\<rparr> = (host_entry (gai_of e) h f a)\<lparr>f_canonname := k\<rparr>" by simp
          then show ?thesis by blast
        qed
        then show ?thesis using e by (auto simp: nm list_all_iff ais)
      qed
      have sv: "ga_serv e h sv' named = getaddrinfo_serv (gai_of e) h sv' named" if "sv' \<noteq> []" for sv'
        by (rule ga_serv_agrees [OF fam assms(2) that _ each]) (simp add: nm)
      have "ga_searches e h 1 [(name, f)] = Inr (ai # rest, canon)" using c(1) by (simp add: ais split: option.split)
      then have n: "ga_getaddrinfo e (Some name) sv (Some h) =
          (if no_text sv then GaOk named False
           else (case ga_serv e h (the sv) named of Inl x \<Rightarrow> GaErr (Gai x) | Inr ais' \<Rightarrow> GaOk ais' False))"
        using ok ck ns nt assms(8) unfolding nm by (cases canon) (simp_all add: ga_getaddrinfo_def Let_def del: ga_searches.simps)
      show ?thesis unfolding g n using sv [of "the sv"] by (auto simp: no_text_def split: option.split list.split sum.split)
    qed
  qed
  show ?thesis
  proof (cases "check_hints (gai_of e) h")
    case None
    then show ?thesis using new [OF None] by (simp add: old)
  next
    case (Some x)
    then show ?thesis by (simp add: old ga_getaddrinfo_def ck)
  qed
qed


text \<open>The environment of a host with two addresses.\<close>

definition two_homes2 :: ga_env where
  "two_homes2 = \<lparr>v6 = False,
     name1 = (\<lambda>b s. Inr \<lparr>h_name = Some ''rpi.edu'', h_addrtype = AF_INET, h_addr_list = [[128, 113, 0, 2], [10, 0, 0, 1]]\<rparr>),
     name2 = (\<lambda>f s. None), serv = (\<lambda>s proto. Some (htons 13)), node = None, res_opt = False\<rparr>"

lemma gai_versions_agree_witness:
  "ga_getaddrinfo two_homes2 (Some ''rpi'') (Some ''daytime'')
     (Some \<lparr>h_flags = AI_CANONNAME, h_family = AF_INET, h_socktype = STREAM, h_protocol = 6\<rparr>) =
   GaOk [v4_entry 6 0 STREAM (htons 13) (Some ''rpi.edu'') [128, 113, 0, 2], v4_entry 6 0 STREAM (htons 13) None [10, 0, 0, 1]] False"
proof -
  let ?h = "\<lparr>h_flags = AI_CANONNAME, h_family = AF_INET, h_socktype = STREAM, h_protocol = 6\<rparr>"
  have old: "getaddrinfo (gai_of two_homes2) (Some ''rpi'') (Some ''daytime'') (Some ?h) =
      GaiOk [v4_entry 6 0 STREAM (htons 13) (Some ''rpi.edu'') [128, 113, 0, 2], v4_entry 6 0 STREAM (htons 13) None [10, 0, 0, 1]] False"
    by code_simp
  have "ga_getaddrinfo two_homes2 (Some ''rpi'') (Some ''daytime'') (Some ?h) =
      (case getaddrinfo (gai_of two_homes2) (Some ''rpi'') (Some ''daytime'') (Some ?h) of
         GaiErr x \<Rightarrow> GaErr (Gai x) | GaiOk ais u \<Rightarrow> GaOk ais u | GaiUndef \<Rightarrow> GaExit [])"
    by (rule gai_versions_agree) (simp_all add: two_homes2_def STREAM_def names_ok_def is_path_def HENTBUFSIZ_def)
  then show ?thesis by (simp add: old)
qed

section \<open>Ending the program\<close>

text \<open>The later resolver ends the program of its caller in exactly one case, otherwise it returns: the arguments pass its
  checks, the family is that of the Unix domain, and the host and the service are not the special host name with a
  path.\<close>

theorem ga_exits_iff:
  "ga_getaddrinfo e host sv (Some h) = GaExit m \<longleftrightarrow>
   m = ''nsearch = 0'' \<and> h_family h = AF_LOCAL \<and> ga_echeck e host sv h = None \<and>
   \<not> ((host = Some ''/local'' \<or> host = Some ''/unix'') \<and> is_path sv)"
proof (cases "ga_echeck e host sv h")
  case (Some x)
  then show ?thesis by (simp add: ga_getaddrinfo_def)
next
  case None
  then have fam: "h_family h = AF_UNSPEC \<or> h_family h = AF_INET \<or> h_family h = AF_INET6 \<and> v6 e \<or> h_family h = AF_LOCAL"
    by (auto simp: ga_echeck_def Let_def split: if_splits)
  have d: "dec 0 = ''0''" by code_simp
  have u: "ga_unix e p h \<noteq> GaExit m" for p by (simp add: ga_unix_def Let_def split: option.split)
  have n: "ga_nsearch e host h = (if h_family h = AF_LOCAL then Inl ''nsearch = 0'' else ga_nsearch e host h)"
    by (simp add: ga_nsearch_def by_family_def d)
  have i: "h_family h \<noteq> AF_LOCAL \<Longrightarrow> ga_nsearch e host h \<noteq> Inl k" for k
    using fam by (elim disjE conjE) (simp_all add: ga_nsearch_def by_family_def Let_def)
  have r: "(case ga_searches e h k search of Inl x \<Rightarrow> GaErr (Gai x) | Inr ([], canon) \<Rightarrow> GaErr (Gai EAI_NONAME)
      | Inr (ai # ais, canon) \<Rightarrow> (let named = f ai canon in if no_text sv then GaOk (named # ais) False
          else (case ga_serv e h (the sv) (named # ais) of Inl x \<Rightarrow> GaErr (Gai x) | Inr ais' \<Rightarrow> GaOk ais' False))) \<noteq> GaExit m" for k search f
    by (simp add: Let_def split: sum.split list.split prod.split)
  show ?thesis
  proof (cases "(host = Some ''/local'' \<or> host = Some ''/unix'') \<and> is_path sv")
    case True
    then show ?thesis using None u by (simp add: ga_getaddrinfo_def)
  next
    case False
    show ?thesis
    proof (cases "h_family h = AF_LOCAL")
      case True
      then have "ga_nsearch e host h = Inl ''nsearch = 0''" using n by simp
      then show ?thesis using None False True by (auto simp: ga_getaddrinfo_def Let_def)
    next
      case other: False
      then obtain search where "ga_nsearch e host h = Inr search" using i by (cases "ga_nsearch e host h") auto
      then show ?thesis using None False other r u by (simp add: ga_getaddrinfo_def)
    qed
  qed
qed

end
