(* ===== verification/Unp_Gni_Props.thy ===== *)
theory Unp_Gni_Props
  imports Unp_Gni Unp_Gai2_Props
begin

text \<open>
  The two directions of the later resolver undo each other: what \<^verbatim>\<open>getnameinfo\<close> prints for an
  address and a port, or for a path, \<^verbatim>\<open>getaddrinfo\<close> reads back.
\<close>

section \<open>Numeric hosts\<close>

lemma pton4_loop_no_colon: "pton4_loop src saw n bs cur = Some r \<Longrightarrow> CHR '':'' \<notin> set src"
  by (induction src saw n bs cur rule: pton4_loop.induct) (auto simp: Let_def not_digit split: if_splits)

lemma pton4_no_colon: "inet_pton4 s = Some q \<Longrightarrow> CHR '':'' \<notin> set s"
  by (auto simp: inet_pton4_def dest: pton4_loop_no_colon)

lemma pton4_head: "inet_pton4 (c # s) = Some q \<Longrightarrow> isdigit c"
  by (auto simp: inet_pton4_def split: if_splits)

lemma pton6_head: "inet_pton6 s = Some a \<Longrightarrow> s \<noteq> [] \<and> (hex_digit (hd s) \<noteq> None \<or> hd s = CHR '':'')"
  by (cases s) (auto simp: inet_pton6_def pton6_finish_def IN6ADDRSZ_def Let_def not_digit dest: pton4_head split: if_splits option.splits)

lemma search_quad:
  assumes "length a = 4" shows "ga_search e h n (quad a, fam) = literal e h AF_INET fam a"
proof -
  obtain q qs where "quad a = q # qs" "isdigit q" using quad_head by blast
  then show ?thesis using pton4_quad [OF assms] by (simp add: ga_search_def)
qed

lemma search_ntop6:
  assumes "length a = 16" "v6 e" shows "ga_search e h n (ntop6_text a, fam) = literal e h AF_INET6 fam a"
proof -
  have p: "inet_pton6 (ntop6_text a) = Some a" by (rule pton6_ntop6 [OF assms(1)])
  then have c: "CHR '':'' \<in> set (ntop6_text a)" by (rule pton6_has_colon)
  then have "inet_pton4 (ntop6_text a) = None" using pton4_no_colon by (cases "inet_pton4 (ntop6_text a)") auto
  then show ?thesis using p c pton6_head [OF p] assms(2) unfolding ga_search_def by simp
qed

section \<open>Lengths\<close>

lemma length_hex: "w < 16 ^ Suc k \<Longrightarrow> length (hex w) \<le> Suc k"
proof (induction k arbitrary: w)
  case (Suc k)
  then have "w div 16 < 16 ^ Suc k" by (simp add: less_mult_imp_div_less mult.commute)
  with Suc.IH [of "w div 16"] show ?case by (subst hex.simps) simp
qed (subst hex.simps, simp)

lemma length_quad: "length (quad a) \<le> 15"
proof -
  have b: "unat x < 2 ^ LENGTH(8)" for x :: byte by (rule unsigned_less)
  have "length (dec (unat (x :: byte))) \<le> 3" for x
    using length_dec_le [of "unat x" 2] b [of x] by simp
  from this [of "a ! 0"] this [of "a ! 1"] this [of "a ! 2"] this [of "a ! 3"] show ?thesis by (simp add: quad_def)
qed

lemma length_ntop6_loop:
  assumes "\<forall>w \<in> set ws. w < 65536" "\<forall>i \<in> set is. i < length ws"
  shows "length (ntop6_loop a ws best is) \<le> 5 * length is + 15"
  using assms(2)
proof (induction "is")
  case (Cons i "is")
  have "length (hex (ws ! i)) \<le> 4" using assms(1) Cons.prems length_hex [of "ws ! i" 3] by simp
  then show ?case using Cons length_quad [of "drop 12 a"] by auto
qed simp

lemma length_ntop6: "length a = 16 \<Longrightarrow> length (ntop6_text a) \<le> 56"
  using length_ntop6_loop [of "words_of a" "[0..<8]" a "best_run 0 (words_of a) None None"] words_of_bytes(2,3) [of a]
  by (auto simp: ntop6_text_def Let_def split: option.split)

section \<open>The round trip\<close>

definition NI_MAXHOST :: nat where "NI_MAXHOST = 1025"
definition NI_MAXSERV :: nat where "NI_MAXSERV = 32"

lemma port_read: "htons (word_of_int (atoi (dec (unat (ntohs port))))) = port"
proof -
  have "atoi (dec (unat (ntohs port))) = int (unat (ntohs port))"
    using scan_d_dec [of "[]" "unat (ntohs port)"] by (simp add: atoi_def)
  then show ?thesis by simp
qed

lemma ga_numeric:
  assumes "\<And>n fam. ga_search e h n (host, fam) = literal e h f fam a" "host \<noteq> []" "hd host \<noteq> CHR ''/''"
    and "f = AF_INET \<and> length a = 4 \<and> sa = Sin a port \<or> f = AF_INET6 \<and> length a = 16 \<and> v6 e \<and> sa = Sin6 a port"
    and "fam = f \<or> fam = AF_UNSPEC" "st \<in> {STREAM, DGRAM, RAW}"
    and "h = \<lparr>h_flags = 0, h_family = fam, h_socktype = st, h_protocol = p\<rparr>"
  shows "ga_getaddrinfo e (Some host) (Some (dec (unat (ntohs port)))) (Some h) =
    GaOk [\<lparr>f_flags = 0, f_family = f, f_socktype = st, f_protocol = p, f_addr = Some sa, f_canonname = None\<rparr>] False"
proof -
  let ?ai = "\<lparr>f_flags = 0, f_family = f, f_socktype = st, f_protocol = p,
    f_addr = Some (if f = AF_INET then Sin a 0 else Sin6 a 0), f_canonname = None\<rparr>"
  have st: "st \<noteq> 0" using assms(6) by (auto simp: STREAM_def DGRAM_def RAW_def)
  have nt: "\<not> no_text (Some host)" using assms(2,3) not_path by blast
  obtain d ds where s: "dec (unat (ntohs port)) = d # ds" "isdigit d" using dec_first_digit by blast
  have check: "ga_echeck e (Some host) (Some (d # ds)) h = None"
    using assms(4-7) nt by (auto simp: ga_echeck_def Let_def)
  have entry: "ga_aistruct e h a [] f = Inr ?ai" using assms(4,7) st by (auto simp: ga_aistruct_def Let_def)
  obtain fs where ns: "ga_nsearch e (Some host) h = Inr (map (Pair host) fs)" and one: "filter (\<lambda>x. x = f) fs = [f]"
  proof (cases "fam = f")
    case True
    then have "ga_nsearch e (Some host) h = Inr (map (Pair host) [f])"
      using assms(4,7) nt by (auto simp: ga_nsearch_def by_family_def)
    then show thesis by (rule that) simp
  next
    case False
    then have "fam = AF_UNSPEC" using assms(5) by blast
    then have "ga_nsearch e (Some host) h = Inr (map (Pair host) ((if v6 e then [AF_INET6] else []) @ [AF_INET]))"
      using assms(7) nt by (simp add: ga_nsearch_def by_family_def)
    then show thesis by (rule that) (use assms(4) in auto)
  qed
  have lit: "literal e h f fam' a = (if fam' = f then Inr ([?ai], None) else Inr ([], None))" for fam'
    using assms(5,7) entry by (auto simp: literal_def)
  have "ga_searches e h n (map (Pair host) gs) = Inr (map (\<lambda>_. ?ai) (filter (\<lambda>x. x = f) gs), None)" for n gs
    by (induction gs) (simp_all add: assms(1) lit)
  then have found: "ga_searches e h n (map (Pair host) fs) = Inr ([?ai], None)" for n using one by simp
  have serv: "ga_serv e h (d # ds) [?ai] = Inr [?ai\<lparr>f_addr := Some sa\<rparr>]"
    using assms(4,7) st s port_read [of port] by (auto simp: ga_serv_def ga_port_def clone_bit set_port_def)
  have "\<not> (host = ''/local'' \<or> host = ''/unix'')" using assms(3) by auto
  then show ?thesis
    using check ns found serv nt assms(7) by (simp add: ga_getaddrinfo_def s no_text_def)
qed

text \<open>C36. An address and a port, printed by \<^verbatim>\<open>getnameinfo\<close> in numbers into arrays of the documented
  sizes, are read back by \<^verbatim>\<open>getaddrinfo\<close> as exactly that address and port, for every IPv4 and IPv6
  address, every port and type of socket, with the family given or left open, and without asking the name service.\<close>

theorem name_info_round_trip:
  assumes "sa = Sin a port \<and> length a = 4 \<and> f = AF_INET \<or> sa = Sin6 a port \<and> length a = 16 \<and> v6 e \<and> f = AF_INET6"
    and "fam = f \<or> fam = AF_UNSPEC" "st \<in> {STREAM, DGRAM, RAW}" "NI_MAXHOST \<le> hostlen" "NI_MAXSERV \<le> servlen"
  shows "\<exists>host serv. ga_nameinfo en (v6 e) sa hostlen servlen (NI_NUMERICHOST OR NI_NUMERICSERV) = Inr (Some host, Some serv) \<and>
    ga_getaddrinfo e (Some host) (Some serv) (Some \<lparr>h_flags = 0, h_family = fam, h_socktype = st, h_protocol = p\<rparr>) =
    GaOk [\<lparr>f_flags = 0, f_family = f, f_socktype = st, f_protocol = p, f_addr = Some sa, f_canonname = None\<rparr>] False"
proof -
  let ?h = "\<lparr>h_flags = 0, h_family = fam, h_socktype = st, h_protocol = p\<rparr>"
  let ?host = "if f = AF_INET then quad a else ntop6_text a" and ?serv = "dec (unat (ntohs port))"
  have flags: "(NI_NUMERICHOST OR NI_NUMERICSERV) AND NI_NUMERICHOST \<noteq> 0" "(NI_NUMERICHOST OR NI_NUMERICSERV) AND NI_NUMERICSERV \<noteq> 0"
    by (simp_all add: NI_NUMERICHOST_def NI_NUMERICSERV_def)
  have "unat (ntohs port) < 2 ^ LENGTH(16)" by (rule unsigned_less)
  then have "length ?serv \<le> 5" using length_dec_le [of "unat (ntohs port)" 4] by simp
  then have "gn_serv en servlen port (NI_NUMERICHOST OR NI_NUMERICSERV) = Some ?serv"
    using flags assms(5) by (simp add: gn_serv_def snprintf_to_def NI_MAXSERV_def)
  moreover have "gn_host en hostlen a f (NI_NUMERICHOST OR NI_NUMERICSERV) = Inr (Some ?host)"
    using assms(1,4) flags length_quad [of a] length_ntop6 [of a]
    by (auto simp: gn_host_def inet_ntop_def inet_ntop4_def inet_ntop6_def NI_MAXHOST_def)
  ultimately have "ga_nameinfo en (v6 e) sa hostlen servlen (NI_NUMERICHOST OR NI_NUMERICSERV) = Inr (Some ?host, Some ?serv)"
    using assms(1) by (auto simp: ga_nameinfo_def gn_ipv46_def)
  moreover have "ga_getaddrinfo e (Some ?host) (Some ?serv) (Some ?h) =
      GaOk [\<lparr>f_flags = 0, f_family = f, f_socktype = st, f_protocol = p, f_addr = Some sa, f_canonname = None\<rparr>] False"
  proof (rule ga_numeric [OF _ _ _ _ assms(2,3) refl])
    show "ga_search e ?h n (?host, fam') = literal e ?h f fam' a" for n fam'
      using assms(1) search_quad search_ntop6 by auto
    have slash: "\<not> isdigit CHR ''/''" "hex_digit CHR ''/'' = None" by code_simp+
    have "?host \<noteq> [] \<and> hd ?host \<noteq> CHR ''/''"
    proof (cases "f = AF_INET")
      case True
      then show ?thesis using quad_head [of a] slash by auto
    next
      case False
      then show ?thesis using assms(1) pton6_head [OF pton6_ntop6 [of a]] slash by auto
    qed
    then show "?host \<noteq> []" "hd ?host \<noteq> CHR ''/''" by blast+
    show "f = AF_INET \<and> length a = 4 \<and> sa = Sin a port \<or> f = AF_INET6 \<and> length a = 16 \<and> v6 e \<and> sa = Sin6 a port"
      using assms(1) by blast
  qed
  ultimately show ?thesis by blast
qed


lemma name_info_round_trip_witness:
  "ga_getaddrinfo (two_homes2\<lparr>v6 := True\<rparr>) (Some ''::1'') (Some ''69'')
     (Some \<lparr>h_flags = 0, h_family = AF_UNSPEC, h_socktype = DGRAM, h_protocol = 0\<rparr>) =
   GaOk [\<lparr>f_flags = 0, f_family = AF_INET6, f_socktype = DGRAM, f_protocol = 0,
     f_addr = Some (Sin6 [0, 0, 0, 0, 0, 0, 0, 0, 0, 0, 0, 0, 0, 0, 0, 1] (htons 69)), f_canonname = None\<rparr>] False"
proof -
  let ?sa = "Sin6 [0, 0, 0, 0, 0, 0, 0, 0, 0, 0, 0, 0, 0, 0, 0, 1] (htons 69)"
  let ?en = "\<lparr>host_by = \<lambda>a f. None, serv_by = \<lambda>p u. None\<rparr>"
  have n: "ga_nameinfo ?en True ?sa 1025 32 (NI_NUMERICHOST OR NI_NUMERICSERV) = Inr (Some ''::1'', Some ''69'')"
    by code_simp
  show ?thesis
    using name_info_round_trip [of ?sa "[0, 0, 0, 0, 0, 0, 0, 0, 0, 0, 0, 0, 0, 0, 0, 1]" "htons 69" AF_INET6 "two_homes2\<lparr>v6 := True\<rparr>"
        AF_UNSPEC DGRAM 1025 32 ?en 0] n
    by (simp add: NI_MAXHOST_def NI_MAXSERV_def)
qed

text \<open>The path of a Unix domain socket comes back as well, by the special name of its host.\<close>

lemma path_round_trip:
  assumes "is_path (Some path)" "length path < 108" "108 \<le> servlen" "7 \<le> hostlen" "st \<in> {STREAM, DGRAM}"
  shows "ga_nameinfo en ip6 (Sun path) hostlen servlen flags = Inr (Some ''/local'', Some path)"
    "ga_getaddrinfo e (Some ''/local'') (Some path) (Some \<lparr>h_flags = 0, h_family = AF_LOCAL, h_socktype = st, h_protocol = p\<rparr>) =
     GaOk [\<lparr>f_flags = 0, f_family = AF_LOCAL, f_socktype = st, f_protocol = p, f_addr = Some (Sun path), f_canonname = None\<rparr>] False"
  using assms by (auto simp: ga_nameinfo_def snprintf_to_def ga_getaddrinfo_def ga_echeck_def ga_unix_def Let_def no_text_def
      STREAM_def DGRAM_def)

end
