(* ===== verification/Unp_Pool.thy ===== *)
theory Unp_Pool
  imports Unp_Read
begin

text \<open>
  The prethreaded server \<^verbatim>\<open>serv08.c\<close> and \<^verbatim>\<open>pthread08.c\<close> of
  \<^verbatim>\<open>src/unpv13e-master/server\<close>: the main thread puts the connections it accepts into a ring, and the
  threads of a pool take them out and serve them with \<^verbatim>\<open>web_child.c\<close>.  The ring is guarded by a mutex,
  so that what is done under it is one step; between the steps the threads interleave in any way.  Also the client that
  is used to measure the servers.
\<close>

section \<open>The pool\<close>

definition MAXNCLI :: nat where "MAXNCLI = 32"

text \<open>A thread is about to lock the mutex, asleep in \<^verbatim>\<open>pthread_cond_wait\<close>, or serves a
  connection.\<close>

datatype pool_phase = Awake | Asleep | Serving int

record pool =
  ring :: "int list"
  iput :: nat
  iget :: nat
  threads :: "pool_phase list"
  thread_count :: "nat list"

definition pool_start :: "nat \<Rightarrow> pool" where
  "pool_start n = \<lparr>ring = replicate MAXNCLI 0, iput = 0, iget = 0, threads = replicate n Awake, thread_count = replicate n 0\<rparr>"

definition next_index :: "nat \<Rightarrow> nat" where
  "next_index k = (if k + 1 = MAXNCLI then 0 else k + 1)"

text \<open>The main thread, between lock and signal.\<close>

definition pool_put :: "int \<Rightarrow> pool \<Rightarrow> string + pool" where
  "pool_put connfd s =
     (let s' = s\<lparr>ring := (ring s)[iput s := connfd], iput := next_index (iput s)\<rparr>
      in if iput s' = iget s' then Inl (''iput = iget = '' @ dec (iput s')) else Inr s')"

text \<open>A thread of the pool, from lock to unlock or to the wait.\<close>

definition pool_take :: "nat \<Rightarrow> pool \<Rightarrow> pool" where
  "pool_take i s =
     (if iget s = iput s then s\<lparr>threads := (threads s)[i := Asleep]\<rparr>
      else s\<lparr>threads := (threads s)[i := Serving (ring s ! iget s)], iget := next_index (iget s),
             thread_count := (thread_count s)[i := thread_count s ! i + 1]\<rparr>)"

definition wake :: "nat \<Rightarrow> pool \<Rightarrow> pool" where
  "wake i s = s\<lparr>threads := (threads s)[i := Awake]\<rparr>"

datatype pool_act = Accepted int | Took nat int | Closed nat int | Quiet

text \<open>The signal wakes one of the threads that sleep, if there is one; a thread may also wake without one.  A thread that
  has served its connection closes it and comes back to the lock.\<close>

inductive pool_step :: "pool \<Rightarrow> pool_act \<Rightarrow> pool \<Rightarrow> bool" where
  put_wake: "pool_put c s = Inr s' \<Longrightarrow> i < length (threads s) \<Longrightarrow> threads s ! i = Asleep \<Longrightarrow> pool_step s (Accepted c) (wake i s')"
| put_none: "pool_put c s = Inr s' \<Longrightarrow> Asleep \<notin> set (threads s) \<Longrightarrow> pool_step s (Accepted c) s'"
| take_conn: "i < length (threads s) \<Longrightarrow> threads s ! i = Awake \<Longrightarrow> iget s \<noteq> iput s \<Longrightarrow>
    pool_step s (Took i (ring s ! iget s)) (pool_take i s)"
| take_none: "i < length (threads s) \<Longrightarrow> threads s ! i = Awake \<Longrightarrow> iget s = iput s \<Longrightarrow> pool_step s Quiet (pool_take i s)"
| spurious: "i < length (threads s) \<Longrightarrow> threads s ! i = Asleep \<Longrightarrow> pool_step s Quiet (wake i s)"
| served: "i < length (threads s) \<Longrightarrow> threads s ! i = Serving c \<Longrightarrow> pool_step s (Closed i c) (wake i s)"

inductive_cases pool_stepE: "pool_step s a s'"

inductive pool_run :: "pool \<Rightarrow> pool_act list \<Rightarrow> pool \<Rightarrow> bool" where
  run_start: "pool_run s [] s"
| run_step: "pool_run s tr s' \<Longrightarrow> pool_step s' a s'' \<Longrightarrow> pool_run s (tr @ [a]) s''"

section \<open>Serving a connection\<close>

definition MAXN :: int where "MAXN = 16384"

text \<open>The number of a line: \<^verbatim>\<open>atol\<close>, stored in an \<^verbatim>\<open>int\<close>.\<close>

definition ntowrite :: "string \<Rightarrow> int" where
  "ntowrite line = sint (of_int (atoi line) :: 32 word)"

definition kev_size :: "kev list \<Rightarrow> nat" where
  "kev_size s = sum_list (map (\<lambda>e. case e of Chunk d \<Rightarrow> length d + 1 | _ \<Rightarrow> 1) s)"

lemma kread_size: "kread 1 s = (KData d, s') \<Longrightarrow> d \<noteq> [] \<Longrightarrow> kev_size s' < kev_size s"
  by (cases "(1 :: nat, s)" rule: kread.cases) (auto simp: kev_size_def split: if_splits)

lemma sreadline_loop_size:
  "sreadline_loop maxlen n out s = (Line l k, s') \<Longrightarrow>
   kev_size s' \<le> kev_size s \<and> (n < maxlen \<longrightarrow> kev_size s' < kev_size s \<or> k = 0 \<or> n \<noteq> 1)"
proof (induction maxlen n out s rule: sreadline_loop.induct)
  case (1 maxlen n out s)
  show ?case
  proof (cases "n < maxlen")
    case False
    then show ?thesis using "1.prems" by (simp add: sreadline_loop.simps)
  next
    case lt: True
    obtain r s1 where k: "kread 1 s = (r, s1)" by (cases "kread 1 s")
    have nil: "kread 1 s = (KData [], s1) \<Longrightarrow> s1 = s" by (cases "(1 :: nat, s)" rule: kread.cases) auto
    show ?thesis
    proof (cases r)
      case (KData d)
      consider "d = []" | c where "d = [c]" "c = NL" | c where "d = [c]" "c \<noteq> NL" | a b d' where "d = a # b # d'"
        by (cases d rule: remdups_adj.cases) auto
      then show ?thesis
      proof cases
        case 1
        then show ?thesis using "1.prems" lt k KData nil by (auto simp: sreadline_loop.simps [of maxlen n] split: if_splits)
      next
        case 2
        then show ?thesis using "1.prems" lt k KData kread_size [of s d s1] by (simp add: sreadline_loop.simps [of maxlen n])
      next
        case (3 c)
        have "sreadline_loop maxlen (n + 1) (out @ [c]) s1 = (Line l k, s')"
          using "1.prems" lt k KData 3 by (simp add: sreadline_loop.simps [of maxlen n])
        from "1.IH" [OF lt k [symmetric] KData _ _ 3(2) this] 3 kread_size [of s d s1] k KData show ?thesis by auto
      next
        case 4
        have "length d \<le> 1" using k KData by (cases "(1 :: nat, s)" rule: kread.cases) auto
        then show ?thesis using 4 by simp
      qed
    qed (use "1.prems" lt k in \<open>simp_all add: sreadline_loop.simps [of maxlen n]\<close>)
  qed
qed

text \<open>The requests of a connection, each with the number of bytes that is sent back; \<open>w j\<close> tells whether the \<open>j\<close>-th reply
  can be written.\<close>

datatype web_end = Returned | ReadExit | WriteExit | QuitOn int | Unfinished

function web_child :: "(nat \<Rightarrow> bool) \<Rightarrow> nat \<Rightarrow> kev list \<Rightarrow> web_end \<times> int list" where
  "web_child w j s =
     (case sreadline UNP_MAXLINE s of
        (LineErr, s') \<Rightarrow> (ReadExit, [])
      | (LineBlocks, s') \<Rightarrow> (Unfinished, [])
      | (Line line nread, s') \<Rightarrow>
          if nread = 0 then (Returned, [])
          else
            let n = ntowrite line in
            if n \<le> 0 \<or> MAXN < n then (QuitOn n, [])
            else if \<not> w j then (WriteExit, [])
            else (case web_child w (j + 1) s' of (r, ns) \<Rightarrow> (r, n # ns)))"
  by pat_completeness auto
termination
proof (relation "measure (\<lambda>(w, j, s). kev_size s)", goal_cases)
  case (2 w j s x s' line k y)
  then have "sreadline_loop UNP_MAXLINE 1 [] s = (Line line k, s')" by (simp add: sreadline_def)
  from sreadline_loop_size [OF this] 2 show ?case by (simp add: UNP_MAXLINE_def)
qed simp

declare web_child.simps [simp del]

section \<open>The client\<close>

definition client_request :: "int \<Rightarrow> string" where
  "client_request nbytes = dec_int nbytes @ [NL]"

text \<open>One connection of the client, over what comes back on it.\<close>

definition client_reply :: "nat \<Rightarrow> kev list \<Rightarrow> string + unit" where
  "client_reply nbytes s =
     (case readn nbytes s of
        (Done out n, s') \<Rightarrow> if n \<noteq> int nbytes then Inl (''server returned '' @ dec_int n @ '' bytes'') else Inr ()
      | (_, s') \<Rightarrow> Inl ''readn error'')"

end
