(* ===== verification/Unp_Pool_Props.thy ===== *)
theory Unp_Pool_Props
  imports Unp_Pool Unp_Read_Props
begin

text \<open>
  The prethreaded server: whatever the schedule, the connections are served in the order they were accepted, each by one
  thread; no wake-up is lost; and the client's requests are answered with what they ask for however they are cut.
\<close>

section \<open>The ring\<close>

definition queued :: "pool \<Rightarrow> int list" where
  "queued s = map (\<lambda>k. ring s ! ((iget s + k) mod MAXNCLI)) [0..<(iput s + MAXNCLI - iget s) mod MAXNCLI]"

definition ring_ok :: "pool \<Rightarrow> bool" where
  "ring_ok s \<longleftrightarrow> length (ring s) = MAXNCLI \<and> iput s < MAXNCLI \<and> iget s < MAXNCLI \<and> length (thread_count s) = length (threads s)"

lemma next_index_mod: "k < MAXNCLI \<Longrightarrow> next_index k = (k + 1) mod MAXNCLI"
  by (auto simp: next_index_def MAXNCLI_def)

lemma wrap32: "x < 64 \<Longrightarrow> (x :: nat) mod 32 = (if x < 32 then x else x - 32)"
  by (simp add: le_mod_geq)

lemma ring_arith:
  fixes p g :: nat
  assumes "p < 32" "g < 32"
  shows "(g + (p + 32 - g) mod 32) mod 32 = p"
    "k < (p + 32 - g) mod 32 \<Longrightarrow> (g + k) mod 32 \<noteq> p"
    "(p + 1) mod 32 \<noteq> g \<Longrightarrow> ((p + 1) mod 32 + 32 - g) mod 32 = Suc ((p + 32 - g) mod 32)"
    "(p + 1) mod 32 = g \<longleftrightarrow> (p + 32 - g) mod 32 = 31"
    "g \<noteq> p \<Longrightarrow> (p + 32 - g) mod 32 = Suc ((p + 32 - (g + 1) mod 32) mod 32)"
    "((g + 1) mod 32 + k) mod 32 = (g + Suc k) mod 32"
proof -
  have m: "(p + 32 - g) mod 32 = (if g \<le> p then p - g else p + 32 - g)" using assms by (subst wrap32) auto
  have n: "(x + 1) mod 32 = (if x = 31 then 0 else x + 1)" if "x < 32" for x :: nat using that by (subst wrap32) auto
  show "(g + (p + 32 - g) mod 32) mod 32 = p" unfolding m using assms by (subst wrap32) auto
  show "(g + k) mod 32 \<noteq> p" if "k < (p + 32 - g) mod 32" using that assms unfolding m by (subst wrap32) (auto split: if_splits)
  show "((p + 1) mod 32 + 32 - g) mod 32 = Suc ((p + 32 - g) mod 32)" if "(p + 1) mod 32 \<noteq> g"
    using that assms unfolding m n [OF assms(1)] by (subst wrap32) (auto split: if_splits)
  show "(p + 1) mod 32 = g \<longleftrightarrow> (p + 32 - g) mod 32 = 31" using assms unfolding m n [OF assms(1)] by auto
  show "(p + 32 - g) mod 32 = Suc ((p + 32 - (g + 1) mod 32) mod 32)" if "g \<noteq> p"
    using that assms unfolding m n [OF assms(2)] by (subst wrap32) (auto split: if_splits)
  show "((g + 1) mod 32 + k) mod 32 = (g + Suc k) mod 32" by (simp add: mod_add_left_eq)
qed

lemma length_queued: "length (queued s) < MAXNCLI"
  by (simp add: queued_def MAXNCLI_def)

lemma pool_put_full: "ring_ok s \<Longrightarrow> (\<exists>m. pool_put c s = Inl m) \<longleftrightarrow> length (queued s) = MAXNCLI - 1"
  using ring_arith(4) [of "iput s" "iget s"]
  by (simp add: pool_put_def Let_def next_index_mod ring_ok_def queued_def MAXNCLI_def)

lemma pool_put_queued:
  assumes "ring_ok s" "pool_put c s = Inr s'"
  shows "ring_ok s' \<and> queued s' = queued s @ [c] \<and> threads s' = threads s \<and> thread_count s' = thread_count s"
proof -
  have b: "length (ring s) = 32" "iput s < 32" "iget s < 32" using assms(1) by (simp_all add: ring_ok_def MAXNCLI_def)
  note r = ring_arith [OF b(2,3)]
  have s': "s' = s\<lparr>ring := (ring s)[iput s := c], iput := (iput s + 1) mod 32\<rparr>" and ne: "(iput s + 1) mod 32 \<noteq> iget s"
    using assms(2) b(2) by (auto simp: pool_put_def Let_def next_index_mod MAXNCLI_def split: if_splits)
  have "(ring s)[iput s := c] ! ((iget s + k) mod 32) = ring s ! ((iget s + k) mod 32)" if "k < (iput s + 32 - iget s) mod 32" for k
    using r(2) [OF that] by simp
  moreover have "(ring s)[iput s := c] ! ((iget s + (iput s + 32 - iget s) mod 32) mod 32) = c" using r(1) b by simp
  ultimately have "queued s' = queued s @ [c]"
    by (simp add: queued_def s' MAXNCLI_def r(3) [OF ne, simplified])
  then show ?thesis using assms(1) by (simp add: s' ring_ok_def MAXNCLI_def)
qed

lemma pool_take_queued:
  assumes "ring_ok s" "iget s \<noteq> iput s"
  shows "ring_ok (pool_take i s) \<and> queued s = ring s ! iget s # queued (pool_take i s)"
proof -
  have b: "length (ring s) = 32" "iput s < 32" "iget s < 32" using assms(1) by (simp_all add: ring_ok_def MAXNCLI_def)
  note r = ring_arith [OF b(2,3)]
  have "queued s = map (\<lambda>k. ring s ! ((iget s + k) mod 32)) [0..<Suc ((iput s + 32 - (iget s + 1) mod 32) mod 32)]"
    unfolding queued_def MAXNCLI_def r(5) [OF assms(2)] ..
  also have "\<dots> = ring s ! iget s # map (\<lambda>k. ring s ! ((iget s + Suc k) mod 32)) [0..<(iput s + 32 - (iget s + 1) mod 32) mod 32]"
    unfolding upt_conv_Cons [OF zero_less_Suc] using b(3) by (simp add: map_Suc_upt [symmetric] comp_def del: upt_Suc)
  also have "\<dots> = ring s ! iget s # queued (pool_take i s)"
    using assms(2) b(3) r(6) by (simp add: queued_def pool_take_def next_index_mod MAXNCLI_def)
  finally show ?thesis using assms by (simp add: ring_ok_def pool_take_def next_index_mod MAXNCLI_def)
qed

lemma pool_take_empty:
  assumes "ring_ok s" "iget s = iput s"
  shows "ring_ok (pool_take i s)" "queued (pool_take i s) = []" "queued s = []"
  using assms by (simp_all add: ring_ok_def pool_take_def queued_def)

lemma wake_simps [simp]:
  "ring_ok (wake i s) = ring_ok s" "queued (wake i s) = queued s" "thread_count (wake i s) = thread_count s"
  "threads (wake i s) = (threads s)[i := Awake]"
  by (simp_all add: wake_def ring_ok_def queued_def)

section \<open>Runs\<close>

fun accepted :: "pool_act list \<Rightarrow> int list" where
  "accepted [] = []"
| "accepted (Accepted c # tr) = c # accepted tr"
| "accepted (a # tr) = accepted tr"

fun took :: "pool_act list \<Rightarrow> int list" where
  "took [] = []"
| "took (Took i c # tr) = c # took tr"
| "took (a # tr) = took tr"

fun took_by :: "nat \<Rightarrow> pool_act list \<Rightarrow> int list" where
  "took_by i [] = []"
| "took_by i (Took j c # tr) = (if j = i then c # took_by i tr else took_by i tr)"
| "took_by i (a # tr) = took_by i tr"

fun closed_by :: "nat \<Rightarrow> pool_act list \<Rightarrow> int list" where
  "closed_by i [] = []"
| "closed_by i (Closed j c # tr) = (if j = i then c # closed_by i tr else closed_by i tr)"
| "closed_by i (a # tr) = closed_by i tr"

lemma trace_append [simp]:
  "accepted (tr @ [a]) = accepted tr @ accepted [a]" "took (tr @ [a]) = took tr @ took [a]"
  "took_by i (tr @ [a]) = took_by i tr @ took_by i [a]" "closed_by i (tr @ [a]) = closed_by i tr @ closed_by i [a]"
  by (induction tr rule: accepted.induct; simp)+

definition served_now :: "pool_phase \<Rightarrow> int list" where
  "served_now p = (case p of Serving c \<Rightarrow> [c] | _ \<Rightarrow> [])"

lemma served_now_simps [simp]: "served_now Awake = []" "served_now Asleep = []" "served_now (Serving c) = [c]"
  by (simp_all add: served_now_def)

definition awake :: "pool \<Rightarrow> nat" where
  "awake s = length (filter (\<lambda>p. p = Awake) (threads s))"

definition pool_inv :: "pool_act list \<Rightarrow> pool \<Rightarrow> bool" where
  "pool_inv tr s \<longleftrightarrow> ring_ok s \<and> accepted tr = took tr @ queued s \<and>
     (\<forall>i < length (threads s). took_by i tr = closed_by i tr @ served_now (threads s ! i) \<and>
        thread_count s ! i = length (took_by i tr)) \<and>
     (Asleep \<in> set (threads s) \<longrightarrow> length (queued s) \<le> awake s)"

lemma awake_wake:
  "i < length (threads s) \<Longrightarrow> threads s ! i \<noteq> Awake \<Longrightarrow> awake (wake i s) = awake s + 1"
  using length_filter_update [of i "threads s" "\<lambda>p. p = Awake" Awake] by (simp add: awake_def)

lemma pool_step_inv:
  assumes "pool_inv tr s" "pool_step s a s'"
  shows "pool_inv (tr @ [a]) s' \<and> length (threads s') = length (threads s)"
  using assms(2)
proof cases
  case (put_wake c s1 i)
  have p: "ring_ok s1" "queued s1 = queued s @ [c]" "threads s1 = threads s" "thread_count s1 = thread_count s"
    using pool_put_queued [OF _ put_wake(3)] assms(1) by (simp_all add: pool_inv_def)
  have "awake s' = awake s + 1" using awake_wake [of i s1] put_wake p(3) by (simp add: awake_def)
  moreover have "Asleep \<in> set (threads s)" using put_wake by (metis nth_mem)
  ultimately show ?thesis using assms(1) put_wake p by (auto simp: pool_inv_def nth_list_update)
next
  case (put_none c)
  have p: "ring_ok s'" "queued s' = queued s @ [c]" "threads s' = threads s" "thread_count s' = thread_count s"
    using pool_put_queued [OF _ put_none(2)] assms(1) by (simp_all add: pool_inv_def)
  then show ?thesis using assms(1) put_none by (auto simp: pool_inv_def)
next
  case (take_conn i)
  have q: "ring_ok s'" "queued s = ring s ! iget s # queued s'"
    using pool_take_queued [of s i] assms(1) take_conn by (simp_all add: pool_inv_def)
  have t: "threads (pool_take i s) = (threads s)[i := Serving (ring s ! iget s)]" "thread_count (pool_take i s) = (thread_count s)[i := thread_count s ! i + 1]"
    using take_conn by (simp_all add: pool_take_def)
  have "awake s' + 1 = awake s"
    using length_filter_update [of i "threads s" "\<lambda>p. p = Awake" "Serving (ring s ! iget s)"] take_conn(3,4)
    unfolding awake_def take_conn(2) t by simp
  moreover have "Asleep \<in> set (threads s') \<Longrightarrow> Asleep \<in> set (threads s)"
    using set_update_subset_insert [of "threads s" i "Serving (ring s ! iget s)"] by (auto simp: take_conn(2) t)
  moreover have "length (thread_count s) = length (threads s)" using assms(1) by (simp add: pool_inv_def ring_ok_def)
  ultimately show ?thesis using assms(1) q take_conn by (auto simp: pool_inv_def nth_list_update t)
next
  case (take_none i)
  have q: "ring_ok s'" "queued s' = []" "queued s = []"
    using pool_take_empty(1,2) [of s i] pool_take_empty(3) [of s] assms(1) take_none by (simp_all add: pool_inv_def)
  have t: "threads (pool_take i s) = (threads s)[i := Asleep]" "thread_count (pool_take i s) = thread_count s"
    using take_none by (simp_all add: pool_take_def)
  show ?thesis using assms(1) q take_none by (auto simp: pool_inv_def nth_list_update t)
next
  case (spurious i)
  have "awake s' = awake s + 1" using awake_wake spurious by simp
  moreover have "Asleep \<in> set (threads s)" using spurious by (metis nth_mem)
  ultimately show ?thesis using assms(1) spurious by (auto simp: pool_inv_def nth_list_update)
next
  case (served i c)
  have "awake s' = awake s + 1" using awake_wake served by simp
  moreover have "Asleep \<in> set (threads s') \<Longrightarrow> Asleep \<in> set (threads s)"
    using set_update_subset_insert [of "threads s" i Awake] served by auto
  ultimately show ?thesis using assms(1) served by (auto simp: pool_inv_def nth_list_update)
qed

lemma pool_start_inv: "pool_inv [] (pool_start n)"
  by (simp add: pool_inv_def pool_start_def ring_ok_def queued_def MAXNCLI_def)

lemma pool_run_inv: "pool_run s0 tr s \<Longrightarrow> s0 = pool_start n \<Longrightarrow> pool_inv tr s \<and> length (threads s) = n"
proof (induction rule: pool_run.induct)
  case (run_start s)
  then show ?case using pool_start_inv by (simp add: pool_start_def)
next
  case (run_step s tr s' a s'')
  then show ?case using pool_step_inv by fastforce
qed

text \<open>C35. Whatever the schedule of the main thread and the \<open>n\<close> threads of the pool, with wake-ups that come without a
  signal, the connections are taken in the order they were accepted, each by one thread; those not yet taken are in the
  ring, at most 31; a thread has closed all it took but the one it serves, and its counter is their number.\<close>

theorem pool_is_fifo:
  assumes "pool_run (pool_start n) tr s"
  shows "accepted tr = took tr @ queued s \<and> length (queued s) < MAXNCLI \<and>
    (\<forall>i < n. took_by i tr = closed_by i tr @ (case threads s ! i of Serving c \<Rightarrow> [c] | _ \<Rightarrow> []) \<and>
       thread_count s ! i = length (took_by i tr))"
  using pool_run_inv [OF assms refl] length_queued by (auto simp: pool_inv_def served_now_def)

text \<open>No wake-up is lost: as long as a thread sleeps there is for each connection in the ring a thread that is about to
  take one, so that connections wait only when all threads serve; and the one thing that stops the server is a
  connection that comes when 31 wait.\<close>

theorem pool_no_lost_wakeup:
  assumes "pool_run (pool_start n) tr s"
  shows "(Asleep \<in> set (threads s) \<longrightarrow> length (queued s) \<le> length (filter (\<lambda>p. p = Awake) (threads s))) \<and>
    ((\<exists>m. pool_put c s = Inl m) \<longleftrightarrow> length (queued s) = 31)"
  using pool_run_inv [OF assms refl] pool_put_full [of s c] by (auto simp: pool_inv_def awake_def MAXNCLI_def)

definition pool_example :: pool where
  "pool_example = \<lparr>ring = (replicate MAXNCLI 0)[0 := 7, 1 := 8], iput = 2, iget = 1, threads = [Awake, Serving 7], thread_count = [0, 1]\<rparr>"

lemma pool_example_run: "pool_run (pool_start 2) [Accepted 7, Accepted 8, Took 1 7] pool_example"
proof -
  let ?s1 = "(pool_start 2)\<lparr>ring := (replicate MAXNCLI 0)[0 := 7], iput := 1\<rparr>"
  let ?s2 = "?s1\<lparr>ring := (replicate MAXNCLI 0)[0 := 7, 1 := 8], iput := 2\<rparr>"
  have f: "threads (pool_start 2) = [Awake, Awake]" "thread_count (pool_start 2) = [0, 0]" "iget (pool_start 2) = 0"
    by (simp_all add: pool_start_def numeral_2_eq_2)
  have "pool_put 7 (pool_start 2) = Inr ?s1" "pool_put 8 ?s1 = Inr ?s2"
    by (simp_all add: pool_put_def Let_def next_index_def MAXNCLI_def pool_start_def)
  then have "pool_step (pool_start 2) (Accepted 7) ?s1" "pool_step ?s1 (Accepted 8) ?s2"
    by (auto intro!: put_none simp: f)
  moreover have "pool_take 1 ?s2 = pool_example"
    by (simp add: pool_take_def pool_example_def pool_start_def next_index_def MAXNCLI_def numeral_2_eq_2)
  moreover have "pool_step ?s2 (Took 1 (ring ?s2 ! iget ?s2)) (pool_take 1 ?s2)"
    by (rule pool_step.take_conn) (simp_all add: f)
  ultimately have "pool_step ?s2 (Took 1 7) pool_example" by (simp add: f MAXNCLI_def)
  with \<open>pool_step (pool_start 2) (Accepted 7) ?s1\<close> \<open>pool_step ?s1 (Accepted 8) ?s2\<close>
  show ?thesis using pool_run.intros by (metis append.simps(1,2))
qed

lemma pool_is_fifo_witness:
  "accepted [Accepted 7, Accepted 8, Took 1 7] = took [Accepted 7, Accepted 8, Took 1 7] @ queued pool_example \<and> queued pool_example = [8]"
  using pool_is_fifo [OF pool_example_run] by simp

lemma pool_no_lost_wakeup_witness: "\<not> (\<exists>m. pool_put 9 pool_example = Inl m)"
proof -
  have "length (queued pool_example) = 1" by (simp add: queued_def pool_example_def MAXNCLI_def)
  then show ?thesis using pool_no_lost_wakeup [OF pool_example_run, of 9] by simp
qed

section \<open>Requests and replies\<close>

definition only_chunks :: "kev list \<Rightarrow> bool" where
  "only_chunks s \<longleftrightarrow> list_all (\<lambda>e. case e of Chunk d \<Rightarrow> True | _ \<Rightarrow> False) s"

lemma kread_next:
  assumes "only_chunks s" "data_of s = c # d"
  shows "\<exists>s'. kread 1 s = (KData [c], s') \<and> only_chunks s' \<and> data_of s' = d \<and> tail_of s' = tail_of s"
proof (cases s)
  case (Cons e s1)
  then obtain x where x: "e = Chunk x" using assms(1) by (cases e) (simp_all add: only_chunks_def)
  obtain x' where "x = c # x'" using assms(2) Cons x by (cases x) auto
  then show ?thesis using assms Cons x by (cases x') (auto simp: only_chunks_def)
qed (use assms in simp)

lemma sreadline_takes_line:
  "only_chunks s \<Longrightarrow> data_of s = l @ NL # d \<Longrightarrow> NL \<notin> set l \<Longrightarrow> n + length l < maxlen \<Longrightarrow>
   \<exists>s'. sreadline_loop maxlen n out s = (Line (out @ l @ [NL]) (int (n + length l)), s') \<and> only_chunks s' \<and> data_of s' = d \<and>
     tail_of s' = tail_of s"
proof (induction l arbitrary: n out s)
  case Nil
  obtain s' where "kread 1 s = (KData [NL], s')" "only_chunks s'" "data_of s' = d" "tail_of s' = tail_of s"
    using kread_next [OF Nil.prems(1), of NL d] Nil.prems(2) by auto
  then show ?case using Nil.prems by (simp add: sreadline_loop.simps)
next
  case (Cons c l)
  obtain s1 where k: "kread 1 s = (KData [c], s1)" "only_chunks s1" "data_of s1 = l @ NL # d" "tail_of s1 = tail_of s"
    using kread_next [OF Cons.prems(1), of c "l @ NL # d"] Cons.prems(2) by auto
  obtain s' where "sreadline_loop maxlen (n + 1) (out @ [c]) s1 = (Line ((out @ [c]) @ l @ [NL]) (int (n + 1 + length l)), s')"
    "only_chunks s'" "data_of s' = d" "tail_of s' = tail_of s1"
    using Cons.IH [OF k(2,3), of "n + 1" "out @ [c]"] Cons.prems(3,4) by auto
  moreover have "c \<noteq> NL" using Cons.prems(3) by auto
  ultimately show ?case using k Cons.prems(4) by (simp add: sreadline_loop.simps [of maxlen n])
qed

lemma not_isdigit_NL: "\<not> isdigit NL"
  by (simp add: isdigit_def code_def)

lemma ntowrite_request:
  assumes "1 \<le> n" "n \<le> MAXN" shows "ntowrite (client_request n) = n"
proof -
  have "atoi (client_request n) = n"
    using scan_d_dec [of "[NL]" "nat n"] assms not_isdigit_NL by (simp add: atoi_def client_request_def dec_int_def)
  then show ?thesis using assms by (simp add: ntowrite_def MAXN_def sint_sbintrunc' signed_take_bit_int_eq_self)
qed

lemma request_line:
  assumes "1 \<le> n" "n \<le> MAXN" shows "NL \<notin> set (dec_int n) \<and> length (dec_int n) + 1 < UNP_MAXLINE"
proof -
  have "length (dec (nat n)) \<le> 5" using assms length_dec_le [of "nat n" 4] by (simp add: MAXN_def)
  then show ?thesis using assms not_isdigit_NL dec_digits [of NL "nat n"] by (auto simp: dec_int_def UNP_MAXLINE_def)
qed

lemma sreadline_end: "only_chunks s \<Longrightarrow> data_of s = [] \<Longrightarrow> tail_of s = Chunk [] # t \<Longrightarrow> \<exists>s'. sreadline UNP_MAXLINE s = (Line [] 0, s')"
  by (cases s) (auto simp: only_chunks_def sreadline_def sreadline_loop.simps UNP_MAXLINE_def split: kev.splits if_splits)

lemma web_child_serves:
  "list_all (\<lambda>n. 1 \<le> n \<and> n \<le> MAXN) ns \<Longrightarrow> only_chunks s \<Longrightarrow> data_of s = concat (map client_request ns) \<Longrightarrow>
   tail_of s = Chunk [] # t \<Longrightarrow> web_child (\<lambda>j. True) k s = (Returned, ns)"
proof (induction ns arbitrary: s k)
  case Nil
  then show ?case using sreadline_end [of s t] by (auto simp: web_child.simps)
next
  case (Cons n ns)
  have n: "1 \<le> n" "n \<le> MAXN" using Cons.prems(1) by simp_all
  note r = request_line [OF n]
  have "data_of s = dec_int n @ NL # concat (map client_request ns)" using Cons.prems(3) by (simp add: client_request_def [of n])
  then obtain s' where "sreadline_loop UNP_MAXLINE 1 [] s = (Line (dec_int n @ [NL]) (int (1 + length (dec_int n))), s')"
    and s': "only_chunks s'" "data_of s' = concat (map client_request ns)" "tail_of s' = Chunk [] # t"
    using sreadline_takes_line [OF Cons.prems(2), of "dec_int n" "concat (map client_request ns)" 1 UNP_MAXLINE "[]"] Cons.prems(4) r
    by auto
  then have "sreadline UNP_MAXLINE s = (Line (client_request n) (int (1 + length (dec_int n))), s')"
    by (simp add: sreadline_def client_request_def)
  moreover have "web_child (\<lambda>j. True) (k + 1) s' = (Returned, ns)" by (rule Cons.IH) (use Cons.prems s' in simp_all)
  ultimately show ?case using n by (subst web_child.simps) (simp add: ntowrite_request)
qed

text \<open>The requests of a connection, for 1 to 16384 bytes each and cut by the network in any way, are answered in order
  with as many bytes as they ask for, and the connection ends with the client's end; and the client is content with a reply of
  that length, however it comes.\<close>

theorem web_child_answers:
  assumes "list_all (\<lambda>n. 1 \<le> n \<and> n \<le> MAXN) ns" "only_chunks s" "data_of s = concat (map client_request ns)" "tail_of s = [Chunk []]"
    and "n \<in> set ns" "length (data_of reply) = nat n"
  shows "web_child (\<lambda>j. True) 0 s = (Returned, ns) \<and> client_reply (nat n) reply = Inr ()"
proof
  show "web_child (\<lambda>j. True) 0 s = (Returned, ns)" by (rule web_child_serves [OF assms(1-4)])
  have "fst (readn (nat n) reply) = Done (data_of reply) (int (nat n))"
    using readn_loop_ref [of "nat n" "nat n" "[]" reply] assms(6) by (simp add: readn_def readn_ref_def)
  then show "client_reply (nat n) reply = Inr ()" by (simp add: client_reply_def split: prod.splits) (cases "readn (nat n) reply", simp)
qed

lemma web_child_answers_witness:
  "web_child (\<lambda>j. True) 0 [Chunk ''40'', Chunk (''00'' @ [NL] @ ''3''), Chunk ([NL]), Chunk []] = (Returned, [4000, 3]) \<and>
   client_reply 3 [Chunk ''a'', Intr, Chunk ''bc''] = Inr ()"
proof -
  have d: "dec_int 4000 = ''4000''" "dec_int 3 = ''3''" by code_simp+
  have "web_child (\<lambda>j. True) 0 [Chunk ''40'', Chunk (''00'' @ [NL] @ ''3''), Chunk ([NL]), Chunk []] = (Returned, [4000, 3]) \<and>
      client_reply (nat 3) [Chunk ''a'', Intr, Chunk ''bc''] = Inr ()"
    by (rule web_child_answers) (simp_all add: MAXN_def only_chunks_def client_request_def d)
  then show ?thesis by simp
qed

end
