(* ===== verification/Unp_Web.thy ===== *)
theory Unp_Web
  imports Scan
begin

text \<open>
  The client that fetches several pages at once over nonblocking connections, \<^verbatim>\<open>web.c\<close>,
  \<^verbatim>\<open>home_page.c\<close>, \<^verbatim>\<open>start_connect.c\<close> and \<^verbatim>\<open>write_get_cmd.c\<close> of
  \<^verbatim>\<open>src/unpv13e-master/nonblock\<close>.  One iteration of its loop is a function of its globals and
  of what the system answers in it.  \<open>Inl\<close> is an end of the program: an exit with its message, or what C leaves
  undefined.
\<close>

section \<open>The globals\<close>

definition MAXFILES :: nat where "MAXFILES = 20"
definition WEB_MAXLINE :: nat where "WEB_MAXLINE = 4096"

definition F_CONNECTING :: int where "F_CONNECTING = 1"
definition F_READING :: int where "F_READING = 2"
definition F_DONE :: int where "F_DONE = 4"

lemmas flag_defs = F_CONNECTING_def F_READING_def F_DONE_def

text \<open>\<open>flags & F\<close>, as a condition.\<close>

definition has_flag :: "int \<Rightarrow> int \<Rightarrow> bool" where
  "has_flag flags f \<longleftrightarrow> flags AND f \<noteq> 0"

record web_file =
  f_name :: string
  f_host :: string
  f_fd :: int
  f_flags :: int

record web_state =
  files :: "web_file list"
  nconn :: int
  nlefttoconn :: int
  nlefttoread :: int
  maxfd :: int
  rset :: "int set"
  wset :: "int set"

text \<open>The sockets the program holds: those of the files that are connecting or being read.\<close>

definition is_open :: "web_file \<Rightarrow> bool" where
  "is_open f \<longleftrightarrow> has_flag (f_flags f) F_CONNECTING \<or> has_flag (f_flags f) F_READING"

definition in_use :: "web_state \<Rightarrow> int set" where
  "in_use s = f_fd ` set (filter is_open (files s))"

section \<open>What the system answers\<close>

datatype conn_result = ConnDone | ConnInProgress | ConnErr

text \<open>
  In one iteration: \<open>newfd\<close> is the socket for the host, given the sockets in use, \<open>None\<close> when the look-up or a
  call before the connect fails; \<open>conn\<close> the result of the connect on it; \<open>rs\<close> and \<open>ws\<close> what \<^verbatim>\<open>select\<close>
  reports; \<open>sockerr\<close> whether a connection has failed; \<open>got\<close> what a read gives, no bytes at the end of the file
  and \<open>None\<close> on an error; \<open>sendable\<close> whether a line can be written to the socket.
\<close>

record web_env =
  newfd :: "int set \<Rightarrow> int option"
  conn :: "int \<Rightarrow> conn_result"
  rs :: "int set"
  ws :: "int set"
  sockerr :: "int \<Rightarrow> bool"
  got :: "int \<Rightarrow> string option"
  sendable :: "int \<Rightarrow> bool"

text \<open>What the program does to the outside, by the index of the file.\<close>

datatype web_out = Started (about: nat) int | ConnFailed (about: nat) | Wrote (about: nat) string
  | Received (about: nat) string | Closed (about: nat) int

datatype stop = Exit string | Undefined

type_synonym web_result = "(stop + web_state) \<times> web_out list"

text \<open>One action after another, unless the first ends the program.\<close>

definition and_then :: "web_result \<Rightarrow> (web_state \<Rightarrow> web_result) \<Rightarrow> web_result" where
  "and_then r f =
     (case r of
        (Inl x, out) \<Rightarrow> (Inl x, out)
      | (Inr s, out) \<Rightarrow> (case f s of (r', out') \<Rightarrow> (r', out @ out')))"

section \<open>The request\<close>

definition get_cmd :: "string \<Rightarrow> string" where
  "get_cmd name = ''GET '' @ name @ '' HTTP/1.0'' @ [CR, NL, CR, NL]"

text \<open>\<^verbatim>\<open>snprintf\<close> cuts the line to the buffer but returns its whole length, and that many bytes
  of the buffer are written: one byte too many is the terminating zero, more lie behind the buffer.\<close>

definition line_sent :: "string \<Rightarrow> string option" where
  "line_sent line =
     (if length line < WEB_MAXLINE then Some line
      else if length line = WEB_MAXLINE then Some (take (WEB_MAXLINE - 1) line @ [NUL])
      else None)"

definition set_file :: "nat \<Rightarrow> (web_file \<Rightarrow> web_file) \<Rightarrow> web_state \<Rightarrow> web_state" where
  "set_file i f s = s\<lparr>files := (files s)[i := f (files s ! i)]\<rparr>"

definition write_get_cmd :: "web_env \<Rightarrow> nat \<Rightarrow> web_state \<Rightarrow> web_result" where
  "write_get_cmd e i s =
     (let d = f_fd (files s ! i) in
      case line_sent (get_cmd (f_name (files s ! i))) of
        None \<Rightarrow> (Inl Undefined, [])
      | Some line \<Rightarrow>
          if \<not> sendable e d then (Inl (Exit ''writen error''), [])
          else (Inr (set_file i (\<lambda>f. f\<lparr>f_flags := F_READING\<rparr>)
                       (s\<lparr>rset := insert d (rset s), maxfd := max (maxfd s) d\<rparr>)),
                [Wrote i line]))"

definition start_connect :: "web_env \<Rightarrow> nat \<Rightarrow> web_state \<Rightarrow> web_result" where
  "start_connect e i s =
     (case newfd e (in_use s) of
        None \<Rightarrow> (Inl (Exit ''socket error''), [])
      | Some d \<Rightarrow>
          and_then (Inr (set_file i (\<lambda>f. f\<lparr>f_fd := d\<rparr>) s), [Started i d]) (\<lambda>s.
            case conn e d of
              ConnErr \<Rightarrow> (Inl (Exit ''nonblocking connect error''), [])
            | ConnInProgress \<Rightarrow>
                (Inr (set_file i (\<lambda>f. f\<lparr>f_flags := F_CONNECTING\<rparr>)
                        (s\<lparr>rset := insert d (rset s), wset := insert d (wset s), maxfd := max (maxfd s) d\<rparr>)), [])
            | ConnDone \<Rightarrow> write_get_cmd e i s))"

section \<open>The loop\<close>

lemma write_get_cmd_counts:
  "write_get_cmd e i s = (Inr s', out) \<Longrightarrow> nlefttoconn s' = nlefttoconn s \<and> nconn s' = nconn s"
  by (auto simp: write_get_cmd_def set_file_def Let_def split: option.splits if_splits)

lemma start_connect_counts:
  "start_connect e i s = (Inr s', out) \<Longrightarrow> nlefttoconn s' = nlefttoconn s \<and> nconn s' = nconn s"
  by (auto simp: start_connect_def and_then_def set_file_def dest!: write_get_cmd_counts
    split: option.splits conn_result.splits prod.splits)

text \<open>New connections are started while fewer than \<open>m\<close> are open and a file is left.\<close>

function start_more :: "web_env \<Rightarrow> int \<Rightarrow> web_state \<Rightarrow> web_result" where
  "start_more e m s =
     (if nconn s < m \<and> 0 < nlefttoconn s then
        (case first_slot (\<lambda>f. f_flags f = 0) (files s) of
           None \<Rightarrow> (Inl (Exit ''nothing found''), [])
         | Some i \<Rightarrow>
             (case start_connect e i s of
                (Inl x, out) \<Rightarrow> (Inl x, out)
              | (Inr s', out) \<Rightarrow>
                  (case start_more e m (s'\<lparr>nconn := nconn s' + 1, nlefttoconn := nlefttoconn s' - 1\<rparr>) of
                     (r, out') \<Rightarrow> (r, out @ out'))))
      else (Inr s, []))"
  by pat_completeness auto
termination
  by (relation "measure (\<lambda>(e, m, s). nat (nlefttoconn s))") (auto dest: start_connect_counts [OF sym])

declare start_more.simps [simp del]

text \<open>The file with index \<open>i\<close> after \<^verbatim>\<open>select\<close>.  A failed connection is reported and then
  used like one that succeeded.\<close>

definition web_one :: "web_env \<Rightarrow> nat \<Rightarrow> web_state \<Rightarrow> web_result" where
  "web_one e i s =
     (let f = files s ! i; flags = f_flags f; d = f_fd f in
      if flags = 0 \<or> has_flag flags F_DONE then (Inr s, [])
      else if has_flag flags F_CONNECTING \<and> (d \<in> rs e \<or> d \<in> ws e) then
        and_then (Inr (s\<lparr>wset := wset s - {d}\<rparr>), if sockerr e d then [ConnFailed i] else []) (write_get_cmd e i)
      else if has_flag flags F_READING \<and> d \<in> rs e then
        (case got e d of
           None \<Rightarrow> (Inl (Exit ''read error''), [])
         | Some b \<Rightarrow>
             if b = [] then
               (Inr (set_file i (\<lambda>f. f\<lparr>f_flags := F_DONE\<rparr>)
                       (s\<lparr>rset := rset s - {d}, nconn := nconn s - 1, nlefttoread := nlefttoread s - 1\<rparr>)),
                [Closed i d])
             else (Inr s, [Received i b]))
      else (Inr s, []))"

fun scan_files :: "web_env \<Rightarrow> nat list \<Rightarrow> web_state \<Rightarrow> web_result" where
  "scan_files e [] s = (Inr s, [])"
| "scan_files e (i # is) s = and_then (web_one e i s) (scan_files e is)"

definition web_iter :: "web_env \<Rightarrow> int \<Rightarrow> web_state \<Rightarrow> web_result" where
  "web_iter e m s = and_then (start_more e m s) (\<lambda>s. scan_files e [0..<length (files s)] s)"

text \<open>A run over the answers of finitely many iterations: it has ended when nothing is left to read.\<close>

fun web_loop :: "web_env list \<Rightarrow> int \<Rightarrow> web_state \<Rightarrow> web_result" where
  "web_loop [] m s = (Inr s, [])"
| "web_loop (e # es) m s =
     (if nlefttoread s \<le> 0 then (Inr s, []) else and_then (web_iter e m s) (web_loop es m))"

section \<open>The program\<close>

definition web_start :: "string \<Rightarrow> string list \<Rightarrow> web_state" where
  "web_start host names =
     (let nfiles = min (length names) MAXFILES in
      \<lparr>files = map (\<lambda>n. \<lparr>f_name = n, f_host = host, f_fd = 0, f_flags = 0\<rparr>) (take nfiles names),
       nconn = 0, nlefttoconn = int nfiles, nlefttoread = int nfiles, maxfd = - 1, rset = {}, wset = {}\<rparr>)"

text \<open>The home page comes first and over a blocking connection: its line goes out whole when it can, and reads go on
  to the end of the file.  \<open>True\<close>: it has been read.\<close>

fun read_page :: "string option list \<Rightarrow> stop + bool" where
  "read_page [] = Inr False"
| "read_page (None # bs) = Inl (Exit ''read error'')"
| "read_page (Some b # bs) = (if b = [] then Inr True else read_page bs)"

record page_env =
  connected :: bool
  page_sendable :: bool
  page_reads :: "string option list"

definition home_page :: "page_env \<Rightarrow> string \<Rightarrow> (stop + bool) \<times> string list" where
  "home_page e fname =
     (if \<not> connected e then (Inl (Exit ''tcp_connect error''), [])
      else
        (case line_sent (get_cmd fname) of
           None \<Rightarrow> (Inl Undefined, [])
         | Some line \<Rightarrow>
             if page_sendable e then (read_page (page_reads e), [line]) else (Inl (Exit ''writen error''), [])))"

text \<open>\<open>args\<close> are the arguments behind the program's name.  \<open>None\<close> in the result: still reading the home page.\<close>

definition web_main :: "string list \<Rightarrow> page_env \<Rightarrow> web_env list \<Rightarrow>
    (stop + web_state option) \<times> string list \<times> web_out list" where
  "web_main args pe es =
     (if length args < 4 then (Inl (Exit ''usage''), [], [])
      else if \<not> is_int (atoi (args ! 0)) then (Inl Undefined, [], [])
      else
        (case home_page pe (args ! 2) of
           (Inl x, ls) \<Rightarrow> (Inl x, ls, [])
         | (Inr False, ls) \<Rightarrow> (Inr None, ls, [])
         | (Inr True, ls) \<Rightarrow>
             (case web_loop es (atoi (args ! 0)) (web_start (args ! 1) (drop 3 args)) of
                (Inl x, out) \<Rightarrow> (Inl x, ls, out)
              | (Inr s, out) \<Rightarrow> (Inr (Some s), ls, out))))"

end
