(* ===== verification/Unp_Threads.thy ===== *)
theory Unp_Threads
  imports Unp_Web
begin

text \<open>
  The web client with a thread for each page, \<^verbatim>\<open>src/unpv13e-master/threads/web03.c\<close>, as a step
  relation.  A step is what one thread does up to its next access to what the threads share; what is done under the
  mutex by a page's thread is one step, and possible only while the main thread does not hold it.  The main thread holds it
  from the end of its wait to the end of its scan, also while it joins a thread.
\<close>

definition F_JOINED :: int where "F_JOINED = 8"

section \<open>The state\<close>

text \<open>The thread of a page: not created, about to connect and send its command, reading the reply, about to lock the
  mutex, ended.\<close>

datatype page_phase = NoThread | Begun | Reads | AtLock | Ended

text \<open>The main thread: at the head of its loop, asleep in \<^verbatim>\<open>pthread_cond_wait\<close>, woken, looking at a
  file, in \<^verbatim>\<open>pthread_join\<close> for a file; and the ends of the program: \<open>Quits\<close> after a failed call of
  a thread or with the message of the main thread.\<close>

datatype main_phase = AtHead | Sleeps | Woken | Looks nat | Joins nat | Finished | Quits string

record web3 =
  main3 :: main_phase
  flags3 :: "int list"
  pages :: "page_phase list"
  nconn3 :: int
  toconn3 :: int
  toread3 :: int
  ndone :: int

definition web3_start :: "nat \<Rightarrow> web3" where
  "web3_start argfiles =
     (let nfiles = min argfiles MAXFILES in
      \<lparr>main3 = AtHead, flags3 = replicate nfiles 0, pages = replicate nfiles NoThread, nconn3 = 0,
       toconn3 = int nfiles, toread3 = int nfiles, ndone = 0\<rparr>)"

section \<open>The main thread\<close>

text \<open>The first file that has no thread yet.\<close>

fun find_file :: "int list \<Rightarrow> nat option" where
  "find_file [] = None"
| "find_file (f # fs) = (if f = 0 then Some 0 else map_option Suc (find_file fs))"

text \<open>With the mutex: sleep, or go through the files.\<close>

definition test_ndone :: "web3 \<Rightarrow> web3" where
  "test_ndone s = (if ndone s = 0 then s\<lparr>main3 := Sleeps\<rparr> else s\<lparr>main3 := Looks 0\<rparr>)"

definition main_head :: "int \<Rightarrow> web3 \<Rightarrow> web3" where
  "main_head maxnconn s =
     (if 0 < toread3 s then
        (if nconn3 s < maxnconn \<and> 0 < toconn3 s then
           (case find_file (flags3 s) of
              None \<Rightarrow> s\<lparr>main3 := Quits (''nlefttoconn = '' @ dec_int (toconn3 s) @ '' but nothing found'')\<rparr>
            | Some i \<Rightarrow> s\<lparr>flags3 := (flags3 s)[i := F_CONNECTING], pages := (pages s)[i := Begun],
                          nconn3 := nconn3 s + 1, toconn3 := toconn3 s - 1\<rparr>)
         else test_ndone s)
      else s\<lparr>main3 := Finished\<rparr>)"

definition look_at :: "nat \<Rightarrow> web3 \<Rightarrow> web3" where
  "look_at i s =
     (if i < length (flags3 s) then
        (if has_flag (flags3 s ! i) F_DONE then s\<lparr>main3 := Joins i\<rparr> else s\<lparr>main3 := Looks (i + 1)\<rparr>)
      else s\<lparr>main3 := AtHead\<rparr>)"

definition joined :: "nat \<Rightarrow> web3 \<Rightarrow> web3" where
  "joined i s =
     s\<lparr>main3 := Looks (i + 1), flags3 := (flags3 s)[i := F_JOINED], ndone := ndone s - 1, nconn3 := nconn3 s - 1,
       toread3 := toread3 s - 1\<rparr>"

section \<open>The threads\<close>

definition page_begins :: "nat \<Rightarrow> web3 \<Rightarrow> web3" where
  "page_begins i s = s\<lparr>flags3 := (flags3 s)[i := F_READING], pages := (pages s)[i := Reads]\<rparr>"

definition page_ends :: "nat \<Rightarrow> web3 \<Rightarrow> web3" where
  "page_ends i s = s\<lparr>flags3 := (flags3 s)[i := F_DONE], pages := (pages s)[i := AtLock]\<rparr>"

definition page_counted :: "nat \<Rightarrow> web3 \<Rightarrow> web3" where
  "page_counted i s =
     s\<lparr>ndone := ndone s + 1, main3 := (if main3 s = Sleeps then Woken else main3 s), pages := (pages s)[i := Ended]\<rparr>"

definition mutex_free :: "web3 \<Rightarrow> bool" where
  "mutex_free s = (case main3 s of Looks i \<Rightarrow> False | Joins i \<Rightarrow> False | _ \<Rightarrow> True)"

definition program_ended :: "web3 \<Rightarrow> bool" where
  "program_ended s = (case main3 s of Finished \<Rightarrow> True | Quits m \<Rightarrow> True | _ \<Rightarrow> False)"

section \<open>Steps\<close>

datatype web3_act = Main | Join nat | Spurious | Begin nat | Piece nat | Eof nat | Count nat | Fail nat

inductive web3_step :: "int \<Rightarrow> web3 \<Rightarrow> web3_act \<Rightarrow> web3 \<Rightarrow> bool" for maxnconn where
  s_head: "main3 s = AtHead \<Longrightarrow> web3_step maxnconn s Main (main_head maxnconn s)"
| s_woken: "main3 s = Woken \<Longrightarrow> web3_step maxnconn s Main (test_ndone s)"
| s_spurious: "main3 s = Sleeps \<Longrightarrow> web3_step maxnconn s Spurious (s\<lparr>main3 := Woken\<rparr>)"
| s_look: "main3 s = Looks i \<Longrightarrow> web3_step maxnconn s Main (look_at i s)"
| s_join: "main3 s = Joins i \<Longrightarrow> pages s ! i = Ended \<Longrightarrow> web3_step maxnconn s (Join i) (joined i s)"
| s_begin: "\<not> program_ended s \<Longrightarrow> i < length (pages s) \<Longrightarrow> pages s ! i = Begun \<Longrightarrow> web3_step maxnconn s (Begin i) (page_begins i s)"
| s_piece: "\<not> program_ended s \<Longrightarrow> i < length (pages s) \<Longrightarrow> pages s ! i = Reads \<Longrightarrow> web3_step maxnconn s (Piece i) s"
| s_eof: "\<not> program_ended s \<Longrightarrow> i < length (pages s) \<Longrightarrow> pages s ! i = Reads \<Longrightarrow> web3_step maxnconn s (Eof i) (page_ends i s)"
| s_count: "\<not> program_ended s \<Longrightarrow> mutex_free s \<Longrightarrow> i < length (pages s) \<Longrightarrow> pages s ! i = AtLock \<Longrightarrow>
    web3_step maxnconn s (Count i) (page_counted i s)"
| s_fail: "\<not> program_ended s \<Longrightarrow> i < length (pages s) \<Longrightarrow> pages s ! i = Begun \<or> pages s ! i = Reads \<Longrightarrow>
    web3_step maxnconn s (Fail i) (s\<lparr>main3 := Quits []\<rparr>)"

inductive web3_run :: "int \<Rightarrow> web3 \<Rightarrow> web3_act list \<Rightarrow> web3 \<Rightarrow> bool" for maxnconn where
  run_none: "web3_run maxnconn s [] s"
| run_more: "web3_run maxnconn s tr s' \<Longrightarrow> web3_step maxnconn s' a s'' \<Longrightarrow> web3_run maxnconn s (tr @ [a]) s''"


text \<open>The steps, executable: an action leads from a state to at most one.\<close>

definition web3_do :: "int \<Rightarrow> web3_act \<Rightarrow> web3 \<Rightarrow> web3 option" where
  "web3_do maxnconn a s =
     (let page = (\<lambda>i ph. if \<not> program_ended s \<and> i < length (pages s) \<and> pages s ! i = ph then Some i else None) in
      case a of
        Main \<Rightarrow> (case main3 s of AtHead \<Rightarrow> Some (main_head maxnconn s) | Woken \<Rightarrow> Some (test_ndone s) | Looks i \<Rightarrow> Some (look_at i s) | _ \<Rightarrow> None)
      | Join i \<Rightarrow> if main3 s = Joins i \<and> pages s ! i = Ended then Some (joined i s) else None
      | Spurious \<Rightarrow> if main3 s = Sleeps then Some (s\<lparr>main3 := Woken\<rparr>) else None
      | Begin i \<Rightarrow> map_option (\<lambda>_. page_begins i s) (page i Begun)
      | Piece i \<Rightarrow> map_option (\<lambda>_. s) (page i Reads)
      | Eof i \<Rightarrow> map_option (\<lambda>_. page_ends i s) (page i Reads)
      | Count i \<Rightarrow> if mutex_free s then map_option (\<lambda>_. page_counted i s) (page i AtLock) else None
      | Fail i \<Rightarrow> if page i Begun = None \<and> page i Reads = None then None else Some (s\<lparr>main3 := Quits []\<rparr>))"

lemma web3_do_step: "web3_step maxnconn s a s' \<longleftrightarrow> web3_do maxnconn a s = Some s'"
proof
  show "web3_step maxnconn s a s' \<Longrightarrow> web3_do maxnconn a s = Some s'"
    by (induction rule: web3_step.induct) (auto simp: web3_do_def Let_def)
  show "web3_do maxnconn a s = Some s' \<Longrightarrow> web3_step maxnconn s a s'"
    by (cases a) (auto simp: web3_do_def Let_def intro: web3_step.intros split: main_phase.splits if_splits)
qed

fun web3_exec :: "int \<Rightarrow> web3_act list \<Rightarrow> web3 \<Rightarrow> web3 option" where
  "web3_exec maxnconn [] s = Some s"
| "web3_exec maxnconn (a # tr) s = (case web3_do maxnconn a s of None \<Rightarrow> None | Some s' \<Rightarrow> web3_exec maxnconn tr s')"

lemma web3_exec_run: "web3_run maxnconn s0 pre s \<Longrightarrow> web3_exec maxnconn tr s = Some s' \<Longrightarrow> web3_run maxnconn s0 (pre @ tr) s'"
proof (induction tr arbitrary: pre s)
  case (Cons a tr)
  obtain s1 where s1: "web3_do maxnconn a s = Some s1" "web3_exec maxnconn tr s1 = Some s'"
    using Cons.prems(2) by (cases "web3_do maxnconn a s") auto
  then have "web3_run maxnconn s0 (pre @ [a]) s1" using Cons.prems(1) run_more web3_do_step by blast
  from Cons.IH [OF this s1(2)] show ?case by simp
qed simp

lemmas web3_exec_start = web3_exec_run [OF run_none, simplified]

end
