(* ===== verification/Unp_Threads_Props.thy ===== *)
theory Unp_Threads_Props
  imports Unp_Threads
begin

text \<open>
  The threaded web client: its counters always tell the truth and no wake-up is lost, but it can be deadlocked, in exactly
  one way; with one connection at a time it cannot.
\<close>

section \<open>The invariant\<close>

text \<open>What a thread's phase and its file's flag say of each other.\<close>

definition page_ok :: "int \<Rightarrow> page_phase \<Rightarrow> bool" where
  "page_ok f p = (case p of NoThread \<Rightarrow> f = 0 | Begun \<Rightarrow> f = F_CONNECTING | Reads \<Rightarrow> f = F_READING | AtLock \<Rightarrow> f = F_DONE
     | Ended \<Rightarrow> f = F_DONE \<or> f = F_JOINED)"

definition count :: "('a \<Rightarrow> bool) \<Rightarrow> 'a list \<Rightarrow> int" where
  "count P xs = int (length (filter P xs))"

definition active :: "int \<Rightarrow> bool" where "active f \<longleftrightarrow> f \<noteq> 0 \<and> f \<noteq> F_JOINED"

definition uncollected :: "int \<times> page_phase \<Rightarrow> bool" where
  "uncollected fp \<longleftrightarrow> fst fp = F_DONE \<and> snd fp = Ended"

text \<open>The counters over the files, and what else holds in each phase of the main thread.\<close>

definition files_inv :: "int list \<Rightarrow> page_phase list \<Rightarrow> int \<Rightarrow> int \<Rightarrow> int \<Rightarrow> int \<Rightarrow> bool" where
  "files_inv fs ps to_conn to_read open_conns finished \<longleftrightarrow>
     length ps = length fs \<and> (\<forall>i < length fs. page_ok (fs ! i) (ps ! i)) \<and>
     to_conn = count (\<lambda>f. f = 0) fs \<and> to_read = count (\<lambda>f. f \<noteq> F_JOINED) fs \<and> open_conns = count active fs \<and>
     finished = count uncollected (zip fs ps)"

definition main_inv :: "int \<Rightarrow> web3 \<Rightarrow> bool" where
  "main_inv maxnconn s \<longleftrightarrow> nconn3 s \<le> max maxnconn 0 \<and>
     (case main3 s of
        Joins i \<Rightarrow> i < length (flags3 s) \<and> flags3 s ! i = F_DONE
      | Finished \<Rightarrow> toread3 s = 0
      | Sleeps \<Rightarrow> ndone s = 0 \<and> 0 < toread3 s \<and> (maxnconn \<le> nconn3 s \<or> toconn3 s = 0)
      | Woken \<Rightarrow> 0 < toread3 s \<and> (maxnconn \<le> nconn3 s \<or> toconn3 s = 0)
      | Quits m \<Rightarrow> m = []
      | _ \<Rightarrow> True)"

definition web3_inv :: "int \<Rightarrow> web3 \<Rightarrow> bool" where
  "web3_inv maxnconn s \<longleftrightarrow>
     files_inv (flags3 s) (pages s) (toconn3 s) (toread3 s) (nconn3 s) (ndone s) \<and> main_inv maxnconn s"

lemma count_update:
  "i < length xs \<Longrightarrow> count P (xs[i := x]) = count P xs - (if P (xs ! i) then 1 else 0) + (if P x then 1 else 0)"
  using length_filter_update [of i xs P x] by (auto simp: count_def split: if_splits)

lemma count_nonneg: "0 \<le> count P xs"
  by (simp add: count_def)

lemma count_pos: "0 < count P xs \<longleftrightarrow> (\<exists>i < length xs. P (xs ! i))"
  by (auto simp: count_def filter_empty_conv all_set_conv_all_nth)

lemma count_zip:
  assumes "length xs = length ys" "i < length xs"
  shows "count P (zip (xs[i := x]) (ys[i := y])) =
    count P (zip xs ys) - (if P (xs ! i, ys ! i) then 1 else 0) + (if P (x, y) then 1 else 0)"
  using count_update [of i "zip xs ys" P "(x, y)"] assms by (simp add: update_zip)

lemma files_update:
  assumes "files_inv fs ps c r n d" "i < length fs" "page_ok f p"
  shows "files_inv (fs[i := f]) (ps[i := p])
    (c - (if fs ! i = 0 then 1 else 0) + (if f = 0 then 1 else 0))
    (r - (if fs ! i \<noteq> F_JOINED then 1 else 0) + (if f \<noteq> F_JOINED then 1 else 0))
    (n - (if active (fs ! i) then 1 else 0) + (if active f then 1 else 0))
    (d - (if uncollected (fs ! i, ps ! i) then 1 else 0) + (if uncollected (f, p) then 1 else 0))"
  using assms by (simp add: files_inv_def count_update count_zip nth_list_update)

lemma find_file_some: "find_file fs = Some i \<Longrightarrow> i < length fs \<and> fs ! i = 0"
  by (induction fs arbitrary: i) (auto split: if_splits)

lemma find_file_none: "find_file fs = None \<Longrightarrow> count (\<lambda>f. f = 0) fs = 0"
  by (induction fs) (auto simp: count_def split: if_splits)

lemmas flag3_defs = flag_defs F_JOINED_def

lemma flags_distinct [simp]:
  "F_CONNECTING \<noteq> 0" "F_READING \<noteq> 0" "F_DONE \<noteq> 0" "F_JOINED \<noteq> 0" "F_CONNECTING \<noteq> F_JOINED" "F_READING \<noteq> F_JOINED" "F_DONE \<noteq> F_JOINED"
  "F_CONNECTING \<noteq> F_DONE" "F_READING \<noteq> F_DONE" "F_JOINED \<noteq> F_DONE" "F_JOINED \<noteq> F_CONNECTING" "F_JOINED \<noteq> F_READING"
  "F_DONE \<noteq> F_CONNECTING" "F_DONE \<noteq> F_READING"
  by (simp_all add: flag3_defs)

lemma has_done: "page_ok f p \<Longrightarrow> has_flag f F_DONE \<longleftrightarrow> f = F_DONE"
  by (auto simp: page_ok_def has_flag_def flag3_defs split: page_phase.splits)

section \<open>The invariant holds\<close>

lemmas page_defs = page_ok_def active_def uncollected_def

lemma web3_start_inv: "web3_inv maxnconn (web3_start n)"
proof -
  have z: "filter uncollected (replicate k (0, NoThread)) = []" for k by (simp add: uncollected_def)
  show ?thesis
    by (simp add: web3_inv_def files_inv_def main_inv_def web3_start_def Let_def page_ok_def count_def active_def z)
qed

lemma test_ndone_inv:
  assumes "web3_inv m s" "0 < toread3 s" "m \<le> nconn3 s \<or> toconn3 s = 0"
  shows "web3_inv m (test_ndone s)"
  using assms by (auto simp: web3_inv_def main_inv_def test_ndone_def)

lemma main_head_inv:
  assumes "web3_inv m s" "main3 s = AtHead"
  shows "web3_inv m (main_head m s)"
proof -
  have f: "files_inv (flags3 s) (pages s) (toconn3 s) (toread3 s) (nconn3 s) (ndone s)" and n: "nconn3 s \<le> max m 0"
    using assms(1) by (simp_all add: web3_inv_def main_inv_def)
  then have i: "0 \<le> toconn3 s" "toconn3 s = count (\<lambda>f. f = 0) (flags3 s)" "0 \<le> toread3 s"
    using count_nonneg by (simp_all add: files_inv_def)
  consider "toread3 s = 0" | "0 < toread3 s" "m \<le> nconn3 s \<or> toconn3 s = 0" | "0 < toread3 s" "nconn3 s < m" "0 < toconn3 s"
    using i by fastforce
  then show ?thesis
  proof cases
    case 1
    then show ?thesis using assms by (simp add: main_head_def web3_inv_def main_inv_def)
  next
    case 2
    then have "main_head m s = test_ndone s" by (auto simp: main_head_def)
    then show ?thesis using test_ndone_inv [OF assms(1) 2] by simp
  next
    case 3
    then obtain k where k: "find_file (flags3 s) = Some k" using find_file_none i(2) by (cases "find_file (flags3 s)") auto
    then have "k < length (flags3 s)" "flags3 s ! k = 0" using find_file_some by blast+
    from files_update [OF f this(1), of F_CONNECTING Begun] this show ?thesis
      using 3 k n assms(2) by (simp add: main_head_def web3_inv_def main_inv_def page_defs)
  qed
qed

lemma page_flag: "web3_inv m s \<Longrightarrow> i < length (pages s) \<Longrightarrow> page_ok (flags3 s ! i) (pages s ! i) \<and> i < length (flags3 s)"
  by (simp add: web3_inv_def files_inv_def)

lemma look_at_inv: "web3_inv m s \<Longrightarrow> main3 s = Looks i \<Longrightarrow> web3_inv m (look_at i s)"
  using has_done [of "flags3 s ! i" "pages s ! i"] by (auto simp: web3_inv_def main_inv_def files_inv_def look_at_def)

lemma joined_inv:
  assumes "web3_inv m s" "main3 s = Joins i" "pages s ! i = Ended"
  shows "web3_inv m (joined i s)"
proof -
  have f: "files_inv (flags3 s) (pages s) (toconn3 s) (toread3 s) (nconn3 s) (ndone s)" "i < length (flags3 s)" "flags3 s ! i = F_DONE"
    using assms(1,2) by (simp_all add: web3_inv_def main_inv_def)
  have "(pages s)[i := Ended] = pages s" using assms(3) by (metis list_update_id)
  with files_update [OF f(1,2), of F_JOINED Ended] show ?thesis
    using assms f(3) by (simp add: web3_inv_def main_inv_def joined_def page_defs)
qed

text \<open>A step of a page's thread leaves the main thread as it is, but for the wake-up.\<close>

lemma page_step_inv:
  assumes "web3_inv m s" "i < length (pages s)" "pages s ! i \<in> {Begun, Reads}" "f \<in> {F_READING, F_DONE}" "p \<in> {Reads, AtLock}" "page_ok f p"
  shows "web3_inv m (s\<lparr>flags3 := (flags3 s)[i := f], pages := (pages s)[i := p]\<rparr>)"
proof -
  have f: "files_inv (flags3 s) (pages s) (toconn3 s) (toread3 s) (nconn3 s) (ndone s)" and i: "i < length (flags3 s)"
    and o: "page_ok (flags3 s ! i) (pages s ! i)"
    using assms(1) page_flag [OF assms(1,2)] by (simp_all add: web3_inv_def)
  have g: "flags3 s ! i = F_CONNECTING \<or> flags3 s ! i = F_READING" using o assms(3) by (auto simp: page_ok_def)
  then have old: "flags3 s ! i \<noteq> 0" "active (flags3 s ! i)" "\<not> uncollected (flags3 s ! i, pages s ! i)" "flags3 s ! i \<noteq> F_JOINED" "flags3 s ! i \<noteq> F_DONE"
    by (auto simp: active_def uncollected_def)
  have new: "f \<noteq> 0" "active f" "\<not> uncollected (f, p)" "f \<noteq> F_JOINED" using assms(4,5) by (auto simp: active_def uncollected_def)
  have "files_inv ((flags3 s)[i := f]) ((pages s)[i := p]) (toconn3 s) (toread3 s) (nconn3 s) (ndone s)"
    using files_update [OF f i assms(6)] by (simp add: old new)
  moreover have "(flags3 s)[i := f] ! k = F_DONE" if "flags3 s ! k = F_DONE" for k
    using that old(5) by (cases "k = i") auto
  ultimately show ?thesis using assms(1) by (cases "main3 s") (simp_all add: web3_inv_def main_inv_def)
qed

lemma page_counted_inv:
  assumes "web3_inv m s" "i < length (pages s)" "pages s ! i = AtLock" "mutex_free s"
  shows "web3_inv m (page_counted i s)"
proof -
  have f: "files_inv (flags3 s) (pages s) (toconn3 s) (toread3 s) (nconn3 s) (ndone s)" and i: "i < length (flags3 s)"
    and o: "flags3 s ! i = F_DONE"
    using assms(1,3) page_flag [OF assms(1,2)] by (simp_all add: web3_inv_def page_ok_def)
  have "(flags3 s)[i := F_DONE] = flags3 s" using o by (metis list_update_id)
  with files_update [OF f i, of F_DONE Ended] show ?thesis
    using assms o by (auto simp: web3_inv_def main_inv_def page_counted_def page_defs mutex_free_def split: main_phase.split)
qed

lemma web3_step_inv: "web3_step m s a s' \<Longrightarrow> web3_inv m s \<Longrightarrow> web3_inv m s'"
proof (induction rule: web3_step.induct)
  case (s_woken s)
  then show ?case by (intro test_ndone_inv) (auto simp: web3_inv_def main_inv_def)
next
  case (s_begin s i)
  then show ?case using page_step_inv [of m s i F_READING Reads] by (simp add: page_begins_def page_ok_def)
next
  case (s_eof s i)
  then show ?case using page_step_inv [of m s i F_DONE AtLock] by (simp add: page_ends_def page_ok_def)
next
  case (s_spurious s)
  then show ?case by (auto simp: web3_inv_def main_inv_def)
next
  case (s_fail s i)
  then show ?case by (simp add: web3_inv_def main_inv_def)
qed (simp_all add: main_head_inv look_at_inv joined_inv page_counted_inv)

lemma web3_run_inv: "web3_run m s0 tr s \<Longrightarrow> s0 = web3_start n \<Longrightarrow> web3_inv m s"
  by (induction rule: web3_run.induct) (auto intro: web3_start_inv web3_step_inv)

section \<open>Deadlock\<close>

text \<open>While the main thread sleeps a page's thread is still to report.\<close>

lemma sleeps_for_page:
  assumes "web3_inv m s" "main3 s = Sleeps" "0 < m"
  shows "\<exists>i < length (pages s). pages s ! i \<in> {Begun, Reads, AtLock}"
proof -
  have c: "length (pages s) = length (flags3 s)" "toconn3 s = count (\<lambda>f. f = 0) (flags3 s)" "toread3 s = count (\<lambda>f. f \<noteq> F_JOINED) (flags3 s)"
    "nconn3 s = count active (flags3 s)" "count uncollected (zip (flags3 s) (pages s)) = 0" "0 < toread3 s" "m \<le> nconn3 s \<or> toconn3 s = 0"
    using assms(1,2) by (auto simp: web3_inv_def files_inv_def main_inv_def)
  have "\<exists>i < length (flags3 s). active (flags3 s ! i)"
  proof (cases "toconn3 s = 0")
    case True
    then have none: "\<not> (\<exists>i < length (flags3 s). flags3 s ! i = 0)"
      using count_pos [of "\<lambda>f. f = 0" "flags3 s"] c(2) by simp
    obtain i where "i < length (flags3 s)" "flags3 s ! i \<noteq> F_JOINED" using c(3,6) by (auto simp: count_pos)
    then show ?thesis using none by (auto simp: active_def)
  next
    case False
    then have "0 < count active (flags3 s)" using c(4,7) assms(3) by simp
    then show ?thesis by (simp add: count_pos)
  qed
  then obtain i where i: "i < length (flags3 s)" "active (flags3 s ! i)" by blast
  have "\<not> uncollected (flags3 s ! i, pages s ! i)"
    using c(1,5) i(1) count_pos [of uncollected "zip (flags3 s) (pages s)"] by auto
  moreover have "page_ok (flags3 s ! i) (pages s ! i)" using assms(1) i(1) c(1) page_flag by simp
  ultimately have "pages s ! i \<in> {Begun, Reads, AtLock}"
    using i(2) by (auto simp: page_defs split: page_phase.splits)
  then show ?thesis using i(1) c(1) by auto
qed

lemma web3_progress:
  assumes "web3_inv m s" "0 < m" "\<not> program_ended s" "\<not> (\<exists>i. main3 s = Joins i \<and> pages s ! i = AtLock)"
  shows "\<exists>a s'. web3_step m s a s' \<and> a \<noteq> Spurious"
proof (cases "main3 s")
  case AtHead
  then show ?thesis using s_head by blast
next
  case Sleeps
  then obtain i where i: "i < length (pages s)" "pages s ! i \<in> {Begun, Reads, AtLock}"
    using sleeps_for_page [OF assms(1) _ assms(2)] by blast
  have "mutex_free s" using Sleeps by (simp add: mutex_free_def)
  then show ?thesis using i assms(3) s_begin s_piece s_count by blast
next
  case Woken
  then show ?thesis using s_woken by blast
next
  case (Looks i)
  then show ?thesis using s_look by blast
next
  case (Joins i)
  then have "flags3 s ! i = F_DONE" "i < length (pages s)"
    using assms(1) by (simp_all add: web3_inv_def files_inv_def main_inv_def)
  then have "pages s ! i = Ended \<or> pages s ! i = AtLock"
    using page_flag [OF assms(1), of i] by (cases "pages s ! i") (simp_all add: page_ok_def)
  then show ?thesis using Joins assms(4) s_join by blast
qed (use assms(3) in \<open>simp_all add: program_ended_def\<close>)

inductive_cases web3_stepE: "web3_step m s a s'"

text \<open>C37. The client can be stuck before its end in exactly one way: the main thread, with the mutex, joins a thread that has
  marked its file as done but waits for that mutex to say so, and all other threads have ended, wait as well or were never
  created.  Otherwise, as long as the program runs, some thread can go on without a wake-up out of the blue.\<close>

theorem web3_stuck_iff:
  assumes "web3_run m (web3_start n) tr s" "0 < m"
  shows "(\<forall>a s'. web3_step m s a s' \<longrightarrow> a = Spurious) \<longleftrightarrow>
    program_ended s \<or> (\<exists>i. main3 s = Joins i \<and> pages s ! i = AtLock \<and> (\<forall>p \<in> set (pages s). p \<noteq> Begun \<and> p \<noteq> Reads))"
proof -
  have inv: "web3_inv m s" by (rule web3_run_inv [OF assms(1) refl])
  have "\<exists>a s'. web3_step m s a s' \<and> a \<noteq> Spurious" if j: "main3 s = Joins i" "p \<in> set (pages s)" "p = Begun \<or> p = Reads" for i p
  proof -
    obtain k where "k < length (pages s)" "pages s ! k = p" using j(2) by (auto simp: in_set_conv_nth)
    moreover have "\<not> program_ended s" using j(1) by (simp add: program_ended_def)
    ultimately show ?thesis using j(3) s_begin s_piece by blast
  qed
  moreover have "a = Spurious" if "web3_step m s a s'" "program_ended s" for a s'
    using that by (elim web3_stepE) (auto simp: program_ended_def)
  moreover have "a = Spurious" if "web3_step m s a s'" "main3 s = Joins i" "pages s ! i = AtLock" "\<forall>p \<in> set (pages s). p \<noteq> Begun \<and> p \<noteq> Reads" for a s' i
    using that by (elim web3_stepE) (auto simp: mutex_free_def dest: nth_mem)
  ultimately show ?thesis using web3_progress [OF inv assms(2)] by blast
qed

lemma has_done_simps: "\<not> has_flag 0 F_DONE" "\<not> has_flag F_CONNECTING F_DONE" "\<not> has_flag F_READING F_DONE" "has_flag F_DONE F_DONE"
  "\<not> has_flag F_JOINED F_DONE"
  by (simp_all add: has_flag_def flag3_defs)

lemma two_pages: "web3_start 2 = \<lparr>main3 = AtHead, flags3 = [0, 0], pages = [NoThread, NoThread], nconn3 = 0, toconn3 = 2, toread3 = 2, ndone = 0\<rparr>"
  by (simp add: web3_start_def MAXFILES_def numeral_2_eq_2)

lemma web3_exec_next: "web3_do m a s = Some s' \<Longrightarrow> web3_exec m tr s' = r \<Longrightarrow> web3_exec m (a # tr) s = r"
  by simp

lemmas web3_eval = web3_do_def main_head_def test_ndone_def look_at_def joined_def page_begins_def
  page_ends_def page_counted_def mutex_free_def program_ended_def has_done_simps

text \<open>Two pages, two threads: the second marks its file while the main thread collects the first.\<close>

definition deadly :: "web3_act list" where
  "deadly = [Main, Main, Main, Begin 0, Begin 1, Eof 0, Count 0, Main, Main, Join 0, Eof 1, Main]"

definition deadlocked :: web3 where
  "deadlocked = \<lparr>main3 = Joins 1, flags3 = [F_JOINED, F_DONE], pages = [Ended, AtLock], nconn3 = 1, toconn3 = 0, toread3 = 1, ndone = 0\<rparr>"

lemma web3_stuck_iff_witness: "web3_run 2 (web3_start 2) deadly deadlocked \<and> \<not> (\<exists>a s'. web3_step 2 deadlocked a s' \<and> a \<noteq> Spurious)"
proof -
  have "web3_exec 2 deadly (web3_start 2) = Some deadlocked"
    unfolding deadly_def deadlocked_def two_pages by ((rule web3_exec_next, simp add: web3_eval)+, simp)
  then have r: "web3_run 2 (web3_start 2) deadly deadlocked" by (rule web3_exec_start)
  have "\<exists>i. main3 deadlocked = Joins i \<and> pages deadlocked ! i = AtLock \<and> (\<forall>p \<in> set (pages deadlocked). p \<noteq> Begun \<and> p \<noteq> Reads)"
    by (intro exI [of _ 1]) (simp add: deadlocked_def)
  then have "\<forall>a s'. web3_step 2 deadlocked a s' \<longrightarrow> a = Spurious"
    by (intro web3_stuck_iff [OF r, THEN iffD2] disjI2) simp_all
  with r show ?thesis by blast
qed

section \<open>One connection at a time\<close>

text \<open>With one connection no other thread runs while the main thread holds the mutex.\<close>

definition alone :: "web3 \<Rightarrow> bool" where
  "alone s \<longleftrightarrow> (\<not> mutex_free s \<longrightarrow> set (pages s) \<subseteq> {NoThread, Ended})"

lemma one_finished_alone:
  assumes "web3_inv 1 s" "ndone s \<noteq> 0"
  shows "set (pages s) \<subseteq> {NoThread, Ended}"
proof
  fix p assume "p \<in> set (pages s)"
  then obtain k where k: "k < length (pages s)" "pages s ! k = p" by (auto simp: in_set_conv_nth)
  have f: "length (pages s) = length (flags3 s)" "count active (flags3 s) \<le> 1" "0 < count uncollected (zip (flags3 s) (pages s))"
    using assms count_nonneg [of uncollected "zip (flags3 s) (pages s)"] by (simp_all add: web3_inv_def files_inv_def main_inv_def)
  then obtain i where i: "i < length (flags3 s)" "flags3 s ! i = F_DONE" "pages s ! i = Ended"
    by (auto simp: count_pos uncollected_def)
  have "\<not> active (flags3 s ! k)" if "k \<noteq> i"
  proof
    assume "active (flags3 s ! k)"
    moreover have "active (flags3 s ! i)" using i(2) by (simp add: active_def)
    ultimately have "0 < count active ((flags3 s)[i := 0])"
      using that k(1) f(1) unfolding count_pos by (intro exI [of _ k]) simp
    then show False using count_update [OF i(1), of active 0] f(2) \<open>active (flags3 s ! i)\<close> by (simp add: active_def)
  qed
  then have "k = i \<or> flags3 s ! k = 0 \<or> flags3 s ! k = F_JOINED" by (auto simp: active_def)
  moreover have "page_ok (flags3 s ! k) (pages s ! k)" using page_flag [OF assms(1) k(1)] by simp
  ultimately show "p \<in> {NoThread, Ended}" using i(3) k(2) by (auto simp: page_ok_def split: page_phase.splits)
qed

lemma alone_step: "web3_step m s a s' \<Longrightarrow> m = 1 \<Longrightarrow> web3_inv m s \<Longrightarrow> alone s \<Longrightarrow> alone s'"
proof (induction rule: web3_step.induct)
  case (s_head s)
  then show ?case using one_finished_alone [of s]
    by (auto simp: alone_def main_head_def test_ndone_def mutex_free_def split: option.split)
next
  case (s_woken s)
  then show ?case using one_finished_alone [of s] by (auto simp: alone_def test_ndone_def mutex_free_def)
next
  case (s_begin s i)
  then show ?case by (auto simp: alone_def mutex_free_def page_begins_def dest: nth_mem split: main_phase.splits)
next
  case (s_eof s i)
  then show ?case by (auto simp: alone_def mutex_free_def page_ends_def dest: nth_mem split: main_phase.splits)
qed (auto simp: alone_def mutex_free_def look_at_def joined_def page_counted_def split: main_phase.splits if_splits)

lemma alone_run: "web3_run m s0 tr s \<Longrightarrow> s0 = web3_start n \<Longrightarrow> m = 1 \<Longrightarrow> alone s"
proof (induction rule: web3_run.induct)
  case (run_none s)
  then show ?case by (simp add: alone_def mutex_free_def web3_start_def Let_def)
next
  case (run_more s tr s' a s'')
  then show ?case using alone_step web3_run_inv by blast
qed

text \<open>With one connection at a time the client is never stuck: in every state a run comes to, the program has ended or
  a thread can go on.\<close>

theorem web3_one_connection:
  assumes "web3_run 1 (web3_start n) tr s"
  shows "program_ended s \<or> (\<exists>a s'. web3_step 1 s a s' \<and> a \<noteq> Spurious)"
proof -
  have inv: "web3_inv 1 s" and "alone s" using web3_run_inv [OF assms refl] alone_run [OF assms refl refl] by blast+
  have "pages s ! i \<noteq> AtLock" if "main3 s = Joins i" for i
  proof -
    have "i < length (pages s)" using inv that by (simp add: web3_inv_def files_inv_def main_inv_def)
    then have "pages s ! i \<in> set (pages s)" by (rule nth_mem)
    then show ?thesis using \<open>alone s\<close> that by (auto simp: alone_def mutex_free_def)
  qed
  then show ?thesis using web3_progress [OF inv] by auto
qed

text \<open>A whole run with one connection for two pages.\<close>

definition calm :: "web3_act list" where
  "calm = [Main, Main, Begin 0, Piece 0, Eof 0, Count 0, Main, Main, Join 0, Main, Main,
     Main, Main, Begin 1, Eof 1, Spurious, Main, Count 1, Main, Main, Main, Join 1, Main, Main]"

definition all_fetched :: web3 where
  "all_fetched = \<lparr>main3 = Finished, flags3 = [F_JOINED, F_JOINED], pages = [Ended, Ended], nconn3 = 0, toconn3 = 0, toread3 = 0, ndone = 0\<rparr>"

lemma calm_run: "web3_run 1 (web3_start 2) calm all_fetched"
proof -
  have "web3_exec 1 calm (web3_start 2) = Some all_fetched"
    unfolding calm_def all_fetched_def two_pages by ((rule web3_exec_next, simp add: web3_eval)+, simp)
  then show ?thesis by (rule web3_exec_start)
qed

lemma web3_one_connection_witness:
  "\<exists>s. web3_run 1 (web3_start 2) [Main, Main, Begin 0, Eof 0] s \<and> (\<exists>a s'. web3_step 1 s a s' \<and> a \<noteq> Spurious)"
proof -
  obtain s where s: "web3_exec 1 [Main, Main, Begin 0, Eof 0] (web3_start 2) = Some s" and e: "\<not> program_ended s"
  proof
    show "web3_exec 1 [Main, Main, Begin 0, Eof 0] (web3_start 2) =
      Some \<lparr>main3 = Sleeps, flags3 = [F_DONE, 0], pages = [AtLock, NoThread], nconn3 = 1, toconn3 = 1, toread3 = 2, ndone = 0\<rparr>"
      unfolding two_pages by ((rule web3_exec_next, simp add: web3_eval)+, simp)
  qed (simp add: program_ended_def)
  have r: "web3_run 1 (web3_start 2) [Main, Main, Begin 0, Eof 0] s" by (rule web3_exec_start [OF s])
  then show ?thesis using web3_one_connection [OF r] e by blast
qed

section \<open>Every page is fetched once\<close>

definition times :: "web3_act \<Rightarrow> web3_act list \<Rightarrow> nat" where
  "times a tr = length (filter (\<lambda>b. b = a) tr)"

lemma times_simps [simp]: "times a [] = 0" "times a (tr @ [b]) = times a tr + (if b = a then 1 else 0)"
  by (simp_all add: times_def)

definition told :: "web3_act list \<Rightarrow> web3 \<Rightarrow> nat \<Rightarrow> bool" where
  "told tr s i \<longleftrightarrow>
     times (Begin i) tr = (if pages s ! i \<in> {Reads, AtLock, Ended} then 1 else 0) \<and>
     times (Eof i) tr = (if pages s ! i \<in> {AtLock, Ended} then 1 else 0) \<and>
     times (Join i) tr = (if flags3 s ! i = F_JOINED then 1 else 0)"

lemma step_length: "web3_step m s a s' \<Longrightarrow> length (pages s') = length (pages s)"
  by (induction rule: web3_step.induct)
    (auto simp: main_head_def test_ndone_def look_at_def joined_def page_begins_def page_ends_def page_counted_def split: option.split)

lemma told_step:
  "web3_step m s a s' \<Longrightarrow> web3_inv m s \<Longrightarrow> i < length (pages s) \<Longrightarrow> told tr s i \<Longrightarrow> told (tr @ [a]) s' i"
proof (induction rule: web3_step.induct)
  case (s_head s)
  show ?case
  proof (cases "find_file (flags3 s)")
    case None
    then show ?thesis using s_head by (simp add: told_def main_head_def test_ndone_def)
  next
    case (Some k)
    have "flags3 s ! k = 0" "k < length (pages s)" using find_file_some [OF Some] s_head.prems(1) by (simp_all add: web3_inv_def files_inv_def)
    moreover from this have "pages s ! k = NoThread"
      using page_flag [OF s_head.prems(1), of k] by (cases "pages s ! k") (simp_all add: page_ok_def)
    ultimately show ?thesis
      using s_head Some by (auto simp: told_def main_head_def test_ndone_def nth_list_update web3_inv_def files_inv_def)
  qed
next
  case (s_join s k)
  have "k < length (flags3 s)" "flags3 s ! k = F_DONE" using s_join.prems(1) s_join.hyps(1) by (simp_all add: web3_inv_def main_inv_def)
  then show ?case using s_join by (auto simp: told_def joined_def nth_list_update)
next
  case (s_begin s k)
  then have "flags3 s ! k = F_CONNECTING" using page_flag by (fastforce simp: page_ok_def)
  then show ?case using s_begin page_flag [of m s k] by (auto simp: told_def page_begins_def nth_list_update)
next
  case (s_eof s k)
  then have "flags3 s ! k = F_READING" using page_flag by (fastforce simp: page_ok_def)
  then show ?case using s_eof page_flag [of m s k] by (auto simp: told_def page_ends_def nth_list_update)
next
  case (s_count s k)
  then show ?case by (auto simp: told_def page_counted_def nth_list_update)
qed (auto simp: told_def test_ndone_def look_at_def)

lemma told_run:
  "web3_run m s0 tr s \<Longrightarrow> s0 = web3_start n \<Longrightarrow> length (pages s) = min n MAXFILES \<and> (\<forall>i < min n MAXFILES. told tr s i)"
proof (induction rule: web3_run.induct)
  case (run_none s)
  then show ?case by (simp add: told_def web3_start_def Let_def)
next
  case (run_more s tr s' a s'')
  then show ?case using told_step [OF run_more.hyps(2) web3_run_inv [OF run_more.hyps(1)]] step_length [OF run_more.hyps(2)] by auto
qed

lemma running_active:
  "length ps = length fs \<Longrightarrow> \<forall>i < length fs. page_ok (fs ! i) (ps ! i) \<Longrightarrow> count (\<lambda>p. p \<in> {Begun, Reads, AtLock}) ps \<le> count active fs"
proof (induction ps fs rule: list_induct2)
  case (Cons p ps f fs)
  have "page_ok f p" "\<forall>i < length fs. page_ok (fs ! i) (ps ! i)" using Cons.prems by (fastforce dest: spec [of _ 0], fastforce)
  then show ?case using Cons.IH by (auto simp: count_def page_defs)
qed (simp add: count_def)

text \<open>At every moment at most as many threads run as connections are allowed; and when the client ends its loop each of the
  first 20 files has been asked for once, read to its end once, and its thread joined once.\<close>

theorem web3_fetches_each_once:
  assumes "web3_run m (web3_start n) tr s"
  shows "int (length (filter (\<lambda>p. p \<in> {Begun, Reads, AtLock}) (pages s))) \<le> max m 0 \<and>
    (main3 s = Finished \<longrightarrow> (\<forall>i < min n MAXFILES. times (Begin i) tr = 1 \<and> times (Eof i) tr = 1 \<and> times (Join i) tr = 1))"
proof
  have inv: "web3_inv m s" by (rule web3_run_inv [OF assms refl])
  then show "int (length (filter (\<lambda>p. p \<in> {Begun, Reads, AtLock}) (pages s))) \<le> max m 0"
    using running_active [of "pages s" "flags3 s"] by (simp add: web3_inv_def files_inv_def main_inv_def count_def)
  note told = told_run [OF assms refl]
  show "main3 s = Finished \<longrightarrow> (\<forall>i < min n MAXFILES. times (Begin i) tr = 1 \<and> times (Eof i) tr = 1 \<and> times (Join i) tr = 1)"
  proof (intro impI allI)
    fix i assume f: "main3 s = Finished" and i: "i < min n MAXFILES"
    have l: "i < length (pages s)" using told i by simp
    then have "i < length (flags3 s)" and z: "count (\<lambda>f. f \<noteq> F_JOINED) (flags3 s) = 0"
      using inv f by (simp_all add: web3_inv_def files_inv_def main_inv_def)
    then have j: "flags3 s ! i = F_JOINED" using count_pos [of "\<lambda>f. f \<noteq> F_JOINED" "flags3 s"] by auto
    then have "pages s ! i = Ended" using page_flag [OF inv l] by (cases "pages s ! i") (simp_all add: page_ok_def)
    then show "times (Begin i) tr = 1 \<and> times (Eof i) tr = 1 \<and> times (Join i) tr = 1"
      using told i j by (simp add: told_def)
  qed
qed

lemma web3_fetches_each_once_witness: "times (Begin 1) calm = 1 \<and> times (Eof 1) calm = 1 \<and> times (Join 1) calm = 1"
  using web3_fetches_each_once [OF calm_run] by (simp add: all_fetched_def MAXFILES_def)

end
