(* ===== verification/Unp_Sigio.thy ===== *)
theory Unp_Sigio
  imports Unp_Addr
begin

text \<open>
  The signal-driven echo server, \<^verbatim>\<open>src/unpv13e-master/sigio/dgecho01.c\<close>: a signal handler reads
  datagrams into a ring, the main loop sends them back.  The handler may run between any two steps of the main loop at which the
  signal is not blocked.  Signals do not count: one may stand for several datagrams, or for none when the handler of the one
  before has read them already.
\<close>

definition QSIZE :: nat where "QSIZE = 8"
definition MAXDG :: nat where "MAXDG = 4096"

record dgram =
  dg_data :: "byte list"
  dg_sa :: sockaddr

text \<open>\<^verbatim>\<open>recvfrom\<close> cuts a datagram to the size of the buffer.\<close>

definition received :: "dgram \<Rightarrow> dgram" where
  "received d = d\<lparr>dg_data := take MAXDG (dg_data d)\<rparr>"

text \<open>The main loop: at the test of its inner loop with the signal blocked; in \<^verbatim>\<open>sigsuspend\<close>; with the signal
  unblocked before the reply, before the index is advanced, and before the signal is blocked again.\<close>

datatype echo_phase = AtTest | Suspended | ToSend | ToAdvance | ToBlock

record sigio =
  dg :: "dgram list"
  cntread :: "nat list"
  dg_iget :: nat
  dg_iput :: nat
  nqueue :: nat
  phase :: echo_phase

definition dg_echo_start :: "sigio" where
  "dg_echo_start = \<lparr>dg = replicate QSIZE \<lparr>dg_data = [], dg_sa = Sother 0\<rparr>, cntread = replicate (QSIZE + 1) 0,
     dg_iget = 0, dg_iput = 0, nqueue = 0, phase = AtTest\<rparr>"

section \<open>The handler\<close>

text \<open>\<open>ds\<close> is what \<^verbatim>\<open>recvfrom\<close> gives one after the other until it would block.\<close>

fun sig_io_loop :: "dgram list \<Rightarrow> nat \<Rightarrow> sigio \<Rightarrow> string + sigio" where
  "sig_io_loop ds nread s =
     (if QSIZE \<le> nqueue s then Inl ''receive overflow''
      else case ds of
        [] \<Rightarrow> Inr (s\<lparr>cntread := (cntread s)[nread := cntread s ! nread + 1]\<rparr>)
      | d # ds' \<Rightarrow>
          sig_io_loop ds' (nread + 1)
            (s\<lparr>dg := (dg s)[dg_iput s := received d], nqueue := nqueue s + 1,
               dg_iput := (if QSIZE \<le> dg_iput s + 1 then 0 else dg_iput s + 1)\<rparr>))"

declare sig_io_loop.simps [simp del]

definition sig_io :: "dgram list \<Rightarrow> sigio \<Rightarrow> string + sigio" where
  "sig_io ds s = sig_io_loop ds 0 s"

section \<open>The main loop\<close>

definition echo_test :: "sigio \<Rightarrow> sigio" where
  "echo_test s = s\<lparr>phase := (if nqueue s = 0 then Suspended else ToSend)\<rparr>"

definition echo_advance :: "sigio \<Rightarrow> sigio" where
  "echo_advance s = s\<lparr>dg_iget := (if QSIZE \<le> dg_iget s + 1 then 0 else dg_iget s + 1), phase := ToBlock\<rparr>"

definition echo_block :: "sigio \<Rightarrow> sigio" where
  "echo_block s = s\<lparr>nqueue := nqueue s - 1, phase := AtTest\<rparr>"

section \<open>The server and its socket\<close>

text \<open>The datagrams the socket holds, and whether a signal is pending.\<close>

record echo_server =
  prog :: sigio
  sock :: "dgram list"
  sigpend :: bool

datatype echo_act = Arrive dgram | Handler nat | Reply dgram | Step

text \<open>The handler runs over what the socket holds and the datagrams that come meanwhile; these leave a signal behind.  From
  \<^verbatim>\<open>sigsuspend\<close> the main loop goes on after it.\<close>

inductive echo_step :: "echo_server \<Rightarrow> echo_act list \<Rightarrow> echo_server \<Rightarrow> bool" where
  e_arrive: "echo_step s [Arrive d] (s\<lparr>sock := sock s @ [d], sigpend := True\<rparr>)"
| e_handler: "sigpend s \<Longrightarrow> phase (prog s) \<noteq> AtTest \<Longrightarrow> sig_io (sock s @ late) (prog s) = Inr p \<Longrightarrow>
    echo_step s (map Arrive late @ [Handler (length (sock s @ late))])
      \<lparr>prog = (if phase p = Suspended then p\<lparr>phase := AtTest\<rparr> else p), sock = [], sigpend = (late \<noteq> [])\<rparr>"
| e_test: "phase (prog s) = AtTest \<Longrightarrow> echo_step s [Step] (s\<lparr>prog := echo_test (prog s)\<rparr>)"
| e_send: "phase (prog s) = ToSend \<Longrightarrow> echo_step s [Reply (dg (prog s) ! dg_iget (prog s))] (s\<lparr>prog := (prog s)\<lparr>phase := ToAdvance\<rparr>\<rparr>)"
| e_advance: "phase (prog s) = ToAdvance \<Longrightarrow> echo_step s [Step] (s\<lparr>prog := echo_advance (prog s)\<rparr>)"
| e_block: "phase (prog s) = ToBlock \<Longrightarrow> echo_step s [Step] (s\<lparr>prog := echo_block (prog s)\<rparr>)"

inductive echo_run :: "echo_server \<Rightarrow> echo_act list \<Rightarrow> echo_server \<Rightarrow> bool" where
  e_none: "echo_run s [] s"
| e_more: "echo_run s tr s' \<Longrightarrow> echo_step s' as s'' \<Longrightarrow> echo_run s (tr @ as) s''"

definition echo_start :: echo_server where
  "echo_start = \<lparr>prog = dg_echo_start, sock = [], sigpend = False\<rparr>"

end
