(* ===== verification/Unp_Sigio_Props.thy ===== *)
theory Unp_Sigio_Props
  imports Unp_Sigio
begin

text \<open>
  The signal-driven echo server: whatever the moments at which the handler runs, every datagram goes back to its sender
  once and in order, none is forgotten, and the handler never writes into a datagram that is being sent.
\<close>

section \<open>The ring\<close>

text \<open>The datagrams that are still to be sent: the one that was sent stays counted until the count is lowered.\<close>

definition unsent :: "sigio \<Rightarrow> nat" where
  "unsent s = (case phase s of ToAdvance \<Rightarrow> nqueue s - 1 | ToBlock \<Rightarrow> nqueue s - 1 | _ \<Rightarrow> nqueue s)"

definition first_unsent :: "sigio \<Rightarrow> nat" where
  "first_unsent s = (case phase s of ToAdvance \<Rightarrow> dg_iget s + 1 | _ \<Rightarrow> dg_iget s)"

definition echo_queue :: "sigio \<Rightarrow> dgram list" where
  "echo_queue s = map (\<lambda>k. dg s ! ((first_unsent s + k) mod QSIZE)) [0..<unsent s]"

definition echo_inv :: "sigio \<Rightarrow> bool" where
  "echo_inv s \<longleftrightarrow> length (dg s) = QSIZE \<and> dg_iget s < QSIZE \<and> nqueue s \<le> QSIZE \<and>
     dg_iput s = (first_unsent s + unsent s) mod QSIZE \<and> (phase s \<in> {ToSend, ToAdvance, ToBlock} \<longrightarrow> 0 < nqueue s)"

lemma next_mod: "i < QSIZE \<Longrightarrow> (if QSIZE \<le> i + 1 then 0 else i + 1) = (i + 1) mod QSIZE"
  by (cases "i = 7") (auto simp: QSIZE_def)

definition echo_put :: "dgram \<Rightarrow> sigio \<Rightarrow> sigio" where
  "echo_put d s = s\<lparr>dg := (dg s)[dg_iput s := received d], nqueue := nqueue s + 1, dg_iput := (dg_iput s + 1) mod QSIZE\<rparr>"

lemma echo_put_simps [simp]:
  "phase (echo_put d s) = phase s" "dg_iget (echo_put d s) = dg_iget s" "nqueue (echo_put d s) = nqueue s + 1" "cntread (echo_put d s) = cntread s"
  by (simp_all add: echo_put_def)

lemma unsent_put: "echo_inv s \<Longrightarrow> unsent (echo_put d s) = unsent s + 1 \<and> first_unsent (echo_put d s) = first_unsent s"
  by (auto simp: unsent_def first_unsent_def echo_inv_def split: echo_phase.split)

lemma echo_put_queue:
  assumes "echo_inv s" "nqueue s < QSIZE"
  shows "echo_inv (echo_put d s) \<and> echo_queue (echo_put d s) = echo_queue s @ [received d]"
proof -
  let ?f = "first_unsent s" and ?n = "unsent s"
  note u = unsent_put [OF assms(1), of d]
  have n: "?n \<le> nqueue s" by (simp add: unsent_def split: echo_phase.split)
  have p: "dg_iput s = (?f + ?n) mod QSIZE" and l: "length (dg s) = QSIZE" using assms(1) by (simp_all add: echo_inv_def)
  have pq: "dg_iput s < length (dg s)" using p l by (simp add: QSIZE_def)
  have other: "dg_iput s \<noteq> (?f + k) mod QSIZE" if "k < ?n" for k
  proof
    assume "dg_iput s = (?f + k) mod QSIZE"
    then have "(?f + k) mod 8 = (?f + ?n) mod 8" "k < ?n" "?n < 8" using p that n assms(2) by (simp_all add: QSIZE_def)
    then show False by presburger
  qed
  have "echo_queue (echo_put d s) = map (\<lambda>k. (dg s)[dg_iput s := received d] ! ((?f + k) mod QSIZE)) [0..<?n + 1]"
    using u by (simp add: echo_queue_def echo_put_def)
  also have "\<dots> = echo_queue s @ [received d]"
    using other pq by (simp add: echo_queue_def p [symmetric])
  finally have "echo_queue (echo_put d s) = echo_queue s @ [received d]" .
  moreover have "echo_inv (echo_put d s)"
    using assms u p l by (auto simp: echo_inv_def echo_put_def mod_Suc_eq)
  ultimately show ?thesis by blast
qed

section \<open>The handler\<close>

lemma sig_io_put:
  "dg_iput s < QSIZE \<Longrightarrow> sig_io_loop (d # ds) n s =
     (if QSIZE \<le> nqueue s then Inl ''receive overflow'' else sig_io_loop ds (n + 1) (echo_put d s))"
  using next_mod [of "dg_iput s"] by (simp add: sig_io_loop.simps [of "d # ds"] echo_put_def)

lemma iput_bound: "echo_inv s \<Longrightarrow> dg_iput s < QSIZE"
  by (simp add: echo_inv_def QSIZE_def)

lemma sig_io_loop_spec:
  "echo_inv s \<Longrightarrow>
   (case sig_io_loop ds n s of
      Inl m \<Rightarrow> QSIZE \<le> nqueue s + length ds \<and> m = ''receive overflow''
    | Inr p \<Rightarrow> nqueue s + length ds < QSIZE \<and> echo_inv p \<and> phase p = phase s \<and> dg_iget p = dg_iget s \<and>
        nqueue p = nqueue s + length ds \<and> echo_queue p = echo_queue s @ map received ds \<and>
        cntread p = (cntread s)[n + length ds := cntread s ! (n + length ds) + 1])"
proof (induction ds arbitrary: n s)
  case Nil
  then show ?case
    by (simp add: sig_io_loop.simps [of "[]"] echo_inv_def echo_queue_def unsent_def first_unsent_def split: echo_phase.split)
next
  case (Cons d ds)
  show ?case
  proof (cases "QSIZE \<le> nqueue s")
    case True
    then show ?thesis by (simp add: sig_io_loop.simps [of "d # ds"])
  next
    case False
    then have "echo_inv (echo_put d s)" "echo_queue (echo_put d s) = echo_queue s @ [received d]"
      using echo_put_queue [OF Cons.prems] by simp_all
    with Cons.IH [OF this(1), of "n + 1"] False show ?thesis
      by (simp add: sig_io_put iput_bound [OF Cons.prems] split: sum.split_asm sum.split)
  qed
qed

lemma sig_io_spec:
  assumes "echo_inv s" "sig_io ds s = Inr p"
  shows "nqueue s + length ds < QSIZE" "echo_inv p" "phase p = phase s" "dg_iget p = dg_iget s" "nqueue p = nqueue s + length ds"
    "echo_queue p = echo_queue s @ map received ds" "cntread p = (cntread s)[length ds := cntread s ! length ds + 1]"
  using sig_io_loop_spec [OF assms(1), of ds 0] assms(2) by (simp_all add: sig_io_def)

lemma sig_io_overflow: "echo_inv s \<Longrightarrow> (\<exists>m. sig_io ds s = Inl m) \<longleftrightarrow> QSIZE \<le> nqueue s + length ds"
  using sig_io_loop_spec [of s ds 0] by (auto simp: sig_io_def split: sum.splits)

section \<open>The main loop\<close>

lemma echo_test_inv: "echo_inv s \<Longrightarrow> phase s = AtTest \<Longrightarrow> echo_inv (echo_test s) \<and> echo_queue (echo_test s) = echo_queue s"
  by (simp add: echo_inv_def echo_test_def echo_queue_def unsent_def first_unsent_def)

lemma echo_send_queue:
  assumes "echo_inv s" "phase s = ToSend"
  shows "echo_inv (s\<lparr>phase := ToAdvance\<rparr>) \<and> echo_queue s = dg s ! dg_iget s # echo_queue (s\<lparr>phase := ToAdvance\<rparr>)"
proof -
  obtain n where n: "nqueue s = Suc n" using assms by (cases "nqueue s") (simp_all add: echo_inv_def)
  have "echo_queue s = map (\<lambda>k. dg s ! ((dg_iget s + k) mod QSIZE)) (0 # map Suc [0..<n])"
    using assms(2) n by (simp only: echo_queue_def unsent_def first_unsent_def echo_phase.case map_Suc_upt upt_conv_Cons [OF zero_less_Suc])
  then show ?thesis
    using assms n by (simp add: echo_inv_def echo_queue_def unsent_def first_unsent_def comp_def)
qed

lemma echo_advance_inv:
  assumes "echo_inv s" "phase s = ToAdvance"
  shows "echo_inv (echo_advance s) \<and> echo_queue (echo_advance s) = echo_queue s"
proof -
  obtain n where n: "nqueue s = Suc n" using assms by (cases "nqueue s") (simp_all add: echo_inv_def)
  have i: "(if QSIZE \<le> dg_iget s + 1 then 0 else dg_iget s + 1) = (dg_iget s + 1) mod QSIZE"
    using assms(1) next_mod by (simp add: echo_inv_def)
  have "((dg_iget s + 1) mod QSIZE + k) mod QSIZE = (dg_iget s + 1 + k) mod QSIZE" for k by (rule mod_add_left_eq)
  then show ?thesis
    using assms n unfolding echo_advance_def i
    by (simp add: echo_inv_def echo_queue_def unsent_def first_unsent_def)
qed

lemma echo_block_inv: "echo_inv s \<Longrightarrow> phase s = ToBlock \<Longrightarrow> echo_inv (echo_block s) \<and> echo_queue (echo_block s) = echo_queue s"
  by (auto simp: echo_inv_def echo_block_def echo_queue_def unsent_def first_unsent_def)

section \<open>Runs\<close>

fun arrived :: "echo_act list \<Rightarrow> dgram list" where
  "arrived [] = []"
| "arrived (Arrive d # tr) = d # arrived tr"
| "arrived (a # tr) = arrived tr"

fun replied :: "echo_act list \<Rightarrow> dgram list" where
  "replied [] = []"
| "replied (Reply d # tr) = d # replied tr"
| "replied (a # tr) = replied tr"

lemma echo_trace [simp]: "arrived (a @ b) = arrived a @ arrived b" "replied (a @ b) = replied a @ replied b"
  "arrived (map Arrive ds) = ds" "replied (map Arrive ds) = []"
proof -
  show "arrived (a @ b) = arrived a @ arrived b" by (induction a rule: arrived.induct) simp_all
  show "replied (a @ b) = replied a @ replied b" by (induction a rule: replied.induct) simp_all
  show "arrived (map Arrive ds) = ds" "replied (map Arrive ds) = []" by (induction ds) simp_all
qed

definition server_inv :: "echo_act list \<Rightarrow> echo_server \<Rightarrow> bool" where
  "server_inv tr s \<longleftrightarrow> echo_inv (prog s) \<and> nqueue (prog s) < QSIZE \<and> (sock s \<noteq> [] \<longrightarrow> sigpend s) \<and>
     (phase (prog s) = Suspended \<longrightarrow> nqueue (prog s) = 0) \<and>
     map received (arrived tr) = replied tr @ echo_queue (prog s) @ map received (sock s)"

lemma echo_awake: "echo_inv s \<Longrightarrow> phase s = Suspended \<Longrightarrow> echo_inv (s\<lparr>phase := AtTest\<rparr>) \<and> echo_queue (s\<lparr>phase := AtTest\<rparr>) = echo_queue s"
  by (simp add: echo_inv_def echo_queue_def unsent_def first_unsent_def)

lemma echo_step_inv: "echo_step s as s' \<Longrightarrow> server_inv tr s \<Longrightarrow> server_inv (tr @ as) s'"
proof (induction rule: echo_step.induct)
  case (e_handler s late p)
  have "echo_inv (prog s)" using e_handler.prems by (simp add: server_inv_def)
  note h = sig_io_spec [OF this e_handler.hyps(3)]
  then show ?case
    using e_handler.prems echo_awake [OF h(2)] by (auto simp: server_inv_def)
next
  case (e_send s)
  then show ?case using echo_send_queue [of "prog s"] by (auto simp: server_inv_def)
next
  case (e_test s)
  then show ?case using echo_test_inv [of "prog s"] by (auto simp: server_inv_def echo_test_def)
next
  case (e_advance s)
  then show ?case using echo_advance_inv [of "prog s"] by (auto simp: server_inv_def echo_advance_def)
next
  case (e_block s)
  then show ?case using echo_block_inv [of "prog s"] by (auto simp: server_inv_def echo_block_def)
qed (simp add: server_inv_def)

lemma echo_start_inv: "server_inv [] echo_start"
  by (simp add: server_inv_def echo_start_def dg_echo_start_def echo_inv_def echo_queue_def unsent_def first_unsent_def QSIZE_def)

lemma echo_run_inv: "echo_run s0 tr s \<Longrightarrow> s0 = echo_start \<Longrightarrow> server_inv tr s"
  by (induction rule: echo_run.induct) (auto intro: echo_start_inv echo_step_inv)

text \<open>C38. At whatever moments the signal handler interrupts the main loop, the datagrams go back in the order they came, each
  once, cut to 4096 bytes and to the address it came from; those not yet answered are in the ring or in the socket, and then
  a signal is pending, so that none is forgotten.\<close>

theorem echo_answers_all_in_order:
  assumes "echo_run echo_start tr s"
  shows "map received (arrived tr) = replied tr @ echo_queue (prog s) @ map received (sock s) \<and> (sock s \<noteq> [] \<longrightarrow> sigpend s)"
  using echo_run_inv [OF assms refl] by (simp add: server_inv_def)

text \<open>The ring never holds eight datagrams: the handler ends the server when what waits and what the socket holds make eight
  or more, although the eighth has its place.\<close>

theorem echo_overflow_at_eight:
  assumes "echo_run echo_start tr s"
  shows "nqueue (prog s) \<le> 7 \<and> ((\<exists>m. sig_io ds (prog s) = Inl m) \<longleftrightarrow> 8 \<le> nqueue (prog s) + length ds)"
  using echo_run_inv [OF assms refl] sig_io_overflow [of "prog s" ds] by (simp add: server_inv_def QSIZE_def)

text \<open>A run in which the second datagram comes while the first is being answered.\<close>

definition dgram1 :: dgram where "dgram1 = \<lparr>dg_data = [104, 105], dg_sa = Sin [10, 0, 2, 15] 7\<rparr>"
definition dgram2 :: dgram where "dgram2 = \<lparr>dg_data = [], dg_sa = Sin [10, 0, 2, 16] 7\<rparr>"

lemma received_short: "received dgram1 = dgram1" "received dgram2 = dgram2"
  by (simp_all add: received_def dgram1_def dgram2_def MAXDG_def)

definition echo_example :: echo_server where
  "echo_example = \<lparr>prog = \<lparr>dg = dgram1 # dgram2 # replicate 6 \<lparr>dg_data = [], dg_sa = Sother 0\<rparr>, cntread = [0, 2, 0, 0, 0, 0, 0, 0, 0],
     dg_iget = 0, dg_iput = 2, nqueue = 2, phase = ToAdvance\<rparr>, sock = [], sigpend = False\<rparr>"

lemma echo_example_run:
  "echo_run echo_start [Step, Arrive dgram1, Handler 1, Step, Arrive dgram2, Reply dgram1, Handler 1] echo_example"
proof -
  let ?z = "\<lparr>dg_data = [], dg_sa = Sother 0\<rparr>"
  have r8: "replicate QSIZE x = [x, x, x, x, x, x, x, x]" "replicate QSIZE y = [y, y, y, y, y, y, y, y]" "replicate 6 x = [x, x, x, x, x, x]"
    for x :: dgram and y :: nat by (simp_all add: QSIZE_def numeral_eq_Suc)
  let ?p1 = "dg_echo_start\<lparr>phase := Suspended\<rparr>"
  let ?p2 = "?p1\<lparr>dg := dgram1 # replicate 7 ?z, cntread := [0, 1, 0, 0, 0, 0, 0, 0, 0], dg_iput := 1, nqueue := 1, phase := AtTest\<rparr>"
  let ?p3 = "?p2\<lparr>phase := ToAdvance\<rparr>"
  have r7: "replicate 7 x = [x, x, x, x, x, x, x]" for x :: dgram by (simp add: numeral_eq_Suc)
  have h1: "sig_io [dgram1] ?p1 = Inr (?p2\<lparr>phase := Suspended\<rparr>)"
    by (simp add: sig_io_def sig_io_loop.simps dg_echo_start_def r8 r7 received_short) (simp add: QSIZE_def)
  have h2: "sig_io [dgram2] ?p3 = Inr (prog echo_example)"
    by (simp add: sig_io_def sig_io_loop.simps echo_example_def dg_echo_start_def r8 r7 received_short) (simp add: QSIZE_def)
  have "echo_step echo_start [Step] (echo_start\<lparr>prog := echo_test (prog echo_start)\<rparr>)"
    by (rule e_test) (simp add: echo_start_def dg_echo_start_def)
  moreover have "echo_start\<lparr>prog := echo_test (prog echo_start)\<rparr> = \<lparr>prog = ?p1, sock = [], sigpend = False\<rparr>"
    by (simp add: echo_start_def echo_test_def dg_echo_start_def)
  ultimately have 1: "echo_run echo_start ([] @ [Step]) \<lparr>prog = ?p1, sock = [], sigpend = False\<rparr>"
    using e_more [OF e_none] by simp
  have 2: "echo_step \<lparr>prog = ?p1, sock = [], sigpend = False\<rparr> [Arrive dgram1] \<lparr>prog = ?p1, sock = [dgram1], sigpend = True\<rparr>"
    using e_arrive [of "\<lparr>prog = ?p1, sock = [], sigpend = False\<rparr>" dgram1] by simp
  have 3: "echo_step \<lparr>prog = ?p1, sock = [dgram1], sigpend = True\<rparr> [Handler 1] \<lparr>prog = ?p2, sock = [], sigpend = False\<rparr>"
    using e_handler [of "\<lparr>prog = ?p1, sock = [dgram1], sigpend = True\<rparr>" "[]"] h1 by simp
  have 4: "echo_step \<lparr>prog = ?p2, sock = [], sigpend = False\<rparr> [Step] \<lparr>prog = ?p2\<lparr>phase := ToSend\<rparr>, sock = [], sigpend = False\<rparr>"
    using e_test [of "\<lparr>prog = ?p2, sock = [], sigpend = False\<rparr>"] by (simp add: echo_test_def)
  have 5: "echo_step \<lparr>prog = ?p2\<lparr>phase := ToSend\<rparr>, sock = [], sigpend = False\<rparr> [Arrive dgram2] \<lparr>prog = ?p2\<lparr>phase := ToSend\<rparr>, sock = [dgram2], sigpend = True\<rparr>"
    using e_arrive [of "\<lparr>prog = ?p2\<lparr>phase := ToSend\<rparr>, sock = [], sigpend = False\<rparr>" dgram2] by simp
  have 6: "echo_step \<lparr>prog = ?p2\<lparr>phase := ToSend\<rparr>, sock = [dgram2], sigpend = True\<rparr> [Reply dgram1] \<lparr>prog = ?p3, sock = [dgram2], sigpend = True\<rparr>"
    using e_send [of "\<lparr>prog = ?p2\<lparr>phase := ToSend\<rparr>, sock = [dgram2], sigpend = True\<rparr>"] by (simp add: dg_echo_start_def)
  have 7: "echo_step \<lparr>prog = ?p3, sock = [dgram2], sigpend = True\<rparr> [Handler 1] echo_example"
    using e_handler [of "\<lparr>prog = ?p3, sock = [dgram2], sigpend = True\<rparr>" "[]"] h2 by (simp add: echo_example_def)
  show ?thesis
    using e_more [OF e_more [OF e_more [OF e_more [OF e_more [OF e_more [OF 1 2] 3] 4] 5] 6] 7] by simp
qed

lemma echo_answers_all_in_order_witness: "echo_queue (prog echo_example) = [dgram2]"
  using echo_answers_all_in_order [OF echo_example_run] by (simp add: echo_example_def received_short)

lemma echo_overflow_at_eight_witness: "\<exists>m. sig_io (replicate 6 dgram1) (prog echo_example) = Inl m"
  using echo_overflow_at_eight [OF echo_example_run, of "replicate 6 dgram1"] by (simp add: echo_example_def)

end
