(* ===== verification/Unp_Udpcksum.thy ===== *)
theory Unp_Udpcksum
  imports Unp_Addr
begin

text \<open>
  The program that finds out whether a name server sends UDP checksums, \<^verbatim>\<open>src/unpv13e-master/udpcksum\<close>: it
  writes a query with its own IP and UDP headers and reads the answer from the packet capture library.  A packet is a list of
  bytes; \<open>le16\<close> is how a 16-bit field lies in memory.  The headers are those of the system: a UDP header behind an IP header of
  20 bytes, or behind the overlay of nine zeros, protocol, length and addresses that has the place of the IP header while the
  checksum is computed.
\<close>

definition TTL_OUT :: byte where "TTL_OUT = 64"

abbreviation UDPHDR :: nat where "UDPHDR \<equiv> 8"
abbreviation UDPIPHDR :: nat where "UDPIPHDR \<equiv> 28"
abbreviation PROTO_UDP :: byte where "PROTO_UDP \<equiv> 17"

section \<open>Writing\<close>

text \<open>The two ends, in network order.\<close>

record udp_ends =
  src_addr :: "byte list"
  src_port :: u16
  dst_addr :: "byte list"
  dst_port :: u16

text \<open>The UDP header and the overlay, with the checksum field given.\<close>

definition udp_header :: "udp_ends \<Rightarrow> u16 \<Rightarrow> u16 \<Rightarrow> byte list" where
  "udp_header e ulen cks = le16 (src_port e) @ le16 (dst_port e) @ le16 ulen @ le16 cks"

definition udp_overlay :: "udp_ends \<Rightarrow> u16 \<Rightarrow> byte list" where
  "udp_overlay e ulen = replicate 9 0 @ [PROTO_UDP] @ le16 ulen @ src_addr e @ dst_addr e"

definition udp_sum :: "udp_ends \<Rightarrow> byte list \<Rightarrow> u16" where
  "udp_sum e userdata =
     (let ulen = htons (of_nat (UDPHDR + length userdata));
          cks = in_cksum (udp_overlay e ulen @ udp_header e ulen 0 @ userdata)
      in if cks = 0 then 0xffff else cks)"

text \<open>The rest of the IP header is filled in over the overlay; the field of its checksum keeps the length that was there.\<close>

definition udp_write :: "bool \<Rightarrow> udp_ends \<Rightarrow> byte list \<Rightarrow> byte list" where
  "udp_write zerosum e userdata =
     (let ulen = htons (of_nat (UDPHDR + length userdata));
          cks = (if zerosum then 0 else udp_sum e userdata);
          total = UDPIPHDR + length userdata
      in [0x45, 0] @ le16 (htons (of_nat total)) @ le16 0 @ le16 0 @ [TTL_OUT, PROTO_UDP] @ le16 ulen @
         src_addr e @ dst_addr e @ udp_header e ulen cks @ userdata)"

definition dns_query :: "byte list" where
  "dns_query = le16 (htons 1234) @ le16 (htons 0x0100) @ le16 (htons 1) @ le16 0 @ le16 0 @ le16 0 @
     1 # char_bytes ''a'' @ 12 # char_bytes ''root-servers'' @ 3 # char_bytes ''net'' @ 0 # le16 (htons 1) @ le16 (htons 1)"

definition send_dns_query :: "bool \<Rightarrow> udp_ends \<Rightarrow> byte list" where
  "send_dns_query zerosum e = udp_write zerosum e dns_query"

section \<open>Reading\<close>

text \<open>\<open>CkUndef\<close>: what C leaves undefined.\<close>

datatype checked = CkQuit string | CkUndef | CkOk "byte list"

text \<open>\<open>len\<close> is compared with sizes, as an unsigned number: below 0 it passes every check and the packet is read behind
  its end.  A good packet comes back with the result of the check, 0, in the field of the IP checksum.\<close>

definition udp_check :: "byte list \<Rightarrow> int \<Rightarrow> checked" where
  "udp_check pkt len =
     (if len < 0 then CkUndef
      else if len < int UDPIPHDR then CkQuit (''len = '' @ dec_int len)
      else
        let ip_v = drop_bit 4 (pkt ! 0); ip_hl = unat (pkt ! 0 AND 15); hlen = 4 * ip_hl in
        if ip_v \<noteq> 4 then CkQuit (''ip_v = '' @ dec (unat ip_v))
        else if hlen < 20 then CkQuit (''ip_hl = '' @ dec ip_hl)
        else if len < int (hlen + UDPHDR) then CkQuit (''len = '' @ dec_int len @ '', hlen = '' @ dec hlen)
        else if in_cksum (take hlen pkt) \<noteq> 0 then CkQuit ''ip checksum error''
        else if pkt ! 9 = PROTO_UDP then CkOk (pkt[10 := 0, 11 := 0])
        else CkQuit ''not a UDP packet'')"

datatype datalink = DLT_NULL | DLT_EN10MB | DLT_SLIP | DLT_PPP | DLT_other int

definition udp_read :: "datalink \<Rightarrow> byte list \<Rightarrow> checked" where
  "udp_read dl pkt =
     (let from = (\<lambda>n. udp_check (drop n pkt) (int (length pkt) - int n)) in
      case dl of
        DLT_NULL \<Rightarrow> from 4
      | DLT_EN10MB \<Rightarrow>
          if length pkt < 14 then CkUndef
          else
            let ether_type = unat (pkt ! 12) * 256 + unat (pkt ! 13) in
            if ether_type \<noteq> 0x800 then CkQuit (''Ethernet type '' @ hex ether_type @ '' not IP'') else from 14
      | DLT_SLIP \<Rightarrow> from 24
      | DLT_PPP \<Rightarrow> from 24
      | DLT_other d \<Rightarrow> CkQuit (''unsupported datalink ('' @ dec_int d @ '')''))"

section \<open>The test\<close>

text \<open>What comes of an attempt: the alarm, or a packet before it.\<close>

datatype test_out = SentQuery "byte list" | SetAlarm nat | Says string
datatype test_end = TestDone | TestQuit string | TestUndef | TestWaiting

fun test_udp_loop :: "byte list \<Rightarrow> datalink \<Rightarrow> nat \<Rightarrow> nat \<Rightarrow> byte list option list \<Rightarrow> test_out list \<times> test_end" where
  "test_udp_loop query dl nsent timeout rs =
     (case rs of
        [] \<Rightarrow> ([SentQuery query, SetAlarm timeout], TestWaiting)
      | None # rs' \<Rightarrow>
          if 3 \<le> nsent + 1 then ([SentQuery query, SetAlarm timeout], TestQuit ''no response'')
          else
            (case test_udp_loop query dl (nsent + 1) (timeout * 2) rs' of
               (out, r) \<Rightarrow> ([SentQuery query, SetAlarm timeout, Says ''timeout''] @ out, r))
      | Some pkt # rs' \<Rightarrow>
          (case udp_read dl pkt of
             CkQuit m \<Rightarrow> ([SentQuery query, SetAlarm timeout], TestQuit m)
           | CkUndef \<Rightarrow> ([SentQuery query, SetAlarm timeout], TestUndef)
           | CkOk ui \<Rightarrow>
               ([SentQuery query, SetAlarm timeout, SetAlarm 0,
                 Says (if ui ! 26 = 0 \<and> ui ! 27 = 0 then ''UDP checksums off'' else ''UDP checksums on'')], TestDone)))"

declare test_udp_loop.simps [simp del]

definition test_udp :: "bool \<Rightarrow> udp_ends \<Rightarrow> datalink \<Rightarrow> byte list option list \<Rightarrow> test_out list \<times> test_end" where
  "test_udp zerosum e dl rs = test_udp_loop (send_dns_query zerosum e) dl 0 3 rs"

end
