(* ===== verification/Unp_Udpcksum_Props.thy ===== *)
theory Unp_Udpcksum_Props
  imports Unp_Udpcksum Unp_Addr_Props
begin

text \<open>
  What the program writes is a datagram every receiver accepts, with or without a checksum as it was asked for; what it
  reads back passes its check; and the test sends at most three queries and reports what the answer's field says.
\<close>

section \<open>The network\<close>

text \<open>What the system and the routers may change in an IP header that is handed over complete: identification, time to live
  and checksum; and that checksum is right.\<close>

definition delivered :: "byte list \<Rightarrow> byte list \<Rightarrow> bool" where
  "delivered pkt pkt' \<longleftrightarrow> length pkt' = length pkt \<and> (\<forall>i < length pkt. i \<notin> {4, 5, 8, 10, 11} \<longrightarrow> pkt' ! i = pkt ! i) \<and>
     in_cksum (take 20 pkt') = 0"

text \<open>What a receiver sums: the pseudo-header of RFC 768 and the datagram.\<close>

definition receiver_sum :: "byte list \<Rightarrow> u16" where
  "receiver_sum pkt = in_cksum (take 8 (drop 12 pkt) @ [0, PROTO_UDP] @ take 2 (drop 24 pkt) @ drop 20 pkt)"

section \<open>Sums\<close>

lemma cksum_nat_append2: "even (length a) \<Longrightarrow> cksum_nat (a @ b) = cksum_nat a + cksum_nat b"
  by (induction a rule: cksum_nat.induct) simp_all

lemma cksum_nat_le16 [simp]: "cksum_nat (le16 w) = unat w"
  by (simp add: le16_def)

lemma ones_sum_all_ones:
  assumes "ones_sum n = 65535" shows "ones_sum (n + 65535) = 65535"
proof -
  have n: "n \<noteq> 0" "(n - 1) mod 65535 = 65534" using assms by (auto simp: ones_sum_def split: if_splits)
  then have "n + 65535 - 1 = (n - 1) + 65535" by simp
  then have "(n + 65535 - 1) mod 65535 = 65534" using n(2) by (simp only: mod_add_self2)
  then show ?thesis by (simp add: ones_sum_def)
qed

lemma nine_zeros: "replicate 9 x = [x, x, x, x, x, x, x, x, x]"
  by (simp add: numeral_eq_Suc)

lemma cksum_nat_zeros: "cksum_nat (replicate 9 0 @ 17 # bs) = 4352 + cksum_nat bs"
proof -
  have "unat (of_le16 0 0) = 0" "unat (of_le16 0 17) = 4352" by code_simp+
  then show ?thesis by (simp add: nine_zeros)
qed

text \<open>A checksum of 0 is sent as all ones, and verifies as well.\<close>

lemma nonzero_complement:
  assumes "cksum_nat m' = cksum_nat m + unat (if in_cksum m = 0 then 0xffff else in_cksum m)" "length m \<le> 131070"
  shows "in_cksum m' = 0"
proof (cases "in_cksum m = 0")
  case False
  then show ?thesis using cksum_complement [of m' m] assms by simp
next
  case True
  have "cksum_nat m \<le> 65535 * ((length m + 1) div 2)" by (rule cksum_nat_bound)
  moreover have "(length m + 1) div 2 \<le> 65535" using assms(2) by simp
  ultimately have s: "cksum_nat m \<le> 65535 * 65535" by (meson le_trans mult_le_mono2)
  have f: "unat (in_cksum k) = 65535 - ones_sum (cksum_nat k)" if "cksum_nat k < 2 ^ 32" for k
    using cksum_fold_nat [OF that] by (simp add: in_cksum_def cksum_sum_nat)
  have o: "ones_sum k \<le> 65535" for k by (simp add: ones_sum_def Suc_le_eq)
  have "ones_sum (cksum_nat m) = 65535" using f [of m] s True o [of "cksum_nat m"] by simp
  then have "ones_sum (cksum_nat m') = 65535" using assms(1) True ones_sum_all_ones by simp
  then have "unat (in_cksum m') = 0" using f [of m'] s assms(1) True by simp
  then show ?thesis by (simp add: unat_eq_0)
qed

section \<open>Writing\<close>

definition ends_ok :: "udp_ends \<Rightarrow> bool" where
  "ends_ok e \<longleftrightarrow> length (src_addr e) = 4 \<and> length (dst_addr e) = 4"

lemma overlay_sum: "ends_ok e \<Longrightarrow> cksum_nat (udp_overlay e ulen @ bs) =
    4352 + unat ulen + cksum_nat (src_addr e) + cksum_nat (dst_addr e) + cksum_nat bs"
  by (simp add: udp_overlay_def cksum_nat_zeros cksum_nat_append2 ends_ok_def)

lemma header_sum: "cksum_nat (udp_header e ulen cks @ bs) = unat (src_port e) + unat (dst_port e) + unat ulen + unat cks + cksum_nat bs"
  by (simp add: udp_header_def cksum_nat_append2)

lemma udp_write_bytes:
  assumes "ends_ok e"
  shows "\<exists>h. length h = 12 \<and> h ! 0 = 0x45 \<and> h ! 9 = PROTO_UDP \<and>
    udp_write z e d = h @ src_addr e @ dst_addr e @ udp_header e (htons (of_nat (8 + length d))) (if z then 0 else udp_sum e d) @ d"
  by (rule exI [of _ "take 12 (udp_write z e d)"]) (simp add: udp_write_def Let_def le16_def TTL_OUT_def)

lemma udp_sum_nonzero: "udp_sum e d \<noteq> 0"
  by (simp add: udp_sum_def Let_def)

lemma receiver_accepts:
  assumes "ends_ok e" "length d \<le> 65507"
  shows "in_cksum (src_addr e @ dst_addr e @ [0, PROTO_UDP] @ le16 (htons (of_nat (8 + length d))) @
    udp_header e (htons (of_nat (8 + length d))) (udp_sum e d) @ d) = 0"
proof (rule nonzero_complement)
  let ?u = "htons (of_nat (8 + length d))"
  let ?m = "udp_overlay e ?u @ udp_header e ?u 0 @ d"
  have z: "cksum_nat (0 # PROTO_UDP # bs) = 4352 + cksum_nat bs" for bs
  proof -
    have "unat (of_le16 0 17) = 4352" by code_simp
    then show ?thesis by simp
  qed
  have "udp_sum e d = (if in_cksum ?m = 0 then 0xffff else in_cksum ?m)" by (simp add: udp_sum_def Let_def)
  then show "cksum_nat (src_addr e @ dst_addr e @ [0, PROTO_UDP] @ le16 ?u @ udp_header e ?u (udp_sum e d) @ d) =
      cksum_nat ?m + unat (if in_cksum ?m = 0 then 0xffff else in_cksum ?m)"
    using assms(1) z by (simp add: overlay_sum header_sum cksum_nat_append2 ends_ok_def)
  show "length ?m \<le> 131070" using assms by (simp add: udp_overlay_def udp_header_def ends_ok_def)
qed

lemma nibbles: "drop_bit 4 (0x45 :: byte) = 4" "unat ((0x45 :: byte) AND 15) = 5"
  by code_simp+

text \<open>C39. A datagram as the program writes it, from any two ends and with up to 65507 bytes of data, passes its own check when it
  is delivered, with its data and ports; and a receiver finds its UDP checksum right, also where the sum is zero and all ones
  are sent, or finds none when none was asked for.\<close>

theorem udp_written_verifies:
  assumes "ends_ok e" "length d \<le> 65507" "delivered (udp_write z e d) pkt"
  shows "\<exists>ui. udp_check pkt (int (length pkt)) = CkOk ui \<and> drop 28 ui = d \<and>
    take 4 (drop 20 ui) = le16 (src_port e) @ le16 (dst_port e) \<and>
    (if z then take 2 (drop 26 ui) = [0, 0] else receiver_sum ui = 0 \<and> take 2 (drop 26 ui) \<noteq> [0, 0])"
proof -
  let ?u = "htons (of_nat (8 + length d))" and ?c = "if z then 0 else udp_sum e d"
  obtain h where h: "length h = 12" "h ! 0 = 0x45" "h ! 9 = PROTO_UDP"
    and w: "udp_write z e d = h @ src_addr e @ dst_addr e @ udp_header e ?u ?c @ d" using udp_write_bytes [OF assms(1)] by blast
  have l: "length (udp_write z e d) = 28 + length d" using assms(1) h(1) by (simp add: w udp_header_def ends_ok_def)
  have n: "length pkt = 28 + length d" "in_cksum (take 20 pkt) = 0"
    and same: "\<And>i. i < 28 + length d \<Longrightarrow> i \<notin> {4, 5, 8, 10, 11} \<Longrightarrow> pkt ! i = udp_write z e d ! i"
    using assms(3) l by (auto simp: delivered_def)
  have "drop 12 pkt = drop 12 (udp_write z e d)" by (rule nth_equalityI) (use n l same in auto)
  then have rest: "drop 12 pkt = src_addr e @ dst_addr e @ udp_header e ?u ?c @ d" using h(1) by (simp add: w)
  have p: "pkt ! 0 = 0x45" "pkt ! 9 = PROTO_UDP" using same [of 0] same [of 9] h by (simp_all add: w nth_append)
  let ?ui = "pkt[10 := 0, 11 := 0]"
  have ok: "udp_check pkt (int (length pkt)) = CkOk ?ui" using n p by (simp add: udp_check_def Let_def nibbles)
  have d12: "drop 12 ?ui = src_addr e @ dst_addr e @ udp_header e ?u ?c @ d" using rest by simp
  have dr: "drop k ?ui = drop (k - 12) (src_addr e @ dst_addr e @ udp_header e ?u ?c @ d)" if "12 \<le> k" for k
    using arg_cong [OF d12, of "drop (k - 12)"] that by simp
  have four: "length (src_addr e) = 4" "length (dst_addr e) = 4" using assms(1) by (simp_all add: ends_ok_def)
  have data: "drop 28 ?ui = d" "take 4 (drop 20 ?ui) = le16 (src_port e) @ le16 (dst_port e)" "take 2 (drop 26 ?ui) = le16 ?c"
    using dr [of 28] dr [of 20] dr [of 26] four by (simp_all add: udp_header_def le16_def)
  have parts: "take 8 (drop 12 ?ui) = src_addr e @ dst_addr e" "take 2 (drop 24 ?ui) = le16 ?u" "drop 20 ?ui = udp_header e ?u ?c @ d"
    using dr [of 12] dr [of 24] dr [of 20] four by (simp_all add: udp_header_def le16_def)
  have sum: "receiver_sum ?ui = 0" if "\<not> z"
    using receiver_accepts [OF assms(1,2)] that unfolding receiver_sum_def parts by simp
  have "w = 0" if "le16 w = [0, 0]" for w
  proof -
    have "(ucast w :: byte) = 0" "(ucast (drop_bit 8 w) :: byte) = 0" using that by (simp_all add: le16_def)
    then have "w = of_le16 0 0" using of_le16_le16 [of w] by simp
    then show ?thesis by (simp add: of_le16_def)
  qed
  then have "le16 (udp_sum e d) \<noteq> [0, 0]" using udp_sum_nonzero [of e d] by blast
  then show ?thesis using ok data sum by (intro exI [of _ ?ui]) (simp add: le16_def)
qed

lemma udp_check_ok: "udp_check p n = CkOk ui \<Longrightarrow> ui = p[10 := 0, 11 := 0]"
  by (auto simp: udp_check_def Let_def split: if_splits)

text \<open>Two bytes from one end to the other, as written and as delivered.\<close>

definition two_ends :: udp_ends where
  "two_ends = \<lparr>src_addr = [10, 0, 2, 15], src_port = htons 40000, dst_addr = [192, 5, 6, 30], dst_port = htons 53\<rparr>"

definition on_the_wire :: "byte list" where
  "on_the_wire = [69, 0, 0, 30, 0, 0, 0, 0, 64, 17, 168, 157, 10, 0, 2, 15, 192, 5, 6, 30, 156, 64, 0, 53, 0, 10, 144, 48, 1, 2]"

lemma two_bytes_written: "udp_write False two_ends [1, 2] = [69, 0, 0, 30, 0, 0, 0, 0, 64, 17, 0, 10, 10, 0, 2, 15, 192, 5, 6, 30, 156, 64, 0, 53, 0, 10, 144, 48, 1, 2]"
  by code_simp

lemma udp_written_verifies_witness:
  "\<exists>ui. udp_check on_the_wire 30 = CkOk ui \<and> drop 28 ui = [1, 2] \<and> receiver_sum ui = 0"
proof -
  have "in_cksum (take 20 on_the_wire) = 0" by code_simp
  then have "delivered (udp_write False two_ends [1, 2]) on_the_wire"
    unfolding two_bytes_written by (simp add: delivered_def on_the_wire_def nth_Cons')
  moreover have "ends_ok two_ends" by (simp add: ends_ok_def two_ends_def)
  ultimately have "\<exists>ui. udp_check on_the_wire (int (length on_the_wire)) = CkOk ui \<and> drop 28 ui = [1, 2] \<and> receiver_sum ui = 0"
    using udp_written_verifies [of two_ends "[1, 2]" False on_the_wire] by auto
  then show ?thesis by (simp add: on_the_wire_def)
qed

section \<open>The test\<close>

text \<open>The alarms are 3, 6 and 12 seconds long; an answer before the third ends the test with what its checksum field says,
  otherwise three queries have been sent.\<close>

definition attempt :: "byte list \<Rightarrow> nat \<Rightarrow> test_out list" where
  "attempt query j = [SentQuery query, SetAlarm (3 * 2 ^ j)]"

lemma test_udp_reports:
  assumes "udp_read dl pkt = CkOk ui" "k < 3"
  shows "test_udp z e dl (replicate k None @ Some pkt # rs) =
    (concat (map (\<lambda>j. attempt (send_dns_query z e) j @ [Says ''timeout'']) [0..<k]) @ attempt (send_dns_query z e) k @
       [SetAlarm 0, Says (if ui ! 26 = 0 \<and> ui ! 27 = 0 then ''UDP checksums off'' else ''UDP checksums on'')], TestDone)"
proof -
  have "k = 0 \<or> k = 1 \<or> k = 2" using assms(2) by auto
  then show ?thesis
    using assms(1) by (elim disjE) (simp_all add: test_udp_def test_udp_loop.simps attempt_def numeral_2_eq_2)
qed

lemma test_udp_gives_up:
  "test_udp z e dl (None # None # None # rs) =
    (attempt (send_dns_query z e) 0 @ Says ''timeout'' # attempt (send_dns_query z e) 1 @ Says ''timeout'' # attempt (send_dns_query z e) 2,
     TestQuit ''no response'')"
  by (simp add: test_udp_def test_udp_loop.simps attempt_def)

text \<open>A captured packet that is shorter than the header of its link passes the check of its length, as an unsigned number.\<close>

lemma short_capture_undefined: "length pkt < 24 \<Longrightarrow> udp_read DLT_SLIP pkt = CkUndef"
  by (simp add: udp_read_def udp_check_def)

end
