(* ===== verification/Unp_Sntp.thy ===== *)
theory Unp_Sntp
  imports Unp_Icmp
begin

text \<open>
  Two small clocks of the book: the SNTP listener that prints how far the host's clock is from a server's,
  \<^verbatim>\<open>src/unpv13e-master/ssntp/sntp_proc.c\<close>, and the heartbeats of
  \<^verbatim>\<open>oob/heartbeatcli.c\<close> and \<^verbatim>\<open>heartbeatserv.c\<close>, with what is proved of them.
\<close>

section \<open>SNTP\<close>

definition JAN_1970 :: int where "JAN_1970 = 2208988800"
definition VERSION_MASK :: byte where "VERSION_MASK = 0x38"
definition MODE_MASK :: byte where "MODE_MASK = 7"
definition MODE_CLIENT :: nat where "MODE_CLIENT = 3"

text \<open>The bytes of \<^verbatim>\<open>struct ntpdata\<close>, with the time of transmission at 40.\<close>

definition NTPDATA :: nat where "NTPDATA = 48"

text \<open>The fraction of a second in millionths, over a \<^verbatim>\<open>double\<close>.\<close>

definition usecs_of_fraction :: "u32 \<Rightarrow> u32" where
  "usecs_of_fraction fraction =
     (let usecf = f64 (of_nat (unat fraction)); usecf' = f64 (usecf / 4294967296)
      in word_of_int \<lfloor>f64 (usecf' * 1000000)\<rfloor>)"

definition clock_difference :: "byte list \<Rightarrow> timeval \<Rightarrow> u32" where
  "clock_difference buf now =
     (let nsec = word_of_int (int (unat (ntohl (rd32 buf 40))) - JAN_1970) :: u32;
          useci = usecs_of_fraction (ntohl (rd32 buf 44));
          sec = fst now - int (unat nsec); usec = snd now - int (unat useci);
          diff = (if usec < 0 then (sec - 1, usec + 1000000) else (sec, usec))
      in word_of_int (fst diff * 1000000 + snd diff))"

text \<open>The lines printed for the first \<open>n\<close> bytes of the buffer.\<close>

definition sntp_proc :: "byte list \<Rightarrow> nat \<Rightarrow> timeval \<Rightarrow> string list" where
  "sntp_proc buf n now =
     (if n < NTPDATA then [''packet too small: '' @ dec n @ '' bytes'']
      else
        let status = buf ! 0; version = unat (drop_bit 3 (status AND VERSION_MASK)); mode = unat (status AND MODE_MASK);
            head = ''v'' @ dec version @ '', mode '' @ dec mode @ '', strat '' @ dec (unat (buf ! 1)) @ '', ''
        in if mode = MODE_CLIENT then [head @ ''client'']
           else [head, ''clock difference = '' @ dec_int (sint (clock_difference buf now)) @ '' usec''])"

text \<open>The fraction survives the arithmetic of \<^verbatim>\<open>double\<close> without rounding.\<close>

lemma usecs_exact: "int (unat (usecs_of_fraction f)) = int (unat f) * 1000000 div 2 ^ 32"
proof -
  define k where "k = int (unat f)"
  have k: "0 \<le> k" "k < 2 ^ 32" using uint_lt2p [of f] by (simp_all add: k_def)
  have exact: "f64 (of_int j * 2 powi e) = of_int j * 2 powi e" if "\<bar>j\<bar> < 2 ^ 53" "- 1074 \<le> e" for j e
    by (rule rounded_representable) (use that in \<open>auto simp: representable_def\<close>)
  have 1: "f64 (of_nat (unat f)) = of_int k" using exact [of k 0] k by (simp add: k_def)
  have p: "(2 :: rat) powi (- 32) = 1 / 4294967296" by (simp add: power_int_minus)
  have 2: "f64 (of_int k / 4294967296) = of_int k / 4294967296" using exact [of k "- 32"] k by (simp add: p)
  have 3: "f64 (of_int k / 4294967296 * 1000000) = of_int k / 4294967296 * 1000000"
    using exact [of "k * 1000000" "- 32"] k by (simp add: p)
  have fl: "\<lfloor>of_int k / (4294967296 :: rat) * 1000000\<rfloor> = k * 1000000 div 2 ^ 32"
    using floor_divide_of_int_eq [of "k * 1000000" "2 ^ 32", where 'a = rat] by simp
  have "k * 1000000 div 2 ^ 32 < 2 ^ 32" "0 \<le> k * 1000000 div 2 ^ 32" using k by simp_all
  then show ?thesis
    unfolding usecs_of_fraction_def Let_def 1 2 3 fl k_def [symmetric]
    by (simp add: uint_word_of_int)
qed

text \<open>C40. For a time of transmission from 1970 to 2106, the one in the packet being that time modulo 2 to the 32, the difference
  printed is the exact number of microseconds by which the host's clock is ahead of it, with the packet's time rounded down to
  microseconds, as long as it is less than about 35 minutes; the year 2036, in which the seconds of the protocol wrap around, makes no difference.\<close>

theorem sntp_difference_exact:
  assumes "NTPDATA \<le> n" "unat (buf ! 0 AND MODE_MASK) \<noteq> MODE_CLIENT" "tv_ok now"
    and "int (unat (ntohl (rd32 buf 40))) = (T + JAN_1970) mod 2 ^ 32" "0 \<le> T" "T < 2 ^ 32"
    and "D = tv_usecs now - (T * 1000000 + int (unat (ntohl (rd32 buf 44))) * 1000000 div 2 ^ 32)" "\<bar>D\<bar> < 2 ^ 31"
  shows "sntp_proc buf n now ! 1 = ''clock difference = '' @ dec_int D @ '' usec''"
proof -
  have "int (unat (word_of_int ((T + JAN_1970) mod 2 ^ 32 - JAN_1970) :: u32)) = ((T + JAN_1970) mod 2 ^ 32 - JAN_1970) mod 2 ^ 32"
    unfolding uint_nat [symmetric] uint_word_of_int by simp
  also have "\<dots> = T" using assms(5,6) by (simp add: mod_diff_left_eq)
  finally have sec: "int (unat (word_of_int (int (unat (ntohl (rd32 buf 40))) - JAN_1970) :: u32)) = T" unfolding assms(4) .
  have "clock_difference buf now = word_of_int D"
    unfolding clock_difference_def Let_def sec usecs_exact assms(7) tv_usecs_def by (simp add: algebra_simps)
  moreover have "sint (word_of_int D :: u32) = D"
    using assms(8) by (simp add: sint_sbintrunc' signed_take_bit_int_eq_self)
  ultimately show ?thesis using assms(1,2) by (simp add: sntp_proc_def Let_def)
qed

text \<open>A broadcast sent half a second after the start of the year 2024, heard a quarter of a second late.\<close>

definition ntp_example :: "byte list" where
  "ntp_example = 0x25 # 1 # replicate 38 0 @ le32 (htonl (of_int ((1704067200 + JAN_1970) mod 2 ^ 32))) @ le32 (htonl 0x80000000)"

lemma ntp_example_fields:
  "ntohl (rd32 ntp_example 40) = of_int ((1704067200 + JAN_1970) mod 2 ^ 32)" "ntohl (rd32 ntp_example 44) = 0x80000000"
proof -
  let ?h = "0x25 # 1 # replicate 38 0 :: byte list"
  show "ntohl (rd32 ntp_example 40) = of_int ((1704067200 + JAN_1970) mod 2 ^ 32)"
    using rd32_at [of ?h 40] by (simp add: ntp_example_def)
  show "ntohl (rd32 ntp_example 44) = 0x80000000"
    using rd32_at [of "?h @ le32 x" 44 _ "[]" for x] by (simp add: ntp_example_def)
qed

lemma sntp_difference_exact_witness:
  "sntp_proc ntp_example 48 (1704067200, 750000) ! 1 = ''clock difference = 250000 usec''"
proof -
  have d: "dec_int 250000 = ''250000''" by code_simp
  have "sntp_proc ntp_example 48 (1704067200, 750000) ! 1 = ''clock difference = '' @ dec_int 250000 @ '' usec''"
  proof (rule sntp_difference_exact [where T = 1704067200])
    have "unat (0x25 AND MODE_MASK) = 5" by code_simp
    then show "unat (ntp_example ! 0 AND MODE_MASK) \<noteq> MODE_CLIENT" by (simp add: ntp_example_def MODE_CLIENT_def)
    show "int (unat (ntohl (rd32 ntp_example 40))) = (1704067200 + JAN_1970) mod 2 ^ 32"
      by (simp add: ntp_example_fields JAN_1970_def)
  qed (simp_all add: ntp_example_fields NTPDATA_def tv_ok_def tv_usecs_def)
  then show ?thesis by (simp add: d)
qed

section \<open>Heartbeats\<close>

text \<open>The globals of either end, and its signals: out-of-band data from the other end, and the alarm of every \<open>hb_nsec\<close>
  seconds.\<close>

record heartbeat =
  hb_nsec :: int
  hb_max :: int
  hb_nprobes :: int

datatype hb_signal = Urg | Alrm
datatype hb_out = SendOob | Echo | ArmAlarm int | Unreachable

definition heartbeat_start :: "int \<Rightarrow> int \<Rightarrow> heartbeat" where
  "heartbeat_start nsec_arg max_arg =
     (let nsec = (if nsec_arg < 1 then 1 else nsec_arg)
      in \<lparr>hb_nsec = nsec, hb_max = (if max_arg < nsec then nsec else max_arg), hb_nprobes = 0\<rparr>)"

text \<open>\<open>None\<close>: the program ends.  The client probes at every alarm, the server answers the probes.\<close>

definition hb_client :: "hb_signal \<Rightarrow> heartbeat \<Rightarrow> hb_out list \<times> heartbeat option" where
  "hb_client g s =
     (case g of
        Urg \<Rightarrow> ([], Some (s\<lparr>hb_nprobes := 0\<rparr>))
      | Alrm \<Rightarrow>
          let s' = s\<lparr>hb_nprobes := hb_nprobes s + 1\<rparr> in
          if hb_max s < hb_nprobes s' then ([Unreachable], None) else ([SendOob, ArmAlarm (hb_nsec s)], Some s'))"

definition hb_server :: "hb_signal \<Rightarrow> heartbeat \<Rightarrow> hb_out list \<times> heartbeat option" where
  "hb_server g s =
     (case g of
        Urg \<Rightarrow> ([Echo], Some (s\<lparr>hb_nprobes := 0\<rparr>))
      | Alrm \<Rightarrow>
          let s' = s\<lparr>hb_nprobes := hb_nprobes s + 1\<rparr> in
          if hb_max s < hb_nprobes s' then ([Unreachable], None) else ([ArmAlarm (hb_nsec s)], Some s'))"

fun hb_run :: "(hb_signal \<Rightarrow> heartbeat \<Rightarrow> hb_out list \<times> heartbeat option) \<Rightarrow> hb_signal list \<Rightarrow> heartbeat \<Rightarrow> heartbeat option" where
  "hb_run step [] s = Some s"
| "hb_run step (g # gs) s = (case snd (step g s) of None \<Rightarrow> None | Some s' \<Rightarrow> hb_run step gs s')"

lemma block_behind:
  assumes "replicate k Alrm @ Urg # gs = pre @ replicate n Alrm @ suf" "k < n"
  shows "\<exists>pre'. gs = pre' @ replicate n Alrm @ suf"
proof -
  have "k < length pre"
  proof (rule ccontr)
    assume "\<not> k < length pre"
    moreover from this have "k - length pre < n" using assms(2) by simp
    ultimately have "(pre @ replicate n Alrm @ suf) ! k = Alrm" by (simp add: nth_append)
    moreover have "(replicate k Alrm @ Urg # gs) ! k = Urg" by (simp add: nth_append)
    ultimately show False using assms(1) by simp
  qed
  then have "gs = drop (k + 1) pre @ replicate n Alrm @ suf" using arg_cong [OF assms(1), of "drop (k + 1)"] by simp
  then show ?thesis by blast
qed

lemma hb_ends:
  assumes "step = hb_client \<or> step = hb_server"
  shows "0 \<le> hb_nprobes s \<Longrightarrow> hb_nprobes s \<le> hb_max s \<Longrightarrow> hb_run step gs s = None \<longleftrightarrow>
    (\<exists>pre suf. replicate (nat (hb_nprobes s)) Alrm @ gs = pre @ replicate (nat (hb_max s) + 1) Alrm @ suf)"
proof (induction gs arbitrary: s)
  case Nil
  have "replicate (nat (hb_nprobes s)) Alrm \<noteq> pre @ replicate (nat (hb_max s) + 1) Alrm @ suf" for pre suf
    using Nil by (intro notI, drule_tac arg_cong [where f = length]) simp
  then show ?case by simp
next
  case (Cons g gs)
  show ?case
  proof (cases g)
    case Urg
    have "hb_run step (g # gs) s = None \<longleftrightarrow> hb_run step gs (s\<lparr>hb_nprobes := 0\<rparr>) = None"
      using assms Urg by (auto simp: hb_client_def hb_server_def)
    also have "\<dots> \<longleftrightarrow> (\<exists>pre suf. gs = pre @ replicate (nat (hb_max s) + 1) Alrm @ suf)"
      using Cons.IH [of "s\<lparr>hb_nprobes := 0\<rparr>"] Cons.prems by simp
    also have "\<dots> \<longleftrightarrow> (\<exists>pre suf. replicate (nat (hb_nprobes s)) Alrm @ g # gs = pre @ replicate (nat (hb_max s) + 1) Alrm @ suf)"
    proof
      assume "\<exists>pre suf. gs = pre @ replicate (nat (hb_max s) + 1) Alrm @ suf"
      then obtain pre suf where "gs = pre @ replicate (nat (hb_max s) + 1) Alrm @ suf" by blast
      then show "\<exists>pre suf. replicate (nat (hb_nprobes s)) Alrm @ g # gs = pre @ replicate (nat (hb_max s) + 1) Alrm @ suf"
        by (intro exI [of _ "replicate (nat (hb_nprobes s)) Alrm @ g # pre"] exI [of _ suf]) simp
    next
      assume "\<exists>pre suf. replicate (nat (hb_nprobes s)) Alrm @ g # gs = pre @ replicate (nat (hb_max s) + 1) Alrm @ suf"
      then obtain pre suf where "replicate (nat (hb_nprobes s)) Alrm @ Urg # gs = pre @ replicate (nat (hb_max s) + 1) Alrm @ suf"
        unfolding Urg by blast
      moreover have "nat (hb_nprobes s) < nat (hb_max s) + 1" using Cons.prems by simp
      ultimately show "\<exists>pre suf. gs = pre @ replicate (nat (hb_max s) + 1) Alrm @ suf" using block_behind by blast
    qed
    finally show ?thesis .
  next
    case Alrm
    have r: "replicate (nat (hb_nprobes s)) Alrm @ g # gs = replicate (nat (hb_nprobes s + 1)) Alrm @ gs"
      using Alrm Cons.prems(1) by (simp add: nat_add_distrib replicate_append_same)
    show ?thesis
    proof (cases "hb_max s < hb_nprobes s + 1")
      case True
      then have "nat (hb_max s) + 1 = nat (hb_nprobes s + 1)" using Cons.prems by simp
      then have "replicate (nat (hb_nprobes s + 1)) Alrm @ gs = [] @ replicate (nat (hb_max s) + 1) Alrm @ gs" by simp
      moreover have "hb_run step (g # gs) s = None" using assms Alrm True by (auto simp: hb_client_def hb_server_def)
      ultimately show ?thesis unfolding r by blast
    next
      case False
      then have "hb_run step (g # gs) s = hb_run step gs (s\<lparr>hb_nprobes := hb_nprobes s + 1\<rparr>)"
        using assms Alrm by (auto simp: hb_client_def hb_server_def)
      then show ?thesis using Cons.IH [of "s\<lparr>hb_nprobes := hb_nprobes s + 1\<rparr>"] Cons.prems False unfolding r by simp
    qed
  qed
qed

text \<open>Either end gives up exactly when one more alarm than the maximum comes in a row without a byte from the other end, the
  maximum being at least the seconds between alarms and at least one.\<close>

theorem heartbeat_gives_up:
  "(hb_run hb_client gs (heartbeat_start nsec m) = None \<longleftrightarrow> (\<exists>pre suf. gs = pre @ replicate (nat (max (max nsec 1) m) + 1) Alrm @ suf)) \<and>
   (hb_run hb_server gs (heartbeat_start nsec m) = None \<longleftrightarrow> (\<exists>pre suf. gs = pre @ replicate (nat (max (max nsec 1) m) + 1) Alrm @ suf))"
proof -
  have s: "hb_max (heartbeat_start nsec m) = max (max nsec 1) m" "hb_nprobes (heartbeat_start nsec m) = 0"
    by (auto simp: heartbeat_start_def Let_def)
  show ?thesis
    using hb_ends [of hb_client "heartbeat_start nsec m" gs] hb_ends [of hb_server "heartbeat_start nsec m" gs] s by simp
qed

end
