(* ===== verification/Unp_Web_Props.thy ===== *)
theory Unp_Web_Props
  imports Unp_Web
begin

text \<open>The client for several pages: its counts and descriptor sets are those of its files, at each
  \<^verbatim>\<open>select\<close> as many connections are open as are allowed, every page is asked for once and read to its
  end, the number of rounds is bounded by what arrives, and one refused connection ends the program.\<close>

section \<open>Following a run\<close>

lemma and_then_Inr:
  "and_then r f = (Inr s', out) \<longleftrightarrow> (\<exists>s o1 o2. r = (Inr s, o1) \<and> f s = (Inr s', o2) \<and> out = o1 @ o2)"
  by (auto simp: and_then_def split: sum.splits prod.splits)

lemma flag_values [simp]:
  "has_flag 0 f = False" "has_flag F_CONNECTING F_CONNECTING" "has_flag F_READING F_READING" "has_flag F_DONE F_DONE"
  "\<not> has_flag F_CONNECTING F_READING" "\<not> has_flag F_CONNECTING F_DONE" "\<not> has_flag F_READING F_CONNECTING"
  "\<not> has_flag F_READING F_DONE" "\<not> has_flag F_DONE F_CONNECTING" "\<not> has_flag F_DONE F_READING"
  "F_CONNECTING \<noteq> 0" "F_READING \<noteq> 0" "F_DONE \<noteq> 0" "F_CONNECTING \<noteq> F_READING" "F_CONNECTING \<noteq> F_DONE" "F_READING \<noteq> F_DONE"
  "0 \<noteq> F_CONNECTING" "0 \<noteq> F_READING" "0 \<noteq> F_DONE" "F_READING \<noteq> F_CONNECTING" "F_DONE \<noteq> F_CONNECTING" "F_DONE \<noteq> F_READING"
  by (simp_all add: has_flag_def flag_defs)

definition flag_ok :: "int \<Rightarrow> bool" where
  "flag_ok fl \<longleftrightarrow> fl = 0 \<or> fl = F_CONNECTING \<or> fl = F_READING \<or> fl = F_DONE"

lemma is_open_flags: "flag_ok (f_flags f) \<Longrightarrow> is_open f \<longleftrightarrow> f_flags f = F_CONNECTING \<or> f_flags f = F_READING"
  by (auto simp: flag_ok_def is_open_def)

text \<open>What each operation does when it does not end the program.\<close>

lemma write_get_cmd_cases:
  assumes "write_get_cmd e i s = (Inr s', out)"
  obtains line where "line_sent (get_cmd (f_name (files s ! i))) = Some line" "out = [Wrote i line]"
    "s' = s\<lparr>files := (files s)[i := (files s ! i)\<lparr>f_flags := F_READING\<rparr>], rset := insert (f_fd (files s ! i)) (rset s),
      maxfd := max (maxfd s) (f_fd (files s ! i))\<rparr>"
  using assms by (auto simp: write_get_cmd_def set_file_def Let_def split: option.splits if_splits)

lemma start_connect_cases:
  assumes "start_connect e i s = (Inr s', out)" "i < length (files s)"
  obtains (connecting) d where "newfd e (in_use s) = Some d" "out = [Started i d]"
      "s' = s\<lparr>files := (files s)[i := (files s ! i)\<lparr>f_fd := d, f_flags := F_CONNECTING\<rparr>],
        rset := insert d (rset s), wset := insert d (wset s), maxfd := max (maxfd s) d\<rparr>"
  | (reading) d line where "newfd e (in_use s) = Some d" "out = [Started i d, Wrote i line]"
      "line_sent (get_cmd (f_name (files s ! i))) = Some line"
      "s' = s\<lparr>files := (files s)[i := (files s ! i)\<lparr>f_fd := d, f_flags := F_READING\<rparr>],
        rset := insert d (rset s), maxfd := max (maxfd s) d\<rparr>"
proof -
  obtain d where d: "newfd e (in_use s) = Some d" using assms by (auto simp: start_connect_def split: option.splits)
  let ?s = "set_file i (\<lambda>f. f\<lparr>f_fd := d\<rparr>) s"
  show ?thesis
  proof (cases "conn e d")
    case ConnDone
    then obtain out' where w: "write_get_cmd e i ?s = (Inr s', out')" "out = Started i d # out'"
      using assms d by (auto simp: start_connect_def and_then_Inr)
    from w(1) show ?thesis
      by (rule write_get_cmd_cases, intro reading [OF d]) (use w(2) assms(2) in \<open>auto simp: set_file_def\<close>)
  next
    case ConnInProgress
    with assms d show ?thesis by (intro connecting [OF d]) (auto simp: start_connect_def and_then_Inr set_file_def)
  qed (use assms d in \<open>auto simp: start_connect_def and_then_Inr\<close>)
qed

lemma web_one_cases:
  assumes "web_one e i s = (Inr s', out)" "flag_ok (f_flags (files s ! i))"
  obtains (idle) "s' = s" "out = []"
      "\<not> (f_flags (files s ! i) = F_CONNECTING \<and> f_fd (files s ! i) \<in> rs e \<union> ws e)"
      "\<not> (f_flags (files s ! i) = F_READING \<and> f_fd (files s ! i) \<in> rs e)"
  | (connected) line w where "f_flags (files s ! i) = F_CONNECTING" "w = [] \<or> w = [ConnFailed i]"
      "line_sent (get_cmd (f_name (files s ! i))) = Some line" "out = w @ [Wrote i line]"
      "s' = s\<lparr>wset := wset s - {f_fd (files s ! i)}, files := (files s)[i := (files s ! i)\<lparr>f_flags := F_READING\<rparr>],
        rset := insert (f_fd (files s ! i)) (rset s), maxfd := max (maxfd s) (f_fd (files s ! i))\<rparr>"
  | (data) b where "f_flags (files s ! i) = F_READING" "b \<noteq> []" "s' = s" "out = [Received i b]"
  | (closed) "f_flags (files s ! i) = F_READING" "out = [Closed i (f_fd (files s ! i))]"
      "s' = s\<lparr>rset := rset s - {f_fd (files s ! i)}, nconn := nconn s - 1, nlefttoread := nlefttoread s - 1,
        files := (files s)[i := (files s ! i)\<lparr>f_flags := F_DONE\<rparr>]\<rparr>"
proof -
  let ?f = "files s ! i"
  consider (c) "f_flags ?f = F_CONNECTING" "f_fd ?f \<in> rs e \<union> ws e" | (r) "f_flags ?f = F_READING" "f_fd ?f \<in> rs e"
    | (n) "\<not> (f_flags ?f = F_CONNECTING \<and> f_fd ?f \<in> rs e \<union> ws e)" "\<not> (f_flags ?f = F_READING \<and> f_fd ?f \<in> rs e)"
    by blast
  then show ?thesis
  proof cases
    case c
    then obtain out' where w: "write_get_cmd e i (s\<lparr>wset := wset s - {f_fd ?f}\<rparr>) = (Inr s', out')"
      "out = (if sockerr e (f_fd ?f) then [ConnFailed i] else []) @ out'"
      using assms by (auto simp: web_one_def Let_def and_then_Inr)
    have "files (s\<lparr>wset := W\<rparr>) = files s" "rset (s\<lparr>wset := W\<rparr>) = rset s" "maxfd (s\<lparr>wset := W\<rparr>) = maxfd s" for W
      by simp_all
    note w' = write_get_cmd_cases [OF w(1), unfolded this]
    show ?thesis
      by (rule w', rule connected [where w = "if sockerr e (f_fd ?f) then [ConnFailed i] else []"],
          use w(2) c in \<open>simp_all (no_asm_simp) only: refl\<close>) (simp (no_asm))
  next
    case r
    then obtain b where b: "got e (f_fd ?f) = Some b"
      using assms by (auto simp: web_one_def Let_def split: option.splits)
    show ?thesis
    proof (cases "b = []")
      case True
      with r b assms(1) show ?thesis by (intro closed) (simp_all add: web_one_def Let_def set_file_def)
    next
      case False
      with r b assms(1) show ?thesis by (intro data [of b]) (simp_all add: web_one_def Let_def)
    qed
  next
    case n
    then have "s' = s" "out = []" using assms by (auto simp: web_one_def Let_def flag_ok_def)
    from idle [OF this n] show ?thesis .
  qed
qed

section \<open>The counts and the descriptor sets\<close>

text \<open>The indices of the files with a property, and the socket of an index.\<close>

definition ix :: "(web_file \<Rightarrow> bool) \<Rightarrow> web_state \<Rightarrow> nat set" where
  "ix P s = {j. j < length (files s) \<and> P (files s ! j)}"

definition fd_at :: "web_state \<Rightarrow> nat \<Rightarrow> int" where
  "fd_at s j = f_fd (files s ! j)"

abbreviation is_new :: "web_file \<Rightarrow> bool" where "is_new f \<equiv> f_flags f = 0"
abbreviation is_connecting :: "web_file \<Rightarrow> bool" where "is_connecting f \<equiv> f_flags f = F_CONNECTING"
abbreviation is_left :: "web_file \<Rightarrow> bool" where "is_left f \<equiv> f_flags f \<noteq> F_DONE"

lemma finite_ix [simp]: "finite (ix P s)"
  by (simp add: ix_def)

lemma ix_update:
  "i < length (files s) \<Longrightarrow> files s' = (files s)[i := f] \<Longrightarrow>
   ix P s' = (if P f then insert i (ix P s) else ix P s - {i})"
  by (auto simp: ix_def nth_list_update split: if_splits)

lemma ix_same: "files s' = files s \<Longrightarrow> ix P s' = ix P s"
  by (simp add: ix_def)

lemma mem_ix: "i \<in> ix P s \<longleftrightarrow> i < length (files s) \<and> P (files s ! i)"
  by (simp add: ix_def)

lemma fd_at_update:
  "i < length (files s) \<Longrightarrow> files s' = (files s)[i := f] \<Longrightarrow> fd_at s' = (fd_at s)(i := f_fd f)"
  by (auto simp: fd_at_def nth_list_update fun_eq_iff)

lemma in_use_ix: "in_use s = fd_at s ` ix is_open s"
  by (force simp: in_use_def ix_def fd_at_def in_set_conv_nth image_iff)

definition counts_ok :: "web_state \<Rightarrow> bool" where
  "counts_ok s \<longleftrightarrow>
     (\<forall>f \<in> set (files s). flag_ok (f_flags f)) \<and>
     nconn s = int (card (ix is_open s)) \<and>
     nlefttoconn s = int (card (ix is_new s)) \<and>
     nlefttoread s = int (card (ix is_left s))"

definition fds_ok :: "web_state \<Rightarrow> bool" where
  "fds_ok s \<longleftrightarrow>
     rset s = fd_at s ` ix is_open s \<and> wset s = fd_at s ` ix is_connecting s \<and>
     inj_on (fd_at s) (ix is_open s) \<and> (\<forall>d \<in> rset s. 0 \<le> d \<and> d \<le> maxfd s)"

lemma ix_web_start [simp]:
  "ix P (web_start host names) =
     {j. j < min (length names) MAXFILES \<and> P \<lparr>f_name = names ! j, f_host = host, f_fd = 0, f_flags = 0\<rparr>}"
  by (auto simp: ix_def web_start_def Let_def)

lemma web_start_ok: "counts_ok (web_start host names)" "fds_ok (web_start host names)"
proof -
  have "{j. j < a \<and> j < b} = {..<min a b}" for a b :: nat by auto
  then show "counts_ok (web_start host names)"
    by (simp add: counts_ok_def is_open_def) (simp add: web_start_def Let_def flag_ok_def)
  show "fds_ok (web_start host names)"
    by (simp add: fds_ok_def is_open_def) (simp add: web_start_def Let_def)
qed

lemma counts_okD: "counts_ok s \<Longrightarrow> i < length (files s) \<Longrightarrow> flag_ok (f_flags (files s ! i))"
  by (simp add: counts_ok_def)

lemma is_open_simps [simp]:
  "f_flags f = 0 \<Longrightarrow> \<not> is_open f" "f_flags f = F_CONNECTING \<Longrightarrow> is_open f"
  "f_flags f = F_READING \<Longrightarrow> is_open f" "f_flags f = F_DONE \<Longrightarrow> \<not> is_open f"
  by (auto simp: is_open_def)

lemma flags_update:
  "counts_ok s \<Longrightarrow> files s' = (files s)[i := f] \<Longrightarrow> flag_ok (f_flags f) \<Longrightarrow> \<forall>g \<in> set (files s'). flag_ok (f_flags g)"
  by (auto simp: counts_ok_def dest!: subsetD [OF set_update_subset_insert])

text \<open>The three ways a file changes, as changes of the sets.\<close>

lemma counts_open:
  assumes "counts_ok s" "i < length (files s)" "is_new (files s ! i)"
    and "files s' = (files s)[i := f]" "f_flags f = F_CONNECTING \<or> f_flags f = F_READING"
    and "nconn s' = nconn s + 1" "nlefttoconn s' = nlefttoconn s - 1" "nlefttoread s' = nlefttoread s"
  shows "counts_ok s'"
proof -
  note u = ix_update [OF assms(2,4)]
  have i: "i \<notin> ix is_open s" "i \<in> ix is_new s" "i \<in> ix is_left s" using assms(2,3) by (auto simp: mem_ix)
  have f: "is_open f" "\<not> is_new f" "is_left f" using assms(5) by auto
  have "flag_ok (f_flags f)" using assms(5) by (auto simp: flag_ok_def)
  from flags_update [OF assms(1,4) this]
  have "\<forall>g \<in> set (files s'). flag_ok (f_flags g)" .
  moreover have "1 \<le> card (ix is_new s)" using i(2) by (simp add: Suc_le_eq card_gt_0_iff) blast
  ultimately show ?thesis
    using assms(1,6-8) i f by (simp add: counts_ok_def u card_Diff_singleton of_nat_diff insert_absorb)
qed

lemma counts_read:
  assumes "counts_ok s" "i < length (files s)" "is_connecting (files s ! i)"
    and "files s' = (files s)[i := f]" "f_flags f = F_READING"
    and "nconn s' = nconn s" "nlefttoconn s' = nlefttoconn s" "nlefttoread s' = nlefttoread s"
  shows "counts_ok s'"
proof -
  note u = ix_update [OF assms(2,4)]
  have i: "i \<in> ix is_open s" "i \<notin> ix is_new s" "i \<in> ix is_left s" using assms(2,3) by (auto simp: mem_ix)
  have f: "is_open f" "\<not> is_new f" "is_left f" using assms(5) by auto
  have "flag_ok (f_flags f)" using assms(5) by (auto simp: flag_ok_def)
  from flags_update [OF assms(1,4) this] show ?thesis using assms(1,6-8) i f by (simp add: counts_ok_def u insert_absorb)
qed

lemma counts_close:
  assumes "counts_ok s" "i < length (files s)" "f_flags (files s ! i) = F_READING"
    and "files s' = (files s)[i := f]" "f_flags f = F_DONE"
    and "nconn s' = nconn s - 1" "nlefttoconn s' = nlefttoconn s" "nlefttoread s' = nlefttoread s - 1"
  shows "counts_ok s'"
proof -
  note u = ix_update [OF assms(2,4)]
  have i: "i \<in> ix is_open s" "i \<notin> ix is_new s" "i \<in> ix is_left s" using assms(2,3) by (auto simp: mem_ix)
  have f: "\<not> is_open f" "\<not> is_new f" "\<not> is_left f" using assms(5) by auto
  have "flag_ok (f_flags f)" using assms(5) by (auto simp: flag_ok_def)
  from flags_update [OF assms(1,4) this]
  have "\<forall>g \<in> set (files s'). flag_ok (f_flags g)" .
  moreover have "1 \<le> card (ix is_open s)" "1 \<le> card (ix is_left s)" using i(1,3) by (simp_all add: Suc_le_eq card_gt_0_iff) blast+
  ultimately show ?thesis
    using assms(1,6-8) i f by (simp add: counts_ok_def u card_Diff_singleton of_nat_diff)
qed


lemma fds_open:
  assumes "fds_ok s" "i < length (files s)" "is_new (files s ! i)"
    and "files s' = (files s)[i := f]" "f_fd f = d" "d \<notin> in_use s" "0 \<le> d"
    and "f_flags f = F_CONNECTING \<and> wset s' = insert d (wset s) \<or> f_flags f = F_READING \<and> wset s' = wset s"
    and "rset s' = insert d (rset s)" "maxfd s' = max (maxfd s) d"
  shows "fds_ok s'"
proof -
  note u = ix_update [OF assms(2,4)] fd_at_update [OF assms(2,4)]
  have i: "i \<notin> ix is_open s" "i \<notin> ix is_connecting s" using assms(2,3) by (auto simp: mem_ix)
  have f: "is_open f" "is_connecting f \<longleftrightarrow> f_flags f = F_CONNECTING" using assms(8) by auto
  have "inj_on ((fd_at s)(i := d)) (insert i (ix is_open s))"
    using assms(1,6) i(1) by (auto simp: fds_ok_def in_use_ix inj_on_def)
  with assms(1,5-10) i f show ?thesis by (auto simp: fds_ok_def u fun_upd_image le_max_iff_disj)
qed

lemma fds_read:
  assumes "fds_ok s" "i < length (files s)" "is_connecting (files s ! i)"
    and "files s' = (files s)[i := f]" "f_fd f = fd_at s i" "f_flags f = F_READING"
    and "wset s' = wset s - {fd_at s i}" "rset s' = insert (fd_at s i) (rset s)" "maxfd s' = max (maxfd s) (fd_at s i)"
  shows "fds_ok s'"
proof -
  have "fd_at s' = fd_at s" using fd_at_update [OF assms(2,4)] assms(5) by simp
  note u = ix_update [OF assms(2,4)] this
  have i: "i \<in> ix is_open s" "i \<in> ix is_connecting s" using assms(2,3) by (auto simp: mem_ix)
  have "ix is_connecting s \<subseteq> ix is_open s" by (auto simp: ix_def)
  then have "fd_at s ` (ix is_connecting s - {i}) = fd_at s ` ix is_connecting s - {fd_at s i}"
    using assms(1) i by (subst inj_on_image_set_diff [of _ "ix is_open s"]) (auto simp: fds_ok_def)
  with assms(1,6-9) i show ?thesis by (auto simp: fds_ok_def u insert_absorb le_max_iff_disj)
qed

lemma fds_close:
  assumes "fds_ok s" "i < length (files s)" "f_flags (files s ! i) = F_READING"
    and "files s' = (files s)[i := f]" "f_fd f = fd_at s i" "f_flags f = F_DONE"
    and "wset s' = wset s" "rset s' = rset s - {fd_at s i}" "maxfd s' = maxfd s"
  shows "fds_ok s'"
proof -
  have "fd_at s' = fd_at s" using fd_at_update [OF assms(2,4)] assms(5) by simp
  note u = ix_update [OF assms(2,4)] this
  have i: "i \<in> ix is_open s" "i \<notin> ix is_connecting s" using assms(2,3) by (auto simp: mem_ix)
  have "fd_at s ` (ix is_open s - {i}) = fd_at s ` ix is_open s - {fd_at s i}"
    using assms(1) i by (subst inj_on_image_set_diff [of _ "ix is_open s"]) (auto simp: fds_ok_def)
  moreover have "inj_on (fd_at s) (ix is_open s - {i})" using assms(1) by (auto simp: fds_ok_def intro: inj_on_subset)
  ultimately show ?thesis using assms(1,6-9) i by (auto simp: fds_ok_def u)
qed

text \<open>So each operation keeps the counts, and with unused descriptors from the system also the sets.\<close>

definition fresh :: "web_env \<Rightarrow> bool" where
  "fresh e \<longleftrightarrow> (\<forall>S d. newfd e S = Some d \<longrightarrow> 0 \<le> d \<and> d \<notin> S)"

text \<open>A start is counted behind it.\<close>

abbreviation counted :: "web_state \<Rightarrow> web_state" where
  "counted s \<equiv> s\<lparr>nconn := nconn s + 1, nlefttoconn := nlefttoconn s - 1\<rparr>"

lemma start_connect_ok:
  assumes "start_connect e i s = (Inr s', out)" "i < length (files s)" "is_new (files s ! i)"
  shows "counts_ok s \<Longrightarrow> counts_ok (counted s')"
    and "fds_ok s \<Longrightarrow> fresh e \<Longrightarrow> fds_ok (counted s')"
proof -
  let ?s = "counted s'"
  show "counts_ok ?s" if "counts_ok s"
    using assms(1,2) by (cases rule: start_connect_cases; intro counts_open [OF that assms(2,3)]) simp_all+
  show "fds_ok ?s" if "fds_ok s" "fresh e"
    using assms(1,2) by (cases rule: start_connect_cases; intro fds_open [OF that(1) assms(2,3)]) (use that(2) in \<open>simp_all add: fresh_def\<close>)+
qed


lemma web_one_ok:
  assumes "web_one e i s = (Inr s', out)" "i < length (files s)" "counts_ok s"
  shows "counts_ok s'" and "fds_ok s \<Longrightarrow> fds_ok s'"
proof -
  note c = web_one_cases [OF assms(1) counts_okD [OF assms(3,2)]]
  show "counts_ok s'"
    by (rule c) (use assms(3) in \<open>simp_all add: counts_read [OF assms(3,2)] counts_close [OF assms(3,2)]\<close>)
  show "fds_ok s'" if "fds_ok s"
  proof (rule c)
    assume "f_flags (files s ! i) = F_CONNECTING" and "s' = s\<lparr>wset := wset s - {f_fd (files s ! i)},
        files := (files s)[i := (files s ! i)\<lparr>f_flags := F_READING\<rparr>],
        rset := insert (f_fd (files s ! i)) (rset s), maxfd := max (maxfd s) (f_fd (files s ! i))\<rparr>"
    then show ?thesis by (intro fds_read [OF that assms(2), where f = "(files s ! i)\<lparr>f_flags := F_READING\<rparr>"]) (simp_all add: fd_at_def)
  next
    assume "f_flags (files s ! i) = F_READING" and "s' = s\<lparr>rset := rset s - {f_fd (files s ! i)}, nconn := nconn s - 1,
        nlefttoread := nlefttoread s - 1, files := (files s)[i := (files s ! i)\<lparr>f_flags := F_DONE\<rparr>]\<rparr>"
    then show ?thesis by (intro fds_close [OF that assms(2), where f = "(files s ! i)\<lparr>f_flags := F_DONE\<rparr>"]) (simp_all add: fd_at_def)
  qed (use that in simp_all)
qed

section \<open>Invariants of a run\<close>

text \<open>A run of \<open>start_more\<close> that does not end the program, as a chain of starts.\<close>

lemma start_more_chain [consumes 1, case_names stop step]:
  assumes "start_more e m s = (Inr s', out)"
    and "\<And>s. m \<le> nconn s \<or> nlefttoconn s \<le> 0 \<Longrightarrow> P s s []"
    and "\<And>s i s1 o1 s' o2. nconn s < m \<Longrightarrow> i < length (files s) \<Longrightarrow> is_new (files s ! i) \<Longrightarrow>
      start_connect e i s = (Inr s1, o1) \<Longrightarrow> P (counted s1) s' o2 \<Longrightarrow> P s s' (o1 @ o2)"
  shows "P s s' out"
  using assms(1)
proof (induction e' \<equiv> e m' \<equiv> m s arbitrary: s' out rule: start_more.induct)
  case (1 s)
  show ?case
  proof (cases "nconn s < m \<and> 0 < nlefttoconn s")
    case True
    obtain i where i: "first_slot is_new (files s) = Some i"
      using 1(2) True by (subst (asm) start_more.simps) (auto split: option.splits)
    obtain s1 o1 where s1: "start_connect e i s = (Inr s1, o1)"
      using 1(2) True i by (subst (asm) start_more.simps) (auto split: sum.splits prod.splits)
    obtain o2 where s2: "start_more e m (counted s1) = (Inr s', o2)" "out = o1 @ o2"
      using 1(2) True i s1 by (subst (asm) start_more.simps) (auto split: prod.splits)
    have "P (counted s1) s' o2" using 1(1) [OF True i s1 [symmetric] refl s2(1)] .
    with assms(3) [OF _ _ _ s1] first_slot_Some [OF i] True s2(2) show ?thesis by simp
  next
    case False
    with 1(2) show ?thesis by (auto simp: start_more.simps [of e m s] intro!: assms(2))
  qed
qed

text \<open>What holds of the state and of what has gone out so far, if every start and every file of a scan keeps it, holds
  after any rounds.\<close>

locale web_invariant =
  fixes inv :: "web_state \<Rightarrow> web_out list \<Rightarrow> bool" and ok :: "web_env \<Rightarrow> bool" and m :: int
  assumes start: "inv s tr \<Longrightarrow> ok e \<Longrightarrow> nconn s < m \<Longrightarrow> i < length (files s) \<Longrightarrow> is_new (files s ! i) \<Longrightarrow>
      start_connect e i s = (Inr s', out) \<Longrightarrow>
      inv (counted s') (tr @ out)"
    and one: "inv s tr \<Longrightarrow> ok e \<Longrightarrow> i < length (files s) \<Longrightarrow> web_one e i s = (Inr s', out) \<Longrightarrow> inv s' (tr @ out)"
    and flags: "inv s tr \<Longrightarrow> counts_ok s"
begin

lemma more:
  assumes "start_more e m s = (Inr s', out)" "ok e"
  shows "inv s tr \<Longrightarrow> inv s' (tr @ out)"
  using assms(1)
proof (induction arbitrary: tr rule: start_more_chain)
  case (step s i s1 o1 s' o2)
  note next_tr = step.IH [of "tr @ o1"]
  have "inv (counted s1) (tr @ o1)" using step.hyps step.prems assms(2) by (blast intro: start)
  with next_tr show ?case by simp
qed simp

lemma web_one_length: "web_one e i s = (Inr s', out) \<Longrightarrow> i < length (files s) \<Longrightarrow> inv s tr \<Longrightarrow> length (files s') = length (files s)"
  by (erule web_one_cases [OF _ counts_okD [OF flags]]) auto

lemma scan:
  "scan_files e is s = (Inr s', out) \<Longrightarrow> inv s tr \<Longrightarrow> ok e \<Longrightarrow> \<forall>i \<in> set is. i < length (files s) \<Longrightarrow> inv s' (tr @ out)"
proof (induction "is" arbitrary: s tr out)
  case (Cons i "is")
  obtain s1 o1 o2 where s: "web_one e i s = (Inr s1, o1)" "scan_files e is s1 = (Inr s', o2)" "out = o1 @ o2"
    using Cons.prems(1) by (auto simp: and_then_Inr)
  have "length (files s1) = length (files s)" using web_one_length [OF s(1) _ Cons.prems(2)] Cons.prems(4) by simp
  with Cons.IH [OF s(2) one [OF Cons.prems(2,3) _ s(1)]] Cons.prems s(3) show ?case by simp
qed simp

lemma iter: "web_iter e m s = (Inr s', out) \<Longrightarrow> inv s tr \<Longrightarrow> ok e \<Longrightarrow> inv s' (tr @ out)"
  unfolding web_iter_def and_then_Inr by (elim exE conjE) (auto dest!: more scan)

lemma loop: "web_loop es m s = (Inr s', out) \<Longrightarrow> inv s tr \<Longrightarrow> list_all ok es \<Longrightarrow> inv s' (tr @ out)"
proof (induction es arbitrary: s tr out)
  case (Cons e es)
  show ?case
  proof (cases "nlefttoread s \<le> 0")
    case False
    then obtain s1 o1 o2 where s: "web_iter e m s = (Inr s1, o1)" "web_loop es m s1 = (Inr s', o2)" "out = o1 @ o2"
      using Cons.prems(1) by (auto simp: and_then_Inr)
    from Cons.IH [OF s(2) iter [OF s(1)]] Cons.prems s(3) show ?thesis by simp
  qed (use Cons.prems in simp)
qed simp

end

interpretation counts: web_invariant "\<lambda>s tr. counts_ok s" "\<lambda>e. True" m for m
  by unfold_locales (use start_connect_ok(1) web_one_ok(1) in blast)+

interpretation sets: web_invariant "\<lambda>s tr. counts_ok s \<and> fds_ok s" fresh m for m
  by unfold_locales (use start_connect_ok web_one_ok in blast)+


section \<open>The life of a file\<close>

text \<open>What may have gone out for a file with this name, index, socket and flag.\<close>

inductive fetched :: "string \<Rightarrow> nat \<Rightarrow> int \<Rightarrow> int \<Rightarrow> web_out list \<Rightarrow> bool" for name :: string and i :: nat where
  new: "fetched name i d 0 []"
| started: "fetched name i d F_CONNECTING [Started i d]"
| asked: "fetched name i d F_CONNECTING tr \<Longrightarrow> w = [] \<or> w = [ConnFailed i] \<Longrightarrow>
    line_sent (get_cmd name) = Some line \<Longrightarrow> fetched name i d F_READING (tr @ w @ [Wrote i line])"
| piece: "fetched name i d F_READING tr \<Longrightarrow> b \<noteq> [] \<Longrightarrow> fetched name i d F_READING (tr @ [Received i b])"
| closed: "fetched name i d F_READING tr \<Longrightarrow> fetched name i d F_DONE (tr @ [Closed i d])"

inductive_cases fetched_new: "fetched name i d 0 tr"
inductive_cases fetched_connecting: "fetched name i d F_CONNECTING tr"
inductive_cases fetched_done: "fetched name i d F_DONE tr"

lemma fetched_reading:
  "fetched name i d fl tr \<Longrightarrow> fl = F_READING \<Longrightarrow>
   \<exists>w line bs. tr = Started i d # w @ Wrote i line # map (Received i) bs \<and> (w = [] \<or> w = [ConnFailed i]) \<and>
     line_sent (get_cmd name) = Some line \<and> [] \<notin> set bs"
proof (induction rule: fetched.induct)
  case (asked d tr w line)
  from asked.hyps(1) have "tr = [Started i d]" by (rule fetched_connecting) simp_all
  with asked show ?case by (intro exI [of _ w] exI [of _ line] exI [of _ "[]"]) simp
next
  case (piece d tr b)
  then obtain w line bs where *: "tr = Started i d # w @ Wrote i line # map (Received i) bs" "w = [] \<or> w = [ConnFailed i]"
    "line_sent (get_cmd name) = Some line" "[] \<notin> set bs" by auto
  with piece show ?case by (intro exI [of _ w] exI [of _ line] exI [of _ "bs @ [b]"]) simp
qed simp_all

definition own :: "nat \<Rightarrow> web_out list \<Rightarrow> web_out list" where
  "own i tr = filter (\<lambda>x. about x = i) tr"

lemma own_simps [simp]:
  "own i [] = []" "own i (x # tr) = (if about x = i then x # own i tr else own i tr)" "own i (a @ b) = own i a @ own i b"
  by (simp_all add: own_def)

lemma own_all: "\<forall>x \<in> set tr. about x = j \<Longrightarrow> own i tr = (if i = j then tr else [])"
  by (induction tr) auto

text \<open>Every file's part of what has gone out is a part of its life.\<close>

definition lives :: "web_state \<Rightarrow> web_out list \<Rightarrow> bool" where
  "lives s tr \<longleftrightarrow>
     (\<forall>i < length (files s). fetched (f_name (files s ! i)) i (fd_at s i) (f_flags (files s ! i)) (own i tr))"

lemma lives_step:
  assumes "lives s tr" "i < length (files s)" "files s' = (files s)[i := f]" "f_name f = f_name (files s ! i)"
    "\<forall>x \<in> set out. about x = i" "fetched (f_name f) i (f_fd f) (f_flags f) (own i tr @ out)"
  shows "lives s' (tr @ out)"
  unfolding lives_def
proof (intro allI impI)
  fix j assume "j < length (files s')"
  then have "j < length (files s)" using assms(3) by simp
  with assms own_all [OF assms(5)] fd_at_update [OF assms(2,3)]
  show "fetched (f_name (files s' ! j)) j (fd_at s' j) (f_flags (files s' ! j)) (own j (tr @ out))"
    by (cases "j = i") (auto simp: lives_def)
qed

lemma start_connect_lives:
  assumes "start_connect e i s = (Inr s', out)" "i < length (files s)" "is_new (files s ! i)" "lives s tr"
  shows "lives (s'\<lparr>nconn := a, nlefttoconn := b\<rparr>) (tr @ out)"
proof -
  have "fetched (f_name (files s ! i)) i (fd_at s i) 0 (own i tr)" using assms(2-4) by (auto simp: lives_def)
  then have "own i tr = []" by (rule fetched_new) simp_all
  note step = lives_step [OF assms(4,2), unfolded this append_Nil]
  show ?thesis
  proof (rule start_connect_cases [OF assms(1,2)])
    fix d
    assume "out = [Started i d]" "s' = s\<lparr>files := (files s)[i := (files s ! i)\<lparr>f_fd := d, f_flags := F_CONNECTING\<rparr>],
        rset := insert d (rset s), wset := insert d (wset s), maxfd := max (maxfd s) d\<rparr>"
    then show ?thesis
      by (intro step [where f = "(files s ! i)\<lparr>f_fd := d, f_flags := F_CONNECTING\<rparr>"]) (simp_all add: fetched.started)
  next
    fix d line
    assume "out = [Started i d, Wrote i line]" "line_sent (get_cmd (f_name (files s ! i))) = Some line"
      "s' = s\<lparr>files := (files s)[i := (files s ! i)\<lparr>f_fd := d, f_flags := F_READING\<rparr>],
        rset := insert d (rset s), maxfd := max (maxfd s) d\<rparr>"
    then show ?thesis
      using fetched.asked [OF fetched.started, where w = "[]" and name = "f_name (files s ! i)" and line = line and i = i and d = d]
      by (intro step [where f = "(files s ! i)\<lparr>f_fd := d, f_flags := F_READING\<rparr>"]) simp_all
  qed
qed

lemma web_one_lives:
  assumes "web_one e i s = (Inr s', out)" "i < length (files s)" "counts_ok s" "lives s tr"
  shows "lives s' (tr @ out)"
proof -
  let ?f = "files s ! i"
  have l: "fetched (f_name ?f) i (f_fd ?f) (f_flags ?f) (own i tr)" using assms(2,4) by (simp add: lives_def fd_at_def)
  note step = lives_step [OF assms(4,2)]
  show ?thesis
  proof (rule web_one_cases [OF assms(1) counts_okD [OF assms(3,2)]])
    fix line w
    assume "is_connecting ?f" "w = [] \<or> w = [ConnFailed i]" "line_sent (get_cmd (f_name ?f)) = Some line"
      "out = w @ [Wrote i line]" and "s' = s\<lparr>wset := wset s - {f_fd ?f}, files := (files s)[i := ?f\<lparr>f_flags := F_READING\<rparr>],
        rset := insert (f_fd ?f) (rset s), maxfd := max (maxfd s) (f_fd ?f)\<rparr>"
    with l show ?thesis by (intro step [where f = "?f\<lparr>f_flags := F_READING\<rparr>"]) (auto intro: fetched.asked)
  next
    fix b
    assume "f_flags ?f = F_READING" "b \<noteq> []" "s' = s" "out = [Received i b]"
    with l show ?thesis by (intro step [where f = ?f]) (auto intro: fetched.piece)
  next
    assume "f_flags ?f = F_READING" "out = [Closed i (f_fd ?f)]" "s' = s\<lparr>rset := rset s - {f_fd ?f}, nconn := nconn s - 1,
        nlefttoread := nlefttoread s - 1, files := (files s)[i := ?f\<lparr>f_flags := F_DONE\<rparr>]\<rparr>"
    with l show ?thesis by (intro step [where f = "?f\<lparr>f_flags := F_DONE\<rparr>"]) (auto intro: fetched.closed)
  qed (use assms(4) in simp_all)
qed

lemma start_connect_names: "start_connect e i s = (Inr s', out) \<Longrightarrow> i < length (files s) \<Longrightarrow>
  map f_name (files s') = map f_name (files s)"
  by (erule start_connect_cases) (simp_all add: map_update list_update_same_conv)

lemma web_one_names: "web_one e i s = (Inr s', out) \<Longrightarrow> i < length (files s) \<Longrightarrow> counts_ok s \<Longrightarrow>
  map f_name (files s') = map f_name (files s)"
  by (erule web_one_cases [OF _ counts_okD]) (simp_all add: map_update list_update_same_conv)

interpretation traces: web_invariant "\<lambda>s tr. counts_ok s \<and> lives s tr \<and> map f_name (files s) = names" "\<lambda>e. True" m for names m
proof (unfold_locales, goal_cases)
  case (1 s tr e i s' out)
  then show ?case using start_connect_ok(1) start_connect_lives start_connect_names by simp
next
  case (2 s tr e i s' out)
  then show ?case using web_one_ok(1) web_one_lives web_one_names by metis
qed simp


text \<open>No more connections than asked for.\<close>

lemma web_one_conns: "web_one e i s = (Inr s', out) \<Longrightarrow> i < length (files s) \<Longrightarrow> counts_ok s \<Longrightarrow> nconn s' \<le> nconn s"
  by (erule web_one_cases [OF _ counts_okD]) simp_all

interpretation conns: web_invariant "\<lambda>s tr. counts_ok s \<and> nconn s \<le> m" "\<lambda>e. True" m for m
proof (unfold_locales, goal_cases)
  case (1 s tr e i s' out)
  then show ?case using start_connect_ok(1) start_connect_counts by fastforce
next
  case (2 s tr e i s' out)
  then show ?case using web_one_ok(1) web_one_conns by fastforce
qed simp

lemma start_more_full: "start_more e m s = (Inr s', out) \<Longrightarrow> m \<le> nconn s' \<or> nlefttoconn s' \<le> 0"
  by (induction rule: start_more_chain) auto

lemma start_more_others:
  assumes "start_more e m s = (Inr s', out)"
  shows "i < length (files s) \<Longrightarrow> \<not> is_new (files s ! i) \<Longrightarrow> files s' ! i = files s ! i \<and> length (files s') = length (files s)"
  using assms
proof (induction rule: start_more_chain)
  case (step s j s1 o1 s' o2)
  then have "i \<noteq> j" by auto
  have "files s1 ! i = files s ! i \<and> length (files s1) = length (files s)"
    by (rule start_connect_cases [OF step(4,2)]) (use \<open>i \<noteq> j\<close> in simp_all)
  with step show ?case by simp
qed simp

lemma left_split: "counts_ok s \<Longrightarrow> nlefttoread s = nconn s + nlefttoconn s"
proof -
  assume c: "counts_ok s"
  have "ix is_left s = ix is_open s \<union> ix is_new s" "ix is_open s \<inter> ix is_new s = {}"
    using counts_okD [OF c] by (fastforce simp: ix_def flag_ok_def)+
  with c show ?thesis by (simp add: counts_ok_def card_Un_disjoint)
qed

text \<open>C29. The client's counts and descriptor sets are those of its files, after any rounds in which the system hands out
  unused descriptors: at each \<^verbatim>\<open>select\<close> as many connections are open as were asked for, or as
  many as pages are left; the sets watched are exactly their sockets, with no socket twice; and those watched for
  writing are exactly the ones still connecting.\<close>

theorem web_connections_in_step:
  assumes "list_all fresh es" and "web_loop es m (web_start host names) = (Inr s, out)" and "0 \<le> m"
    and "fresh e" and "start_more e m s = (Inr s', out')"
  shows "nconn s' = min m (nlefttoread s') \<and> int (card (rset s')) = nconn s' \<and>
    rset s' = f_fd ` set (filter is_open (files s')) \<and>
    wset s' = f_fd ` {f \<in> set (files s'). f_flags f = F_CONNECTING} \<and>
    list_all (\<lambda>f. is_open f \<longrightarrow> 0 \<le> f_fd f \<and> f_fd f < maxfd s' + 1) (files s')"
proof (intro conjI)
  have s: "counts_ok s \<and> fds_ok s" using sets.loop [OF assms(2) _ assms(1)] web_start_ok by simp
  have s': "counts_ok s'" "fds_ok s'" using sets.more [OF assms(5,4) s] by simp_all
  have "nconn (web_start host names) \<le> m" using assms(3) by (simp add: web_start_def Let_def)
  then have "nconn s \<le> m" using conns.loop [OF assms(2)] web_start_ok by (simp add: list_all_iff)
  then have le: "nconn s' \<le> m" using conns.more [OF assms(5)] s by simp
  have "0 \<le> nlefttoconn s'" using s'(1) by (simp add: counts_ok_def)
  with start_more_full [OF assms(5)] le left_split [OF s'(1)] show "nconn s' = min m (nlefttoread s')" by auto
  show "int (card (rset s')) = nconn s'" using s' by (simp add: counts_ok_def fds_ok_def card_image)
  show "rset s' = f_fd ` set (filter is_open (files s'))" using s'(2) in_use_ix [of s'] by (simp add: fds_ok_def in_use_def)
  show "wset s' = f_fd ` {f \<in> set (files s'). f_flags f = F_CONNECTING}"
    using s'(2) by (force simp: fds_ok_def ix_def fd_at_def in_set_conv_nth)
  show "list_all (\<lambda>f. is_open f \<longrightarrow> 0 \<le> f_fd f \<and> f_fd f < maxfd s' + 1) (files s')"
    using s'(2) by (force simp: fds_ok_def list_all_iff in_set_conv_nth ix_def fd_at_def)
qed

text \<open>C30. When the client has ended, every page has been asked for exactly once, on a connection of its own, has been
  read to its end and closed, whatever the order in which the connections made progress.\<close>

theorem web_fetches_each_page_once:
  assumes "web_loop es m (web_start host names) = (Inr s, out)" and "nlefttoread s \<le> 0"
    and "i < length names" and "i < MAXFILES"
  shows "\<exists>d w line bs. filter (\<lambda>x. about x = i) out = Started i d # w @ Wrote i line # map (Received i) bs @ [Closed i d] \<and>
    (w = [] \<or> w = [ConnFailed i]) \<and> line_sent (get_cmd (names ! i)) = Some line \<and> [] \<notin> set bs"
proof -
  have st: "lives (web_start host names) []" by (auto simp: lives_def web_start_def Let_def fetched.new)
  have s: "counts_ok s" "lives s out" "map f_name (files s) = take MAXFILES names"
    using traces.loop [OF assms(1), of "[]" "take MAXFILES names"] web_start_ok(1) st
    by (simp_all add: list_all_iff web_start_def Let_def comp_def min_def)
  then have len: "i < length (files s)" using assms(3,4) by (metis length_map length_take min_less_iff_conj)
  have name: "f_name (files s ! i) = names ! i" using s(3) len assms(4) by (metis nth_map nth_take)
  have "card (ix is_left s) = 0" using s(1) assms(2) by (simp add: counts_ok_def)
  then have "i \<notin> ix is_left s" by auto
  then have "f_flags (files s ! i) = F_DONE" using len by (simp add: mem_ix)
  then have "fetched (names ! i) i (fd_at s i) F_DONE (own i out)" using s(2) len name by (auto simp: lives_def)
  then obtain tr where tr: "own i out = tr @ [Closed i (fd_at s i)]" "fetched (names ! i) i (fd_at s i) F_READING tr"
    by (rule fetched_done) simp_all
  from fetched_reading [OF tr(2) refl] obtain w line bs where
    "tr = Started i (fd_at s i) # w @ Wrote i line # map (Received i) bs" "w = [] \<or> w = [ConnFailed i]"
    "line_sent (get_cmd (names ! i)) = Some line" "[] \<notin> set bs" by blast
  with tr(1) show ?thesis
    by (intro exI [of _ "fd_at s i"] exI [of _ w] exI [of _ line] exI [of _ bs]) (simp add: own_def)
qed


section \<open>Progress\<close>

text \<open>What \<^verbatim>\<open>select\<close> promises: what it reports was asked for, and it does not return with nothing.\<close>

definition select_ok :: "web_env \<Rightarrow> web_state \<Rightarrow> bool" where
  "select_ok e s \<longleftrightarrow> rs e \<subseteq> rset s \<and> ws e \<subseteq> wset s \<and> rs e \<union> ws e \<noteq> {}"

fun rounds_ok :: "web_env list \<Rightarrow> int \<Rightarrow> web_state \<Rightarrow> bool" where
  "rounds_ok [] m s = True"
| "rounds_ok (e # es) m s =
     (nlefttoread s \<le> 0 \<or>
      (case start_more e m s of
         (Inl x, out) \<Rightarrow> True
       | (Inr s1, out) \<Rightarrow> select_ok e s1 \<and>
           (case scan_files e [0..<length (files s1)] s1 of
              (Inl x, out) \<Rightarrow> True
            | (Inr s2, out) \<Rightarrow> rounds_ok es m s2)))"

fun is_step :: "web_out \<Rightarrow> bool" where
  "is_step (Wrote i l) = True"
| "is_step (Closed i d) = True"
| "is_step x = False"

fun is_data :: "web_out \<Rightarrow> bool" where
  "is_data (Received i b) = True"
| "is_data x = False"

definition ready :: "web_env \<Rightarrow> web_file \<Rightarrow> bool" where
  "ready e f \<longleftrightarrow> f_flags f = F_CONNECTING \<and> f_fd f \<in> rs e \<union> ws e \<or> f_flags f = F_READING \<and> f_fd f \<in> rs e"

lemma select_ready:
  assumes "select_ok e s" "counts_ok s" "fds_ok s"
  shows "\<exists>i < length (files s). ready e (files s ! i)"
proof -
  obtain d where d: "d \<in> rs e \<and> d \<in> rset s \<or> d \<in> ws e \<and> d \<in> wset s" using assms(1) by (auto simp: select_ok_def)
  then obtain i where i: "d = f_fd (files s ! i)" "i < length (files s)"
    "d \<in> rs e \<and> is_open (files s ! i) \<or> d \<in> ws e \<and> is_connecting (files s ! i)"
    using assms(3) by (auto simp: fds_ok_def ix_def fd_at_def)
  with is_open_flags [OF counts_okD [OF assms(2) i(2)]] show ?thesis by (auto simp: ready_def)
qed

lemma web_one_ready: "web_one e i s = (Inr s', out) \<Longrightarrow> i < length (files s) \<Longrightarrow> counts_ok s \<Longrightarrow> ready e (files s ! i) \<Longrightarrow>
  1 \<le> length (filter is_step out) + length (filter is_data out)"
  by (erule web_one_cases [OF _ counts_okD]) (auto simp: ready_def)

lemma web_one_others: "web_one e i s = (Inr s', out) \<Longrightarrow> i < length (files s) \<Longrightarrow> counts_ok s \<Longrightarrow> j \<noteq> i \<Longrightarrow>
  files s' ! j = files s ! j \<and> length (files s') = length (files s)"
  by (erule web_one_cases [OF _ counts_okD]) simp_all

lemma scan_ready:
  "scan_files e is s = (Inr s', out) \<Longrightarrow> \<forall>j \<in> set is. j < length (files s) \<Longrightarrow> counts_ok s \<Longrightarrow> i \<in> set is \<Longrightarrow>
   ready e (files s ! i) \<Longrightarrow> 1 \<le> length (filter is_step out) + length (filter is_data out)"
proof (induction "is" arbitrary: s out)
  case (Cons j "is")
  obtain s1 o1 o2 where s: "web_one e j s = (Inr s1, o1)" "scan_files e is s1 = (Inr s', o2)" "out = o1 @ o2"
    using Cons.prems(1) by (auto simp: and_then_Inr)
  show ?case
  proof (cases "i = j")
    case True
    with web_one_ready [OF s(1)] Cons.prems s(3) show ?thesis by simp
  next
    case False
    have j: "j < length (files s)" using Cons.prems(2) by simp
    note same = web_one_others [OF s(1) j Cons.prems(3) False]
    have "1 \<le> length (filter is_step o2) + length (filter is_data o2)"
      by (rule Cons.IH [OF s(2) _ web_one_ok(1) [OF s(1) j Cons.prems(3)]]) (use Cons.prems same False in auto)
    then show ?thesis by (simp add: s(3))
  qed
qed simp

text \<open>The steps that are left: two for a file before its line is written, one before its end.\<close>

abbreviation is_waiting :: "web_file \<Rightarrow> bool" where
  "is_waiting f \<equiv> f_flags f = 0 \<or> f_flags f = F_CONNECTING"

definition budget :: "nat \<Rightarrow> web_state \<Rightarrow> web_out list \<Rightarrow> bool" where
  "budget n s tr \<longleftrightarrow> length (filter is_step tr) + card (ix is_waiting s) + card (ix is_left s) = n"

lemma start_connect_budget:
  assumes "start_connect e i s = (Inr s', out)" "i < length (files s)" "is_new (files s ! i)" "budget n s tr"
  shows "budget n (s'\<lparr>nconn := a, nlefttoconn := b\<rparr>) (tr @ out)"
proof -
  let ?s = "s'\<lparr>nconn := a, nlefttoconn := b\<rparr>"
  have i: "i \<in> ix is_waiting s" "i \<in> ix is_left s" using assms(2,3) by (auto simp: mem_ix)
  note r = card_Suc_Diff1 [OF finite_ix i(1)]
  show ?thesis
  proof (rule start_connect_cases [OF assms(1,2)])
    fix d
    assume "out = [Started i d]" and s': "s' = s\<lparr>files := (files s)[i := (files s ! i)\<lparr>f_fd := d, f_flags := F_CONNECTING\<rparr>],
        rset := insert d (rset s), wset := insert d (wset s), maxfd := max (maxfd s) d\<rparr>"
    moreover have "files ?s = (files s)[i := (files s ! i)\<lparr>f_fd := d, f_flags := F_CONNECTING\<rparr>]" by (simp add: s')
    note ix_update [OF assms(2) this]
    ultimately show ?thesis using assms(4) i by (simp add: budget_def insert_absorb)
  next
    fix d line
    assume "out = [Started i d, Wrote i line]" and s': "s' = s\<lparr>files := (files s)[i := (files s ! i)\<lparr>f_fd := d, f_flags := F_READING\<rparr>],
        rset := insert d (rset s), maxfd := max (maxfd s) d\<rparr>"
    moreover have "files ?s = (files s)[i := (files s ! i)\<lparr>f_fd := d, f_flags := F_READING\<rparr>]" by (simp add: s')
    note ix_update [OF assms(2) this]
    ultimately show ?thesis using assms(4) i r by (simp add: budget_def insert_absorb)
  qed
qed


lemma web_one_budget:
  assumes "web_one e i s = (Inr s', out)" "i < length (files s)" "counts_ok s" "budget n s tr"
  shows "budget n s' (tr @ out)"
proof (rule web_one_cases [OF assms(1) counts_okD [OF assms(3,2)]])
  let ?f = "files s ! i"
  fix line w
  assume c: "is_connecting ?f" "w = [] \<or> w = [ConnFailed i]" "out = w @ [Wrote i line]"
    and s': "s' = s\<lparr>wset := wset s - {f_fd ?f}, files := (files s)[i := ?f\<lparr>f_flags := F_READING\<rparr>],
      rset := insert (f_fd ?f) (rset s), maxfd := max (maxfd s) (f_fd ?f)\<rparr>"
  have i: "i \<in> ix is_waiting s" "i \<in> ix is_left s" using assms(2) c(1) by (auto simp: mem_ix)
  note r = card_Suc_Diff1 [OF finite_ix i(1)]
  have "files s' = (files s)[i := ?f\<lparr>f_flags := F_READING\<rparr>]" by (simp add: s')
  note ix_update [OF assms(2) this]
  with assms(4) i r c(2,3) show ?thesis by (auto simp: budget_def insert_absorb)
next
  fix b
  assume "s' = s" "out = [Received i b]"
  with assms(4) show ?thesis by (simp add: budget_def)
next
  let ?f = "files s ! i"
  assume c: "f_flags ?f = F_READING" "out = [Closed i (f_fd ?f)]" and s': "s' = s\<lparr>rset := rset s - {f_fd ?f},
      nconn := nconn s - 1, nlefttoread := nlefttoread s - 1, files := (files s)[i := ?f\<lparr>f_flags := F_DONE\<rparr>]\<rparr>"
  have i: "i \<notin> ix is_waiting s" "i \<in> ix is_left s" using assms(2) c(1) by (auto simp: mem_ix)
  note r = card_Suc_Diff1 [OF finite_ix i(2)]
  have "files s' = (files s)[i := ?f\<lparr>f_flags := F_DONE\<rparr>]" by (simp add: s')
  note ix_update [OF assms(2) this]
  with assms(4) i r c(2) show ?thesis by (simp add: budget_def)
qed (use assms(4) in \<open>simp_all add: budget_def\<close>)

interpretation steps: web_invariant "\<lambda>s tr. counts_ok s \<and> budget n s tr" "\<lambda>e. True" m for n m
proof (unfold_locales, goal_cases)
  case (1 s tr e i s' out)
  then show ?case using start_connect_ok(1) start_connect_budget by simp
next
  case (2 s tr e i s' out)
  then show ?case using web_one_ok(1) web_one_budget by blast
qed simp

lemma rounds_progress:
  "web_loop es m s = (Inr s', out) \<Longrightarrow> rounds_ok es m s \<Longrightarrow> list_all fresh es \<Longrightarrow> counts_ok s \<and> fds_ok s \<Longrightarrow>
   0 < nlefttoread s' \<Longrightarrow> length es \<le> length (filter is_step out) + length (filter is_data out)"
proof (induction es arbitrary: s out)
  case (Cons e es)
  show ?case
  proof (cases "nlefttoread s \<le> 0")
    case False
    then obtain s1 s2 o1 o2 o3 where s: "start_more e m s = (Inr s1, o1)" "scan_files e [0..<length (files s1)] s1 = (Inr s2, o2)"
      "web_loop es m s2 = (Inr s', o3)" "out = o1 @ o2 @ o3"
      using Cons.prems(1) by (auto simp: and_then_Inr web_iter_def)
    have s1: "counts_ok s1 \<and> fds_ok s1" using sets.more [OF s(1) _ Cons.prems(4)] Cons.prems(3) by simp
    have "select_ok e s1" using Cons.prems(2) False s(1) by simp
    with select_ready s1 obtain i where "i < length (files s1)" "ready e (files s1 ! i)" by blast
    then have one: "1 \<le> length (filter is_step o2) + length (filter is_data o2)"
      using scan_ready [OF s(2)] s1 by simp
    have "counts_ok s2 \<and> fds_ok s2" using sets.scan [OF s(2) s1] Cons.prems(3) by simp
    with Cons.IH [OF s(3)] Cons.prems False s(1,2) one show ?thesis by (simp add: s(4))
  qed (use Cons.prems in simp)
qed simp

text \<open>C31. The client comes to its end: as long as pages are left, every return of \<^verbatim>\<open>select\<close> either
  writes a request, delivers a piece of a page or ends a page, so that the rounds are fewer than two for each page and
  one for each piece.\<close>

theorem web_rounds_bounded:
  assumes "list_all fresh es" and "rounds_ok es m (web_start host names)"
    and "web_loop es m (web_start host names) = (Inr s, out)" and "0 < nlefttoread s"
  shows "length es < 2 * min (length names) MAXFILES + length (filter is_data out)"
proof -
  have "{j. j < a \<and> j < b} = {..<min a b}" for a b :: nat by auto
  then have "budget (2 * min (length names) MAXFILES) (web_start host names) []" by (simp add: budget_def)
  then have "counts_ok s \<and> budget (2 * min (length names) MAXFILES) s out"
    using steps.loop [OF assms(3), of _ "[]"] web_start_ok(1) by (simp add: list_all_iff)
  moreover have "0 < card (ix is_left s)" if "counts_ok s" using that assms(4) by (simp add: counts_ok_def)
  ultimately have "length (filter is_step out) < 2 * min (length names) MAXFILES" by (auto simp: budget_def)
  with rounds_progress [OF assms(3,2,1) _ assms(4)] web_start_ok show ?thesis by simp
qed

section \<open>A refused connection\<close>

lemma and_then_Inl: "fst (and_then r f) = Inl x \<longleftrightarrow> fst r = Inl x \<or> (\<exists>s o1. r = (Inr s, o1) \<and> fst (f s) = Inl x)"
  by (auto simp: and_then_def split: sum.splits prod.splits)

lemma web_loop_snoc:
  "web_loop es m s = (Inr s', out) \<Longrightarrow> 0 < nlefttoread s' \<Longrightarrow> fst (web_iter e m s') = Inl x \<Longrightarrow>
   fst (web_loop (es @ [e]) m s) = Inl x"
  by (induction es arbitrary: s out) (fastforce simp: and_then_Inr and_then_Inl split: if_splits)+

lemma scan_stuck:
  assumes "i \<in> set is" "\<forall>j \<in> set is. j < length (files s)" "counts_ok s" "ready e (files s ! i)"
    "is_connecting (files s ! i)" "\<not> sendable e (f_fd (files s ! i))"
  shows "\<exists>x. fst (scan_files e is s) = Inl x"
  using assms
proof (induction "is" arbitrary: s)
  case (Cons j "is")
  show ?case
  proof (cases "web_one e j s")
    case (Pair r o1)
    show ?thesis
    proof (cases r)
      case (Inr s1)
      note one = Pair [unfolded Inr]
      have j: "j < length (files s)" using Cons.prems(2) by simp
      have "i \<noteq> j"
        using one Cons.prems(4-6)
        by (auto simp: web_one_def Let_def and_then_Inr write_get_cmd_def ready_def split: option.splits if_splits)
      with web_one_others [OF one j Cons.prems(3), of i] Cons.prems
      have "\<exists>x. fst (scan_files e is s1) = Inl x"
        by (intro Cons.IH) (auto intro: web_one_ok(1) [OF one j])
      with one show ?thesis by (simp add: and_then_Inl)
    qed (use Pair in \<open>simp add: and_then_Inl\<close>)
  qed
qed simp


text \<open>One refused connection ends the client for all pages: a connection whose socket becomes ready because it
  failed is reported and then written to all the same, and the write fails.\<close>

theorem web_refused_connection_ends:
  assumes "web_loop es m (web_start host names) = (Inr s, out)"
    and "i < length (files s)" and "f_flags (files s ! i) = F_CONNECTING"
    and "f_fd (files s ! i) \<in> rs e \<union> ws e" and "\<not> sendable e (f_fd (files s ! i))"
  shows "\<exists>x. fst (web_loop (es @ [e]) m (web_start host names)) = Inl x"
proof -
  have s: "counts_ok s" using counts.loop [OF assms(1)] web_start_ok(1) by (simp add: list_all_iff)
  have "0 < card (ix is_left s)" using assms(2,3) by (auto simp: card_gt_0_iff ix_def)
  then have left: "0 < nlefttoread s" using s by (simp add: counts_ok_def)
  have "\<exists>x. fst (web_iter e m s) = Inl x"
  proof (cases "start_more e m s")
    case (Pair r o1)
    show ?thesis
    proof (cases r)
      case (Inr s1)
      note more = Pair [unfolded Inr]
      have same: "files s1 ! i = files s ! i" "length (files s1) = length (files s)"
        using start_more_others [OF more assms(2)] assms(3) by simp_all
      have s1: "counts_ok s1" using counts.more [OF more _ s] by simp
      have "\<exists>x. fst (scan_files e [0..<length (files s1)] s1) = Inl x"
        by (rule scan_stuck [OF _ _ s1, of i]) (use assms same in \<open>simp_all add: ready_def\<close>)
      with more show ?thesis by (simp add: web_iter_def and_then_Inl)
    qed (use Pair in \<open>simp add: web_iter_def and_then_Inl\<close>)
  qed
  with web_loop_snoc [OF assms(1) left] show ?thesis by blast
qed

text \<open>The exit for a count of files left with no file behind it is never taken.\<close>

lemma start_more_finds: "counts_ok s \<Longrightarrow> fst (start_more e m s) \<noteq> Inl (Exit ''nothing found'')"
proof (induction e m s rule: start_more.induct)
  case (1 e m s)
  show ?case
  proof (cases "nconn s < m \<and> 0 < nlefttoconn s")
    case True
    then have "ix is_new s \<noteq> {}" using 1(2) by (auto simp: counts_ok_def)
    then have "filter is_new (files s) \<noteq> []" by (auto simp: ix_def filter_empty_conv dest: nth_mem)
    then obtain i where i: "first_slot is_new (files s) = Some i" using first_slot_None by (metis option.exhaust)
    note slot = first_slot_Some [OF i]
    show ?thesis
    proof (cases "start_connect e i s")
      case (Pair r o1)
      show ?thesis
      proof (cases r)
        case (Inl x)
        then have "x \<noteq> Exit ''nothing found''"
          using Pair by (auto simp: start_connect_def and_then_def write_get_cmd_def Let_def
            split: option.splits conn_result.splits prod.splits if_splits)
        with True i Pair Inl show ?thesis by (simp add: start_more.simps [of e m s])
      next
        case (Inr s1)
        have "counts_ok (counted s1)" using start_connect_ok(1) [OF Pair [unfolded Inr]] slot 1(2) by simp
        from 1(1) [OF True i Pair [symmetric] Inr this] True i Pair Inr show ?thesis
          by (cases "start_more e m (counted s1)") (simp add: start_more.simps [of e m s])
      qed
    qed
  next
    case False
    then show ?thesis by (auto simp: start_more.simps [of e m s])
  qed
qed


section \<open>A run\<close>

text \<open>The system hands out the lowest unused descriptor of three; two connections at once are allowed for three
  pages.\<close>

definition lowest :: "int set \<Rightarrow> int option" where
  "lowest S = (if 3 \<notin> S then Some 3 else if 4 \<notin> S then Some 4 else if 5 \<notin> S then Some 5 else None)"

definition round :: "int set \<Rightarrow> int set \<Rightarrow> string \<Rightarrow> web_env" where
  "round r w b = \<lparr>newfd = lowest, conn = (\<lambda>d. if d = 4 then ConnDone else ConnInProgress), rs = r, ws = w,
     sockerr = (\<lambda>d. False), got = (\<lambda>d. Some b), sendable = (\<lambda>d. True)\<rparr>"

lemma fresh_round [simp]: "fresh (round r w b)"
  by (auto simp: fresh_def round_def lowest_def split: if_splits)

definition demo :: "web_env list" where
  "demo = [round {} {3} [], round {3} {} ''x'', round {3, 4} {} [], round {} {3} []]"

lemma fresh_demo: "list_all fresh demo"
  by (simp add: demo_def)

definition demo_start :: web_state where
  "demo_start = web_start ''h'' [''/a'', ''/b'', ''/c'']"

definition state_of :: "web_result \<Rightarrow> web_state" where
  "state_of r = (case fst r of Inr s \<Rightarrow> s | Inl x \<Rightarrow> demo_start)"

lemmas start_at = demo_start_def [symmetric]

lemma web_connections_in_step_witness:
  "(let s = state_of (start_more (round {} {} []) 2 (state_of (web_loop (take 3 demo) 2 demo_start))) in
    nconn s = min 2 (nlefttoread s) \<and> int (card (rset s)) = nconn s \<and> nlefttoread s = 1 \<and> wset s = {3})"
proof -
  let ?r = "web_loop (take 3 demo) 2 demo_start" and ?e = "round {} {} []"
  let ?q = "start_more ?e 2 (state_of ?r)"
  have r: "?r = (Inr (state_of ?r), snd ?r)" and q: "?q = (Inr (state_of ?q), snd ?q)"
    and v: "nlefttoread (state_of ?q) = 1" "wset (state_of ?q) = {3}" by code_simp+
  have "list_all fresh (take 3 demo)" by (simp add: demo_def)
  from web_connections_in_step [OF this r [unfolded demo_start_def] zero_le_numeral fresh_round
      q [unfolded demo_start_def], folded demo_start_def] v
  show ?thesis unfolding Let_def by blast
qed

lemma web_fetches_each_page_once_witness:
  "(let out = snd (web_loop (demo @ [round {3} {} []]) 2 demo_start) in
    \<exists>d w line bs. filter (\<lambda>x. about x = 0) out = Started 0 d # w @ Wrote 0 line # map (Received 0) bs @ [Closed 0 d] \<and>
      line = get_cmd ''/a'')"
proof -
  let ?r = "web_loop (demo @ [round {3} {} []]) 2 demo_start"
  have r: "?r = (Inr (state_of ?r), snd ?r)" and v: "nlefttoread (state_of ?r) \<le> 0" by code_simp+
  have l: "line_sent (get_cmd ''/a'') = Some (get_cmd ''/a'')" by code_simp
  from web_fetches_each_page_once [OF r [unfolded demo_start_def], of 0] v l
  show ?thesis by (auto simp: Let_def start_at MAXFILES_def)
qed

lemma web_rounds_bounded_witness: "length demo < 2 * min 3 MAXFILES + 1 \<and> length demo = 4"
proof -
  let ?r = "web_loop demo 2 demo_start"
  have r: "?r = (Inr (state_of ?r), snd ?r)" and v: "rounds_ok demo 2 demo_start" "0 < nlefttoread (state_of ?r)"
    "length (filter is_data (snd ?r)) = 1" by code_simp+
  from web_rounds_bounded [OF fresh_demo v(1) [unfolded demo_start_def] r [unfolded demo_start_def]] v(2,3)
  show ?thesis by (simp add: start_at demo_def)
qed

lemma web_refused_connection_ends_witness:
  "\<exists>x. fst (web_loop ([round {4} {} ''x''] @ [round {3} {3} []\<lparr>sockerr := \<lambda>d. True, sendable := \<lambda>d. False\<rparr>]) 2 demo_start) = Inl x"
proof -
  let ?r = "web_loop [round {4} {} ''x''] 2 demo_start"
  have r: "?r = (Inr (state_of ?r), snd ?r)" and v: "0 < length (files (state_of ?r))"
    "f_flags (files (state_of ?r) ! 0) = F_CONNECTING" "f_fd (files (state_of ?r) ! 0) = 3" by code_simp+
  from web_refused_connection_ends [OF r [unfolded demo_start_def], of 0
      "round {3} {3} []\<lparr>sockerr := \<lambda>d. True, sendable := \<lambda>d. False\<rparr>"] v
  show ?thesis by (simp add: start_at round_def)
qed

end
