(* ===== verification/Spec2Isabelle.thy ===== *)
theory Spec2Isabelle
  imports Router_Props Tftp_Props Chat_Props Chat_Text Fib_Props Board_Props V1_Props Sendpkt Unp_Read_Props Unp_Ip6_Props Unp_Nonb_Props Unp_Echo_Props Unp_Reliable_Props Unp_Trace_Props Unp_Icmpd_Props Unp_Ping_Props Unp_Setup Unp_Gai_Props Unp_Gni_Props Unp_Pool_Props Unp_Threads_Props Unp_Sigio_Props Unp_Udpcksum_Props Unp_Sntp Unp_Web_Props
begin

text \<open>
  \<^bold>\<open>The network programs of CSCI-4220: a verification library.\<close>

  The repository holds the programs of a course on network programming, all in C: a router simulation
  (\<^verbatim>\<open>src/hw3\<close>), a TFTP server (\<^verbatim>\<open>src/hw1\<close>), a chatroom server
  (\<^verbatim>\<open>src/hw2\<close>), a message board (\<^verbatim>\<open>src/lab3\<close>), a threaded
  Fibonacci service (\<^verbatim>\<open>src/lab4\<close>), and the library and examples of the course's book,
  \<^verbatim>\<open>src/unpv13e-master\<close>, which the labs are built with.  The programs do not call each
  other; what they share is the socket interface, C strings, fixed-width integers and byte order, which is
  what \<open>Prelude\<close> and \<open>Scan\<close> hold.

  \<^bold>\<open>How the code is modelled.\<close>  A function of the code is a function of the same name.  The
  state it changes is a record it takes and returns; the system calls it makes are a record of what the
  environment answers (an \<open>env\<close>, or a script of results for a loop that calls again) and a list of
  what went out.  A call of \<^verbatim>\<open>exit\<close> or \<^verbatim>\<open>die\<close> is an \<open>Inl\<close> with its message.  What C
  leaves undefined (an access outside an array, a freed block, an indeterminate value) is \<open>None\<close> or an
  error value of the component and never a made-up result.  Integers of 8 to 64 bits that may wrap are words;
  counts that cannot are \<open>nat\<close> or \<open>int\<close>.  Memory is little-endian, as on the host the binaries of the
  repository were built for.

  \<^bold>\<open>The shared theories.\<close>
  \<^item> \<open>Prelude\<close>: words and \<^verbatim>\<open>htons\<close> and its kin, receive buffers, C strings, decimal output,
    the collections \<open>wire\<close>, \<open>buffer\<close> and \<open>cstr\<close> of rewriting lemmas, and the locale \<open>text_codec\<close>, the
    contract of a printer and the parser that undoes it, interpreted for decimal numbers, for the router's
    addresses, and for the IPv4 and IPv6 texts of the library.
  \<^item> \<open>Scan\<close>: the directives of \<^verbatim>\<open>sscanf\<close> the programs use, and \<^verbatim>\<open>inet_aton\<close> of
    the C library.

  \<^bold>\<open>The router\<close>, \<^verbatim>\<open>src/hw3/starter/router.c\<close> and
  \<^verbatim>\<open>common.h\<close>.
  \<^item> \<open>Router_Table\<close>: the constants and structs, \<^verbatim>\<open>rt_find_or_add\<close>, \<^verbatim>\<open>rt_lookup\<close>,
    \<^verbatim>\<open>log_table\<close>.  The locale \<open>keyed_table\<close> is the contract of the table, a bounded map from
    network and mask to entries; the update loop rests on it.
  \<^item> \<open>Router_DV\<close>: the bytes of a distance vector, \<^verbatim>\<open>send_dv\<close> and \<^verbatim>\<open>dv_update\<close>,
    refined against a Bellman-Ford step on a map.
  \<^item> \<open>Router_Forward\<close>: data packets and \<^verbatim>\<open>forward_data\<close> with each log line.
  \<^item> \<open>Router_Conf\<close>: \<^verbatim>\<open>parse_conf\<close> over the text of a file.
  \<^item> \<open>Router_Loop\<close>: one iteration of \<^verbatim>\<open>main\<close>, the states it reaches and their invariants;
    \<open>Router_Net\<close>: any number of routers that exchange datagrams, delayed, repeated or lost, as an inductive
    step relation.
  \<^item> \<open>Router_V1\<close>: what differs in the earlier \<^verbatim>\<open>starter/starter/router.c\<close>; \<open>Sendpkt\<close>: the
    packet injector, composed with the router that receives from it.
  \<^item> \<open>Router_Props\<close>, \<open>V1_Props\<close>: longest-prefix match, split horizon, no invented distances in the network,
    poisoned routes behind a dead neighbour, hops bounded by the TTL, one log line per packet.

  \<^bold>\<open>The TFTP server\<close>, \<^verbatim>\<open>src/hw1/tftp_server.c\<close>.  \<open>Tftp\<close> holds packets, the two transfers as
  recursion over the results of \<^verbatim>\<open>recvfrom\<close> (a script is finite: a run that is still
  waiting at its end has the result of a transfer that has not ended) and the listener.  \<open>Tftp_Props\<close>: an upload is
  stored exactly, a completed one is what arrived, a download is the file in order, ten alarms in a row end a
  transfer, no file is overwritten.

  \<^bold>\<open>The chatroom\<close>, \<^verbatim>\<open>src/hw2/chatroom_server.c\<close> and
  \<^verbatim>\<open>test_client.c\<close>.  \<open>Chat_Queue\<close> is the linked job queue on a heap, refined against a
  list; its locale \<open>fifo\<close> is what the threads use.  \<open>Chat_Frame\<close> cuts a client's bytes into lines.
  \<open>Chat_Server\<close> has the clients, the worker threads as phases between lock acquisitions, the select loop, set-up,
  clean-up and signals, as a step relation whose interleavings are all schedules.  \<open>Chat_Props\<close> and \<open>Chat_Text\<close>: the
  queue is first-in first-out, the state stays well formed, names are unique with one worker, framing does not
  depend on segmentation, messages reach the others.

  \<^bold>\<open>The labs.\<close>  \<open>Fib_Server\<close> (\<^verbatim>\<open>lab4\<close>): the split of the range over the threads, the
  workers' arrays, the answer.  \<open>Board_Server\<close> (\<^verbatim>\<open>lab3\<close>): the rounds of the select loop and the
  ring of posts.  Their properties are in \<open>Fib_Props\<close> and \<open>Board_Props\<close>.

  \<^bold>\<open>The book's library and servers\<close>, \<^verbatim>\<open>src/unpv13e-master\<close>.
  \<^item> \<open>Unp_Read\<close>: \<^verbatim>\<open>lib/readline.c\<close>, \<^verbatim>\<open>readn.c\<close>, \<^verbatim>\<open>writen.c\<close>,
    \<^verbatim>\<open>error.c\<close> and the readers of \<^verbatim>\<open>server/\<close>.
  \<^item> \<open>Unp_Addr\<close>: \<^verbatim>\<open>inet_aton\<close>, \<^verbatim>\<open>inet_pton\<close>, \<^verbatim>\<open>inet_ntop\<close>,
    \<^verbatim>\<open>in_cksum\<close> of \<^verbatim>\<open>libfree\<close>, \<^verbatim>\<open>sock_ntop\<close> and \<^verbatim>\<open>sock_cmp_addr\<close> of
    \<^verbatim>\<open>lib\<close>.  The library's \<^verbatim>\<open>inet_ntop.c\<close> and \<^verbatim>\<open>inet_pton.c\<close> are kept for
    systems that lack the functions; elsewhere a conditional leaves them out of the build.
  \<^item> \<open>Unp_Nonb\<close>: \<^verbatim>\<open>nonblock/strclinonb.c\<close>, two buffers between a terminal and a
    socket, none of whose calls blocks.
  \<^item> \<open>Unp_Slots\<close>: what the servers that keep an array of descriptors share: the walk that stops when as many
    ready ones were seen as were reported, and the invariant of the array, the watched set and the maxima; its locale
    \<open>slot_walk\<close> is the contract of what is done at a ready slot, interpreted for the ICMP daemon.  \<open>Unp_Echo\<close>:
    \<^verbatim>\<open>tcpservselect01.c\<close>, \<^verbatim>\<open>tcpservpoll01.c\<close> and the preforking parent
    \<^verbatim>\<open>server/serv05.c\<close>, for which a byte on a child's pipe is a byte, whoever wrote it.
  \<^item> \<open>Unp_Web\<close>: the parallel web client \<^verbatim>\<open>nonblock/web.c\<close>, whose locale \<open>web_invariant\<close> lifts
    what each step keeps to a run.  \<open>Unp_Threads\<close>: its version with threads, \<^verbatim>\<open>threads/web03.c\<close>,
    as a step relation over all schedules, with the mutex, the condition and the joins.
  \<^item> \<open>Unp_Pool\<close>: the ring between the main thread and the pool of \<^verbatim>\<open>server/serv08.c\<close> and
    \<^verbatim>\<open>pthread08.c\<close>, over all schedules, and the requests of \<^verbatim>\<open>web_child.c\<close>.
    \<open>Unp_Sigio\<close>: \<^verbatim>\<open>sigio/dgecho01.c\<close>, whose signal handler may interrupt the main loop
    wherever the signal is not blocked.
  \<^item> \<open>Unp_Float\<close>: the rounding of \<^verbatim>\<open>float\<close> and \<^verbatim>\<open>double\<close>; \<open>Unp_Rtt\<close>: the estimator
    \<^verbatim>\<open>lib/rtt.c\<close> over it; \<open>Unp_Reliable\<close>: \<^verbatim>\<open>rtt/dg_send_recv.c\<close> with its
    retransmissions, the client loop and the echo server.
  \<^item> \<open>Unp_Icmp\<close>: the fields of raw packets; over it \<open>Unp_Ping\<close> (\<^verbatim>\<open>ping\<close>; the locale \<open>ping_family\<close> is
    what the loop needs of an address family, interpreted for both), \<open>Unp_Trace\<close> (\<^verbatim>\<open>traceroute\<close>) and
    \<open>Unp_Icmpd\<close> (the daemon \<^verbatim>\<open>icmpd\<close>, which reports ICMP errors to the programs that registered
    their sockets).
  \<^item> \<open>Unp_Udpcksum\<close>: the query that \<^verbatim>\<open>udpcksum\<close> writes with its own headers and the checks of a
    captured packet.  \<open>Unp_Sntp\<close>: \<^verbatim>\<open>ssntp/sntp_proc.c\<close> and the heartbeats of
    \<^verbatim>\<open>oob\<close>.
  \<^item> \<open>Unp_Setup\<close>: \<^verbatim>\<open>tcp_connect.c\<close> and the functions like it.  \<open>Unp_Gai\<close>:
    \<^verbatim>\<open>libfree/getaddrinfo.c\<close> and \<^verbatim>\<open>getnameinfo.c\<close>; \<open>Unp_Gai2\<close>, \<open>Unp_Gni\<close>:
    the later versions of both, in \<^verbatim>\<open>libgai\<close>.
  \<^item> The properties are in the theories with \<open>_Props\<close> in their name and at the end of \<open>Unp_Rtt\<close>, \<open>Unp_Setup\<close> and
    \<open>Unp_Sntp\<close>: lines and buffers arrive whole whatever the pieces, every address reads back as printed, also with its
    port through \<^verbatim>\<open>getnameinfo\<close> and \<^verbatim>\<open>getaddrinfo\<close>; checksums verify; the nonblocking client is two
    first-in first-out channels; the select server answers every ready client; every page is fetched once in a bounded
    number of rounds, and the threaded client can be stuck in one way only; connections and datagrams are served in the
    order they came under every schedule; a retransmitting client prints its input over a network that loses, delays and
    repeats; its timers are those of the estimator in exact arithmetic up to rounding; \<^verbatim>\<open>ping\<close> and
    \<^verbatim>\<open>traceroute\<close> print what came back and an ICMP error reaches the program it concerns; no descriptor
    is leaked by the set-up functions.

  \<^bold>\<open>Bounds and fuel.\<close>  The loops are structural over what the environment delivers or over the data, or have a
  measure; none runs on fuel.  The bounds in statements are those of the code: 128 routes and entries of
  a distance vector, fewer than 65535 full blocks of an upload, 43 numbers in a worker's 256-byte array, 131072 bytes for
  the 32-bit sum of a checksum, 4096-byte lines, three retransmissions.  Two counters of type \<^verbatim>\<open>int\<close>
  are taken to be unbounded: \<open>post_count\<close> of the board and the counts of connections, which the code would overflow after
  2147483647 of them.

  \<^bold>\<open>What the environment is assumed to do.\<close>  Each hypothesis about it is stated in the theorem that needs it, as a
  named predicate, and each has a witness run.  A read returns no more than was asked for (\<open>env_ok\<close>); only watched
  descriptors are ready and new ones are unused (\<open>sel_env_ok\<close>, \<open>serv05_env_ok\<close>, \<open>icmpd_env_ok\<close>, \<open>fresh\<close>, \<open>select_ok\<close>).  For
  the programs that talk to others the predicates say what came: an answer to each line before the fourth alarm
  (\<open>delivers\<close>), the answers of the routers of a path (\<open>path_script\<close>), answers to requests and the packets of other
  programs (\<open>traffic_ok\<close>), a packet delivered as written (\<open>delivered\<close>).  One hypothesis is about memory the code does not
  set: \<open>inbuf_ok\<close>, that the block \<^verbatim>\<open>malloc\<close> gives for a client of the chatroom holds no newline
  and ends with a zero; \<open>stale_newline_invents_line\<close> shows what happens otherwise.

  \<^bold>\<open>Not modelled.\<close>  Output for debugging and, in the web clients, for the user; exhaustion of memory in the
  chatroom; the creation of sockets beyond success and failure; descriptors at or above \<^verbatim>\<open>FD_SETSIZE\<close>,
  for which \<^verbatim>\<open>FD_SET\<close> is undefined; \<^verbatim>\<open>src/hw2/skeleton.c\<close>, whose functions are
  empty; \<^verbatim>\<open>src/lab8\<close>, which is Python over generated code; the wrappers of the book's library, which
  call the system and exit on an error; \<^verbatim>\<open>ping/bsdping.c\<close>, which the book quotes; and its other
  example programs, most of them sequences of system calls, among the rest the option tables of
  \<^verbatim>\<open>sock\<close> and \<^verbatim>\<open>sockopt\<close> and the printers of \<^verbatim>\<open>route\<close> and
  \<^verbatim>\<open>key\<close>.
\<close>

end
